(* ===== verification/Conclave_Prelude.thy ===== *)
theory Conclave_Prelude
  imports Main "HOL-Library.Word" "HOL-Library.AList"
begin

text \<open>
  Shared vocabulary of the development: machine integers at the widths the C++ code uses, the
  outcome of a C++ call, C strings, byte buffers with \<open>memcpy\<close>, the searches of \<open>std::string\<close>,
  and \<open>std::unordered_map\<close> as an association list with distinct keys.

  The collections \<open>cpp_defs\<close> (definitions that every proof about an operation unfolds) and
  \<open>umap_simps\<close> (the laws of the hash maps) are extended by the component theories.
\<close>

named_theorems cpp_defs \<open>definitions unfolded when an operation is executed symbolically\<close>
named_theorems umap_simps \<open>lookup laws of the hash maps\<close>

section \<open>Machine integers\<close>

type_synonym u8 = "8 word"
type_synonym u16 = "16 word"
type_synonym u32 = "32 word"
type_synonym u64 = "64 word"

text \<open>Addresses are 64-bit values (\<open>uintptr_t\<close>); 0 is \<open>nullptr\<close>.\<close>

type_synonym ptr = "u64"

text \<open>
  \<open>size_t\<close>/\<open>unsigned long\<close> additions wrap; these two facts say when they do not.
\<close>

lemma unat_add_no_wrap:
  fixes a b :: "'a::len word"
  assumes "unat a + unat b < 2 ^ LENGTH('a)"
  shows "unat (a + b) = unat a + unat b"
  using assms by (simp add: unat_word_ariths)

lemma unat_mult_no_wrap:
  fixes a b :: "'a::len word"
  assumes "unat a * unat b < 2 ^ LENGTH('a)"
  shows "unat (a * b) = unat a * unat b"
  using assms by (simp add: unat_word_ariths)

lemma unat_minus_le:
  fixes a b :: "'a::len word"
  assumes "b \<le> a"
  shows "unat (a - b) = unat a - unat b"
  using assms by (simp add: unat_sub)

text \<open>Widening conversions keep the value.\<close>

lemma unat_ucast_widen:
  fixes x :: "'a::len word"
  assumes "LENGTH('a) \<le> LENGTH('b::len)"
  shows "unat (ucast x :: 'b word) = unat x"
proof -
  have "unat x < 2 ^ LENGTH('b)"
    using unsigned_less [of x] assms
    by (meson le_less_trans less_le_trans nat_le_linear power_increasing one_le_numeral)
  then show ?thesis by (simp add: unsigned_ucast_eq take_bit_nat_eq_self)
qed

lemma unat_ucast_u32 [simp]: "unat (ucast x :: u64) = unat x" for x :: u32
  by (rule unat_ucast_widen) simp

lemma unat_ucast_u8 [simp]: "unat (ucast x :: u64) = unat x" for x :: u8
  by (rule unat_ucast_widen) simp

lemma u32_lt: "unat x < 4294967296" for x :: u32
  using unsigned_less [of x] by simp

lemma u64_lt: "unat x < 18446744073709551616" for x :: u64
  using unsigned_less [of x] by simp

lemma u8_lt: "unat x < 256" for x :: u8
  using unsigned_less [of x] by simp

text \<open>Rounding up to a multiple, as every size computation of the code does it.\<close>

lemma round_up_bounds:
  fixes n d :: nat
  assumes "0 < d"
  shows "n \<le> (n + (d - 1)) div d * d \<and> (n + (d - 1)) div d * d < n + d"
proof -
  have "(n + (d - 1)) div d * d + (n + (d - 1)) mod d = n + (d - 1)" by simp
  moreover have "(n + (d - 1)) mod d < d" using assms by simp
  ultimately show ?thesis using assms by (intro conjI; linarith)
qed

section \<open>Outcome of a C++ call\<close>

text \<open>
  A call returns, throws, locks a \<open>std::mutex\<close> its own thread already holds (\<open>Deadlock\<close>), calls
  \<open>abort\<close>, which ends the enclave (\<open>Abort\<close>), or performs an access whose behaviour C++ leaves
  undefined, such as an element access past the end of a vector or a call through a null pointer
  (\<open>Undef\<close>).
\<close>

datatype exn = OutOfRange | RuntimeError string

datatype 'a cpp = Ret 'a | Throw exn | Deadlock | Abort | Undef

fun cbind :: "'a cpp \<Rightarrow> ('a \<Rightarrow> 'b cpp) \<Rightarrow> 'b cpp" where
  "cbind (Ret x) f = f x"
| "cbind (Throw e) f = Throw e"
| "cbind Deadlock f = Deadlock"
| "cbind Abort f = Abort"
| "cbind Undef f = Undef"

lemma cbind_Ret_iff [simp]: "cbind m f = Ret y \<longleftrightarrow> (\<exists>x. m = Ret x \<and> f x = Ret y)"
  by (cases m) auto

text \<open>The call comes back to its caller.\<close>

fun returns :: "'a cpp \<Rightarrow> bool" where
  "returns (Ret x) = True"
| "returns x = False"

lemma returns_iff: "returns x \<longleftrightarrow> (\<exists>y. x = Ret y)"
  by (cases x) auto

lemma returns_cbindI: "returns m \<Longrightarrow> (\<And>x. m = Ret x \<Longrightarrow> returns (f x)) \<Longrightarrow> returns (cbind m f)"
  by (cases m) auto

lemma returns_cbind_Ret: "returns m \<Longrightarrow> returns (cbind m (\<lambda>x. Ret (f x)))"
  by (cases m) auto

lemma cbind_assoc: "cbind (cbind m f) g = cbind m (\<lambda>x. cbind (f x) g)"
  by (cases m) auto

section \<open>Byte buffers\<close>

type_synonym bytes = "u8 list"

text \<open>\<open>memcpy (buf + off, src, length src)\<close> for a destination range inside \<open>buf\<close>.\<close>

definition blit :: "bytes \<Rightarrow> nat \<Rightarrow> bytes \<Rightarrow> bytes" where
  "blit buf off src = take off buf @ src @ drop (off + length src) buf"

text \<open>\<open>memcpy (dst, buf + off, n)\<close>: the bytes read.\<close>

definition slice :: "bytes \<Rightarrow> nat \<Rightarrow> nat \<Rightarrow> bytes" where
  "slice buf off n = take n (drop off buf)"

lemma length_blit [simp]:
  "off + length src \<le> length buf \<Longrightarrow> length (blit buf off src) = length buf"
  by (simp add: blit_def)

lemma length_slice [simp]: "off + n \<le> length buf \<Longrightarrow> length (slice buf off n) = n"
  by (simp add: slice_def)

lemma nth_blit:
  assumes "off + length src \<le> length buf" and "i < length buf"
  shows "blit buf off src ! i =
    (if off \<le> i \<and> i < off + length src then src ! (i - off) else buf ! i)"
  using assms by (auto simp: blit_def nth_append)

lemma slice_blit_same:
  "off + length src \<le> length buf \<Longrightarrow> slice (blit buf off src) off (length src) = src"
  by (simp add: slice_def blit_def)

lemma slice_blit_other:
  assumes "off + length src \<le> length buf" and "i + n \<le> length buf"
    and "i + n \<le> off \<or> off + length src \<le> i"
  shows "slice (blit buf off src) i n = slice buf i n"
  using assms by (intro nth_equalityI) (auto simp: slice_def nth_blit)

lemma blit_same_twice:
  assumes "off + length a \<le> length buf" and "length b = length a"
  shows "blit (blit buf off a) off b = blit buf off b"
  using assms by (simp add: blit_def)

lemma blit_slice_id: "off + n \<le> length buf \<Longrightarrow> blit buf off (slice buf off n) = buf"
  by (simp add: blit_def slice_def min_def) (metis add.commute append_take_drop_id drop_drop)

section \<open>Integers as bytes\<close>

text \<open>The low \<open>k\<close> bytes of an integer, least or most significant byte first.\<close>

definition le_bytes :: "nat \<Rightarrow> u64 \<Rightarrow> bytes" where
  "le_bytes k x = map (\<lambda>i. ucast (drop_bit (8 * i) x)) [0..<k]"

definition be_bytes :: "nat \<Rightarrow> u64 \<Rightarrow> bytes" where
  "be_bytes k x = map (\<lambda>i. ucast (drop_bit (8 * (k - 1 - i)) x)) [0..<k]"

fun of_le_bytes :: "bytes \<Rightarrow> nat" where
  "of_le_bytes [] = 0"
| "of_le_bytes (b # bs) = unat b + 256 * of_le_bytes bs"

fun of_be_bytes :: "bytes \<Rightarrow> nat" where
  "of_be_bytes [] = 0"
| "of_be_bytes (b # bs) = unat b * 256 ^ length bs + of_be_bytes bs"

lemma length_le_bytes [simp]: "length (le_bytes k x) = k"
  by (simp add: le_bytes_def)

lemma length_be_bytes [simp]: "length (be_bytes k x) = k"
  by (simp add: be_bytes_def)

lemma unat_byte_of: "unat (ucast (drop_bit (8 * i) x) :: u8) = unat x div 256 ^ i mod 256" for x :: u64
proof -
  have "unat (drop_bit (8 * i) x) = drop_bit (8 * i) (unat x)"
    using u64_lt [of x] by (simp only: unsigned_drop_bit_eq) (simp add: take_bit_nat_eq_self)
  then have "unat (ucast (drop_bit (8 * i) x) :: u8) = take_bit 8 (drop_bit (8 * i) (unat x))"
    by (simp only: unsigned_ucast_eq) simp
  then show ?thesis by (simp add: take_bit_eq_mod drop_bit_eq_div power_mult)
qed

lemma of_le_bytes_digits:
  "of_le_bytes (map (\<lambda>i. ucast (drop_bit (8 * (i + j)) x)) [0..<k]) = unat x div 256 ^ j mod 256 ^ k"
  for x :: u64
proof (induction k arbitrary: j)
  case (Suc k)
  have "map (\<lambda>i. ucast (drop_bit (8 * (i + j)) x)) [0..<Suc k] =
      (ucast (drop_bit (8 * j) x) :: u8) # map (\<lambda>i. ucast (drop_bit (8 * (i + Suc j)) x)) [0..<k]"
    by (subst map_upt_Suc) simp
  then have "of_le_bytes (map (\<lambda>i. ucast (drop_bit (8 * (i + j)) x)) [0..<Suc k])
      = unat x div 256 ^ j mod 256 + 256 * (unat x div 256 ^ Suc j mod 256 ^ k)"
    by (simp only: of_le_bytes.simps unat_byte_of Suc.IH)
  also have "unat x div 256 ^ Suc j = unat x div 256 ^ j div 256"
    by (simp only: power_Suc2 div_mult2_eq)
  finally show ?case by (simp add: mod_mult2_eq)
qed simp

lemma of_le_bytes_le_bytes: "of_le_bytes (le_bytes k x) = unat x mod 256 ^ k"
  using of_le_bytes_digits [of 0 x k] by (simp add: le_bytes_def)

lemma of_be_bytes_be_bytes: "of_be_bytes (be_bytes k x) = unat x mod 256 ^ k"
proof (induction k)
  case (Suc k)
  have "be_bytes (Suc k) x = ucast (drop_bit (8 * k) x) # be_bytes k x"
    by (simp add: be_bytes_def map_upt_Suc del: upt_Suc)
  moreover have "unat x mod 256 ^ Suc k = 256 ^ k * (unat x div 256 ^ k mod 256) + unat x mod 256 ^ k"
    by (simp only: power_Suc2 mod_mult2_eq)
  ultimately show ?case
    using Suc by (simp only: of_be_bytes.simps unat_byte_of length_be_bytes) (simp only: mult.commute)
qed (simp add: be_bytes_def)

lemma le_bytes_8_inject: "le_bytes 8 x = le_bytes 8 y \<longleftrightarrow> x = y"
proof
  assume "le_bytes 8 x = le_bytes 8 y"
  then have "unat x mod 256 ^ 8 = unat y mod 256 ^ 8" by (metis of_le_bytes_le_bytes)
  then show "x = y" using u64_lt [of x] u64_lt [of y] by (simp add: word_unat_eq_iff)
qed simp

section \<open>C and C++ strings\<close>

text \<open>A \<open>const char*\<close> argument may be null.\<close>

type_synonym cstr = "string option"

fun starts_with :: "string \<Rightarrow> string \<Rightarrow> bool" where
  "starts_with s [] = True"
| "starts_with [] (_ # _) = False"
| "starts_with (c # s) (d # p) = (c = d \<and> starts_with s p)"

lemma starts_with_iff: "starts_with s p \<longleftrightarrow> (\<exists>r. s = p @ r)"
  by (induction s p rule: starts_with.induct) auto

text \<open>\<open>s.find (p) != npos\<close>.\<close>

fun contains :: "string \<Rightarrow> string \<Rightarrow> bool" where
  "contains [] p = (p = [])"
| "contains (c # s) p = (starts_with (c # s) p \<or> contains s p)"

lemma contains_iff: "contains s p \<longleftrightarrow> (\<exists>l r. s = l @ p @ r)"
proof (induction s)
  case Nil
  then show ?case by simp
next
  case (Cons c s)
  have "contains (c # s) p \<longleftrightarrow> (\<exists>r. c # s = p @ r) \<or> (\<exists>l r. s = l @ p @ r)"
    by (simp only: contains.simps starts_with_iff Cons.IH)
  also have "\<dots> \<longleftrightarrow> (\<exists>l r. c # s = l @ p @ r)"
    by (metis append_Cons append_Nil list.exhaust list.inject)
  finally show ?case .
qed

section \<open>Hash maps\<close>

text \<open>
  \<open>std::unordered_map\<close> is an association list with distinct keys: \<open>find\<close> is \<^const>\<open>map_of\<close>,
  \<open>operator[]\<close> with assignment is \<^const>\<open>AList.update\<close>, \<open>erase\<close> is \<^const>\<open>AList.delete\<close>, and a
  range-based loop visits the list. Nothing in the code depends on the visiting order.
\<close>

abbreviation umap_ok :: "('k \<times> 'v) list \<Rightarrow> bool" where
  "umap_ok m \<equiv> distinct (map fst m)"

lemma update_new: "map_of m k = None \<Longrightarrow> AList.update k v m = m @ [(k, v)]"
  by (induction m) (auto split: if_splits)

declare update_conv' [umap_simps] delete_conv' [umap_simps]

lemma umap_ok_update [simp]: "umap_ok m \<Longrightarrow> umap_ok (AList.update k v m)"
  by (rule distinct_update)

lemma umap_ok_delete [simp]: "umap_ok m \<Longrightarrow> umap_ok (AList.delete k m)"
  by (rule distinct_delete)

lemma map_of_delete_Some [simp]:
  "map_of (AList.delete k m) x = Some v \<longleftrightarrow> x \<noteq> k \<and> map_of m x = Some v"
  by (simp add: delete_conv')

lemma map_of_update_Some:
  "map_of (AList.update k v m) x = Some u \<longleftrightarrow> (if x = k then u = v else map_of m x = Some u)"
  by (auto simp: update_conv')

section \<open>Invariants of transition systems\<close>

text \<open>
  What a component promises about its steps: an invariant that every step keeps. It then holds in
  every state reached from one that has it.
\<close>

locale kept_invariant =
  fixes step :: "'s \<Rightarrow> 's \<Rightarrow> bool" and inv :: "'s \<Rightarrow> bool"
  assumes inv_step: "inv s \<Longrightarrow> step s t \<Longrightarrow> inv t"
begin

lemma reachable_inv: "step\<^sup>*\<^sup>* s t \<Longrightarrow> inv s \<Longrightarrow> inv t"
  by (induction rule: rtranclp_induct) (auto intro: inv_step)

end

end
