(* ===== verification/Std_Map.thy ===== *)
theory Std_Map
  imports Conclave_Prelude
begin

text \<open>
  \<open>std::map\<close> with an ordered key type: an ascending association list, an iterator being a
  position in it (\<open>begin\<close> is 0, \<open>end\<close> is the length). The locale \<open>ordered_map\<close> states what the
  components that use such a map rely on; the list functions below are its interpretation.
\<close>

type_synonym ('k, 'v) std_map = "('k \<times> 'v) list"

definition om_ok :: "('k::linorder, 'v) std_map \<Rightarrow> bool" where
  "om_ok m = sorted_wrt (<) (map fst m)"

definition om_find :: "('k::linorder, 'v) std_map \<Rightarrow> 'k \<Rightarrow> 'v option" where
  "om_find m k = map_of m k"

fun om_insert :: "'k::linorder \<Rightarrow> 'v \<Rightarrow> ('k, 'v) std_map \<Rightarrow> ('k, 'v) std_map" where
  "om_insert k v [] = [(k, v)]"
| "om_insert k v ((k', v') # m) =
     (if k < k' then (k, v) # (k', v') # m
      else if k = k' then (k, v) # m
      else (k', v') # om_insert k v m)"

fun om_erase :: "'k::linorder \<Rightarrow> ('k, 'v) std_map \<Rightarrow> ('k, 'v) std_map" where
  "om_erase k [] = []"
| "om_erase k ((k', v') # m) = (if k = k' then m else (k', v') # om_erase k m)"

text \<open>\<open>lower_bound (k)\<close>: the first position whose key is not less than \<open>k\<close>.\<close>

fun om_lower_bound :: "'k::linorder \<Rightarrow> ('k, 'v) std_map \<Rightarrow> nat" where
  "om_lower_bound k [] = 0"
| "om_lower_bound k ((k', v') # m) = (if k' < k then Suc (om_lower_bound k m) else 0)"

lemma om_ok_Nil [simp]: "om_ok []"
  by (simp add: om_ok_def)

lemma om_ok_Cons [simp]:
  "om_ok ((k, v) # m) \<longleftrightarrow> (\<forall>x\<in>set m. k < fst x) \<and> om_ok m"
  by (auto simp: om_ok_def)

lemma set_om_insert: "set (om_insert k v m) \<subseteq> insert (k, v) (set m)"
  by (induction k v m rule: om_insert.induct) (auto split: if_splits)

lemma om_find_None_above: "\<forall>x\<in>set m. k < fst x \<Longrightarrow> om_find m k = None"
  by (auto simp: om_find_def map_of_eq_None_iff)

lemma om_find_insert: "om_find (om_insert k v m) = (om_find m)(k \<mapsto> v)"
  by (induction m) (auto simp: om_find_def fun_eq_iff)

lemma om_ok_insert: "om_ok m \<Longrightarrow> om_ok (om_insert k v m)"
proof (induction m)
  case (Cons x m)
  obtain k' v' where x: "x = (k', v')" by force
  have "\<forall>y\<in>set (om_insert k v m). k' < fst y" if "k' < k"
    using Cons.prems that set_om_insert [of k v m] by (auto simp: x)
  with Cons show ?case by (auto simp: x)
qed simp

lemma om_find_erase: "om_ok m \<Longrightarrow> om_find (om_erase k m) = (om_find m)(k := None)"
proof (induction m)
  case (Cons x m)
  obtain k' v' where x: "x = (k', v')" by force
  have "om_find m k' = None"
    using Cons.prems by (auto simp: x intro: om_find_None_above)
  with Cons show ?case by (auto simp: x om_find_def fun_eq_iff)
qed (auto simp: om_find_def)

lemma set_om_erase: "set (om_erase k m) \<subseteq> set m"
  by (induction k m rule: om_erase.induct) auto

lemma om_ok_erase: "om_ok m \<Longrightarrow> om_ok (om_erase k m)"
proof (induction m)
  case (Cons x m)
  then show ?case using set_om_erase [of k m] by (cases x) auto
qed simp

lemma om_find_iff_in_set: "om_ok m \<Longrightarrow> om_find m k = Some v \<longleftrightarrow> (k, v) \<in> set m"
proof -
  assume "om_ok m"
  then have "distinct (map fst m)"
    by (simp add: om_ok_def strict_sorted_iff)
  then show ?thesis by (simp add: om_find_def)
qed

text \<open>Assigning through an iterator (\<open>it->second\<close>) is an insertion at its key.\<close>

lemma om_find_assign:
  "om_ok m \<Longrightarrow> i < length m \<Longrightarrow> om_find (m[i := (fst (m ! i), v)]) = (om_find m)(fst (m ! i) \<mapsto> v)"
proof (induction m arbitrary: i)
  case (Cons x m)
  show ?case
  proof (cases i)
    case (Suc j)
    have "fst x \<noteq> fst (m ! j)"
      using Cons.prems Suc by (cases x) (force simp: in_set_conv_nth)
    with Cons Suc show ?thesis by (cases x) (auto simp: om_find_def fun_eq_iff)
  qed (auto simp: om_find_def fun_eq_iff)
qed simp

lemma om_lower_bound_le: "om_lower_bound k m \<le> length m"
  by (induction k m rule: om_lower_bound.induct) auto

lemma om_lower_bound_below:
  "i < om_lower_bound k m \<Longrightarrow> fst (m ! i) < k"
proof (induction k m arbitrary: i rule: om_lower_bound.induct)
  case (2 k k' v' m)
  then show ?case by (cases i) (auto split: if_splits)
qed simp

lemma om_lower_bound_above:
  "om_ok m \<Longrightarrow> om_lower_bound k m \<le> i \<Longrightarrow> i < length m \<Longrightarrow> k \<le> fst (m ! i)"
proof (induction k m arbitrary: i rule: om_lower_bound.induct)
  case (2 k k' v' m)
  show ?case
  proof (cases "k' < k")
    case True
    with 2 obtain j where j: "i = Suc j" by (cases i) auto
    with 2 True show ?thesis by auto
  next
    case False
    then have "\<forall>x\<in>set ((k', v') # m). k \<le> fst x"
      using "2.prems"(1) by auto
    then show ?thesis using "2.prems"(3) nth_mem by blast
  qed
qed simp

text \<open>The interface the components rely on.\<close>

locale ordered_map =
  fixes ok :: "'m \<Rightarrow> bool"
    and entries :: "'m \<Rightarrow> ('k::linorder \<times> 'v) list"
    and lookup :: "'m \<Rightarrow> 'k \<Rightarrow> 'v option"
    and insert_at :: "'k \<Rightarrow> 'v \<Rightarrow> 'm \<Rightarrow> 'm"
    and erase_at :: "'k \<Rightarrow> 'm \<Rightarrow> 'm"
    and lower :: "'k \<Rightarrow> 'm \<Rightarrow> nat"
  assumes entries_sorted: "ok m \<Longrightarrow> sorted_wrt (<) (map fst (entries m))"
    and lookup_iff: "ok m \<Longrightarrow> lookup m k = Some v \<longleftrightarrow> (k, v) \<in> set (entries m)"
    and lookup_insert: "lookup (insert_at k v m) = (lookup m)(k \<mapsto> v)"
    and lookup_erase: "ok m \<Longrightarrow> lookup (erase_at k m) = (lookup m)(k := None)"
    and ok_insert: "ok m \<Longrightarrow> ok (insert_at k v m)"
    and ok_erase: "ok m \<Longrightarrow> ok (erase_at k m)"
    and lower_le: "lower k m \<le> length (entries m)"
    and lower_below: "i < lower k m \<Longrightarrow> fst (entries m ! i) < k"
    and lower_above: "ok m \<Longrightarrow> lower k m \<le> i \<Longrightarrow> i < length (entries m) \<Longrightarrow> k \<le> fst (entries m ! i)"
begin

text \<open>
  \<open>nearest\<close> is the search \<open>MemoryManager\<close> performs twice: \<open>lower_bound\<close>, stepping back one
  position unless the key matches or the iterator is at \<open>begin\<close>.
\<close>

definition nearest :: "'k \<Rightarrow> 'm \<Rightarrow> nat" where
  "nearest k m =
     (let cur = lower k m in
      if cur \<noteq> length (entries m) then
        (if fst (entries m ! cur) \<noteq> k \<and> cur \<noteq> 0 then cur - 1 else cur)
      else (if cur \<noteq> 0 then cur - 1 else cur))"

lemma nearest_in_range: "entries m \<noteq> [] \<Longrightarrow> nearest k m < length (entries m)"
  using lower_le [of k m] by (auto simp: nearest_def Let_def)

text \<open>When some key is at most \<open>k\<close>, the search ends at the greatest such key.\<close>

lemma nearest_greatest_below:
  assumes ok: "ok m" and j: "j < length (entries m)" "fst (entries m ! j) \<le> k"
  shows "fst (entries m ! nearest k m) \<le> k \<and> fst (entries m ! j) \<le> fst (entries m ! nearest k m)"
proof -
  let ?es = "entries m" and ?cur = "lower k m"
  have mono: "fst (?es ! a) \<le> fst (?es ! b)" if "a \<le> b" "b < length ?es" for a b
    using sorted_wrt_nth_less [OF entries_sorted [OF ok], of a b] that
    by (cases "a = b") auto
  show ?thesis
  proof (cases "?cur \<noteq> length ?es \<and> fst (?es ! ?cur) = k")
    case True
    then show ?thesis using j by (simp add: nearest_def Let_def)
  next
    case False
    have jlt: "j < ?cur"
    proof (rule ccontr)
      assume "\<not> j < ?cur"
      then have le: "?cur \<le> j" by simp
      have cur: "?cur < length ?es" using le j(1) by simp
      have "k \<le> fst (?es ! ?cur)" by (rule lower_above [OF ok le_refl cur])
      moreover have "fst (?es ! ?cur) \<le> fst (?es ! j)" by (rule mono [OF le j(1)])
      ultimately have "fst (?es ! ?cur) = k" using j(2) by simp
      with False cur show False by simp
    qed
    then have near: "nearest k m = ?cur - 1"
      using False by (auto simp: nearest_def Let_def)
    have "fst (?es ! (?cur - 1)) < k" by (rule lower_below) (use jlt in simp)
    moreover have "fst (?es ! j) \<le> fst (?es ! (?cur - 1))"
      by (rule mono) (use jlt lower_le [of k m] in auto)
    ultimately show ?thesis by (simp add: near)
  qed
qed

end

interpretation om: ordered_map om_ok "\<lambda>m. m" om_find om_insert om_erase om_lower_bound
proof (unfold_locales, goal_cases)
  case (1 m) then show ?case by (simp add: om_ok_def)
next
  case (2 m k v) then show ?case by (rule om_find_iff_in_set)
next
  case (3 k v m) show ?case by (rule om_find_insert)
next
  case (4 m k) then show ?case by (rule om_find_erase)
next
  case (5 m k v) then show ?case by (rule om_ok_insert)
next
  case (6 m k) then show ?case by (rule om_ok_erase)
next
  case (7 k m) show ?case by (rule om_lower_bound_le)
next
  case (8 i k m) then show ?case by (rule om_lower_bound_below)
next
  case (9 m k i) then show ?case by (rule om_lower_bound_above)
qed

end
