(* ===== verification/Memory_Manager.thy ===== *)
theory Memory_Manager
  imports Std_Map
begin

text \<open>
  The emulation of \<open>mmap\<close>/\<open>munmap\<close>: \<open>cpp/jvm-enclave-common/src/memory_manager.cpp\<close> and the stubs
  of \<open>stubs/sys_mman.cpp\<close> that call it. The state holds the ordered map \<open>regions\<close>, the \<open>errno\<close>
  the calls set, and the buffers handed back to the C allocator by \<open>~MemoryRegion\<close>. The allocator
  itself (\<open>memalign\<close> and the allocation of the map node) is a parameter.
\<close>

section \<open>Memory regions\<close>

record MemoryRegion =
  mem_base :: ptr
  initial_size :: u64
  committed :: u64

type_synonym map_regions = "(ptr, MemoryRegion) std_map"

definition new_region :: "ptr \<Rightarrow> u64 \<Rightarrow> MemoryRegion" where
  "new_region p sz = \<lparr>mem_base = p, initial_size = sz, committed = sz\<rparr>"

definition uncommit :: "u64 \<Rightarrow> MemoryRegion \<Rightarrow> bool \<times> MemoryRegion" where
  "uncommit sz r =
     (if committed r \<ge> sz then (True, r\<lparr>committed := committed r - sz\<rparr>) else (False, r))"

definition region_empty :: "MemoryRegion \<Rightarrow> bool" where
  "region_empty r \<longleftrightarrow> committed r = 0"

section \<open>The manager\<close>

record memory_manager =
  regions :: map_regions
  mm_errno :: int
  mm_released :: "ptr list"

text \<open>
  What the code takes from the C library: \<open>memalign\<close> (its answer may depend on what is live) and
  whether \<open>std::make_unique\<close> and the map insertion find memory for the bookkeeping node.
\<close>

record mm_env =
  memalign :: "u64 \<Rightarrow> u64 \<Rightarrow> map_regions \<Rightarrow> ptr"
  node_available :: "map_regions \<Rightarrow> bool"

definition page_size :: u64 where "page_size = 4096"
definition MAP_FAILED :: ptr where "MAP_FAILED = - 1"
definition EINVAL :: int where "EINVAL = 22"

text \<open>The rounding in \<open>alloc\<close>, in \<open>size_t\<close> arithmetic.\<close>

definition allocation_size :: "u64 \<Rightarrow> u64" where
  "allocation_size sz = ((sz + page_size - 1) div page_size) * page_size"

text \<open>The search that \<open>alloc\<close> and \<open>free\<close> share: the position of the region nearest to \<open>p\<close>.\<close>

definition cur_region :: "ptr \<Rightarrow> map_regions \<Rightarrow> nat" where
  "cur_region p m =
     (let cur = om_lower_bound p m in
      if cur \<noteq> length m then
        (if fst (m ! cur) \<noteq> p \<and> cur \<noteq> 0 then cur - 1 else cur)
      else (if cur \<noteq> 0 then cur - 1 else cur))"

text \<open>The boundary check of the two lambdas, on wrapping 64-bit addresses.\<close>

definition within_region :: "ptr \<times> MemoryRegion \<Rightarrow> ptr \<Rightarrow> u64 \<Rightarrow> bool" where
  "within_region it p sz \<longleftrightarrow>
     fst it \<le> p \<and> fst it + initial_size (snd it) \<ge> p + sz"

definition mm_alloc :: "mm_env \<Rightarrow> u64 \<Rightarrow> ptr \<Rightarrow> memory_manager \<Rightarrow> ptr \<times> memory_manager" where
  "mm_alloc E sz p s =
     (if sz = 0 then (MAP_FAILED, s)
      else if p \<noteq> 0 then
        (if regions s = [] then (MAP_FAILED, s\<lparr>mm_errno := EINVAL\<rparr>)
         else if within_region (regions s ! cur_region p (regions s)) p sz then (p, s)
         else (MAP_FAILED, s\<lparr>mm_errno := EINVAL\<rparr>))
      else
        (let asz = allocation_size sz;
             ret = memalign E page_size asz (regions s) in
         if ret = 0 then (ret, s)
         else if \<not> node_available E (regions s) then (MAP_FAILED, s)
         else (ret, s\<lparr>regions := om_insert ret (new_region ret asz) (regions s),
                      mm_released := (case om_find (regions s) ret of
                                        None \<Rightarrow> mm_released s
                                      | Some old \<Rightarrow> mem_base old # mm_released s)\<rparr>)))"

definition mm_free :: "ptr \<Rightarrow> u64 \<Rightarrow> memory_manager \<Rightarrow> int \<times> memory_manager" where
  "mm_free p sz s =
     (if p mod page_size \<noteq> 0 then (- 1, s\<lparr>mm_errno := EINVAL\<rparr>)
      else if regions s = [] then (0, s)
      else
        (let cur = cur_region p (regions s);
             it = regions s ! cur in
         if within_region it p sz then
           (case uncommit sz (snd it) of
              (True, r) \<Rightarrow>
                if region_empty r then
                  (0, s\<lparr>regions := om_erase (fst it) (regions s),
                        mm_released := mem_base r # mm_released s\<rparr>)
                else (0, s\<lparr>regions := (regions s)[cur := (fst it, r)]\<rparr>)
            | (False, _) \<Rightarrow> (0, s))
         else (0, s)))"

definition mm_clear :: "memory_manager \<Rightarrow> memory_manager" where
  "mm_clear s = s\<lparr>regions := [],
                 mm_released := map (\<lambda>e. mem_base (snd e)) (regions s) @ mm_released s\<rparr>"

definition mm_is_empty :: "memory_manager \<Rightarrow> bool" where
  "mm_is_empty s \<longleftrightarrow> length (regions s) = 0"

definition mm_init :: memory_manager where
  "mm_init = \<lparr>regions = [], mm_errno = 0, mm_released = []\<rparr>"

text \<open>The stubs: \<open>munmap\<close> discards the result of \<open>free\<close>.\<close>

definition mmap64 :: "mm_env \<Rightarrow> ptr \<Rightarrow> u64 \<Rightarrow> memory_manager \<Rightarrow> ptr \<times> memory_manager" where
  "mmap64 E addr len s = mm_alloc E len addr s"

definition munmap :: "ptr \<Rightarrow> u64 \<Rightarrow> memory_manager \<Rightarrow> int \<times> memory_manager" where
  "munmap addr len s = (0, snd (mm_free addr len s))"

section \<open>Invariant\<close>

text \<open>Address of the first byte after a region, as a number.\<close>

definition region_end :: "ptr \<times> MemoryRegion \<Rightarrow> nat" where
  "region_end e = unat (fst e) + unat (initial_size (snd e))"

definition region_ok :: "ptr \<times> MemoryRegion \<Rightarrow> bool" where
  "region_ok e \<longleftrightarrow> mem_base (snd e) = fst e \<and> fst e \<noteq> 0 \<and> region_end e < 2 ^ 64
     \<and> 0 < committed (snd e) \<and> committed (snd e) \<le> initial_size (snd e)
     \<and> 4096 dvd unat (fst e) \<and> 4096 dvd unat (initial_size (snd e))"

text \<open>Every region is well formed and ends before the next one begins.\<close>

definition regions_ok :: "map_regions \<Rightarrow> bool" where
  "regions_ok m \<longleftrightarrow> om_ok m \<and> (\<forall>e\<in>set m. region_ok e)
     \<and> sorted_wrt (\<lambda>a b. region_end a \<le> unat (fst b)) m"

text \<open>
  The documented contract of \<open>memalign\<close>: a non-null answer is aligned, lies inside the address
  space and does not overlap a live block.
\<close>

definition memalign_contract :: "mm_env \<Rightarrow> bool" where
  "memalign_contract E \<longleftrightarrow>
     (\<forall>sz m. regions_ok m \<longrightarrow> 0 < sz \<longrightarrow>
        (let a = memalign E page_size sz m in
         a \<noteq> 0 \<longrightarrow> 4096 dvd unat a \<and> unat a + unat sz < 2 ^ 64
           \<and> (\<forall>e\<in>set m. region_end e \<le> unat a \<or> unat a + unat sz \<le> unat (fst e))))"

lemma regions_ok_Nil [simp]: "regions_ok []"
  by (simp add: regions_ok_def)

lemma regions_ok_Cons:
  "regions_ok (e # m) \<longleftrightarrow>
     region_ok e \<and> (\<forall>x\<in>set m. fst e < fst x \<and> region_end e \<le> unat (fst x)) \<and> regions_ok m"
  by (cases e) (auto simp: regions_ok_def)

lemma region_ok_pos: "region_ok e \<Longrightarrow> unat (fst e) < region_end e"
  by (auto simp: region_ok_def region_end_def word_less_nat_alt word_le_nat_alt)

lemma region_ok_end_word:
  "region_ok e \<Longrightarrow> unat (fst e + initial_size (snd e)) = region_end e"
  by (simp add: region_ok_def region_end_def unat_add_no_wrap)

section \<open>The search finds the region that holds an address\<close>

lemma cur_region_nearest: "cur_region p m = om.nearest p m"
  by (simp add: cur_region_def om.nearest_def)

lemma cur_region_less: "m \<noteq> [] \<Longrightarrow> cur_region p m < length m"
  unfolding cur_region_nearest by (rule om.nearest_in_range)

lemma cur_region_holds:
  assumes ok: "regions_ok m" and e: "e \<in> set m"
    and le: "unat (fst e) \<le> unat p" and lt: "unat p < region_end e"
  shows "m ! cur_region p m = e"
proof -
  obtain j where j: "j < length m" "m ! j = e"
    using e by (auto simp: in_set_conv_nth)
  let ?i = "cur_region p m"
  have mok: "om_ok m" using ok by (simp add: regions_ok_def)
  have i: "?i < length m" using j by (intro cur_region_less) auto
  have near: "fst (m ! ?i) \<le> p \<and> fst (m ! j) \<le> fst (m ! ?i)"
    using om.nearest_greatest_below [OF mok j(1), of p] le j(2)
    by (simp add: cur_region_nearest word_le_nat_alt)
  have "\<not> j < ?i"
  proof
    assume "j < ?i"
    then have "region_end (m ! j) \<le> unat (fst (m ! ?i))"
      using ok i sorted_wrt_nth_less by (fastforce simp: regions_ok_def)
    moreover have "unat (fst (m ! ?i)) \<le> unat p"
      using near by (simp add: word_le_nat_alt)
    ultimately show False using lt j(2) by simp
  qed
  moreover have "\<not> ?i < j"
  proof
    assume "?i < j"
    then have "fst (m ! ?i) < fst (m ! j)"
      using mok j(1) sorted_wrt_nth_less [of "(<)" "map fst m" ?i j] i by (simp add: om_ok_def)
    with near show False by (auto dest: leD)
  qed
  ultimately show ?thesis using j by (metis linorder_neqE_nat)
qed

lemma within_region_iff:
  assumes "region_ok e" and "unat p + unat sz < 2 ^ 64"
  shows "within_region e p sz \<longleftrightarrow>
    unat (fst e) \<le> unat p \<and> unat p + unat sz \<le> region_end e"
  using assms region_ok_end_word [of e] unat_add_no_wrap [of p sz]
  by (simp add: within_region_def word_le_nat_alt)

section \<open>Every operation preserves the invariant\<close>

lemma allocation_size_bounds:
  assumes "0 < sz" and "unat sz \<le> 2 ^ 64 - 4096"
  shows "unat sz \<le> unat (allocation_size sz)
    \<and> unat (allocation_size sz) < unat sz + 4096
    \<and> 4096 dvd unat (allocation_size sz)"
proof -
  have pos: "0 < unat sz" using assms(1) by (simp add: word_less_nat_alt)
  have "unat (sz + page_size - 1) = unat (sz + 4095)"
    by (simp add: page_size_def add.commute)
  also have "\<dots> = unat sz + 4095"
    using assms(2) by (subst unat_add_no_wrap) simp_all
  finally have a: "unat (sz + page_size - 1) = unat sz + 4095" .
  then have d: "unat ((sz + page_size - 1) div page_size) = (unat sz + 4095) div 4096"
    by (simp add: unat_div page_size_def)
  have "(unat sz + 4095) div 4096 * 4096 < 2 ^ 64"
    using assms(2) by simp
  then have "unat (allocation_size sz) = (unat sz + 4095) div 4096 * 4096"
    unfolding allocation_size_def
    using d by (subst unat_mult_no_wrap) (simp_all add: page_size_def)
  then show ?thesis using round_up_bounds [of 4096 "unat sz"] by simp
qed

lemma regions_ok_insert:
  assumes "regions_ok m" and "region_ok e"
    and "\<forall>x\<in>set m. region_end x \<le> unat (fst e) \<or> region_end e \<le> unat (fst x)"
  shows "regions_ok (om_insert (fst e) (snd e) m)"
  using assms
proof (induction m)
  case Nil
  then show ?case by (simp add: regions_ok_Cons)
next
  case (Cons x m)
  have x: "region_ok x" "regions_ok m" and above: "\<forall>y\<in>set m. fst x < fst y \<and> region_end x \<le> unat (fst y)"
    using Cons.prems(1) by (auto simp: regions_ok_Cons)
  note pos = region_ok_pos [OF x(1)] region_ok_pos [OF Cons.prems(2)]
  consider (lt) "fst e < fst x" "region_end e \<le> unat (fst x)" | (gt) "fst x < fst e" "region_end x \<le> unat (fst e)"
    using Cons.prems(3) pos by (force simp: word_less_nat_alt)
  then show ?case
  proof cases
    case lt
    have "fst e < fst y \<and> region_end e \<le> unat (fst y)" if "y \<in> set m" for y
      using above lt that by (force simp: word_less_nat_alt)
    with lt Cons.prems show ?thesis by (cases x) (auto simp: regions_ok_Cons)
  next
    case gt
    have "regions_ok (om_insert (fst e) (snd e) m)"
      using Cons x by simp
    moreover have "\<forall>y\<in>set (om_insert (fst e) (snd e) m). fst x < fst y \<and> region_end x \<le> unat (fst y)"
      using set_om_insert [of "fst e" "snd e" m] above gt by fastforce
    ultimately show ?thesis using gt x by (cases x) (auto simp: regions_ok_Cons)
  qed
qed

lemma regions_ok_erase: "regions_ok m \<Longrightarrow> regions_ok (om_erase k m)"
proof (induction m)
  case (Cons x m)
  then show ?case
    using set_om_erase [of k m] by (cases x) (auto simp: regions_ok_Cons)
qed simp

lemma regions_ok_update:
  assumes "regions_ok m" and "i < length m" and "region_ok (fst (m ! i), r)"
    and "initial_size r = initial_size (snd (m ! i))"
  shows "regions_ok (m[i := (fst (m ! i), r)])"
  using assms
proof (induction m arbitrary: i)
  case (Cons x m)
  show ?case
  proof (cases i)
    case 0
    with Cons.prems show ?thesis by (simp add: regions_ok_Cons region_end_def)
  next
    case (Suc j)
    have m: "regions_ok (m[j := (fst (m ! j), r)])"
      using Cons Suc by (auto simp: regions_ok_Cons)
    have "fst x < fst y \<and> region_end x \<le> unat (fst y)"
      if y: "y \<in> set (m[j := (fst (m ! j), r)])" for y
    proof (cases "y = (fst (m ! j), r)")
      case True
      have "m ! j \<in> set m" using Cons.prems(2) Suc by simp
      with True show ?thesis using Cons.prems(1) by (auto simp: regions_ok_Cons)
    next
      case False
      then have "y \<in> set m" using y by (meson insertE set_update_subset_insert subsetD)
      then show ?thesis using Cons.prems(1) by (auto simp: regions_ok_Cons)
    qed
    with m Suc Cons.prems(1) show ?thesis by (simp add: regions_ok_Cons)
  qed
qed simp

lemma regions_ok_nth: "regions_ok m \<Longrightarrow> i < length m \<Longrightarrow> region_ok (m ! i)"
  by (simp add: regions_ok_def)

lemma mm_alloc_regions_ok:
  assumes ok: "regions_ok (regions s)" and E: "memalign_contract E"
    and sz: "unat sz \<le> 2 ^ 64 - 4096"
  shows "regions_ok (regions (snd (mm_alloc E sz p s)))"
proof (cases "sz \<noteq> 0 \<and> p = 0 \<and> memalign E page_size (allocation_size sz) (regions s) \<noteq> 0")
  case False
  then show ?thesis using ok by (auto simp: mm_alloc_def Let_def)
next
  case True
  let ?asz = "allocation_size sz" and ?m = "regions s"
  let ?a = "memalign E page_size ?asz ?m"
  let ?e = "(?a, new_region ?a ?asz)"
  have pos: "0 < unat sz" using True by (simp add: unat_gt_0)
  have asz: "0 < unat ?asz" "4096 dvd unat ?asz"
    using allocation_size_bounds [of sz] True sz pos by (auto simp: word_neq_0_conv)
  have "0 < ?asz" using asz by (simp add: word_less_nat_alt)
  then have a: "4096 dvd unat ?a" "unat ?a + unat ?asz < 2 ^ 64"
    "\<forall>e\<in>set ?m. region_end e \<le> unat ?a \<or> unat ?a + unat ?asz \<le> unat (fst e)"
    using E ok True by (auto simp: memalign_contract_def Let_def)
  have "region_ok ?e"
    using a asz True \<open>0 < ?asz\<close> by (simp add: region_ok_def region_end_def new_region_def)
  moreover have "\<forall>x\<in>set ?m. region_end x \<le> unat (fst ?e) \<or> region_end ?e \<le> unat (fst x)"
    using a(3) by (simp add: region_end_def new_region_def)
  ultimately have "regions_ok (om_insert ?a (new_region ?a ?asz) ?m)"
    using regions_ok_insert [OF ok, of ?e] by simp
  with ok True show ?thesis by (simp add: mm_alloc_def Let_def)
qed

lemma mm_free_regions_ok:
  assumes ok: "regions_ok (regions s)"
  shows "regions_ok (regions (snd (mm_free p sz s)))"
proof (cases "regions s = []")
  case True
  then show ?thesis by (simp add: mm_free_def)
next
  case False
  let ?m = "regions s" and ?c = "cur_region p (regions s)"
  let ?r = "snd (?m ! ?c)\<lparr>committed := committed (snd (?m ! ?c)) - sz\<rparr>"
  have c: "?c < length ?m" using False by (rule cur_region_less)
  have e: "region_ok (?m ! ?c)" using ok c by (rule regions_ok_nth)
  have "regions_ok (?m[?c := (fst (?m ! ?c), ?r)])"
    if "sz \<le> committed (snd (?m ! ?c))" and "committed (snd (?m ! ?c)) - sz \<noteq> 0"
  proof (rule regions_ok_update [OF ok c])
    have "committed (snd (?m ! ?c)) - sz \<le> committed (snd (?m ! ?c))"
      using that(1) by (simp add: word_le_nat_alt unat_minus_le)
    moreover have "0 < committed (snd (?m ! ?c)) - sz"
      using that(2) word_neq_0_conv by blast
    ultimately show "region_ok (fst (?m ! ?c), ?r)"
      using e by (auto simp: region_ok_def region_end_def)
  qed simp
  with ok False show ?thesis
    by (auto simp: mm_free_def Let_def uncommit_def region_empty_def intro: regions_ok_erase)
qed

section \<open>Sequences of calls\<close>

datatype mm_op = Alloc u64 ptr | Free ptr u64 | Clear

fun mm_step :: "mm_env \<Rightarrow> mm_op \<Rightarrow> memory_manager \<Rightarrow> memory_manager" where
  "mm_step E (Alloc sz p) s = snd (mm_alloc E sz p s)"
| "mm_step E (Free p sz) s = snd (mm_free p sz s)"
| "mm_step E Clear s = mm_clear s"

fun mm_run :: "mm_env \<Rightarrow> mm_op list \<Rightarrow> memory_manager \<Rightarrow> memory_manager" where
  "mm_run E [] s = s"
| "mm_run E (c # cs) s = mm_run E cs (mm_step E c s)"

text \<open>The requests whose rounding to pages does not wrap around 64 bits.\<close>

fun mm_op_fits :: "mm_op \<Rightarrow> bool" where
  "mm_op_fits (Alloc sz p) \<longleftrightarrow> unat sz \<le> 2 ^ 64 - 4096"
| "mm_op_fits _ \<longleftrightarrow> True"

lemma mm_step_regions_ok:
  "regions_ok (regions s) \<Longrightarrow> memalign_contract E \<Longrightarrow> mm_op_fits c \<Longrightarrow>
    regions_ok (regions (mm_step E c s))"
  by (cases c) (auto simp: mm_alloc_regions_ok mm_free_regions_ok mm_clear_def)

lemma mm_run_regions_ok:
  "regions_ok (regions s) \<Longrightarrow> memalign_contract E \<Longrightarrow> list_all mm_op_fits cs \<Longrightarrow>
    regions_ok (regions (mm_run E cs s))"
  by (induction cs arbitrary: s) (auto simp: mm_step_regions_ok)

text \<open>A concrete allocator for the witnesses: first fit above the last live region.\<close>

definition bump_memalign :: "u64 \<Rightarrow> u64 \<Rightarrow> map_regions \<Rightarrow> ptr" where
  "bump_memalign al sz m =
     (let a = (if m = [] then 4096 else region_end (last m)) in
      if a + unat sz < 2 ^ 64 then of_nat a else 0)"

definition bump_env :: mm_env where
  "bump_env = \<lparr>memalign = bump_memalign, node_available = (\<lambda>_. True)\<rparr>"

lemma regions_ok_last:
  "regions_ok m \<Longrightarrow> e \<in> set m \<Longrightarrow> region_end e \<le> region_end (last m)"
proof (induction m)
  case (Cons x m)
  have le: "region_end x \<le> region_end y" if "y \<in> set m" for y
  proof -
    have "region_end x \<le> unat (fst y)" and "region_ok y"
      using Cons.prems(1) that by (auto simp: regions_ok_Cons regions_ok_def)
    then show ?thesis using region_ok_pos [of y] by simp
  qed
  then have "m \<noteq> [] \<Longrightarrow> region_end x \<le> region_end (last m)" by simp
  with Cons show ?case by (auto simp: regions_ok_Cons)
qed simp

lemma bump_memalign_contract: "memalign_contract bump_env"
proof -
  have "4096 dvd unat a \<and> unat a + unat sz < 2 ^ 64 \<and>
      (\<forall>e\<in>set m. region_end e \<le> unat a \<or> unat a + unat sz \<le> unat (fst e))"
    if ok: "regions_ok m" and a: "a = bump_memalign page_size sz m" "a \<noteq> 0" for a sz m
  proof -
    let ?b = "if m = [] then 4096 else region_end (last m)"
    have lt: "?b + unat sz < 2 ^ 64" and ab: "a = of_nat ?b"
      using a by (auto simp: bump_memalign_def Let_def split: if_splits)
    have ub: "unat a = ?b"
      using lt by (simp add: ab unat_of_nat)
    have "4096 dvd ?b"
    proof (cases "m = []")
      case False
      then have "region_ok (last m)" using ok by (simp add: regions_ok_def)
      then show ?thesis using False by (simp add: region_ok_def region_end_def)
    qed simp
    then show ?thesis using ub lt regions_ok_last [OF ok] by auto
  qed
  then show ?thesis by (simp add: memalign_contract_def bump_env_def Let_def)
qed

text \<open>The state after one two-page allocation, used by the witnesses.\<close>

lemma two_pages:
  defines "s \<equiv> mm_run bump_env [Alloc 8192 0] mm_init"
  shows "regions_ok (regions s)"
    and "regions s = [(4096, \<lparr>mem_base = 4096, initial_size = 8192, committed = 8192\<rparr>)]"
proof -
  show "regions_ok (regions s)"
    unfolding s_def by (rule mm_run_regions_ok [OF _ bump_memalign_contract]) (simp_all add: mm_init_def)
  show "regions s = [(4096, \<lparr>mem_base = 4096, initial_size = 8192, committed = 8192\<rparr>)]"
    by (simp add: s_def mm_alloc_def mm_init_def bump_env_def bump_memalign_def allocation_size_def
        page_size_def new_region_def)
qed

section \<open>Properties\<close>



text \<open>C13: \<open>alloc\<close> with an address accepts it exactly when some region holds the whole requested
  range, for a request whose end does not wrap; otherwise it answers \<open>(void*)-1\<close> with
  \<open>errno = EINVAL\<close>. The regions are never changed by such a call.\<close>

theorem mm_alloc_fixed_iff:
  assumes ok: "regions_ok (regions s)" and p: "p \<noteq> 0" and sz: "sz \<noteq> 0"
    and nowrap: "unat p + unat sz < 2 ^ 64"
  shows "mm_alloc E sz p s =
    (if \<exists>e\<in>set (regions s). unat (fst e) \<le> unat p \<and> unat p + unat sz \<le> region_end e
     then (p, s) else (MAP_FAILED, s\<lparr>mm_errno := EINVAL\<rparr>))"
proof (cases "regions s = []")
  case True
  with p sz show ?thesis by (simp add: mm_alloc_def)
next
  case False
  let ?m = "regions s" and ?e = "regions s ! cur_region p (regions s)"
  have e: "?e \<in> set ?m" "region_ok ?e"
    using ok cur_region_less [OF False] by (simp_all add: regions_ok_nth)
  have pos: "0 < unat sz" using sz by (simp add: unat_gt_0)
  have "within_region ?e p sz \<longleftrightarrow>
      (\<exists>x\<in>set ?m. unat (fst x) \<le> unat p \<and> unat p + unat sz \<le> region_end x)"
    using within_region_iff [OF e(2) nowrap] e(1) cur_region_holds [OF ok, of _ p] pos by force
  with False p sz show ?thesis by (simp add: mm_alloc_def)
qed

theorem mm_alloc_fixed_iff_witness:
  "mm_alloc bump_env 4096 8192 (mm_run bump_env [Alloc 8192 0] mm_init)
     = (8192, mm_run bump_env [Alloc 8192 0] mm_init)"
  using mm_alloc_fixed_iff [of "mm_run bump_env [Alloc 8192 0] mm_init" 8192 4096 bump_env] two_pages
  by (simp add: region_end_def)

text \<open>The effect of freeing a non-empty page-aligned range that lies inside a region.\<close>

lemma mm_free_inside:
  assumes ok: "regions_ok (regions s)" and e: "(b, r) \<in> set (regions s)"
    and al: "p mod page_size = 0" and sz: "0 < unat sz"
    and lo: "unat b \<le> unat p" and hi: "unat p + unat sz \<le> region_end (b, r)"
  shows "fst (mm_free p sz s) = 0 \<and>
    om_find (regions (snd (mm_free p sz s))) =
      (if sz < committed r then (om_find (regions s))(b \<mapsto> r\<lparr>committed := committed r - sz\<rparr>)
       else if sz = committed r then (om_find (regions s))(b := None)
       else om_find (regions s)) \<and>
    mm_released (snd (mm_free p sz s)) =
      (if sz = committed r then b # mm_released s else mm_released s)"
proof -
  let ?m = "regions s" and ?c = "cur_region p (regions s)"
  have rok: "region_ok (b, r)" using ok e by (simp add: regions_ok_def)
  have mok: "om_ok ?m" using ok by (simp add: regions_ok_def)
  have at: "?m ! ?c = (b, r)"
    using cur_region_holds [OF ok e, of p] lo hi sz by simp
  have ne: "?m \<noteq> []" using e by auto
  have c: "?c < length ?m" using ne by (rule cur_region_less)
  have w: "within_region (b, r) p sz"
    using within_region_iff [OF rok, of p sz] lo hi rok by (simp add: region_ok_def)
  have upd: "om_find (?m[?c := (b, r')]) = (om_find ?m)(b \<mapsto> r')" for r'
    using om_find_assign [OF mok c, of r'] at by simp
  have "committed r - sz = 0 \<longleftrightarrow> committed r = sz" by simp
  then show ?thesis
    using al ne at w upd rok om_find_erase [OF mok, of b]
    by (auto simp: mm_free_def Let_def uncommit_def region_empty_def region_ok_def not_less)
qed

text \<open>Freeing a region piece by piece: \<open>ps\<close> lists the pieces as address and size.\<close>

fun mm_free_all :: "(ptr \<times> u64) list \<Rightarrow> memory_manager \<Rightarrow> memory_manager" where
  "mm_free_all [] s = s"
| "mm_free_all ((p, sz) # ps) s = mm_free_all ps (snd (mm_free p sz s))"

definition piece_of :: "ptr \<times> MemoryRegion \<Rightarrow> ptr \<times> u64 \<Rightarrow> bool" where
  "piece_of e x \<longleftrightarrow> fst x mod page_size = 0 \<and> 0 < unat (snd x)
     \<and> unat (fst e) \<le> unat (fst x) \<and> unat (fst x) + unat (snd x) \<le> region_end e"

lemma mm_free_all_pieces:
  assumes "regions_ok (regions s)" and "om_find (regions s) b = Some r"
    and "list_all (piece_of (b, r)) ps"
    and "(\<Sum>x\<leftarrow>ps. unat (snd x)) \<le> unat (committed r)"
  shows "om_find (regions (mm_free_all ps s)) b =
      (if (\<Sum>x\<leftarrow>ps. unat (snd x)) = unat (committed r) then None
       else Some (r\<lparr>committed := committed r - of_nat (\<Sum>x\<leftarrow>ps. unat (snd x))\<rparr>))
    \<and> (\<forall>k. k \<noteq> b \<longrightarrow> om_find (regions (mm_free_all ps s)) k = om_find (regions s) k)
    \<and> mm_released (mm_free_all ps s) =
      (if (\<Sum>x\<leftarrow>ps. unat (snd x)) = unat (committed r) then b # mm_released s else mm_released s)"
  using assms
proof (induction ps arbitrary: s r)
  case Nil
  have "region_ok (b, r)"
    using Nil.prems om_find_iff_in_set [of "regions s"] by (auto simp: regions_ok_def)
  then have "committed r \<noteq> 0" by (auto simp: region_ok_def)
  with Nil show ?case by (simp add: unat_eq_zero)
next
  case (Cons x ps)
  obtain p sz where x: "x = (p, sz)" by force
  let ?s = "snd (mm_free p sz s)" and ?rest = "\<Sum>x\<leftarrow>ps. unat (snd x)"
  have mem: "(b, r) \<in> set (regions s)"
    using Cons.prems(1,2) om_find_iff_in_set [of "regions s"] by (auto simp: regions_ok_def)
  have pc: "p mod page_size = 0" "0 < unat sz" "unat b \<le> unat p"
    "unat p + unat sz \<le> region_end (b, r)"
    using Cons.prems(3) by (auto simp: x piece_of_def)
  note eff = mm_free_inside [OF Cons.prems(1) mem pc]
  have ok: "regions_ok (regions ?s)" using Cons.prems(1) by (rule mm_free_regions_ok)
  show ?case
  proof (cases "sz = committed r")
    case True
    then have "ps = []" using Cons.prems(3,4) by (cases ps) (auto simp: x piece_of_def)
    with True eff show ?thesis by (auto simp: x)
  next
    case False
    let ?r = "r\<lparr>committed := committed r - sz\<rparr>"
    have lt: "sz < committed r"
      using False Cons.prems(4) by (simp add: x word_less_nat_alt order_less_le) (metis word_unat_eq_iff)
    have uc: "unat (committed ?r) = unat (committed r) - unat sz"
      using lt by (simp add: unat_minus_le)
    have IH: "om_find (regions (mm_free_all ps ?s)) b =
      (if ?rest = unat (committed ?r) then None else Some (?r\<lparr>committed := committed ?r - of_nat ?rest\<rparr>))
      \<and> (\<forall>k. k \<noteq> b \<longrightarrow> om_find (regions (mm_free_all ps ?s)) k = om_find (regions ?s) k)
      \<and> mm_released (mm_free_all ps ?s) =
        (if ?rest = unat (committed ?r) then b # mm_released ?s else mm_released ?s)"
    proof (rule Cons.IH [OF ok])
      show "om_find (regions ?s) b = Some ?r" using eff lt by simp
      show "list_all (piece_of (b, ?r)) ps"
        using Cons.prems(3) by (simp add: piece_of_def region_end_def list_all_iff)
      show "?rest \<le> unat (committed ?r)" using Cons.prems(4) uc lt by (simp add: x)
    qed
    have "?rest = unat (committed ?r) \<longleftrightarrow> unat sz + ?rest = unat (committed r)"
      using uc lt by (auto simp: word_less_nat_alt)
    with IH eff lt False show ?thesis by (simp add: x diff_diff_eq)
  qed
qed

text \<open>freeing a region piece by piece, in any order: as long as the pieces add up to less than
  the committed size the region stays, with exactly the rest committed; when they add up to it the
  region is erased and its buffer is handed back to the allocator once. No other region changes.\<close>

theorem mm_free_pieces:
  assumes "regions_ok (regions s)" and "om_find (regions s) b = Some r"
    and "list_all (piece_of (b, r)) ps"
    and "(\<Sum>x\<leftarrow>ps. unat (snd x)) \<le> unat (committed r)"
  shows "om_find (regions (mm_free_all ps s)) b =
      (if (\<Sum>x\<leftarrow>ps. unat (snd x)) = unat (committed r) then None
       else Some (r\<lparr>committed := committed r - of_nat (\<Sum>x\<leftarrow>ps. unat (snd x))\<rparr>))
    \<and> (\<forall>k. k \<noteq> b \<longrightarrow> om_find (regions (mm_free_all ps s)) k = om_find (regions s) k)
    \<and> mm_released (mm_free_all ps s) =
      (if (\<Sum>x\<leftarrow>ps. unat (snd x)) = unat (committed r) then b # mm_released s else mm_released s)"
  using assms by (rule mm_free_all_pieces)

theorem mm_free_pieces_witness:
  "om_find (regions (mm_free_all [(8192, 4096), (4096, 4096)]
     (mm_run bump_env [Alloc 8192 0] mm_init))) 4096 = None"
  using mm_free_pieces [of "mm_run bump_env [Alloc 8192 0] mm_init" 4096
      "\<lparr>mem_base = 4096, initial_size = 8192, committed = 8192\<rparr>" "[(8192, 4096), (4096, 4096)]"]
    two_pages
  by (simp add: om_find_def piece_of_def page_size_def region_end_def)

text \<open>the boundary check of \<open>alloc\<close> adds address and size in 64 bits, so a request of
  \<open>SIZE_MAX\<close> bytes at any address inside a region is accepted although no region can hold it.\<close>

theorem mm_alloc_wraps:
  assumes ok: "regions_ok (regions s)" and e: "e \<in> set (regions s)"
    and p: "p \<noteq> 0" "unat (fst e) \<le> unat p" "unat p < region_end e"
  shows "mm_alloc E (- 1) p s = (p, s) \<and> region_end e < unat p + unat (- 1 :: u64)"
proof -
  have rok: "region_ok e" using ok e by (simp add: regions_ok_def)
  have at: "regions s ! cur_region p (regions s) = e"
    using cur_region_holds [OF ok e p(2,3)] .
  have "unat (p - 1) \<le> region_end e"
    using p by (simp add: unat_minus_one)
  then have "within_region e p (- 1)"
    using p(2) region_ok_end_word [OF rok] by (simp add: within_region_def word_le_nat_alt)
  moreover have "regions s \<noteq> []" using e by auto
  moreover have "unat (- 1 :: u64) = 2 ^ 64 - 1" by (simp add: unsigned_minus_1_eq_mask mask_eq_exp_minus_1)
  moreover have "0 < unat p" using p(1) by (simp add: unat_gt_0)
  ultimately show ?thesis using p at rok
    by (simp add: mm_alloc_def region_ok_def)
qed

theorem mm_alloc_wraps_witness:
  "fst (mm_alloc bump_env (- 1) 8192 (mm_run bump_env [Alloc 8192 0] mm_init)) = 8192"
  using mm_alloc_wraps [of "mm_run bump_env [Alloc 8192 0] mm_init"
      "(4096, \<lparr>mem_base = 4096, initial_size = 8192, committed = 8192\<rparr>)" 8192 bump_env] two_pages
  by (simp add: region_end_def)

end
