(* ===== verification/Special_Files.thy ===== *)
theory Special_Files
  imports Conclave_Prelude
begin

text \<open>
  The special files of the enclave (file\_manager.cpp): \<open>/dev/random\<close> and \<open>/dev/urandom\<close>, which give the
  random numbers of the SGX SDK, and the standard output and error. \<open>FileManager\<close> hands out handles
  from 16 upwards and is asked before the filesystems for every handle.
\<close>

section \<open>Files\<close>

datatype file_kind = RandomFile | StdFile

record special_file =
  file_kind :: file_kind
  file_handle :: int
  file_name :: string
  file_address :: ptr

text \<open>
  The bytes read and their number. \<open>rand\<close> is \<open>sgx_read_rand\<close>, which may fail.
\<close>

definition special_read :: "(u64 \<Rightarrow> bytes option) \<Rightarrow> special_file \<Rightarrow> u64 \<Rightarrow> u64 \<times> bytes" where
  "special_read rand f sz = (case file_kind f of
     RandomFile \<Rightarrow> (case rand sz of None \<Rightarrow> (0, []) | Some b \<Rightarrow> (sz, b))
   | StdFile \<Rightarrow> (0, []))"

definition special_write :: "special_file \<Rightarrow> u64 \<Rightarrow> u64" where
  "special_write f sz = (case file_kind f of RandomFile \<Rightarrow> 0 | StdFile \<Rightarrow> sz)"

section \<open>The manager\<close>

text \<open>
  \<open>files_\<close> maps a handle to a pointer, which is null (\<open>None\<close>) only when \<open>operator[]\<close> inserted it.
  \<open>next_handle_\<close> is a \<open>long\<close>, handles are \<open>int\<close>.
\<close>

record FileManager =
  files_map :: "(int \<times> special_file option) list"
  next_file_handle :: int

definition to_int32 :: "int \<Rightarrow> int" where
  "to_int32 i = sint (word_of_int i :: u32)"

definition FILENAME_RANDOM :: string where "FILENAME_RANDOM = ''/dev/random''"
definition FILENAME_URANDOM :: string where "FILENAME_URANDOM = ''/dev/urandom''"

text \<open>The addresses of the two standard files are arguments.\<close>

definition FileManager_new :: "ptr \<Rightarrow> ptr \<Rightarrow> FileManager" where
  "FileManager_new a b = \<lparr>
     files_map = [(1, Some \<lparr>file_kind = StdFile, file_handle = 1, file_name = ''stdout'', file_address = a\<rparr>),
                  (2, Some \<lparr>file_kind = StdFile, file_handle = 2, file_name = ''stderr'', file_address = b\<rparr>)],
     next_file_handle = 16\<rparr>"

definition sf_exists :: "string \<Rightarrow> bool" where
  "sf_exists name \<longleftrightarrow> name = FILENAME_RANDOM \<or> name = FILENAME_URANDOM"

definition allocateHandle :: "FileManager \<Rightarrow> int \<times> FileManager" where
  "allocateHandle m = (to_int32 (next_file_handle m), m\<lparr>next_file_handle := next_file_handle m + 1\<rparr>)"

definition sf_open :: "string \<Rightarrow> ptr \<Rightarrow> FileManager \<Rightarrow> special_file option \<times> FileManager" where
  "sf_open name addr m =
     (if sf_exists name then
        (case allocateHandle m of (h, m1) \<Rightarrow>
           let f = \<lparr>file_kind = RandomFile, file_handle = h, file_name = name, file_address = addr\<rparr> in
           (Some f, m1\<lparr>files_map := AList.update h (Some f) (files_map m1)\<rparr>))
      else (None, m))"

definition sf_close :: "int \<Rightarrow> FileManager \<Rightarrow> int \<times> FileManager" where
  "sf_close h m = (case map_of (files_map m) h of
     Some _ \<Rightarrow> (0, m\<lparr>files_map := AList.delete h (files_map m)\<rparr>)
   | None \<Rightarrow> (- 1, m))"

definition sf_close_file :: "special_file option \<Rightarrow> FileManager \<Rightarrow> int \<times> FileManager" where
  "sf_close_file f m = (case f of Some x \<Rightarrow> sf_close (file_handle x) m | None \<Rightarrow> (- 1, m))"

definition fromHandle :: "int \<Rightarrow> FileManager \<Rightarrow> special_file option" where
  "fromHandle h m = (case map_of (files_map m) h of Some f \<Rightarrow> f | None \<Rightarrow> None)"

text \<open>\<open>files_[h]\<close>: a missing entry is inserted as a null pointer.\<close>

definition at_or_null :: "int \<Rightarrow> FileManager \<Rightarrow> special_file option \<times> FileManager" where
  "at_or_null h m = (case map_of (files_map m) h of
     Some f \<Rightarrow> (f, m)
   | None \<Rightarrow> (None, m\<lparr>files_map := AList.update h None (files_map m)\<rparr>))"

text \<open>\<open>std_out\<close> and \<open>std_err\<close> are the values of the two global \<open>FILE*\<close>.\<close>

definition fromFILE :: "ptr \<Rightarrow> ptr \<Rightarrow> ptr \<Rightarrow> FileManager \<Rightarrow> special_file option \<times> FileManager" where
  "fromFILE std_out std_err fp m =
     (if fp = std_out then at_or_null 1 m
      else if fp = std_err then at_or_null 2 m
      else case find (\<lambda>(h, f). (case f of Some x \<Rightarrow> file_address x | None \<Rightarrow> 0) = fp) (files_map m) of
             Some (h, f) \<Rightarrow> (f, m)
           | None \<Rightarrow> (None, m))"

lemmas sf_defs = sf_open_def sf_close_def sf_close_file_def fromHandle_def fromFILE_def at_or_null_def allocateHandle_def

section \<open>Invariant\<close>

text \<open>
  Every handle in the table is that of a standard file or one that was handed out, and the entry
  of a handle carries it.
\<close>

definition entries_ok :: "(int \<Rightarrow> special_file option option) \<Rightarrow> int \<Rightarrow> bool" where
  "entries_ok g n \<longleftrightarrow>
     (\<forall>h f. g h = Some f \<longrightarrow> (h = 1 \<or> h = 2 \<or> (16 \<le> h \<and> h < n)) \<and> (\<forall>x. f = Some x \<longrightarrow> file_handle x = h))"

definition special_inv :: "FileManager \<Rightarrow> bool" where
  "special_inv m \<longleftrightarrow> umap_ok (files_map m) \<and> 16 \<le> next_file_handle m
     \<and> entries_ok (map_of (files_map m)) (next_file_handle m)"

lemma entries_ok_null: "entries_ok g n \<Longrightarrow> h = 1 \<or> h = 2 \<Longrightarrow> entries_ok (g(h \<mapsto> None)) n"
  by (auto simp: entries_ok_def)

lemma entries_ok_new:
  "entries_ok g n \<Longrightarrow> 16 \<le> n \<Longrightarrow> file_handle x = n \<Longrightarrow> entries_ok (g(n \<mapsto> Some x)) (n + 1)"
  by (force simp: entries_ok_def)

lemma entries_ok_erase: "entries_ok g n \<Longrightarrow> entries_ok (g(h := None)) n"
  by (auto simp: entries_ok_def)

datatype sf_call = OpenFile string ptr | CloseHandle int | Lookup ptr ptr ptr

fun sf_exec :: "sf_call \<Rightarrow> FileManager \<Rightarrow> FileManager" where
  "sf_exec (OpenFile n a) m = snd (sf_open n a m)"
| "sf_exec (CloseHandle h) m = snd (sf_close h m)"
| "sf_exec (Lookup a b p) m = snd (fromFILE a b p m)"

text \<open>Steps while the counter fits an \<open>int\<close>.\<close>

definition sf_step :: "FileManager \<Rightarrow> FileManager \<Rightarrow> bool" where
  "sf_step m m' \<longleftrightarrow> next_file_handle m < 2 ^ 31 \<and> (\<exists>c. m' = sf_exec c m)"

lemma to_int32_id: "- (2 ^ 31) \<le> i \<Longrightarrow> i < 2 ^ 31 \<Longrightarrow> to_int32 i = i"
  by (simp add: to_int32_def signed_of_int signed_take_bit_int_eq_self)

lemma special_inv_new: "special_inv (FileManager_new a b)"
  by (auto simp: special_inv_def entries_ok_def FileManager_new_def split: if_split_asm)

lemma special_inv_at_or_null:
  "special_inv m \<Longrightarrow> h = 1 \<or> h = 2 \<Longrightarrow> special_inv (snd (at_or_null h m))"
  by (auto simp: special_inv_def at_or_null_def update_conv' intro: entries_ok_null split: option.split)

lemma special_inv_exec:
  assumes "special_inv m" and "next_file_handle m < 2 ^ 31"
  shows "special_inv (sf_exec c m)"
proof (cases c)
  case (OpenFile n a)
  have "to_int32 (next_file_handle m) = next_file_handle m"
    using assms by (intro to_int32_id) (auto simp: special_inv_def)
  then show ?thesis using assms OpenFile
    by (auto simp: special_inv_def sf_open_def allocateHandle_def Let_def update_conv' intro: entries_ok_new)
next
  case (CloseHandle h)
  then show ?thesis using assms
    by (auto simp: special_inv_def sf_close_def delete_conv' intro: entries_ok_erase split: option.split)
next
  case (Lookup a b p)
  then show ?thesis using assms special_inv_at_or_null [of m]
    by (auto simp: fromFILE_def split: option.split)
qed

interpretation special_files: kept_invariant sf_step special_inv
  by unfold_locales (auto simp: sf_step_def intro: special_inv_exec)

end
