(* ===== verification/Disk_Types.thy ===== *)
theory Disk_Types
  imports Conclave_Prelude
begin

text \<open>
  The vocabulary of the disk layer: the result codes of \<open>cpp/fatfs/common/include/diskio.hpp\<close> and
  \<open>fatfs_result.hpp\<close>, the base class \<open>FatFsDisk\<close> of \<open>cpp/fatfs/enclave/src/disk.cpp\<close>, and the
  contract \<open>sector_store\<close> of a drive as an array of sectors, which the concrete drives interpret.
  Field names drop the trailing underscore of the C++ members.
\<close>

section \<open>Result codes\<close>

datatype DRESULT = RES_OK | RES_ERROR | RES_WRPRT | RES_NOTRDY | RES_PARERR

datatype FatFsResult =
    FatFs_OK | FatFs_ERROR | MOUNT_FAILED | UMOUNT_FAILED | MKFS_GENERIC_ERROR | MKFS_ABORTED
  | WRONG_DRIVE_ID | DRIVE_REGISTRATION_FAILED | DRIVE_UNREGISTRATION_FAILED
  | ROOT_DIRECTORY_MOUNT_FAILED

datatype DiskInitialization = FORMAT | OPEN | INIT_ERROR

text \<open>\<open>disk_ioctl\<close> command codes, and what a call stores through its \<open>void*\<close> argument.\<close>

definition CTRL_SYNC :: u8 where "CTRL_SYNC = 0"
definition GET_SECTOR_COUNT :: u8 where "GET_SECTOR_COUNT = 1"
definition GET_SECTOR_SIZE :: u8 where "GET_SECTOR_SIZE = 2"
definition GET_BLOCK_SIZE :: u8 where "GET_BLOCK_SIZE = 3"

datatype ioctl_out = NoOut | OutWord u16 | OutLba u32

definition SECTOR_SIZE :: nat where "SECTOR_SIZE = 512"
definition FF_VOLUMES :: u8 where "FF_VOLUMES = 2"

lemmas disk_consts = CTRL_SYNC_def GET_SECTOR_COUNT_def GET_SECTOR_SIZE_def GET_BLOCK_SIZE_def
  SECTOR_SIZE_def FF_VOLUMES_def

declare disk_consts [cpp_defs]

section \<open>The base class\<close>

text \<open>\<open>std::to_string\<close> of an unsigned integer.\<close>

fun dec_string :: "nat \<Rightarrow> string" where
  "dec_string n = (if n < 10 then [char_of (48 + n)] else dec_string (n div 10) @ [char_of (48 + n mod 10)])"

declare dec_string.simps [simp del]

record FatFsDisk =
  drive_id :: u8
  drive_size :: u64
  num_sectors :: u64
  filesystem :: ptr

text \<open>\<open>fs\<close> is the address of the FATFS work area the constructor allocates.\<close>

definition FatFsDisk_new :: "u8 \<Rightarrow> u64 \<Rightarrow> ptr \<Rightarrow> FatFsDisk cpp" where
  "FatFsDisk_new drive sz fs =
     (if drive \<ge> FF_VOLUMES then Throw (RuntimeError ''Error, wrong drive id provided'')
      else Ret \<lparr>drive_id = drive, drive_size = sz, num_sectors = sz div 512, filesystem = fs\<rparr>)"

definition getDriveTextId :: "'a FatFsDisk_scheme \<Rightarrow> string" where
  "getDriveTextId d = dec_string (unat (drive_id d)) @ '':''"

definition diskInitialize :: "'a FatFsDisk_scheme \<Rightarrow> DRESULT" where
  "diskInitialize d = RES_OK"

definition diskStatus :: "'a FatFsDisk_scheme \<Rightarrow> DRESULT" where
  "diskStatus d = RES_OK"

lemma FatFsDisk_new_Ret:
  "FatFsDisk_new drive sz fs = Ret d \<Longrightarrow>
     drive_id d < FF_VOLUMES \<and> drive_size d = sz \<and> unat (num_sectors d) = unat sz div 512"
  by (auto simp: FatFsDisk_new_def unat_div not_le split: if_splits)

section \<open>A drive as an array of sectors\<close>

text \<open>
  \<open>bsz\<close> is the size of a block and \<open>cap\<close> the number of usable ones; reading and writing a usable sector succeed, a write is
  read back, and no other sector changes. The abstraction \<open>contents\<close> is a map from sector numbers.
\<close>

locale sector_store =
  fixes bsz :: nat
    and ok :: "'d \<Rightarrow> bool"
    and cap :: "'d \<Rightarrow> nat"
    and rd :: "'d \<Rightarrow> nat \<Rightarrow> bytes option"
    and wr :: "'d \<Rightarrow> nat \<Rightarrow> bytes \<Rightarrow> 'd option"
  assumes rd_total: "ok d \<Longrightarrow> s < cap d \<Longrightarrow> \<exists>b. rd d s = Some b \<and> length b = bsz"
    and wr_total: "ok d \<Longrightarrow> s < cap d \<Longrightarrow> length b = bsz \<Longrightarrow>
          \<exists>d'. wr d s b = Some d' \<and> ok d' \<and> cap d' = cap d"
    and rd_wr_same: "ok d \<Longrightarrow> s < cap d \<Longrightarrow> length b = bsz \<Longrightarrow>
          wr d s b = Some d' \<Longrightarrow> rd d' s = Some b"
    and rd_wr_other: "ok d \<Longrightarrow> s < cap d \<Longrightarrow> length b = bsz \<Longrightarrow>
          wr d s b = Some d' \<Longrightarrow> t < cap d \<Longrightarrow> t \<noteq> s \<Longrightarrow> rd d' t = rd d t"
begin

definition contents :: "'d \<Rightarrow> nat \<rightharpoonup> bytes" where
  "contents d = (\<lambda>s. if s < cap d then rd d s else None)"

fun write_all :: "(nat \<times> bytes) list \<Rightarrow> 'd \<Rightarrow> 'd option" where
  "write_all [] d = Some d"
| "write_all ((s, b) # ws) d = (case wr d s b of None \<Rightarrow> None | Some d' \<Rightarrow> write_all ws d')"

definition usable :: "'d \<Rightarrow> nat \<times> bytes \<Rightarrow> bool" where
  "usable d w \<longleftrightarrow> fst w < cap d \<and> length (snd w) = bsz"

lemma contents_wr:
  assumes "ok d" and "s < cap d" and "length b = bsz" and "wr d s b = Some d'"
  shows "contents d' = (contents d)(s \<mapsto> b)"
proof -
  have "cap d' = cap d" using assms wr_total by fastforce
  then show ?thesis
    using assms rd_wr_same rd_wr_other by (auto simp: contents_def fun_eq_iff)
qed

text \<open>A sequence of writes leaves every sector with the last block written to it.\<close>

lemma contents_write_all:
  assumes "ok d" and "list_all (usable d) ws"
  shows "\<exists>d'. write_all ws d = Some d' \<and> ok d' \<and> cap d' = cap d
    \<and> contents d' = contents d ++ map_of (rev ws)"
  using assms
proof (induction ws arbitrary: d)
  case (Cons w ws)
  obtain s b where w: "w = (s, b)" by force
  have u: "s < cap d" "length b = bsz" using Cons.prems(2) by (auto simp: w usable_def)
  obtain d1 where d1: "wr d s b = Some d1" "ok d1" "cap d1 = cap d"
    using wr_total [OF Cons.prems(1) u] by blast
  have "list_all (usable d1) ws" using Cons.prems(2) d1(3) by (simp add: usable_def list_all_iff)
  from Cons.IH [OF d1(2) this] obtain d2
    where "write_all ws d1 = Some d2" "ok d2" "cap d2 = cap d1"
      "contents d2 = contents d1 ++ map_of (rev ws)" by blast
  then show ?case
    using d1 contents_wr [OF Cons.prems(1) u d1(1)] by (simp add: w map_add_def fun_eq_iff split: option.split)
qed simp

text \<open>The same, with the writes as a fold and the reads spelled out.\<close>

lemma write_all_foldl: "foldl (\<lambda>a w. Option.bind a (\<lambda>e. wr e (fst w) (snd w))) (Some d) ws = write_all ws d"
proof (induction ws arbitrary: d)
  case (Cons w ws)
  have "foldl (\<lambda>a w. Option.bind a (\<lambda>e. wr e (fst w) (snd w))) None ws = None" for ws
    by (induction ws) auto
  with Cons show ?case by (cases w) (auto split: option.split)
qed simp

lemma reads_after_writes:
  assumes "ok d" and "list_all (\<lambda>w. fst w < cap d \<and> length (snd w) = bsz) ws"
  shows "\<exists>d'. foldl (\<lambda>a w. Option.bind a (\<lambda>e. wr e (fst w) (snd w))) (Some d) ws = Some d'
    \<and> (\<forall>s<cap d. rd d' s = (case map_of (rev ws) s of Some b \<Rightarrow> Some b | None \<Rightarrow> rd d s))"
proof -
  have "list_all (usable d) ws" using assms(2) by (simp add: usable_def list_all_iff)
  from contents_write_all [OF assms(1) this] obtain d'
    where d': "write_all ws d = Some d'" "cap d' = cap d"
      and c: "contents d' = contents d ++ map_of (rev ws)" by blast
  have "rd d' s = (case map_of (rev ws) s of Some b \<Rightarrow> Some b | None \<Rightarrow> rd d s)" if "s < cap d" for s
    using fun_cong [OF c, of s] that d'(2) by (simp add: contents_def map_add_def split: option.splits)
  with d' show ?thesis by (auto simp: write_all_foldl)
qed

end

end
