(* ===== verification/InMemory_Disk.thy ===== *)
theory InMemory_Disk
  imports Disk_Types
begin

text \<open>
  The volatile drive: \<open>cpp/fatfs/enclave/src/inmemory_disk.cpp\<close>. The RAM buffer is its address and
  its bytes; the range checks are the code's pointer comparisons, in the code's widths: \<open>diskRead\<close>
  multiplies the 32-bit sector number by the sector size in 32 bits, \<open>diskWrite\<close> in 64 bits.
\<close>

record inmemory_disk = FatFsDisk +
  ram_buffer :: "(ptr \<times> bytes) option"

definition InMemoryDisk_new :: "u8 \<Rightarrow> u64 \<Rightarrow> ptr \<Rightarrow> inmemory_disk cpp" where
  "InMemoryDisk_new drive sz fs =
     cbind (FatFsDisk_new drive sz fs) (\<lambda>d. Ret (FatFsDisk.extend d \<lparr>ram_buffer = None\<rparr>))"

text \<open>\<open>calloc_ret\<close> is the address \<open>calloc\<close> returns, 0 when it fails.\<close>

definition imd_diskStart :: "ptr \<Rightarrow> inmemory_disk \<Rightarrow> inmemory_disk cpp" where
  "imd_diskStart calloc_ret d =
     (if calloc_ret = 0
      then Throw (RuntimeError ''Could not allocate memory for the RAM disk in the Enclave'')
      else Ret (d\<lparr>ram_buffer := Some (calloc_ret, replicate (unat (drive_size d)) 0)\<rparr>))"

definition imd_diskStop :: "inmemory_disk \<Rightarrow> inmemory_disk" where
  "imd_diskStop d = d\<lparr>ram_buffer := None\<rparr>"

definition ram_first :: "inmemory_disk \<Rightarrow> ptr" where
  "ram_first d = (case ram_buffer d of None \<Rightarrow> 0 | Some (a, _) \<Rightarrow> a)"

text \<open>\<open>memcpy\<close> from and to the address range \<open>[p, p + n)\<close>: undefined unless it lies in the buffer.\<close>

definition imd_load :: "inmemory_disk \<Rightarrow> ptr \<Rightarrow> nat \<Rightarrow> bytes cpp" where
  "imd_load d p n =
     (case ram_buffer d of
        None \<Rightarrow> Undef
      | Some (a, buf) \<Rightarrow>
          if a \<le> p \<and> unat (p - a) + n \<le> length buf then Ret (slice buf (unat (p - a)) n) else Undef)"

definition imd_store :: "inmemory_disk \<Rightarrow> ptr \<Rightarrow> bytes \<Rightarrow> inmemory_disk cpp" where
  "imd_store d p src =
     (case ram_buffer d of
        None \<Rightarrow> Undef
      | Some (a, buf) \<Rightarrow>
          if a \<le> p \<and> unat (p - a) + length src \<le> length buf
          then Ret (d\<lparr>ram_buffer := Some (a, blit buf (unat (p - a)) src)\<rparr>) else Undef)"

definition imd_diskRead :: "inmemory_disk \<Rightarrow> u32 \<Rightarrow> u8 \<Rightarrow> (DRESULT \<times> bytes) cpp" where
  "imd_diskRead d start num_reads =
     (let first = ram_first d;
          read_from = first + ucast (start * 512);
          read_size = (ucast num_reads :: u64) * 512 in
      if read_from \<ge> first \<and> read_from + read_size < first + drive_size d
      then cbind (imd_load d read_from (unat read_size)) (\<lambda>b. Ret (RES_OK, b))
      else Ret (RES_PARERR, []))"

text \<open>The source buffer holds \<open>num * SECTOR_SIZE\<close> bytes, as the caller guarantees.\<close>

definition imd_diskWrite :: "inmemory_disk \<Rightarrow> bytes \<Rightarrow> u32 \<Rightarrow> u8 \<Rightarrow> (DRESULT \<times> inmemory_disk) cpp" where
  "imd_diskWrite d input_buf start num =
     (let first = ram_first d;
          write_to = first + (ucast start :: u64) * 512;
          write_size = (ucast num :: u64) * 512 in
      if write_to \<ge> first \<and> write_to + write_size < first + drive_size d
      then cbind (imd_store d write_to (take (unat write_size) input_buf)) (\<lambda>d'. Ret (RES_OK, d'))
      else Ret (RES_PARERR, d))"

definition imd_diskIoCtl :: "inmemory_disk \<Rightarrow> u8 \<Rightarrow> DRESULT \<times> ioctl_out" where
  "imd_diskIoCtl d cmd =
     (if cmd = CTRL_SYNC then (RES_OK, NoOut)
      else if cmd = GET_BLOCK_SIZE then (RES_PARERR, NoOut)
      else if cmd = GET_SECTOR_SIZE then (RES_OK, OutWord 512)
      else if cmd = GET_SECTOR_COUNT then (RES_OK, OutLba (ucast (num_sectors d)))
      else (RES_ERROR, NoOut))"

section \<open>Well-formed drives\<close>

text \<open>A started drive whose buffer lies in the lower half of the address space, as user space does.\<close>

definition imd_ok :: "inmemory_disk \<Rightarrow> bool" where
  "imd_ok d \<longleftrightarrow> (case ram_buffer d of
      None \<Rightarrow> False
    | Some (a, buf) \<Rightarrow> a \<noteq> 0 \<and> length buf = unat (drive_size d) \<and> unat a + length buf < 2 ^ 63)"

definition ram_bytes :: "inmemory_disk \<Rightarrow> bytes" where
  "ram_bytes d = (case ram_buffer d of None \<Rightarrow> [] | Some (_, buf) \<Rightarrow> buf)"

text \<open>The byte offset each operation computes.\<close>

definition read_offset :: "u32 \<Rightarrow> nat" where
  "read_offset start = unat start * 512 mod 2 ^ 32"

definition write_offset :: "u32 \<Rightarrow> nat" where
  "write_offset start = unat start * 512"

lemma unat_read_offset: "unat (start * 512) = read_offset start" for start :: u32
  by (simp add: read_offset_def unat_word_ariths)

lemma transfer_size: "unat ((ucast n :: u64) * 512) = unat n * 512" for n :: u8
  using u8_lt [of n] by (subst unat_mult_no_wrap) simp_all

text \<open>The pointer comparisons amount to a comparison of numbers.\<close>

lemma imd_range_check:
  fixes off sz first :: u64
  assumes "unat first < 2 ^ 63" and "unat off < 2 ^ 42" and "unat sz < 2 ^ 42"
    and "unat first + unat dsize < 2 ^ 63"
  shows "(first + off \<ge> first \<and> first + off + sz < first + dsize) \<longleftrightarrow>
      unat off + unat sz < unat dsize"
    and "unat (first + off) = unat first + unat off"
    and "unat (first + off - first) = unat off"
proof -
  show o: "unat (first + off) = unat first + unat off"
    using assms by (intro unat_add_no_wrap) simp
  have "unat (first + off + sz) = unat first + unat off + unat sz"
    using assms o by (subst unat_add_no_wrap) simp_all
  moreover have "unat (first + dsize) = unat first + unat dsize"
    using assms by (intro unat_add_no_wrap) simp
  ultimately show "(first + off \<ge> first \<and> first + off + sz < first + dsize) \<longleftrightarrow>
      unat off + unat sz < unat dsize"
    using o by (auto simp: word_le_nat_alt word_less_nat_alt)
  show "unat (first + off - first) = unat off" by simp
qed

lemma imd_diskRead_eq:
  assumes "imd_ok d"
  shows "imd_diskRead d start n =
    (if read_offset start + unat n * 512 < unat (drive_size d)
     then Ret (RES_OK, slice (ram_bytes d) (read_offset start) (unat n * 512))
     else Ret (RES_PARERR, []))"
proof -
  obtain a buf where d: "ram_buffer d = Some (a, buf)" "a \<noteq> 0"
    "length buf = unat (drive_size d)" "unat a + length buf < 2 ^ 63"
    using assms by (auto simp: imd_ok_def split: option.splits)
  let ?off = "ucast (start * 512) :: u64" and ?sz = "(ucast n :: u64) * 512"
  have off: "unat ?off = read_offset start" by (simp add: unat_read_offset)
  have b: "unat a < 2 ^ 63" "unat ?off < 2 ^ 42" "unat ?sz < 2 ^ 42"
    "unat a + unat (drive_size d) < 2 ^ 63"
    using d off u8_lt [of n] by (simp_all add: transfer_size read_offset_def)
  note r = imd_range_check [OF b(1) b(2) b(3) b(4)]
  have "a \<le> a + ?off" using r(2) by (simp add: word_le_nat_alt)
  with r d off show ?thesis
    by (simp add: imd_diskRead_def ram_first_def imd_load_def ram_bytes_def transfer_size)
qed

lemma imd_diskWrite_eq:
  assumes "imd_ok d" and "length src = unat n * 512"
  shows "imd_diskWrite d src start n =
    (if write_offset start + unat n * 512 < unat (drive_size d)
     then Ret (RES_OK, d\<lparr>ram_buffer := Some (ram_first d, blit (ram_bytes d) (write_offset start) src)\<rparr>)
     else Ret (RES_PARERR, d))"
proof -
  obtain a buf where d: "ram_buffer d = Some (a, buf)" "a \<noteq> 0"
    "length buf = unat (drive_size d)" "unat a + length buf < 2 ^ 63"
    using assms(1) by (auto simp: imd_ok_def split: option.splits)
  let ?off = "(ucast start :: u64) * 512" and ?sz = "(ucast n :: u64) * 512"
  have off: "unat ?off = write_offset start"
    using u32_lt [of start] by (subst unat_mult_no_wrap) (simp_all add: write_offset_def)
  have b: "unat a < 2 ^ 63" "unat ?off < 2 ^ 42" "unat ?sz < 2 ^ 42"
    "unat a + unat (drive_size d) < 2 ^ 63"
    using d off u8_lt [of n] u32_lt [of start] by (simp_all add: transfer_size write_offset_def)
  note r = imd_range_check [OF b(1) b(2) b(3) b(4)]
  have "a \<le> a + ?off" using r(2) by (simp add: word_le_nat_alt)
  with r d off assms(2) show ?thesis
    by (simp add: imd_diskWrite_def ram_first_def imd_store_def ram_bytes_def transfer_size)
qed

section \<open>The drive as an array of sectors\<close>

definition imd_rd :: "inmemory_disk \<Rightarrow> nat \<Rightarrow> bytes option" where
  "imd_rd d s = (case imd_diskRead d (of_nat s) 1 of Ret (RES_OK, b) \<Rightarrow> Some b | _ \<Rightarrow> None)"

definition imd_wr :: "inmemory_disk \<Rightarrow> nat \<Rightarrow> bytes \<Rightarrow> inmemory_disk option" where
  "imd_wr d s b = (case imd_diskWrite d b (of_nat s) 1 of Ret (RES_OK, d') \<Rightarrow> Some d' | _ \<Rightarrow> None)"

text \<open>The sectors that both operations reach: the check is strict, and reads stop at 4 GiB.\<close>

definition imd_cap :: "inmemory_disk \<Rightarrow> nat" where
  "imd_cap d = min (2 ^ 23) ((unat (drive_size d) - 1) div 512)"

lemma imd_ok_bytes: "imd_ok d \<Longrightarrow> length (ram_bytes d) = unat (drive_size d)"
  by (auto simp: imd_ok_def ram_bytes_def split: option.splits)

lemma imd_ok_update:
  "imd_ok d \<Longrightarrow> length buf = length (ram_bytes d) \<Longrightarrow>
    imd_ok (d\<lparr>ram_buffer := Some (ram_first d, buf)\<rparr>)"
  by (auto simp: imd_ok_def ram_bytes_def ram_first_def split: option.splits)

lemma imd_cap_less:
  "s < imd_cap d \<Longrightarrow> s < 2 ^ 23 \<and> s * 512 + 512 < unat (drive_size d)"
proof -
  assume "s < imd_cap d"
  then have s: "s < 2 ^ 23" "Suc s \<le> (unat (drive_size d) - 1) div 512"
    by (auto simp: imd_cap_def)
  then have "Suc s * 512 \<le> unat (drive_size d) - 1"
    by (metis less_eq_div_iff_mult_less_eq zero_less_numeral)
  then show ?thesis using s(1) by simp
qed

lemma sector_offsets:
  assumes "s < 2 ^ 23"
  shows "read_offset (of_nat s) = s * 512" and "write_offset (of_nat s) = s * 512"
proof -
  have "unat (of_nat s :: u32) = s" using assms by (simp add: unat_of_nat)
  then show "read_offset (of_nat s) = s * 512" and "write_offset (of_nat s) = s * 512"
    using assms by (simp_all add: read_offset_def write_offset_def)
qed

lemma imd_rd_eq:
  "imd_ok d \<Longrightarrow> s < imd_cap d \<Longrightarrow> imd_rd d s = Some (slice (ram_bytes d) (s * 512) 512)"
  using imd_cap_less [of s d] by (simp add: imd_rd_def imd_diskRead_eq sector_offsets)

lemma imd_wr_eq:
  "imd_ok d \<Longrightarrow> s < imd_cap d \<Longrightarrow> length b = 512 \<Longrightarrow>
    imd_wr d s b = Some (d\<lparr>ram_buffer := Some (ram_first d, blit (ram_bytes d) (s * 512) b)\<rparr>)"
  using imd_cap_less [of s d] by (simp add: imd_wr_def imd_diskWrite_eq sector_offsets)

interpretation imd: sector_store 512 imd_ok imd_cap imd_rd imd_wr
proof (unfold_locales, goal_cases)
  case (1 d s)
  then show ?case using imd_cap_less [of s d] by (simp add: imd_rd_eq imd_ok_bytes)
next
  case (2 d s b)
  then show ?case using imd_cap_less [of s d]
    by (auto simp: imd_wr_eq imd_ok_bytes imd_cap_def intro!: imd_ok_update)
next
  case (3 d s b d')
  then have d': "d' = d\<lparr>ram_buffer := Some (ram_first d, blit (ram_bytes d) (s * 512) b)\<rparr>"
    by (simp add: imd_wr_eq)
  then have "imd_ok d'" "imd_cap d' = imd_cap d" "ram_bytes d' = blit (ram_bytes d) (s * 512) b"
    using 3 imd_cap_less [of s d]
    by (auto simp: imd_ok_bytes imd_cap_def ram_bytes_def [of "d\<lparr>ram_buffer := _\<rparr>"] intro!: imd_ok_update)
  then show ?case
    using 3 imd_cap_less [of s d] slice_blit_same [of "s * 512" b "ram_bytes d"]
    by (simp add: imd_rd_eq imd_ok_bytes)
next
  case (4 d s b d' t)
  then have d': "d' = d\<lparr>ram_buffer := Some (ram_first d, blit (ram_bytes d) (s * 512) b)\<rparr>"
    by (simp add: imd_wr_eq)
  then have "imd_ok d'" "imd_cap d' = imd_cap d" "ram_bytes d' = blit (ram_bytes d) (s * 512) b"
    using 4 imd_cap_less [of s d]
    by (auto simp: imd_ok_bytes imd_cap_def ram_bytes_def [of "d\<lparr>ram_buffer := _\<rparr>"] intro!: imd_ok_update)
  moreover have "t * 512 + 512 \<le> s * 512 \<or> s * 512 + 512 \<le> t * 512"
    using 4(6) by linarith
  ultimately show ?case
    using 4 imd_cap_less [of s d] imd_cap_less [of t d]
      slice_blit_other [of "s * 512" b "ram_bytes d" "t * 512" 512]
    by (simp add: imd_rd_eq imd_ok_bytes)
qed

section \<open>Properties\<close>

text \<open>A started drive of two gigabytes and one of four gigabytes and two sectors, for the witnesses.\<close>

definition example_disk :: "u64 \<Rightarrow> inmemory_disk" where
  "example_disk sz = \<lparr>drive_id = 0, drive_size = sz, num_sectors = sz div 512, filesystem = 8,
     ram_buffer = Some (65536, replicate (unat sz) 0)\<rparr>"

lemma example_disk_ok: "unat sz < 2 ^ 62 \<Longrightarrow> imd_ok (example_disk sz)"
  by (simp add: imd_ok_def example_disk_def)

text \<open>C19: on a started drive \<open>diskRead\<close> and \<open>diskWrite\<close> never touch memory outside the RAM buffer:
  both return (nothing undefined happens), a write keeps the drive well formed and is accepted
  exactly when the last byte it would write lies strictly before the last byte of the drive.\<close>

theorem imd_memory_safe:
  assumes "imd_ok d" and "length src = unat n * 512"
  shows "((\<exists>b. imd_diskRead d start n = Ret (RES_OK, b) \<and> length b = unat n * 512)
      \<or> imd_diskRead d start n = Ret (RES_PARERR, [])) \<and>
    (\<exists>r d'. imd_diskWrite d src start n = Ret (r, d') \<and> imd_ok d'
      \<and> (if (unat start + unat n) * 512 < unat (drive_size d) then r = RES_OK else r = RES_PARERR \<and> d' = d))"
  using assms imd_ok_update [OF assms(1)]
  by (auto simp: imd_diskRead_eq imd_diskWrite_eq imd_ok_bytes write_offset_def algebra_simps)

theorem imd_memory_safe_witness:
  "\<exists>r d'. imd_diskWrite (example_disk 100000) (replicate 512 7) 3 1 = Ret (r, d') \<and> imd_ok d' \<and> r = RES_OK"
  using imd_memory_safe [of "example_disk 100000" "replicate 512 7" 1 3]
  by (simp add: example_disk_ok) (simp add: example_disk_def)

text \<open>C18: the drive implements an array of sectors: after any list of one-sector writes through
  \<open>diskWrite\<close>, each answered \<open>RES_OK\<close>, \<open>diskRead\<close> finds in every sector the last block written to
  it, and the old contents in the others.\<close>

theorem imd_refines_sector_array:
  assumes "imd_ok d"
    and "list_all (\<lambda>w. fst w < imd_cap d \<and> length (snd w) = 512) ws"
  shows "\<exists>d'. foldl (\<lambda>a w. Option.bind a (\<lambda>e. imd_wr e (fst w) (snd w))) (Some d) ws = Some d'
    \<and> (\<forall>s<imd_cap d. imd_rd d' s =
          (case map_of (rev ws) s of Some b \<Rightarrow> Some b | None \<Rightarrow> imd_rd d s))"
  using assms by (rule imd.reads_after_writes)

theorem imd_refines_sector_array_witness:
  "\<exists>d'. imd_wr (example_disk 100000) 5 (replicate 512 1) = Some d'
     \<and> imd_rd d' 5 = Some (replicate 512 1) \<and> imd_rd d' 6 = imd_rd (example_disk 100000) 6"
proof -
  have cap: "imd_cap (example_disk 100000) = 195" by (simp add: imd_cap_def example_disk_def)
  obtain d' where d': "imd_wr (example_disk 100000) 5 (replicate 512 1) = Some d'"
    and all: "\<forall>s<195. imd_rd d' s =
      (case map_of [(5, replicate 512 1)] s of Some b \<Rightarrow> Some b | None \<Rightarrow> imd_rd (example_disk 100000) s)"
    using imd_refines_sector_array [of "example_disk 100000" "[(5, replicate 512 1)]"]
    by (auto simp: cap example_disk_ok)
  from all have "imd_rd d' 5 = Some (replicate 512 1)" and "imd_rd d' 6 = imd_rd (example_disk 100000) 6"
    by simp_all
  with d' show ?thesis by blast
qed

text \<open>a drive whose size is a whole number of sectors reports all of them through
  \<open>GET_SECTOR_COUNT\<close>, but its last sector can be neither read nor written: the range checks compare
  with \<open><\<close> where \<open>\<le>\<close> is needed.\<close>

theorem imd_last_sector_unreachable:
  assumes ok: "imd_ok d" and sz: "unat (drive_size d) = k * 512" and k: "0 < k" "k \<le> 2 ^ 23"
    and n: "num_sectors d = drive_size d div 512" and b: "length b = 512"
  shows "imd_diskIoCtl d GET_SECTOR_COUNT = (RES_OK, OutLba (of_nat k))
    \<and> imd_diskRead d (of_nat (k - 1)) 1 = Ret (RES_PARERR, [])
    \<and> imd_diskWrite d b (of_nat (k - 1)) 1 = Ret (RES_PARERR, d)"
proof -
  have "unat (num_sectors d) = k" using n sz by (simp add: unat_div)
  then have "ucast (num_sectors d) = (of_nat k :: u32)"
    using of_nat_unat [of "num_sectors d"] by metis
  moreover have "k - 1 < 2 ^ 23" using k by simp
  note sector_offsets [OF this]
  moreover have "(k - 1) * 512 + 512 = k * 512" using k by (cases k) auto
  ultimately show ?thesis
    using ok b sz by (simp add: imd_diskIoCtl_def disk_consts imd_diskRead_eq imd_diskWrite_eq)
qed

theorem imd_last_sector_unreachable_witness:
  "imd_diskRead (example_disk 102400) 199 1 = Ret (RES_PARERR, [])"
  using imd_last_sector_unreachable [of "example_disk 102400" 200 "replicate 512 0"]
  by (simp add: example_disk_ok) (simp add: example_disk_def)

text \<open>\<open>diskRead\<close> computes the byte offset in 32 bits, so on a drive of more than 4 GiB sector
  \<open>2 ^ 23\<close> can be written, but reading it back gives sector 0.\<close>

theorem imd_read_offset_wraps:
  assumes ok: "imd_ok d" and sz: "2 ^ 32 + 512 < unat (drive_size d)" and b: "length b = 512"
  shows "\<exists>d'. imd_diskWrite d b (2 ^ 23) 1 = Ret (RES_OK, d')
    \<and> imd_diskRead d' (2 ^ 23) 1 = imd_diskRead d 0 1"
proof -
  have off: "write_offset (2 ^ 23) = 2 ^ 32" "read_offset (2 ^ 23) = 0" "read_offset 0 = 0"
    by (simp_all add: write_offset_def read_offset_def)
  let ?d = "d\<lparr>ram_buffer := Some (ram_first d, blit (ram_bytes d) (2 ^ 32) b)\<rparr>"
  have len: "2 ^ 32 + length b \<le> length (ram_bytes d)" using sz b ok by (simp add: imd_ok_bytes)
  have "imd_ok ?d" using ok len by (intro imd_ok_update) auto
  moreover have "slice (blit (ram_bytes d) (2 ^ 32) b) 0 512 = slice (ram_bytes d) 0 512"
    using len b by (intro slice_blit_other) auto
  moreover have "ram_bytes ?d = blit (ram_bytes d) (2 ^ 32) b" by (simp add: ram_bytes_def)
  ultimately show ?thesis
    using ok sz b off by (simp add: imd_diskWrite_eq imd_diskRead_eq)
qed

theorem imd_read_offset_wraps_witness:
  "\<exists>d'. imd_diskWrite (example_disk 8589934592) (replicate 512 1) (2 ^ 23) 1 = Ret (RES_OK, d')
    \<and> imd_diskRead d' (2 ^ 23) 1 = imd_diskRead (example_disk 8589934592) 0 1"
  by (rule imd_read_offset_wraps) (simp_all add: example_disk_ok, simp_all add: example_disk_def)

end
