(* ===== verification/Host_Bridge.thy ===== *)
theory Host_Bridge
  imports Disk_Types
begin

text \<open>
  The untrusted side of the persistent drive: the JNI bridge
  \<open>cpp/fatfs/host/src/persistent_disk.cpp\<close>, the OCalls of \<open>cpp/jvm-host/src/host_jni.cpp\<close> that call
  it, and the file operations of \<open>FileSystemHandler.kt\<close> at the other end of the bridge. The JNI
  itself is a parameter: whether attaching the thread, finding the class or a method and creating
  a byte array succeed.
\<close>

section \<open>The file behind a drive\<close>

text \<open>
  A \<open>RandomAccessFile\<close> is its bytes; writing past the end extends it. \<open>header_size\<close> is the size of
  the header in front of the sectors, \<open>attached\<close> counts threads attached to the JVM and not yet
  detached.
\<close>

record fs_host =
  hfile :: bytes
  header_size :: nat
  attached :: nat

record jni =
  jni_attach :: "fs_host \<Rightarrow> bool"
  jni_class :: "fs_host \<Rightarrow> bool"
  jni_method :: "string \<Rightarrow> fs_host \<Rightarrow> bool"
  jni_new_array :: "u32 \<Rightarrow> fs_host \<Rightarrow> bool"

definition file_write :: "bytes \<Rightarrow> nat \<Rightarrow> bytes \<Rightarrow> bytes" where
  "file_write f pos src = blit (f @ replicate (pos + length src - length f) 0) pos src"

text \<open>\<open>read\<close> of the handler: \<open>readFully\<close> throws when the file is too short.\<close>

definition fsh_read :: "u64 \<Rightarrow> nat \<Rightarrow> nat \<Rightarrow> fs_host \<Rightarrow> bytes option" where
  "fsh_read sector_id n sector_size h =
     (let pos = unat sector_id * sector_size + header_size h in
      if pos + n * sector_size \<le> length (hfile h)
      then Some (slice (hfile h) pos (n * sector_size)) else None)"

definition fsh_write :: "bytes \<Rightarrow> nat \<Rightarrow> u64 \<Rightarrow> fs_host \<Rightarrow> int \<times> fs_host" where
  "fsh_write input sector_size sector h =
     (int sector_size,
      h\<lparr>hfile := file_write (hfile h) (unat sector * sector_size + header_size h) (take sector_size input)\<rparr>)"

text \<open>
  \<open>getDriveSize\<close>: an empty file gets the header (size of the header, version, enclave mode, size of
  the drive) and 0 is returned; otherwise the header is checked against the configuration. The
  flag says that an exception is pending.
\<close>

definition VERSION_1_HEADER_SIZE :: nat where "VERSION_1_HEADER_SIZE = 14"

definition fsh_getDriveSize :: "u8 \<Rightarrow> u64 \<Rightarrow> fs_host \<Rightarrow> int \<times> bool \<times> fs_host" where
  "fsh_getDriveSize mode config_size h =
     (if length (hfile h) = 0 then
        (0, False,
         h\<lparr>header_size := VERSION_1_HEADER_SIZE,
           hfile := be_bytes 4 (of_nat VERSION_1_HEADER_SIZE) @ [1, mode] @ be_bytes 8 config_size\<rparr>)
      else if length (hfile h) < VERSION_1_HEADER_SIZE then (0, True, h)
      else
        let hsize = of_be_bytes (slice (hfile h) 0 4);
            version = hfile h ! 4;
            fmode = hfile h ! 5;
            fsize = of_be_bytes (slice (hfile h) 6 8) in
        if version \<noteq> 1 then (0, True, h)
        else if fmode \<noteq> mode then (0, True, h\<lparr>header_size := hsize\<rparr>)
        else if fsize \<noteq> unat config_size then (0, True, h\<lparr>header_size := hsize\<rparr>)
        else (int fsize, False, h\<lparr>header_size := hsize\<rparr>))"

section \<open>The JNI bridge\<close>

definition detach :: "fs_host \<Rightarrow> fs_host" where
  "detach h = h\<lparr>attached := attached h - 1\<rparr>"

definition host_disk_get_size :: "jni \<Rightarrow> u8 \<Rightarrow> u8 \<Rightarrow> u64 \<Rightarrow> fs_host \<Rightarrow> int \<times> fs_host" where
  "host_disk_get_size J mode drive persistent_size h =
     (if \<not> jni_attach J h then (- 1, h)
      else let h1 = h\<lparr>attached := attached h + 1\<rparr> in
        if \<not> jni_class J h1 then (- 1, detach h1)
        else if \<not> jni_method J ''getDriveSize'' h1 then (- 1, detach h1)
        else case fsh_getDriveSize mode persistent_size h1 of
               (res, exception, h2) \<Rightarrow> (if exception then - 1 else res, detach h2))"

text \<open>The bytes are what the bridge copies into the caller's buffer.\<close>

definition host_disk_read :: "jni \<Rightarrow> u8 \<Rightarrow> u64 \<Rightarrow> u8 \<Rightarrow> u32 \<Rightarrow> fs_host \<Rightarrow> (int \<times> bytes) \<times> fs_host" where
  "host_disk_read J drive sector_id nsec sector_size h =
     (if \<not> jni_attach J h then ((- 1, []), h)
      else let h1 = h\<lparr>attached := attached h + 1\<rparr> in
        if \<not> jni_class J h1 then ((- 1, []), detach h1)
        else if \<not> jni_method J ''read'' h1 then ((- 1, []), detach h1)
        else case fsh_read sector_id (unat nsec) (unat sector_size) h1 of
               None \<Rightarrow> ((- 1, []), detach h1)
             | Some b \<Rightarrow> ((int (length b), b), detach h1))"

definition host_disk_write :: "jni \<Rightarrow> u8 \<Rightarrow> bytes \<Rightarrow> u32 \<Rightarrow> u64 \<Rightarrow> fs_host \<Rightarrow> int \<times> fs_host" where
  "host_disk_write J drive buf sector_size index h =
     (if \<not> jni_attach J h then (- 1, h)
      else let h1 = h\<lparr>attached := attached h + 1\<rparr> in
        if \<not> jni_class J h1 then (- 1, detach h1)
        else if \<not> jni_method J ''write'' h1 then (- 1, detach h1)
        else if \<not> jni_new_array J sector_size h1 then (- 1, detach h1)
        else case fsh_write (take (unat sector_size) buf) (unat sector_size) index h1 of
               (res, h2) \<Rightarrow> (res, detach h2))"

text \<open>
  The OCalls. The edge routine copies the whole \<open>[out]\<close> buffer back, zeros where the host wrote
  nothing; a host that writes past it corrupts its own memory, which the enclave cannot see.
\<close>

definition host_encrypted_read_ocall ::
    "jni \<Rightarrow> u8 \<Rightarrow> u64 \<Rightarrow> u8 \<Rightarrow> u32 \<Rightarrow> u32 \<Rightarrow> fs_host \<Rightarrow> (int \<times> bytes) \<times> fs_host" where
  "host_encrypted_read_ocall J drive sector_id nsec sector_size buf_size h =
     (case host_disk_read J drive sector_id nsec sector_size h of
        ((res, b), h') \<Rightarrow>
          ((res, take (unat buf_size) (b @ replicate (unat buf_size) 0)), h'))"

definition host_encrypted_write_ocall ::
    "jni \<Rightarrow> u8 \<Rightarrow> bytes \<Rightarrow> u32 \<Rightarrow> u64 \<Rightarrow> fs_host \<Rightarrow> int \<times> fs_host" where
  "host_encrypted_write_ocall J drive buf sector_size sector h =
     host_disk_write J drive buf sector_size sector h"

definition host_disk_get_size_ocall :: "jni \<Rightarrow> u8 \<Rightarrow> u8 \<Rightarrow> u64 \<Rightarrow> fs_host \<Rightarrow> int \<times> fs_host" where
  "host_disk_get_size_ocall J mode drive persistent_size h = host_disk_get_size J mode drive persistent_size h"

section \<open>The file as a store of sectors\<close>

text \<open>A bridge all of whose JNI calls succeed.\<close>

definition jni_up :: jni where
  "jni_up = \<lparr>jni_attach = (\<lambda>_. True), jni_class = (\<lambda>_. True),
     jni_method = (\<lambda>_ _. True), jni_new_array = (\<lambda>_ _. True)\<rparr>"

text \<open>Sectors of 528 bytes, as \<open>SECTOR_SIZE_AND_MAC\<close> sets them.\<close>

definition file_sectors :: "fs_host \<Rightarrow> nat" where
  "file_sectors h = min (2 ^ 64) ((length (hfile h) - header_size h) div 528)"

definition fs_rd :: "fs_host \<Rightarrow> nat \<Rightarrow> bytes option" where
  "fs_rd h s = (case host_encrypted_read_ocall jni_up 0 (of_nat s) 1 528 528 h of
                  ((res, b), _) \<Rightarrow> if res < 0 then None else Some b)"

definition fs_wr :: "fs_host \<Rightarrow> nat \<Rightarrow> bytes \<Rightarrow> fs_host option" where
  "fs_wr h s b = (case host_encrypted_write_ocall jni_up 0 b 528 (of_nat s) h of
                    (res, h') \<Rightarrow> if res < 0 then None else Some h')"

lemma file_sectors_less:
  "s < file_sectors h \<Longrightarrow> s < 2 ^ 64 \<and> s * 528 + header_size h + 528 \<le> length (hfile h)"
proof -
  assume "s < file_sectors h"
  then have s: "s < 2 ^ 64" "Suc s \<le> (length (hfile h) - header_size h) div 528"
    by (auto simp: file_sectors_def)
  then have "Suc s * 528 \<le> length (hfile h) - header_size h"
    by (metis less_eq_div_iff_mult_less_eq zero_less_numeral)
  then show ?thesis using s(1) by simp
qed

lemma detach_simps [simp]:
  "hfile (detach h) = hfile h" "header_size (detach h) = header_size h"
  "attached (detach h) = attached h - 1"
  by (simp_all add: detach_def)

lemma host_read_up:
  "host_encrypted_read_ocall jni_up drive sid 1 528 528 h =
    (if unat sid * 528 + header_size h + 528 \<le> length (hfile h)
     then ((528, slice (hfile h) (unat sid * 528 + header_size h) 528), h)
     else ((- 1, replicate 528 0), h))"
  by (simp add: host_encrypted_read_ocall_def host_disk_read_def jni_up_def fsh_read_def detach_def)

lemma host_write_up:
  "length b = 528 \<Longrightarrow>
   host_encrypted_write_ocall jni_up drive b 528 sid h =
     (528, h\<lparr>hfile := file_write (hfile h) (unat sid * 528 + header_size h) b\<rparr>)"
  by (simp add: host_encrypted_write_ocall_def host_disk_write_def jni_up_def fsh_write_def detach_def)

lemma file_write_inside: "pos + length b \<le> length f \<Longrightarrow> file_write f pos b = blit f pos b"
  by (simp add: file_write_def)

lemma fs_rd_eq:
  "s < file_sectors h \<Longrightarrow> fs_rd h s = Some (slice (hfile h) (s * 528 + header_size h) 528)"
  using file_sectors_less [of s h] by (simp add: fs_rd_def host_read_up unat_of_nat)

lemma fs_wr_eq:
  "s < file_sectors h \<Longrightarrow> length b = 528 \<Longrightarrow>
    fs_wr h s b = Some (h\<lparr>hfile := blit (hfile h) (s * 528 + header_size h) b\<rparr>)"
  using file_sectors_less [of s h] by (simp add: fs_wr_def host_write_up unat_of_nat file_write_inside)

interpretation hostfile: sector_store 528 "\<lambda>_. True" file_sectors fs_rd fs_wr
proof (unfold_locales, goal_cases)
  case (1 h s)
  then show ?case using file_sectors_less [of s h] by (simp add: fs_rd_eq)
next
  case (2 h s b)
  then show ?case using file_sectors_less [of s h] by (simp add: fs_wr_eq file_sectors_def)
next
  case (3 h s b h')
  then have h': "h' = h\<lparr>hfile := blit (hfile h) (s * 528 + header_size h) b\<rparr>"
    by (simp add: fs_wr_eq)
  moreover have "file_sectors h' = file_sectors h"
    using 3 file_sectors_less [of s h] by (simp add: h' file_sectors_def)
  ultimately show ?case
    using 3 file_sectors_less [of s h] slice_blit_same [of "s * 528 + header_size h" b "hfile h"]
    by (simp add: fs_rd_eq)
next
  case (4 h s b h' t)
  then have h': "h' = h\<lparr>hfile := blit (hfile h) (s * 528 + header_size h) b\<rparr>"
    by (simp add: fs_wr_eq)
  moreover have "file_sectors h' = file_sectors h"
    using 4 file_sectors_less [of s h] by (simp add: h' file_sectors_def)
  moreover have "t * 528 + 528 \<le> s * 528 \<or> s * 528 + 528 \<le> t * 528" using 4(6) by linarith
  ultimately show ?case
    using 4 file_sectors_less [of s h] file_sectors_less [of t h]
      slice_blit_other [of "s * 528 + header_size h" b "hfile h" "t * 528 + header_size h" 528]
    by (auto simp: fs_rd_eq)
qed

section \<open>Properties\<close>

lemma fsh_getDriveSize_attached [simp]:
  "attached (snd (snd (fsh_getDriveSize mode n h))) = attached h"
  by (simp add: fsh_getDriveSize_def Let_def)

text \<open>whatever the JNI answers, each of the three bridge calls detaches the thread it attached:
  the number of attached threads after the call is the number before it.\<close>

theorem host_bridge_detaches:
  "attached (snd (host_disk_get_size J mode drive psize h)) = attached h
    \<and> attached (snd (host_disk_read J drive sid n sz h)) = attached h
    \<and> attached (snd (host_disk_write J drive buf sz sid h)) = attached h"
  using fsh_getDriveSize_attached [of mode psize "h\<lparr>attached := attached h + 1\<rparr>"]
  by (auto simp: host_disk_get_size_def host_disk_read_def host_disk_write_def Let_def fsh_write_def
      simp del: fsh_getDriveSize_attached split: option.splits prod.splits)

lemma reopen_header:
  assumes f: "fsh_getDriveSize mode n (h\<lparr>hfile := []\<rparr>) = (r, e, h1)"
    and rest: "take 14 (hfile h2) = hfile h1"
  shows "fsh_getDriveSize mode' n' h2 =
    (if mode' = mode \<and> n' = n then (int (unat n), False, h2\<lparr>header_size := 14\<rparr>)
     else (0, True, h2\<lparr>header_size := 14\<rparr>))"
proof -
  let ?hd = "be_bytes 4 14 @ [1, mode] @ be_bytes 8 n"
  have hd: "take 14 (hfile h2) = ?hd"
    using assms by (auto simp: fsh_getDriveSize_def VERSION_1_HEADER_SIZE_def)
  then have "length (take 14 (hfile h2)) = 14" by simp
  then have len: "14 \<le> length (hfile h2)" by simp
  obtain t where t: "hfile h2 = ?hd @ t" by (metis hd append_take_drop_id)
  have sl: "slice (hfile h2) 0 4 = be_bytes 4 14" "hfile h2 ! 4 = 1" "hfile h2 ! 5 = mode"
    "slice (hfile h2) 6 8 = be_bytes 8 n"
    by (simp_all add: t slice_def nth_append)
  have v: "of_be_bytes (be_bytes 4 14) = 14" "of_be_bytes (be_bytes 8 n) = unat n"
    using of_be_bytes_be_bytes [of 4 14] of_be_bytes_be_bytes [of 8 n] u64_lt [of n]
    by simp_all
  have ne: "hfile h2 \<noteq> []" using len by auto
  show ?thesis
    using len ne sl v by (auto simp: fsh_getDriveSize_def Let_def VERSION_1_HEADER_SIZE_def not_less word_unat_eq_iff)
qed

text \<open>C20: the header round trip: a drive file created for a mode and a size is recognised when it is
  opened again, whatever sectors follow the header: the stored size is returned for the same
  configuration, and an exception is raised for any other mode or size.\<close>

theorem drive_header_roundtrip:
  assumes "fsh_getDriveSize mode n (h\<lparr>hfile := []\<rparr>) = (r, e, h1)"
    and "take 14 (hfile h2) = hfile h1"
  shows "r = 0 \<and> \<not> e \<and> fsh_getDriveSize mode' n' h2 =
    (if mode' = mode \<and> n' = n then (int (unat n), False, h2\<lparr>header_size := 14\<rparr>)
     else (0, True, h2\<lparr>header_size := 14\<rparr>))"
  using reopen_header [OF assms] assms(1) by (auto simp: fsh_getDriveSize_def)

theorem drive_header_roundtrip_witness:
  "fst (fsh_getDriveSize 2 1048576 \<lparr>hfile = [0,0,0,14,1,2,0,0,0,0,0,16,0,0] @ replicate 528 9,
      header_size = 0, attached = 0\<rparr>) = 1048576"
proof -
  let ?h = "\<lparr>hfile = [], header_size = 0, attached = 0\<rparr>"
  have "fsh_getDriveSize 2 1048576 ?h = (0, False, ?h\<lparr>header_size := 14,
      hfile := [0,0,0,14,1,2,0,0,0,0,0,16,0,0]\<rparr>)"
    by (simp add: fsh_getDriveSize_def VERSION_1_HEADER_SIZE_def be_bytes_def upt_rec)
  then show ?thesis
    using drive_header_roundtrip [of 2 1048576 ?h 0 False "?h\<lparr>header_size := 14,
          hfile := [0,0,0,14,1,2,0,0,0,0,0,16,0,0]\<rparr>"
        "\<lparr>hfile = [0,0,0,14,1,2,0,0,0,0,0,16,0,0] @ replicate 528 9, header_size = 0, attached = 0\<rparr>"
        2 1048576]
    by simp
qed

end
