(* ===== verification/Persistent_Disk.thy ===== *)
theory Persistent_Disk
  imports Host_Bridge "HOL-Library.Multiset"
begin

text \<open>
  The encrypted drive: \<open>cpp/fatfs/enclave/src/persistent_disk.cpp\<close>, built with \<open>ENCRYPTION\<close> and
  \<open>SECTOR_SHUFFLING\<close> as \<open>persistent_disk.hpp\<close> sets them. A sector number is permuted by two tables,
  encrypted with AES-GCM under an IV made of the permuted number, and sent to the host by an OCall.
  The SGX cryptography, \<open>std::shuffle\<close> and the OCalls are parameters.
\<close>

section \<open>What the drive takes from outside\<close>

text \<open>
  \<open>gcm_encrypt key iv plain\<close> gives ciphertext and tag, \<open>gcm_decrypt key iv cipher tag\<close> the
  plaintext, \<open>sha256\<close> the hash of the text and the key (\<open>None\<close> where an SGX call fails);
  \<open>shuffle seed xs\<close> is \<open>std::shuffle\<close> with \<open>default_random_engine (seed)\<close>. An OCall that SGX itself
  fails is \<open>None\<close>; otherwise it gives the host's result and, for a read, the buffer.
\<close>

record 'h pd_env =
  gcm_encrypt :: "bytes \<Rightarrow> bytes \<Rightarrow> bytes \<Rightarrow> (bytes \<times> bytes) option"
  gcm_decrypt :: "bytes \<Rightarrow> bytes \<Rightarrow> bytes \<Rightarrow> bytes \<Rightarrow> bytes option"
  sha256 :: "string \<Rightarrow> bytes \<Rightarrow> bytes option"
  shuffle :: "u64 \<Rightarrow> u32 list \<Rightarrow> u32 list"
  read_ocall :: "u8 \<Rightarrow> u64 \<Rightarrow> 'h \<Rightarrow> (int \<times> bytes) option \<times> 'h"
  write_ocall :: "u8 \<Rightarrow> bytes \<Rightarrow> u64 \<Rightarrow> 'h \<Rightarrow> int option \<times> 'h"

definition SECTOR_SIZE_AND_MAC :: nat where "SECTOR_SIZE_AND_MAC = 528"
definition IV_SIZE :: nat where "IV_SIZE = 12"

record persistent_disk = FatFsDisk +
  sectors_table_1 :: "u32 list"
  sectors_table_2 :: "u32 list"
  encryption_key :: bytes
  buffer_encryption :: bytes
  buffer_writes :: bytes
  buffer_index :: u64

definition getHashFromKey :: "'h pd_env \<Rightarrow> string \<Rightarrow> bytes \<Rightarrow> bytes cpp" where
  "getHashFromKey E derivation_text key =
     (case sha256 E derivation_text key of
        None \<Rightarrow> Throw (RuntimeError ''Error in deriving persistence key'')
      | Some h \<Rightarrow> Ret h)"

definition PersistentDisk_new :: "'h pd_env \<Rightarrow> u8 \<Rightarrow> u64 \<Rightarrow> bytes \<Rightarrow> ptr \<Rightarrow> persistent_disk cpp" where
  "PersistentDisk_new E drive sz key fs =
     cbind (FatFsDisk_new drive sz fs) (\<lambda>d.
     cbind (getHashFromKey E ''R3 persistent filesystem I'' (take 16 key)) (\<lambda>h.
       Ret (FatFsDisk.extend d
         \<lparr>sectors_table_1 = [], sectors_table_2 = [], encryption_key = take 16 h,
          buffer_encryption = replicate 528 0, buffer_writes = replicate 528 0, buffer_index = 0\<rparr>)))"

section \<open>Encryption of a sector\<close>

definition sector_iv :: "u64 \<Rightarrow> bytes" where
  "sector_iv sector_id = le_bytes 8 sector_id @ replicate (IV_SIZE - 8) 0"

text \<open>\<open>encrypt\<close> fills the 528-byte output, \<open>None\<close> is its result \<open>-1\<close>; likewise \<open>decrypt\<close>.\<close>

definition pd_encrypt :: "'h pd_env \<Rightarrow> persistent_disk \<Rightarrow> u64 \<Rightarrow> bytes \<Rightarrow> bytes option" where
  "pd_encrypt E d sector_id input =
     (case gcm_encrypt E (encryption_key d) (sector_iv sector_id) (take 512 input) of
        None \<Rightarrow> None
      | Some (c, tag) \<Rightarrow> Some (c @ tag))"

definition pd_decrypt :: "'h pd_env \<Rightarrow> persistent_disk \<Rightarrow> u64 \<Rightarrow> bytes \<Rightarrow> bytes option" where
  "pd_decrypt E d sector_id input =
     gcm_decrypt E (encryption_key d) (sector_iv sector_id) (take 512 input) (take 16 (drop 512 input))"

section \<open>Sector shuffling\<close>

text \<open>\<open>std::ceil (std::sqrt (n))\<close>; exact for the sector counts in use, which are below \<open>2 ^ 32\<close>.\<close>

function ceil_sqrt_from :: "nat \<Rightarrow> nat \<Rightarrow> nat" where
  "ceil_sqrt_from k n = (if n \<le> k * k then k else ceil_sqrt_from (Suc k) n)"
  by pat_completeness auto
termination
  by (relation "measure (\<lambda>(k, n). n - k * k)") auto

declare ceil_sqrt_from.simps [simp del]

definition ceil_sqrt :: "nat \<Rightarrow> nat" where
  "ceil_sqrt n = ceil_sqrt_from 0 n"

definition size_table_1 :: "u64 \<Rightarrow> u32" where
  "size_table_1 n =
     (let square_root = of_nat (ceil_sqrt (unat n)) :: u64 in
      ucast (square_root - square_root mod 512 + 512))"

definition size_table_2 :: "u64 \<Rightarrow> u32" where
  "size_table_2 n = ucast (max (n div ucast (size_table_1 n)) 1)"

definition prepareSectorTables :: "'h pd_env \<Rightarrow> persistent_disk \<Rightarrow> persistent_disk cpp" where
  "prepareSectorTables E d =
     cbind (getHashFromKey E ''R3 persistent filesystem II'' (encryption_key d)) (\<lambda>h.
       let n = num_sectors d;
           seed = of_nat (of_le_bytes (take 8 h)) in
       Ret (d\<lparr>sectors_table_1 := shuffle E seed (sectors_table_1 d @ map of_nat [0..<unat (size_table_1 n)]),
              sectors_table_2 := shuffle E seed (sectors_table_2 d @ map of_nat [0..<unat (size_table_2 n)])\<rparr>))"

text \<open>Division by an empty second table and an index past the first one are undefined.\<close>

definition mapSectorId :: "persistent_disk \<Rightarrow> u64 \<Rightarrow> u64 cpp" where
  "mapSectorId d sector_id =
     (let sz2 = of_nat (length (sectors_table_2 d)) :: u64 in
      if sz2 = 0 then Undef
      else
        let bucket_id = sector_id div sz2;
            offset_id = sector_id mod sz2 in
        if unat bucket_id < length (sectors_table_1 d) \<and> unat offset_id < length (sectors_table_2 d)
        then Ret (ucast (sectors_table_1 d ! unat bucket_id) * sz2
                  + ucast (sectors_table_2 d ! unat offset_id))
        else Undef)"

section \<open>Transfers\<close>

definition pd_flush :: "'h pd_env \<Rightarrow> persistent_disk \<Rightarrow> 'h \<Rightarrow> DRESULT \<times> 'h" where
  "pd_flush E d h =
     (case write_ocall E (drive_id d) (buffer_writes d) (buffer_index d) h of
        (None, h') \<Rightarrow> (RES_ERROR, h')
      | (Some res, h') \<Rightarrow> (if res < 0 then RES_ERROR else RES_OK, h'))"

text \<open>
  The read loop: \<open>k\<close> reads are left and \<open>sector\<close> (32 bits, so \<open>sector + i\<close> wraps) is the next one.
  A failed OCall leaves \<open>res\<close> and the buffer as they were.
\<close>

fun pd_read_loop ::
    "'h pd_env \<Rightarrow> nat \<Rightarrow> u32 \<Rightarrow> bytes \<Rightarrow> persistent_disk \<Rightarrow> 'h \<Rightarrow>
     (DRESULT \<times> bytes \<times> persistent_disk \<times> 'h) cpp" where
  "pd_read_loop E 0 sector out d h = Ret (RES_OK, out, d, h)"
| "pd_read_loop E (Suc k) sector out d h =
     cbind (mapSectorId d (ucast sector)) (\<lambda>sector_id.
       case read_ocall E (drive_id d) sector_id h of (ans, h1) \<Rightarrow>
       let (res, d1) = (case ans of
             None \<Rightarrow> (0, d)
           | Some (r, buf) \<Rightarrow> (r, d\<lparr>buffer_encryption := buf\<rparr>)) in
       if res < 0 then Ret (RES_ERROR, out, d1, h1)
       else (case pd_decrypt E d1 sector_id (buffer_encryption d1) of
               None \<Rightarrow> Ret (RES_ERROR, out, d1, h1)
             | Some b \<Rightarrow> pd_read_loop E k (sector + 1) (out @ b) d1 h1))"

definition pd_diskRead ::
    "'h pd_env \<Rightarrow> u32 \<Rightarrow> u8 \<Rightarrow> persistent_disk \<Rightarrow> 'h \<Rightarrow>
     (DRESULT \<times> bytes \<times> persistent_disk \<times> 'h) cpp" where
  "pd_diskRead E sector num_reads d h =
     (case pd_flush E d h of (res, h1) \<Rightarrow>
        if res \<noteq> RES_OK then Ret (RES_ERROR, [], d, h1)
        else pd_read_loop E (unat num_reads) sector [] d h1)"

fun pd_write_loop ::
    "'h pd_env \<Rightarrow> nat \<Rightarrow> bytes \<Rightarrow> u32 \<Rightarrow> persistent_disk \<Rightarrow> 'h \<Rightarrow>
     (DRESULT \<times> persistent_disk \<times> 'h) cpp" where
  "pd_write_loop E 0 input sector d h = Ret (RES_OK, d, h)"
| "pd_write_loop E (Suc k) input sector d h =
     cbind (mapSectorId d (ucast sector)) (\<lambda>sector_id.
       let d1 = d\<lparr>buffer_index := sector_id\<rparr> in
       case pd_encrypt E d1 sector_id input of
         None \<Rightarrow> Ret (RES_ERROR, d1, h)
       | Some c \<Rightarrow>
           let d2 = d1\<lparr>buffer_writes := c\<rparr> in
           case pd_flush E d2 h of (res, h1) \<Rightarrow>
             if res \<noteq> RES_OK then Ret (RES_ERROR, d2, h1)
             else pd_write_loop E k (drop 512 input) (sector + 1) d2 h1)"

definition pd_diskWrite ::
    "'h pd_env \<Rightarrow> bytes \<Rightarrow> u32 \<Rightarrow> u8 \<Rightarrow> persistent_disk \<Rightarrow> 'h \<Rightarrow> (DRESULT \<times> persistent_disk \<times> 'h) cpp" where
  "pd_diskWrite E input_buf sector num_writes d h =
     pd_write_loop E (unat num_writes) input_buf sector d h"

definition pd_diskIoCtl :: "'h pd_env \<Rightarrow> u8 \<Rightarrow> persistent_disk \<Rightarrow> 'h \<Rightarrow> DRESULT \<times> ioctl_out \<times> 'h" where
  "pd_diskIoCtl E cmd d h =
     (if cmd = CTRL_SYNC then (case pd_flush E d h of (r, h') \<Rightarrow> (r, NoOut, h'))
      else if cmd = GET_BLOCK_SIZE then (RES_PARERR, NoOut, h)
      else if cmd = GET_SECTOR_SIZE then (RES_OK, OutWord 512, h)
      else if cmd = GET_SECTOR_COUNT then (RES_OK, OutLba (ucast (num_sectors d)), h)
      else (RES_ERROR, NoOut, h))"

definition pd_diskStart :: "'h pd_env \<Rightarrow> persistent_disk \<Rightarrow> persistent_disk cpp" where
  "pd_diskStart E d = prepareSectorTables E d"

definition pd_diskStop :: "persistent_disk \<Rightarrow> persistent_disk" where
  "pd_diskStop d = d\<lparr>sectors_table_1 := [], sectors_table_2 := []\<rparr>"

section \<open>Documented behaviour of the parameters\<close>

text \<open>
  AES-GCM is deterministic: decryption succeeds exactly on the ciphertext and tag that encryption
  of the returned plaintext under the same key and IV produces. Ciphertexts are as long as the
  plaintext, tags have 16 bytes.
\<close>

definition gcm_laws :: "'h pd_env \<Rightarrow> bool" where
  "gcm_laws E \<longleftrightarrow>
     (\<forall>key iv p c t. gcm_encrypt E key iv p = Some (c, t) \<longrightarrow>
        length c = length p \<and> length t = 16 \<and> gcm_decrypt E key iv c t = Some p)
   \<and> (\<forall>key iv p c t. gcm_decrypt E key iv c t = Some p \<longrightarrow> gcm_encrypt E key iv p = Some (c, t))"

lemma gcm_lawsD:
  "gcm_laws E \<Longrightarrow> gcm_encrypt E key iv p = Some (c, t) \<Longrightarrow>
     length c = length p \<and> length t = 16 \<and> gcm_decrypt E key iv c t = Some p"
  "gcm_laws E \<Longrightarrow> gcm_decrypt E key iv c t = Some p \<Longrightarrow> gcm_encrypt E key iv p = Some (c, t)"
  unfolding gcm_laws_def by blast+

text \<open>The cipher accepts every sector.\<close>

definition gcm_available :: "'h pd_env \<Rightarrow> bool" where
  "gcm_available E \<longleftrightarrow> (\<forall>key iv p. gcm_encrypt E key iv p \<noteq> None)"

definition shuffle_permutes :: "'h pd_env \<Rightarrow> bool" where
  "shuffle_permutes E \<longleftrightarrow> (\<forall>seed xs. mset (shuffle E seed xs) = mset xs)"

section \<open>The two tables are a permutation of the sectors\<close>

definition tables_ok :: "persistent_disk \<Rightarrow> bool" where
  "tables_ok d \<longleftrightarrow> distinct (sectors_table_1 d) \<and> distinct (sectors_table_2 d)
     \<and> (\<forall>x\<in>set (sectors_table_1 d). unat x < length (sectors_table_1 d))
     \<and> (\<forall>x\<in>set (sectors_table_2 d). unat x < length (sectors_table_2 d))
     \<and> 0 < length (sectors_table_2 d)
     \<and> length (sectors_table_1 d) < 2 ^ 32 \<and> length (sectors_table_2 d) < 2 ^ 32"

text \<open>The number of sectors the tables can map, and the map as a function on numbers.\<close>

definition table_capacity :: "persistent_disk \<Rightarrow> nat" where
  "table_capacity d = length (sectors_table_1 d) * length (sectors_table_2 d)"

definition sector_perm :: "persistent_disk \<Rightarrow> nat \<Rightarrow> nat" where
  "sector_perm d s =
     (let l2 = length (sectors_table_2 d) in
      unat (sectors_table_1 d ! (s div l2)) * l2 + unat (sectors_table_2 d ! (s mod l2)))"

lemma table_capacity_less: "tables_ok d \<Longrightarrow> table_capacity d < 2 ^ 64"
proof -
  assume "tables_ok d"
  then have "length (sectors_table_1 d) \<le> 2 ^ 32 - 1" "length (sectors_table_2 d) \<le> 2 ^ 32 - 1"
    by (auto simp: tables_ok_def)
  from mult_le_mono [OF this] show ?thesis by (simp add: table_capacity_def)
qed

lemma mapSectorId_eq:
  assumes ok: "tables_ok d"
  shows "mapSectorId d s =
    (if unat s < table_capacity d then Ret (of_nat (sector_perm d (unat s))) else Undef)"
proof -
  let ?l1 = "length (sectors_table_1 d)" and ?l2 = "length (sectors_table_2 d)"
  have l2: "0 < ?l2" "?l2 < 2 ^ 32" using ok by (auto simp: tables_ok_def)
  have u2: "unat (of_nat ?l2 :: u64) = ?l2" using l2 by (simp add: unat_of_nat)
  have nz: "(of_nat ?l2 :: u64) \<noteq> 0" using u2 l2 by (metis unat_0 less_not_refl)
  have dm: "unat (s div of_nat ?l2) = unat s div ?l2" "unat (s mod of_nat ?l2) = unat s mod ?l2"
    using u2 by (simp_all add: unat_div unat_mod)
  have "unat s div ?l2 < ?l1 \<longleftrightarrow> unat s < table_capacity d"
    using l2 by (simp add: table_capacity_def div_less_iff_less_mult)
  with dm nz l2 show ?thesis
    by (simp add: mapSectorId_def Let_def sector_perm_def)
qed

lemma sector_perm_less:
  assumes ok: "tables_ok d" and s: "s < table_capacity d"
  shows "sector_perm d s < table_capacity d"
proof -
  let ?l1 = "length (sectors_table_1 d)" and ?l2 = "length (sectors_table_2 d)"
  have l2: "0 < ?l2" using ok by (simp add: tables_ok_def)
  have "s div ?l2 < ?l1" using s l2 by (simp add: table_capacity_def div_less_iff_less_mult)
  then have "unat (sectors_table_1 d ! (s div ?l2)) < ?l1" using ok by (simp add: tables_ok_def)
  then have a: "Suc (unat (sectors_table_1 d ! (s div ?l2))) * ?l2 \<le> ?l1 * ?l2"
    by (intro mult_le_mono) auto
  have "unat (sectors_table_2 d ! (s mod ?l2)) < ?l2" using ok l2 by (simp add: tables_ok_def)
  with a show ?thesis by (simp add: sector_perm_def table_capacity_def Let_def)
qed

lemma div_mod_unique:
  fixes a b n :: nat
  assumes "a * n + b = a' * n + b'" and "b < n" and "b' < n"
  shows "a = a' \<and> b = b'"
proof -
  have "(a * n + b) div n = (a' * n + b') div n" and "(a * n + b) mod n = (a' * n + b') mod n"
    by (simp_all only: assms(1))
  with assms(2,3) show ?thesis by simp
qed

lemma sector_perm_inj:
  assumes ok: "tables_ok d"
  shows "inj_on (sector_perm d) {..<table_capacity d}"
proof (rule inj_onI)
  let ?l1 = "length (sectors_table_1 d)" and ?l2 = "length (sectors_table_2 d)"
  have l2: "0 < ?l2" using ok by (simp add: tables_ok_def)
  fix s t assume st: "s \<in> {..<table_capacity d}" "t \<in> {..<table_capacity d}"
    and eq: "sector_perm d s = sector_perm d t"
  have q: "s div ?l2 < ?l1" "t div ?l2 < ?l1" "s mod ?l2 < ?l2" "t mod ?l2 < ?l2"
    using st l2 by (simp_all add: table_capacity_def div_less_iff_less_mult)
  have "unat (sectors_table_2 d ! (s mod ?l2)) < ?l2" "unat (sectors_table_2 d ! (t mod ?l2)) < ?l2"
    using ok q by (auto simp: tables_ok_def)
  from div_mod_unique [OF _ this] eq
  have "sectors_table_1 d ! (s div ?l2) = sectors_table_1 d ! (t div ?l2)"
    "sectors_table_2 d ! (s mod ?l2) = sectors_table_2 d ! (t mod ?l2)"
    by (auto simp: sector_perm_def Let_def word_unat_eq_iff)
  then have "s div ?l2 = t div ?l2" "s mod ?l2 = t mod ?l2"
    using ok q by (auto simp: tables_ok_def nth_eq_iff_index_eq)
  then show "s = t" by (metis div_mult_mod_eq)
qed

lemma sector_perm_bij:
  assumes "tables_ok d"
  shows "bij_betw (sector_perm d) {..<table_capacity d} {..<table_capacity d}"
proof -
  have "sector_perm d ` {..<table_capacity d} \<subseteq> {..<table_capacity d}"
    using sector_perm_less [OF assms] by auto
  then have "sector_perm d ` {..<table_capacity d} = {..<table_capacity d}"
    by (intro endo_inj_surj sector_perm_inj assms) auto
  then show ?thesis using sector_perm_inj [OF assms] by (simp add: bij_betw_def)
qed

text \<open>\<open>prepareSectorTables\<close> on a drive that was not started before.\<close>

lemma shuffled_table:
  assumes "shuffle_permutes E" and "n < 2 ^ 32"
  shows "distinct (shuffle E seed (map of_nat [0..<n]))"
    and "length (shuffle E seed (map of_nat [0..<n])) = n"
    and "\<forall>x\<in>set (shuffle E seed (map of_nat [0..<n])). unat x < n"
proof -
  let ?xs = "map of_nat [0..<n] :: u32 list"
  have m: "mset (shuffle E seed ?xs) = mset ?xs" using assms(1) by (simp add: shuffle_permutes_def)
  have u: "unat (of_nat i :: u32) = i" if "i < n" for i
    using that assms(2) by (simp add: unat_of_nat)
  have "inj_on (of_nat :: nat \<Rightarrow> u32) {0..<n}"
    by (rule inj_onI) (metis u atLeastLessThan_iff)
  then have "distinct ?xs" by (simp add: distinct_map)
  then show "distinct (shuffle E seed ?xs)" using m by (metis mset_eq_imp_distinct_iff)
  show "length (shuffle E seed ?xs) = n" using m mset_eq_length by fastforce
  have "set (shuffle E seed ?xs) = set ?xs" using m by (rule mset_eq_setD)
  then show "\<forall>x\<in>set (shuffle E seed ?xs). unat x < n" using u by auto
qed

lemma prepare_tables_ok:
  assumes sh: "shuffle_permutes E" and st: "sectors_table_1 d = []" "sectors_table_2 d = []"
    and r: "prepareSectorTables E d = Ret d'" and z: "size_table_2 (num_sectors d) \<noteq> 0"
  shows "tables_ok d' \<and> length (sectors_table_1 d') = unat (size_table_1 (num_sectors d))
    \<and> length (sectors_table_2 d') = unat (size_table_2 (num_sectors d))
    \<and> num_sectors d' = num_sectors d"
proof -
  obtain h where h: "sha256 E ''R3 persistent filesystem II'' (encryption_key d) = Some h"
    using r by (auto simp: prepareSectorTables_def getHashFromKey_def split: option.splits)
  have lt: "unat (size_table_1 (num_sectors d)) < 2 ^ 32" "unat (size_table_2 (num_sectors d)) < 2 ^ 32"
    using u32_lt by auto
  let ?seed = "of_nat (of_le_bytes (take 8 h))"
  let ?t1 = "shuffle E ?seed (map of_nat [0..<unat (size_table_1 (num_sectors d))])"
    and ?t2 = "shuffle E ?seed (map of_nat [0..<unat (size_table_2 (num_sectors d))])"
  have d': "d' = d\<lparr>sectors_table_1 := ?t1, sectors_table_2 := ?t2\<rparr>"
    using r h st by (simp add: prepareSectorTables_def getHashFromKey_def Let_def)
  have "0 < unat (size_table_2 (num_sectors d))" using z by (simp add: unat_gt_0)
  with shuffled_table [OF sh lt(1), of ?seed] shuffled_table [OF sh lt(2), of ?seed] lt
  show ?thesis by (simp add: d' tables_ok_def)
qed

text \<open>The sizes of the tables as numbers.\<close>

lemma ceil_sqrt_from_bounds:
  "n \<le> ceil_sqrt_from k n * ceil_sqrt_from k n \<and> (\<forall>j\<ge>k. n \<le> j * j \<longrightarrow> ceil_sqrt_from k n \<le> j)"
proof (induction k n rule: ceil_sqrt_from.induct)
  case (1 k n)
  show ?case
  proof (cases "n \<le> k * k")
    case True
    then show ?thesis by (simp add: ceil_sqrt_from.simps [of k n])
  next
    case False
    with 1 have IH: "n \<le> ceil_sqrt_from (Suc k) n * ceil_sqrt_from (Suc k) n"
      "\<And>j. Suc k \<le> j \<Longrightarrow> n \<le> j * j \<Longrightarrow> ceil_sqrt_from (Suc k) n \<le> j" by auto
    have "Suc k \<le> j" if "k \<le> j" "n \<le> j * j" for j
      using that False by (cases "j = k") auto
    with IH False show ?thesis by (simp add: ceil_sqrt_from.simps [of k n])
  qed
qed

lemma ceil_sqrt_bounds: "n \<le> ceil_sqrt n * ceil_sqrt n" "n \<le> j * j \<Longrightarrow> ceil_sqrt n \<le> j"
  using ceil_sqrt_from_bounds [of n 0] by (auto simp: ceil_sqrt_def)

lemma ceil_sqrt_eq: "(k - 1) * (k - 1) < n \<Longrightarrow> n \<le> k * k \<Longrightarrow> ceil_sqrt n = k"
proof -
  assume a: "(k - 1) * (k - 1) < n" "n \<le> k * k"
  have "k - 1 < ceil_sqrt n"
  proof (rule ccontr)
    assume "\<not> k - 1 < ceil_sqrt n"
    then have "ceil_sqrt n * ceil_sqrt n \<le> (k - 1) * (k - 1)" by (intro mult_le_mono) auto
    with a(1) ceil_sqrt_bounds(1) [of n] show False by simp
  qed
  with ceil_sqrt_bounds(2) [OF a(2)] show ?thesis by simp
qed

lemma table_sizes:
  assumes "unat n < 2 ^ 32"
  shows "unat (size_table_1 n) = ceil_sqrt (unat n) - ceil_sqrt (unat n) mod 512 + 512"
    and "unat (size_table_2 n) = max (unat n div unat (size_table_1 n)) 1"
proof -
  let ?r = "ceil_sqrt (unat n)" and ?w = "of_nat (ceil_sqrt (unat n)) :: u64"
  have r: "?r \<le> 65536" using assms by (intro ceil_sqrt_bounds) simp
  have w: "unat ?w = ?r" using r by (simp add: unat_of_nat)
  have m: "unat (?w mod 512) = ?r mod 512" using w by (simp add: unat_mod)
  have "?w mod 512 \<le> ?w" using w m by (simp add: word_le_nat_alt)
  then have d: "unat (?w - ?w mod 512) = ?r - ?r mod 512"
    using w m by (simp add: unat_minus_le)
  then have s: "unat (?w - ?w mod 512 + 512) = ?r - ?r mod 512 + 512"
    using r by (subst unat_add_no_wrap) (simp_all add: d)
  show one: "unat (size_table_1 n) = ?r - ?r mod 512 + 512"
    unfolding size_table_1_def Let_def using r
    by (simp only: unsigned_ucast_eq s) (simp add: take_bit_nat_eq_self)
  have q: "unat (n div ucast (size_table_1 n)) = unat n div unat (size_table_1 n)"
    by (simp add: unat_div)
  have "unat (max (n div ucast (size_table_1 n)) 1) = max (unat n div unat (size_table_1 n)) 1"
    using q by (auto simp: max_def word_le_nat_alt)
  moreover have "unat n div unat (size_table_1 n) < 2 ^ 32"
    using assms by (meson div_le_dividend le_less_trans)
  ultimately show "unat (size_table_2 n) = max (unat n div unat (size_table_1 n)) 1"
    unfolding size_table_2_def by (simp only: unsigned_ucast_eq) (simp add: take_bit_nat_eq_self)
qed

section \<open>The sectors on the host\<close>

text \<open>The environment whose OCalls reach the bridge of the host; the cryptography stays a parameter.\<close>

definition host_env ::
    "(bytes \<Rightarrow> bytes \<Rightarrow> bytes \<Rightarrow> (bytes \<times> bytes) option) \<Rightarrow>
     (bytes \<Rightarrow> bytes \<Rightarrow> bytes \<Rightarrow> bytes \<Rightarrow> bytes option) \<Rightarrow>
     (string \<Rightarrow> bytes \<Rightarrow> bytes option) \<Rightarrow> (u64 \<Rightarrow> u32 list \<Rightarrow> u32 list) \<Rightarrow> fs_host pd_env" where
  "host_env enc dec sha shuf =
     \<lparr>gcm_encrypt = enc, gcm_decrypt = dec, sha256 = sha, shuffle = shuf,
      read_ocall = (\<lambda>drive sid h. case host_encrypted_read_ocall jni_up drive sid 1 528 528 h of
                      (ans, h') \<Rightarrow> (Some ans, h')),
      write_ocall = (\<lambda>drive buf sid h. case host_encrypted_write_ocall jni_up drive buf 528 sid h of
                      (res, h') \<Rightarrow> (Some res, h'))\<rparr>"

text \<open>What the file holds for a sector, if it reaches that far.\<close>

definition stored :: "fs_host \<Rightarrow> u64 \<Rightarrow> bytes option" where
  "stored h sid =
     (let pos = unat sid * 528 + header_size h in
      if pos + 528 \<le> length (hfile h) then Some (slice (hfile h) pos 528) else None)"

definition host_put :: "fs_host \<Rightarrow> u64 \<Rightarrow> bytes \<Rightarrow> fs_host" where
  "host_put h sid b = h\<lparr>hfile := file_write (hfile h) (unat sid * 528 + header_size h) b\<rparr>"

lemma length_file_write: "length (file_write f pos b) = max (length f) (pos + length b)"
  by (simp add: file_write_def)

lemma slice_append_left: "i + n \<le> length f \<Longrightarrow> slice (f @ g) i n = slice f i n"
  by (simp add: slice_def)

lemma stored_host_put_same: "length b = 528 \<Longrightarrow> stored (host_put h sid b) sid = Some b"
  using slice_blit_same [of "unat sid * 528 + header_size h" b
      "hfile h @ replicate (unat sid * 528 + header_size h + 528 - length (hfile h)) 0"]
  by (simp add: stored_def host_put_def length_file_write Let_def) (simp add: file_write_def)

lemma stored_host_put_other:
  assumes b: "length b = 528" and c: "stored h t = Some c" and ne: "t \<noteq> sid"
  shows "stored (host_put h sid b) t = Some c"
proof -
  let ?p = "unat sid * 528 + header_size h" and ?q = "unat t * 528 + header_size h"
  let ?f = "hfile h @ replicate (?p + 528 - length (hfile h)) 0"
  have q: "?q + 528 \<le> length (hfile h)" and c': "c = slice (hfile h) ?q 528"
    using c by (auto simp: stored_def Let_def split: if_splits)
  have "unat t \<noteq> unat sid" using ne by (simp add: word_unat_eq_iff)
  then have "?q + 528 \<le> ?p \<or> ?p + 528 \<le> ?q" by linarith
  then have "slice (blit ?f ?p b) ?q 528 = slice ?f ?q 528"
    using b q by (intro slice_blit_other) auto
  also have "\<dots> = c" using q c' by (simp add: slice_append_left)
  finally show ?thesis using q b
    by (simp add: stored_def host_put_def length_file_write Let_def) (simp add: file_write_def b)
qed

lemma host_put_same:
  assumes "stored h sid = Some b"
  shows "host_put h sid b = h"
proof -
  have "unat sid * 528 + header_size h + 528 \<le> length (hfile h)"
    and "b = slice (hfile h) (unat sid * 528 + header_size h) 528"
    using assms by (auto simp: stored_def Let_def split: if_splits)
  then show ?thesis by (simp add: host_put_def file_write_inside blit_slice_id)
qed

lemma header_size_host_put [simp]: "header_size (host_put h sid b) = header_size h"
  by (simp add: host_put_def)

lemma pd_flush_host:
  "length (buffer_writes d) = 528 \<Longrightarrow>
    pd_flush (host_env enc dec sha shuf) d h = (RES_OK, host_put h (buffer_index d) (buffer_writes d))"
  by (simp add: pd_flush_def host_env_def host_write_up host_put_def)

lemma read_ocall_host:
  "stored h sid = Some c \<Longrightarrow>
    read_ocall (host_env enc dec sha shuf) drive sid h = (Some (528, c), h)"
  by (auto simp: host_env_def host_read_up stored_def Let_def split: if_splits)

section \<open>Writing and reading back\<close>

text \<open>Block \<open>i\<close> of a transfer buffer, and the permuted number of the sector it goes to.\<close>

definition block :: "bytes \<Rightarrow> nat \<Rightarrow> bytes" where
  "block buf i = slice buf (512 * i) 512"

definition host_sector :: "persistent_disk \<Rightarrow> nat \<Rightarrow> u64" where
  "host_sector d s = of_nat (sector_perm d s)"

text \<open>The drives that differ in their buffers only.\<close>

definition same_disk :: "persistent_disk \<Rightarrow> persistent_disk \<Rightarrow> bool" where
  "same_disk d d' \<longleftrightarrow> sectors_table_1 d' = sectors_table_1 d \<and> sectors_table_2 d' = sectors_table_2 d
     \<and> encryption_key d' = encryption_key d \<and> drive_id d' = drive_id d"

lemma same_disk_cong:
  assumes "same_disk d d'"
  shows "tables_ok d' = tables_ok d" "table_capacity d' = table_capacity d"
    "sector_perm d' = sector_perm d" "host_sector d' = host_sector d" "mapSectorId d' = mapSectorId d"
    "pd_encrypt E d' = pd_encrypt E d" "pd_decrypt E d' = pd_decrypt E d"
  using assms
  by (auto simp: same_disk_def tables_ok_def table_capacity_def sector_perm_def host_sector_def
      mapSectorId_def pd_encrypt_def pd_decrypt_def fun_eq_iff Let_def)

lemma same_disk_refl [simp]: "same_disk d d"
  and same_disk_buffers [simp]:
    "same_disk d (e\<lparr>buffer_index := i\<rparr>) = same_disk d e"
    "same_disk d (e\<lparr>buffer_writes := c\<rparr>) = same_disk d e"
    "same_disk d (e\<lparr>buffer_encryption := c\<rparr>) = same_disk d e"
  by (simp_all add: same_disk_def)

lemma same_disk_trans: "same_disk a b \<Longrightarrow> same_disk b c \<Longrightarrow> same_disk a c"
  by (simp add: same_disk_def)

lemma host_sector_inject:
  assumes "tables_ok d" and "s < table_capacity d" and "t < table_capacity d"
  shows "host_sector d s = host_sector d t \<longleftrightarrow> s = t"
proof -
  have lt: "sector_perm d s < 2 ^ 64" "sector_perm d t < 2 ^ 64"
    using sector_perm_less [OF assms(1)] table_capacity_less [OF assms(1)] assms(2,3)
    by (meson less_trans)+
  then have "host_sector d s = host_sector d t \<longleftrightarrow> sector_perm d s = sector_perm d t"
    by (simp add: host_sector_def word_unat_eq_iff unat_of_nat)
  also have "\<dots> \<longleftrightarrow> s = t"
    using inj_on_eq_iff [OF sector_perm_inj [OF assms(1)]] assms(2,3) by simp
  finally show ?thesis .
qed

lemma pd_encrypt_decrypt:
  assumes "gcm_laws E" and "length p = 512" and "pd_encrypt E d sid p = Some c"
  shows "length c = 528 \<and> pd_decrypt E d sid c = Some p"
proof -
  obtain a t where at: "gcm_encrypt E (encryption_key d) (sector_iv sid) p = Some (a, t)" "c = a @ t"
    using assms(2,3) by (auto simp: pd_encrypt_def split: option.splits)
  from gcm_lawsD(1) [OF assms(1) at(1)] assms(2)
  have "length a = 512" "length t = 16" "gcm_decrypt E (encryption_key d) (sector_iv sid) a t = Some p"
    by simp_all
  with at show ?thesis by (simp add: pd_decrypt_def)
qed

lemma block_0: "512 \<le> length input \<Longrightarrow> block input 0 = take 512 input"
  by (simp add: block_def slice_def)

lemma block_drop: "block (drop 512 input) i = block input (Suc i)"
  by (simp add: block_def slice_def add.commute)

lemma concat_blocks: "length input = 512 * k \<Longrightarrow> concat (map (block input) [0..<k]) = input"
proof (induction k arbitrary: input)
  case (Suc k)
  have "map (block input) [0..<Suc k] = block input 0 # map (\<lambda>i. block input (Suc i)) [0..<k]"
    by (subst map_upt_Suc) simp
  also have "\<dots> = take 512 input # map (block (drop 512 input)) [0..<k]"
    using Suc.prems by (simp add: block_0 block_drop)
  finally show ?case using Suc by simp
qed simp

text \<open>One step of each loop, when the sector is mapped.\<close>

lemma mapSectorId_host:
  "tables_ok d \<Longrightarrow> unat sector < table_capacity d \<Longrightarrow>
    mapSectorId d (ucast sector) = Ret (host_sector d (unat sector))" for sector :: u32
  by (simp add: mapSectorId_eq host_sector_def)

lemma unat_Suc_u32: "unat sector + Suc k < 2 ^ 32 \<Longrightarrow> unat (sector + 1) = Suc (unat sector)" for sector :: u32
  by (subst unat_add_no_wrap) simp_all

lemma pd_write_loop_ok:
  fixes enc dec sha shuf
  defines "E \<equiv> host_env enc dec sha shuf"
  assumes ok: "tables_ok d" and gcm: "gcm_laws E" "gcm_available E"
    and range: "unat sector + k \<le> table_capacity d" "unat sector + k < 2 ^ 32"
    and len: "length input = 512 * k" "length (buffer_writes d) = 528"
  shows "\<exists>d' h'. pd_write_loop E k input sector d h = Ret (RES_OK, d', h')
    \<and> same_disk d d' \<and> length (buffer_writes d') = 528
    \<and> (\<forall>i<k. stored h' (host_sector d (unat sector + i))
          = pd_encrypt E d (host_sector d (unat sector + i)) (block input i))
    \<and> (\<forall>t c. stored h t = Some c \<longrightarrow> (\<forall>i<k. t \<noteq> host_sector d (unat sector + i)) \<longrightarrow> stored h' t = Some c)
    \<and> (0 < k \<longrightarrow> stored h' (buffer_index d') = Some (buffer_writes d'))"
  using ok range len
proof (induction k arbitrary: input sector d h)
  case 0
  then show ?case by auto
next
  case (Suc k)
  let ?sid = "host_sector d (unat sector)"
  have m: "mapSectorId d (ucast sector) = Ret ?sid"
    using Suc.prems by (intro mapSectorId_host) auto
  have "gcm_encrypt E (encryption_key d) (sector_iv ?sid) (take 512 input) \<noteq> None"
    using gcm(2) unfolding gcm_available_def by blast
  then obtain c where c: "pd_encrypt E d ?sid (take 512 input) = Some c"
    by (auto simp: pd_encrypt_def)
  have lc: "length c = 528"
    using pd_encrypt_decrypt [OF gcm(1) _ c] Suc.prems by simp
  let ?d = "d\<lparr>buffer_index := ?sid, buffer_writes := c\<rparr>" and ?h = "host_put h ?sid c"
  have enc: "pd_encrypt E (d\<lparr>buffer_index := ?sid\<rparr>) ?sid input = Some c"
    using c by (simp add: pd_encrypt_def)
  have "pd_flush E ?d h = (RES_OK, ?h)"
    unfolding E_def using lc by (simp add: pd_flush_host)
  then have step: "pd_write_loop E (Suc k) input sector d h = pd_write_loop E k (drop 512 input) (sector + 1) ?d ?h"
    using m enc by simp
  have sd: "same_disk d ?d" by simp
  note cong = same_disk_cong [OF sd]
  have b0: "stored ?h ?sid = pd_encrypt E d ?sid (block input 0)"
    using stored_host_put_same [OF lc] c Suc.prems(4) by (simp add: block_0)
  show ?case
  proof (cases "k = 0")
    case True
    have "pd_write_loop E (Suc k) input sector d h = Ret (RES_OK, ?d, ?h)" using step True by simp
    with b0 show ?thesis
      using True sd lc stored_host_put_same [OF lc] stored_host_put_other [OF lc] by auto
  next
    case False
    then have us: "unat (sector + 1) + i = unat sector + Suc i" for i
      using Suc.prems(3) by (subst unat_Suc_u32 [of _ "k - 1"]) auto
    obtain d' h' where r: "pd_write_loop E k (drop 512 input) (sector + 1) ?d ?h = Ret (RES_OK, d', h')"
      and sd': "same_disk ?d d'" and lb: "length (buffer_writes d') = 528"
      and new: "\<And>i. i < k \<Longrightarrow> stored h' (host_sector d (unat sector + Suc i))
            = pd_encrypt E d (host_sector d (unat sector + Suc i)) (block input (Suc i))"
      and old: "\<And>t c. stored ?h t = Some c \<Longrightarrow>
            (\<And>i. i < k \<Longrightarrow> t \<noteq> host_sector d (unat sector + Suc i)) \<Longrightarrow> stored h' t = Some c"
      and coh: "stored h' (buffer_index d') = Some (buffer_writes d')"
      using Suc.IH [of ?d "sector + 1" "drop 512 input" ?h] Suc.prems lc False
        us [of k] unfolding us block_drop cong by auto
    have "stored h' ?sid = Some c"
    proof (rule old)
      show "stored ?h ?sid = Some c" using lc by (rule stored_host_put_same)
      show "?sid \<noteq> host_sector d (unat sector + Suc i)" if "i < k" for i
        using host_sector_inject [OF Suc.prems(1), of "unat sector" "unat sector + Suc i"]
          Suc.prems(2) that by simp
    qed
    with b0 new stored_host_put_same [OF lc] have all: "\<forall>i<Suc k. stored h' (host_sector d (unat sector + i))
        = pd_encrypt E d (host_sector d (unat sector + i)) (block input i)"
      by (metis add.right_neutral less_Suc_eq_0_disj)
    have keep: "stored h' t = Some b" if "stored h t = Some b"
      and "\<forall>i<Suc k. t \<noteq> host_sector d (unat sector + i)" for t b
    proof -
      have "t \<noteq> ?sid" using that(2) by (metis add.right_neutral zero_less_Suc)
      then show ?thesis using that old stored_host_put_other [OF lc] by (meson Suc_mono)
    qed
    show ?thesis
      using step r same_disk_trans [OF sd sd'] lb all keep coh by auto
  qed
qed

lemma pd_read_loop_ok:
  fixes enc dec sha shuf
  defines "E \<equiv> host_env enc dec sha shuf"
  assumes ok: "tables_ok d"
    and range: "unat sector + k \<le> table_capacity d" "unat sector + k < 2 ^ 32"
    and st: "\<And>i. i < k \<Longrightarrow> \<exists>c. stored h (host_sector d (unat sector + i)) = Some c
              \<and> pd_decrypt E d (host_sector d (unat sector + i)) c = Some (bs i)"
  shows "\<exists>d'. pd_read_loop E k sector out d h = Ret (RES_OK, out @ concat (map bs [0..<k]), d', h)
    \<and> same_disk d d' \<and> buffer_index d' = buffer_index d \<and> buffer_writes d' = buffer_writes d"
  using ok range st
proof (induction k arbitrary: sector out d bs)
  case 0
  then show ?case by auto
next
  case (Suc k)
  let ?sid = "host_sector d (unat sector)"
  have m: "mapSectorId d (ucast sector) = Ret ?sid"
    using Suc.prems by (intro mapSectorId_host) auto
  obtain c where c: "stored h ?sid = Some c" "pd_decrypt E d ?sid c = Some (bs 0)"
    using Suc.prems(4) [of 0] by auto
  let ?d = "d\<lparr>buffer_encryption := c\<rparr>"
  have sd: "same_disk d ?d" by simp
  note cong = same_disk_cong [OF sd]
  have step: "pd_read_loop E (Suc k) sector out d h = pd_read_loop E k (sector + 1) (out @ bs 0) ?d h"
    using m c read_ocall_host [OF c(1)] by (simp add: E_def cong)
  have bs: "concat (map bs [0..<Suc k]) = bs 0 @ concat (map (\<lambda>i. bs (Suc i)) [0..<k])"
    by (subst map_upt_Suc) simp
  show ?case
  proof (cases "k = 0")
    case True
    then show ?thesis using step sd by auto
  next
    case False
    then have us: "unat (sector + 1) + i = unat sector + Suc i" for i
      using Suc.prems(3) by (subst unat_Suc_u32 [of _ "k - 1"]) auto
    have "\<exists>d'. pd_read_loop E k (sector + 1) (out @ bs 0) ?d h
        = Ret (RES_OK, (out @ bs 0) @ concat (map (\<lambda>i. bs (Suc i)) [0..<k]), d', h)
      \<and> same_disk ?d d' \<and> buffer_index d' = buffer_index ?d \<and> buffer_writes d' = buffer_writes ?d"
    proof (intro Suc.IH, unfold us cong)
      show "\<exists>c. stored h (host_sector d (unat sector + Suc i)) = Some c
          \<and> pd_decrypt E d (host_sector d (unat sector + Suc i)) c = Some (bs (Suc i))" if "i < k" for i
        using Suc.prems(4) [of "Suc i"] that by simp
    qed (use Suc.prems in auto)
    then show ?thesis unfolding step bs using same_disk_trans [OF sd] by auto
  qed
qed

text \<open>A write of any number of sectors, followed by a read of them.\<close>

lemma pd_write_read:
  fixes enc dec sha shuf
  defines "E \<equiv> host_env enc dec sha shuf"
  assumes ok: "tables_ok d" and gcm: "gcm_laws E" "gcm_available E" and n: "0 < n"
    and range: "unat sector + unat n \<le> table_capacity d" "unat sector + unat n < 2 ^ 32"
    and len: "length input = 512 * unat n" "length (buffer_writes d) = 528"
  shows "\<exists>d1 h1 d2. pd_diskWrite E input sector n d h = Ret (RES_OK, d1, h1)
    \<and> pd_diskRead E sector n d1 h1 = Ret (RES_OK, input, d2, h1)"
proof -
  obtain d1 h1 where w: "pd_write_loop E (unat n) input sector d h = Ret (RES_OK, d1, h1)"
    and sd: "same_disk d d1" and lb: "length (buffer_writes d1) = 528"
    and new: "\<And>i. i < unat n \<Longrightarrow> stored h1 (host_sector d (unat sector + i))
          = pd_encrypt E d (host_sector d (unat sector + i)) (block input i)"
    and coh: "stored h1 (buffer_index d1) = Some (buffer_writes d1)"
    using pd_write_loop_ok [OF ok gcm [unfolded E_def] range len, of h] n
    unfolding E_def by (auto simp: unat_gt_0)
  note cong = same_disk_cong [OF sd]
  have flush: "pd_flush E d1 h1 = (RES_OK, h1)"
    unfolding E_def using pd_flush_host [OF lb] host_put_same [OF coh] by simp
  have "\<exists>c. stored h1 (host_sector d1 (unat sector + i)) = Some c
      \<and> pd_decrypt E d1 (host_sector d1 (unat sector + i)) c = Some (block input i)" if "i < unat n" for i
  proof -
    let ?sid = "host_sector d (unat sector + i)"
    have bl: "length (block input i) = 512" using that len(1) by (simp add: block_def)
    have "gcm_encrypt E (encryption_key d) (sector_iv ?sid) (take 512 (block input i)) \<noteq> None"
      using gcm(2) unfolding gcm_available_def by blast
    then obtain c where c: "pd_encrypt E d ?sid (block input i) = Some c" by (auto simp: pd_encrypt_def)
    with new [OF that] pd_encrypt_decrypt [OF gcm(1) bl c] show ?thesis unfolding cong by auto
  qed
  from pd_read_loop_ok [of d1 sector "unat n" h1 enc dec sha shuf "block input" "[]", folded E_def] this
  obtain d2 where "pd_read_loop E (unat n) sector [] d1 h1 = Ret (RES_OK, input, d2, h1)"
    using ok range concat_blocks [OF len(1)] unfolding cong by auto
  with w flush show ?thesis by (auto simp: pd_diskWrite_def pd_diskRead_def)
qed

lemma pd_read_loop_host:
  "pd_read_loop (host_env enc dec sha shuf) k sector out d h = Ret (r, b, d', h') \<Longrightarrow> h' = h"
proof (induction k arbitrary: sector out d)
  case (Suc k)
  have "snd (read_ocall (host_env enc dec sha shuf) drive sid h) = h" for drive sid
    by (simp add: host_env_def host_read_up)
  with Suc show ?case
    by (auto simp: Let_def prod_eq_iff split: if_splits option.splits prod.splits)
qed simp

section \<open>The drive as a store of sectors\<close>

text \<open>
  The state is the environment, the drive and the host. \<open>pd_ok\<close> asks for a lawful cipher, tables
  that permute, a write buffer that repeats what the host has for its sector, and sectors that all
  decrypt; the transfers below are of one sector.
\<close>

definition pd_cap :: "fs_host pd_env \<times> persistent_disk \<times> fs_host \<Rightarrow> nat" where
  "pd_cap = (\<lambda>(E, d, h). min (table_capacity d) (2 ^ 32 - 1))"

definition pd_sector :: "fs_host pd_env \<Rightarrow> persistent_disk \<Rightarrow> fs_host \<Rightarrow> nat \<Rightarrow> bytes option" where
  "pd_sector E d h s = Option.bind (stored h (host_sector d s)) (pd_decrypt E d (host_sector d s))"

definition pd_ok :: "fs_host pd_env \<times> persistent_disk \<times> fs_host \<Rightarrow> bool" where
  "pd_ok = (\<lambda>(E, d, h).
     (\<exists>enc dec sha shuf. E = host_env enc dec sha shuf) \<and> gcm_laws E \<and> gcm_available E
     \<and> tables_ok d \<and> length (buffer_writes d) = 528
     \<and> stored h (buffer_index d) = Some (buffer_writes d)
     \<and> (\<forall>s<pd_cap (E, d, h). \<exists>b. pd_sector E d h s = Some b \<and> length b = 512))"

definition pd_rd :: "fs_host pd_env \<times> persistent_disk \<times> fs_host \<Rightarrow> nat \<Rightarrow> bytes option" where
  "pd_rd = (\<lambda>(E, d, h) s. case pd_diskRead E (of_nat s) 1 d h of
              Ret (RES_OK, b, _, _) \<Rightarrow> Some b | _ \<Rightarrow> None)"

definition pd_wr :: "fs_host pd_env \<times> persistent_disk \<times> fs_host \<Rightarrow> nat \<Rightarrow> bytes \<Rightarrow>
    (fs_host pd_env \<times> persistent_disk \<times> fs_host) option" where
  "pd_wr = (\<lambda>(E, d, h) s b. case pd_diskWrite E b (of_nat s) 1 d h of
              Ret (RES_OK, d', h') \<Rightarrow> Some (E, d', h') | _ \<Rightarrow> None)"

lemma pd_sector_Some:
  "pd_sector E d h s = Some b \<longleftrightarrow>
    (\<exists>c. stored h (host_sector d s) = Some c \<and> pd_decrypt E d (host_sector d s) c = Some b)"
  by (auto simp: pd_sector_def Option.bind_eq_Some_conv)

lemma pd_rd_eq:
  assumes ok: "pd_ok (E, d, h)" and s: "s < pd_cap (E, d, h)"
  shows "pd_rd (E, d, h) s = pd_sector E d h s"
proof -
  obtain enc dec sha shuf where E: "E = host_env enc dec sha shuf" and t: "tables_ok d"
    and lb: "length (buffer_writes d) = 528" and coh: "stored h (buffer_index d) = Some (buffer_writes d)"
    using ok by (auto simp: pd_ok_def)
  obtain b where b: "pd_sector E d h s = Some b" using ok s by (auto simp: pd_ok_def)
  have us: "unat (of_nat s :: u32) = s" using s by (simp add: pd_cap_def unat_of_nat)
  have flush: "pd_flush E d h = (RES_OK, h)"
    unfolding E using pd_flush_host [OF lb] host_put_same [OF coh] by simp
  have "\<exists>d'. pd_read_loop E 1 (of_nat s) [] d h = Ret (RES_OK, [] @ concat (map (\<lambda>_. b) [0..<1]), d', h)
      \<and> same_disk d d' \<and> buffer_index d' = buffer_index d \<and> buffer_writes d' = buffer_writes d"
    unfolding E using b s
    by (intro pd_read_loop_ok [OF t]) (auto simp: us pd_cap_def pd_sector_Some E)
  with flush b show ?thesis by (auto simp: pd_rd_def pd_diskRead_def)
qed

lemma pd_wr_ok:
  assumes ok: "pd_ok (E, d, h)" and s: "s < pd_cap (E, d, h)" and b: "length b = 512"
  shows "\<exists>d' h'. pd_wr (E, d, h) s b = Some (E, d', h') \<and> pd_ok (E, d', h')
    \<and> pd_cap (E, d', h') = pd_cap (E, d, h) \<and> pd_sector E d' h' s = Some b
    \<and> (\<forall>t<pd_cap (E, d, h). t \<noteq> s \<longrightarrow> pd_sector E d' h' t = pd_sector E d h t)"
proof -
  obtain enc dec sha shuf where E: "E = host_env enc dec sha shuf" and t: "tables_ok d"
    and lb: "length (buffer_writes d) = 528" and gcm: "gcm_laws E" "gcm_available E"
    and all: "\<And>s. s < pd_cap (E, d, h) \<Longrightarrow> \<exists>b. pd_sector E d h s = Some b \<and> length b = 512"
    using ok by (auto simp: pd_ok_def)
  have us: "unat (of_nat s :: u32) = s" using s by (simp add: pd_cap_def unat_of_nat)
  have "gcm_encrypt E (encryption_key d) (sector_iv (host_sector d s)) (take 512 b) \<noteq> None"
    using gcm(2) unfolding gcm_available_def by blast
  then obtain c where c: "pd_encrypt E d (host_sector d s) b = Some c" by (auto simp: pd_encrypt_def)
  obtain d' h' where w: "pd_write_loop E 1 b (of_nat s) d h = Ret (RES_OK, d', h')"
    and sd: "same_disk d d'" and lb': "length (buffer_writes d') = 528"
    and new: "stored h' (host_sector d s) = Some c"
    and old: "\<And>u e. stored h u = Some e \<Longrightarrow> u \<noteq> host_sector d s \<Longrightarrow> stored h' u = Some e"
    and coh: "stored h' (buffer_index d') = Some (buffer_writes d')"
    using pd_write_loop_ok [OF t gcm [unfolded E], of "of_nat s" 1 b h] s b lb c
    unfolding E by (auto simp: us pd_cap_def block_def slice_def)
  note cong = same_disk_cong [OF sd]
  have cap: "pd_cap (E, d', h') = pd_cap (E, d, h)" by (simp add: pd_cap_def cong)
  have same: "pd_sector E d' h' s = Some b"
    using new pd_encrypt_decrypt [OF gcm(1) b c] by (simp add: pd_sector_def cong)
  have other: "pd_sector E d' h' u = pd_sector E d h u" if u: "u < pd_cap (E, d, h)" "u \<noteq> s" for u
  proof -
    obtain e where e: "stored h (host_sector d u) = Some e" using all [OF u(1)] by (auto simp: pd_sector_Some)
    have "host_sector d u \<noteq> host_sector d s"
      using host_sector_inject [OF t, of u s] u s by (simp add: pd_cap_def)
    then show ?thesis using old [OF e] e by (simp add: pd_sector_def cong)
  qed
  have "\<exists>b. pd_sector E d' h' u = Some b \<and> length b = 512" if "u < pd_cap (E, d, h)" for u
    using all [OF that] same b other [OF that] by (cases "u = s") auto
  then have "pd_ok (E, d', h')"
    using gcm t lb' coh unfolding pd_ok_def by (auto simp: E cong cap [unfolded E])
  then show ?thesis using w cap same other by (auto simp: pd_wr_def pd_diskWrite_def)
qed

interpretation pdisk: sector_store 512 pd_ok pd_cap pd_rd pd_wr
proof (unfold_locales, goal_cases)
  case (1 x s)
  obtain E d h where x: "x = (E, d, h)" by (cases x)
  show ?case using 1 pd_rd_eq [of E d h s] by (auto simp: x pd_ok_def)
next
  case (2 x s b)
  obtain E d h where x: "x = (E, d, h)" by (cases x)
  show ?case using pd_wr_ok [of E d h s b] 2 by (auto simp: x)
next
  case (3 x s b x')
  obtain E d h where x: "x = (E, d, h)" by (cases x)
  show ?case using pd_wr_ok [of E d h s b] 3 by (auto simp: x pd_rd_eq)
next
  case (4 x s b x' t)
  obtain E d h where x: "x = (E, d, h)" by (cases x)
  show ?case using pd_wr_ok [of E d h s b] 4 by (auto simp: x pd_rd_eq)
qed

section \<open>Properties\<close>

text \<open>A drive over the bridge with a cipher that tags with the IV, for the witnesses.\<close>

definition example_env :: "fs_host pd_env" where
  "example_env = host_env (\<lambda>key iv p. Some (p, take 16 (iv @ replicate 16 0)))
     (\<lambda>key iv c t. if t = take 16 (iv @ replicate 16 0) then Some c else None)
     (\<lambda>text key. Some (replicate 32 7)) (\<lambda>seed xs. rev xs)"

definition example_pd :: persistent_disk where
  "example_pd = \<lparr>drive_id = 1, drive_size = 4096, num_sectors = 8, filesystem = 8,
     sectors_table_1 = [2, 0, 1, 3], sectors_table_2 = [1, 0], encryption_key = replicate 16 7,
     buffer_encryption = replicate 528 0, buffer_writes = replicate 528 0, buffer_index = 0\<rparr>"

definition example_host :: fs_host where
  "example_host = \<lparr>hfile = replicate 9000 5, header_size = 14, attached = 0\<rparr>"

lemma example_env_laws: "gcm_laws example_env" "gcm_available example_env" "shuffle_permutes example_env"
  by (auto simp: gcm_laws_def gcm_available_def shuffle_permutes_def example_env_def host_env_def
      split: if_splits)

lemma example_pd_tables: "tables_ok example_pd" "table_capacity example_pd = 8"
  by (auto simp: tables_ok_def table_capacity_def example_pd_def)

lemma started_tables:
  assumes new: "PersistentDisk_new E drive sz key fs = Ret d" and start: "pd_diskStart E d = Ret d'"
    and sh: "shuffle_permutes E" and n: "num_sectors d = n" "unat n < 2 ^ 32"
  shows "tables_ok d'" and "table_capacity d' = unat (size_table_1 n) * unat (size_table_2 n)"
proof -
  have e: "sectors_table_1 d = []" "sectors_table_2 d = []"
    using new by (auto simp: PersistentDisk_new_def FatFsDisk.defs)
  have "unat (size_table_2 n) \<noteq> 0" using n(2) by (simp add: table_sizes(2))
  then have "size_table_2 (num_sectors d) \<noteq> 0" by (auto simp: n)
  from prepare_tables_ok [OF sh e start [unfolded pd_diskStart_def] this]
  show "tables_ok d'" and "table_capacity d' = unat (size_table_1 n) * unat (size_table_2 n)"
    by (auto simp: table_capacity_def n)
qed

lemma new_num_sectors: "PersistentDisk_new E drive sz key fs = Ret d \<Longrightarrow> num_sectors d = sz div 512"
  by (auto simp: PersistentDisk_new_def FatFsDisk_new_def FatFsDisk.defs split: if_splits)

text \<open>C16: a started drive maps its sectors by a permutation: below the capacity of the tables
  every sector number is sent to one below the capacity, no two to the same one, and any number past
  the capacity indexes outside a table.\<close>

theorem pd_sector_permutation:
  assumes new: "PersistentDisk_new E drive sz key fs = Ret d" and start: "pd_diskStart E d = Ret d'"
    and sh: "shuffle_permutes E" and sz: "unat sz div 512 < 2 ^ 32"
  defines "n \<equiv> sz div 512"
  defines "c \<equiv> unat (size_table_1 n) * unat (size_table_2 n)"
  shows "(\<forall>s. unat s < c \<longrightarrow> (\<exists>t. mapSectorId d' s = Ret t \<and> unat t < c))
    \<and> (\<forall>s t. unat s < c \<longrightarrow> unat t < c \<longrightarrow> mapSectorId d' s = mapSectorId d' t \<longrightarrow> s = t)
    \<and> (\<forall>s. c \<le> unat s \<longrightarrow> mapSectorId d' s = Undef)"
proof -
  have n: "num_sectors d = n" using new_num_sectors [OF new] by (simp add: n_def)
  have "unat n < 2 ^ 32" using sz by (simp add: n_def unat_div)
  note tables = started_tables [OF new start sh n this]
  then have ok: "tables_ok d'" and c: "c = table_capacity d'" by (simp_all add: c_def)
  have lt: "sector_perm d' (unat s) < 2 ^ 64" if "unat s < c" for s :: u64
    using sector_perm_less [OF ok] table_capacity_less [OF ok] that unfolding c by (meson less_trans)
  have "\<exists>t. mapSectorId d' s = Ret t \<and> unat t < c" if "unat s < c" for s
    using that sector_perm_less [OF ok, of "unat s"] lt [OF that]
    by (simp add: mapSectorId_eq [OF ok] c unat_of_nat)
  moreover have "s = t" if "unat s < c" "unat t < c" "mapSectorId d' s = mapSectorId d' t" for s t
    using that host_sector_inject [OF ok, of "unat s" "unat t"]
    by (simp add: mapSectorId_eq [OF ok] c host_sector_def word_unat_eq_iff)
  ultimately show ?thesis by (simp add: mapSectorId_eq [OF ok] c)
qed

lemma example_new_start:
  "\<exists>d d'. PersistentDisk_new example_env 1 sz key fs = Ret d \<and> pd_diskStart example_env d = Ret d'"
  by (simp add: PersistentDisk_new_def FatFsDisk_new_def disk_consts getHashFromKey_def example_env_def
      host_env_def pd_diskStart_def prepareSectorTables_def Let_def word_le_nat_alt)

theorem pd_sector_permutation_witness:
  "\<exists>d d' t. PersistentDisk_new example_env 1 102400 [] 0 = Ret d \<and> pd_diskStart example_env d = Ret d'
     \<and> mapSectorId d' 199 = Ret t \<and> mapSectorId d' 512 = Undef"
proof -
  have r: "ceil_sqrt 200 = 15" by (rule ceil_sqrt_eq) simp_all
  have u: "unat (size_table_1 200) = 512" "unat (size_table_2 200) = 1"
    using table_sizes [of 200] r by simp_all
  obtain d d' where d: "PersistentDisk_new example_env 1 102400 [] 0 = Ret d"
    "pd_diskStart example_env d = Ret d'" using example_new_start by blast
  have "\<forall>s. unat s < 512 \<longrightarrow> (\<exists>t. mapSectorId d' s = Ret t \<and> unat t < 512)"
    and "\<forall>s. 512 \<le> unat s \<longrightarrow> mapSectorId d' s = Undef"
    using pd_sector_permutation [OF d example_env_laws(3)] by (simp_all add: u)
  from this(1) [rule_format, of 199] this(2) [rule_format, of 512] d show ?thesis by auto
qed

text \<open>the tables are too small: when the size of the first table does not divide the number of
  sectors, the last sector the drive reports indexes outside a table.\<close>

theorem pd_tables_too_small:
  assumes new: "PersistentDisk_new E drive sz key fs = Ret d" and start: "pd_diskStart E d = Ret d'"
    and sh: "shuffle_permutes E" and n: "num_sectors d = n" "unat n < 2 ^ 32"
    and small: "unat (size_table_1 n) \<le> unat n" "\<not> unat (size_table_1 n) dvd unat n"
  shows "mapSectorId d' (n - 1) = Undef"
proof -
  let ?l1 = "unat (size_table_1 n)" and ?l2 = "unat (size_table_2 n)"
  have l1: "0 < ?l1" using n(2) by (simp add: table_sizes(1))
  have "1 \<le> unat n div ?l1" using small(1) l1 by (simp add: Suc_le_eq div_greater_zero_iff)
  then have l2: "?l2 = unat n div ?l1" using n(2) by (simp add: table_sizes(2))
  note ok = started_tables(1) [OF new start sh n] and c = started_tables(2) [OF new start sh n]
  have "unat n mod ?l1 \<noteq> 0" using small(2) by (simp add: dvd_eq_mod_eq_0)
  then have lt: "?l1 * ?l2 < unat n" unfolding l2 using mult_div_mod_eq [of ?l1 "unat n"] by linarith
  then have "unat (n - 1) = unat n - 1"
    by (intro unat_minus_one) auto
  with lt c ok show ?thesis by (simp add: mapSectorId_eq)
qed

theorem pd_tables_too_small_witness:
  "\<exists>d d'. PersistentDisk_new example_env 1 1073741824 [] 0 = Ret d \<and> pd_diskStart example_env d = Ret d'
     \<and> mapSectorId d' 2097151 = Undef"
proof -
  obtain d d' where d: "PersistentDisk_new example_env 1 1073741824 [] 0 = Ret d"
    "pd_diskStart example_env d = Ret d'" using example_new_start by blast
  have n: "num_sectors d = 2097152"
    using d(1) by (auto simp: PersistentDisk_new_def FatFsDisk_new_def FatFsDisk.defs split: if_splits)
  have r: "ceil_sqrt 2097152 = 1449" by (rule ceil_sqrt_eq) simp_all
  have u: "unat (size_table_1 2097152) = 1536" using table_sizes(1) [of 2097152] r by simp
  have "mapSectorId d' (2097152 - 1) = Undef"
    by (rule pd_tables_too_small [OF d example_env_laws(3) n]) (simp_all add: u)
  with d show ?thesis by auto
qed

text \<open>C14: what is written is read back: a write of any number of whole sectors that lie below the
  capacity of the tables is accepted, is encrypted and stored, and the read of the same sectors
  returns the bytes written and leaves the host's file as it is.\<close>

theorem pd_write_read_roundtrip:
  fixes enc dec sha shuf
  defines "E \<equiv> host_env enc dec sha shuf"
  assumes "tables_ok d" and "gcm_laws E" and "gcm_available E" and "0 < n"
    and "unat sector + unat n \<le> table_capacity d" and "unat sector + unat n < 2 ^ 32"
    and "length input = 512 * unat n" and "length (buffer_writes d) = 528"
  shows "\<exists>d1 h1 d2. pd_diskWrite E input sector n d h = Ret (RES_OK, d1, h1)
    \<and> pd_diskRead E sector n d1 h1 = Ret (RES_OK, input, d2, h1)"
  unfolding E_def using assms(2) assms(3,4) [unfolded E_def] assms(5-9) by (rule pd_write_read)

theorem pd_write_read_roundtrip_witness:
  "\<exists>d1 h1 d2. pd_diskWrite example_env (replicate 1536 9) 2 3 example_pd example_host = Ret (RES_OK, d1, h1)
    \<and> pd_diskRead example_env 2 3 d1 h1 = Ret (RES_OK, replicate 1536 9, d2, h1)"
  unfolding example_env_def
  by (rule pd_write_read_roundtrip)
    (simp_all only: example_pd_tables example_env_laws [unfolded example_env_def], simp_all add: example_pd_def)


text \<open>A drive of one sector that has been written once.\<close>

definition example_one :: persistent_disk where
  "example_one = example_pd\<lparr>sectors_table_1 := [0], sectors_table_2 := [0],
     buffer_writes := replicate 528 0\<rparr>"

definition example_one_host :: fs_host where
  "example_one_host = \<lparr>hfile = replicate 528 0, header_size = 0, attached = 0\<rparr>"

lemma example_one_ok:
  "pd_ok (example_env, example_one, example_one_host)" "pd_cap (example_env, example_one, example_one_host) = 1"
proof -
  have t: "tables_ok example_one" "table_capacity example_one = 1"
    by (simp_all add: tables_ok_def table_capacity_def example_one_def)
  have s0: "host_sector example_one 0 = 0"
    by (simp add: host_sector_def sector_perm_def example_one_def)
  have st: "stored example_one_host 0 = Some (replicate 528 0)"
    by (simp add: stored_def example_one_host_def slice_def)
  have "pd_decrypt example_env example_one 0 (replicate 528 0) = Some (replicate 512 0)"
    by (simp add: pd_decrypt_def example_env_def host_env_def sector_iv_def IV_SIZE_def le_bytes_def
        upt_rec numeral_eq_Suc)
  then have "pd_sector example_env example_one example_one_host 0 = Some (replicate 512 0)"
    by (simp add: pd_sector_def s0 st)
  then show "pd_ok (example_env, example_one, example_one_host)"
    using t st example_env_laws
    by (auto simp: pd_ok_def pd_cap_def example_env_def) (simp_all add: example_one_def example_pd_def)
  show "pd_cap (example_env, example_one, example_one_host) = 1" by (simp add: pd_cap_def t)
qed




text \<open>the first read of a drive that has just been created and started overwrites sector 0 of the
  host's file with zeros, because it flushes the empty write buffer first.\<close>

theorem pd_first_read_clobbers:
  assumes new: "PersistentDisk_new (host_env enc dec sha shuf) drive sz key fs = Ret d"
    and start: "pd_diskStart (host_env enc dec sha shuf) d = Ret d'"
    and rd: "pd_diskRead (host_env enc dec sha shuf) sector n d' h = Ret (r, b, d'', h')"
  shows "stored h' 0 = Some (replicate 528 0)"
proof -
  have "buffer_writes d = replicate 528 0" "buffer_index d = 0"
    using new by (auto simp: PersistentDisk_new_def FatFsDisk.defs)
  then have d': "buffer_writes d' = replicate 528 0" "buffer_index d' = 0"
    using start by (auto simp: pd_diskStart_def prepareSectorTables_def Let_def)
  then have "h' = host_put h 0 (replicate 528 0)"
    using rd by (auto simp: pd_diskRead_def pd_flush_host dest: pd_read_loop_host)
  then show ?thesis by (simp add: stored_host_put_same)
qed

theorem pd_first_read_clobbers_witness:
  "\<exists>d d' x. PersistentDisk_new example_env 1 102400 [] 0 = Ret d \<and> pd_diskStart example_env d = Ret d'
    \<and> pd_diskRead example_env 5 1 d' example_host = Ret x \<and> stored example_host 0 = Some (replicate 528 5)
    \<and> stored (snd (snd (snd x))) 0 = Some (replicate 528 0)"
proof -
  obtain d d' where d: "PersistentDisk_new example_env 1 102400 [] 0 = Ret d"
    "pd_diskStart example_env d = Ret d'" using example_new_start by blast
  have n: "num_sectors d = 200" using new_num_sectors [OF d(1)] by simp
  have r: "ceil_sqrt 200 = 15" by (rule ceil_sqrt_eq) simp_all
  have u: "unat (size_table_1 200) = 512" "unat (size_table_2 200) = 1"
    using table_sizes [of 200] r by simp_all
  have m: "mapSectorId d' 5 = Ret (host_sector d' 5)"
    using mapSectorId_host [OF started_tables(1) [OF d example_env_laws(3) n], of 5]
      started_tables(2) [OF d example_env_laws(3) n] u by simp
  have "\<exists>x. pd_diskRead example_env 5 1 d' example_host = Ret x"
    using m by (simp add: pd_diskRead_def Let_def split: prod.split option.split)
  then obtain r b d'' h' where x: "pd_diskRead example_env 5 1 d' example_host = Ret (r, b, d'', h')"
    by (metis prod_cases4)
  have "stored example_host 0 = Some (replicate 528 5)"
    by (simp add: stored_def example_host_def slice_def)
  then show ?thesis using d x pd_first_read_clobbers [OF d [unfolded example_env_def] x [unfolded example_env_def]]
    by auto
qed

end
