(* ===== verification/Disk_Registry.thy ===== *)
theory Disk_Registry
  imports InMemory_Disk Persistent_Disk
begin

text \<open>
  The table of drives FatFs calls into: \<open>cpp/fatfs/common/src/diskio.cpp\<close>. The vector \<open>disks\<close> holds
  shared pointers, so it is a list of addresses of drive objects (0 is \<open>nullptr\<close>) and the objects
  live in a store of their own; a virtual call dispatches on the object. \<open>f_mkfs\<close> and \<open>f_mount\<close> of
  FatFs are parameters.
\<close>

section \<open>FatFs results\<close>

datatype FRESULT =
    FR_OK | FR_DISK_ERR | FR_INT_ERR | FR_NOT_READY | FR_NO_FILE | FR_NO_PATH | FR_INVALID_NAME
  | FR_DENIED | FR_EXIST | FR_INVALID_OBJECT | FR_WRITE_PROTECTED | FR_INVALID_DRIVE | FR_NOT_ENABLED
  | FR_NO_FILESYSTEM | FR_MKFS_ABORTED | FR_TIMEOUT | FR_LOCKED | FR_NOT_ENOUGH_CORE
  | FR_TOO_MANY_OPEN_FILES | FR_INVALID_PARAMETER

section \<open>State\<close>

datatype disk = InMemory inmemory_disk | Persistent persistent_disk

record 'h disk_system =
  disks :: "ptr list"
  objects :: "ptr \<rightharpoonup> disk"
  host :: 'h

definition disks_init :: "ptr list" where
  "disks_init = replicate (unat FF_VOLUMES) 0"

definition disk_base :: "disk \<Rightarrow> FatFsDisk" where
  "disk_base x = (case x of InMemory d \<Rightarrow> FatFsDisk.truncate d | Persistent d \<Rightarrow> FatFsDisk.truncate d)"

section \<open>Registration\<close>

text \<open>\<open>disks[drive] = disk\<close> does not check the index; \<open>erase\<close> of an element that is not there is undefined.\<close>

definition disk_register :: "u8 \<Rightarrow> ptr \<Rightarrow> 'h disk_system \<Rightarrow> (FatFsResult \<times> 'h disk_system) cpp" where
  "disk_register drive p st =
     (if drive \<ge> FF_VOLUMES then Ret (WRONG_DRIVE_ID, st)
      else if unat drive < length (disks st) then Ret (FatFs_OK, st\<lparr>disks := (disks st)[unat drive := p]\<rparr>)
      else Undef)"

definition disk_unregister :: "u8 \<Rightarrow> 'h disk_system \<Rightarrow> (FatFsResult \<times> 'h disk_system) cpp" where
  "disk_unregister drive st =
     (if drive \<ge> FF_VOLUMES then Ret (WRONG_DRIVE_ID, st)
      else if unat drive < length (disks st)
        then Ret (FatFs_OK, st\<lparr>disks := take (unat drive) (disks st) @ drop (Suc (unat drive)) (disks st)\<rparr>)
      else Undef)"

text \<open>\<open>disks.at (drive)\<close> and the dereference.\<close>

definition disk_at :: "u8 \<Rightarrow> 'h disk_system \<Rightarrow> (ptr \<times> disk) cpp" where
  "disk_at drive st =
     (if unat drive < length (disks st)
      then (let p = disks st ! unat drive in
            if p = 0 then Undef
            else case objects st p of None \<Rightarrow> Undef | Some x \<Rightarrow> Ret (p, x))
      else Throw OutOfRange)"

section \<open>The five entry points\<close>

definition disk_initialize :: "u8 \<Rightarrow> 'h disk_system \<Rightarrow> DRESULT cpp" where
  "disk_initialize drive st =
     (if drive \<ge> FF_VOLUMES then Ret RES_PARERR
      else cbind (disk_at drive st) (\<lambda>(p, x). Ret (diskInitialize (disk_base x))))"

definition disk_status :: "u8 \<Rightarrow> 'h disk_system \<Rightarrow> DRESULT cpp" where
  "disk_status drive st =
     (if drive \<ge> FF_VOLUMES then Ret RES_PARERR
      else cbind (disk_at drive st) (\<lambda>(p, x). Ret (diskStatus (disk_base x))))"

definition disk_read ::
    "'h pd_env \<Rightarrow> u8 \<Rightarrow> u32 \<Rightarrow> u8 \<Rightarrow> 'h disk_system \<Rightarrow> (DRESULT \<times> bytes \<times> 'h disk_system) cpp" where
  "disk_read E drive sector num st =
     (if drive \<ge> FF_VOLUMES then Ret (RES_PARERR, [], st)
      else cbind (disk_at drive st) (\<lambda>(p, x).
        case x of
          InMemory d \<Rightarrow> cbind (imd_diskRead d sector num) (\<lambda>(r, b). Ret (r, b, st))
        | Persistent d \<Rightarrow>
            cbind (pd_diskRead E sector num d (host st)) (\<lambda>(r, b, d', h').
              Ret (r, b, st\<lparr>objects := (objects st)(p \<mapsto> Persistent d'), host := h'\<rparr>))))"

definition disk_write ::
    "'h pd_env \<Rightarrow> u8 \<Rightarrow> bytes \<Rightarrow> u32 \<Rightarrow> u8 \<Rightarrow> 'h disk_system \<Rightarrow> (DRESULT \<times> 'h disk_system) cpp" where
  "disk_write E drive buf sector num st =
     (if drive \<ge> FF_VOLUMES then Ret (RES_PARERR, st)
      else cbind (disk_at drive st) (\<lambda>(p, x).
        case x of
          InMemory d \<Rightarrow>
            cbind (imd_diskWrite d buf sector num) (\<lambda>(r, d').
              Ret (r, st\<lparr>objects := (objects st)(p \<mapsto> InMemory d')\<rparr>))
        | Persistent d \<Rightarrow>
            cbind (pd_diskWrite E buf sector num d (host st)) (\<lambda>(r, d', h').
              Ret (r, st\<lparr>objects := (objects st)(p \<mapsto> Persistent d'), host := h'\<rparr>))))"

definition disk_ioctl ::
    "'h pd_env \<Rightarrow> u8 \<Rightarrow> u8 \<Rightarrow> 'h disk_system \<Rightarrow> (DRESULT \<times> ioctl_out \<times> 'h disk_system) cpp" where
  "disk_ioctl E drive cmd st =
     (if drive \<ge> FF_VOLUMES then Ret (RES_PARERR, NoOut, st)
      else cbind (disk_at drive st) (\<lambda>(p, x).
        case x of
          InMemory d \<Rightarrow> (case imd_diskIoCtl d cmd of (r, v) \<Rightarrow> Ret (r, v, st))
        | Persistent d \<Rightarrow>
            (case pd_diskIoCtl E cmd d (host st) of (r, v, h') \<Rightarrow> Ret (r, v, st\<lparr>host := h'\<rparr>))))"

definition get_fattime :: u32 where "get_fattime = 1"

section \<open>Starting and stopping a drive\<close>

text \<open>
  FatFs as these two functions see it: both calls may change the drives. \<open>drive_text\<close> of \<open>disk_start\<close>
  is read after the temporary string it points into has been destroyed, so what it reads is an
  argument.
\<close>

record 'h fatfs_volume =
  f_mkfs :: "string \<Rightarrow> 'h disk_system \<Rightarrow> (FRESULT \<times> 'h disk_system) cpp"
  f_mount :: "ptr \<Rightarrow> string \<Rightarrow> 'h disk_system \<Rightarrow> (FRESULT \<times> 'h disk_system) cpp"

definition disk_start ::
    "'h fatfs_volume \<Rightarrow> string \<Rightarrow> ptr \<Rightarrow> DiskInitialization \<Rightarrow> 'h disk_system \<Rightarrow>
     (FatFsResult \<times> 'h disk_system) cpp" where
  "disk_start F drive_text p init_type st =
     (case objects st p of
        None \<Rightarrow> Undef
      | Some x \<Rightarrow>
          let drive = drive_id (disk_base x) in
          if drive \<ge> FF_VOLUMES then Ret (WRONG_DRIVE_ID, st)
          else cbind (disk_register drive p st) (\<lambda>(r, st1).
            if r \<noteq> FatFs_OK then Ret (DRIVE_REGISTRATION_FAILED, st1)
            else cbind (if init_type = FORMAT then f_mkfs F drive_text st1 else Ret (FR_OK, st1)) (\<lambda>(res_mkfs, st2).
              if res_mkfs = FR_MKFS_ABORTED then Ret (MKFS_ABORTED, st2)
              else if res_mkfs \<noteq> FR_OK then Ret (MKFS_GENERIC_ERROR, st2)
              else cbind (disk_at drive st2) (\<lambda>(q, y).
                   cbind (f_mount F (filesystem (disk_base y)) drive_text st2) (\<lambda>(res, st3).
                     Ret (if res \<noteq> FR_OK then MOUNT_FAILED else FatFs_OK, st3))))))"

definition disk_stop ::
    "'h fatfs_volume \<Rightarrow> u8 \<Rightarrow> string \<Rightarrow> 'h disk_system \<Rightarrow> (FatFsResult \<times> 'h disk_system) cpp" where
  "disk_stop F drive drive_text_id st =
     (if drive \<ge> FF_VOLUMES then Ret (WRONG_DRIVE_ID, st)
      else cbind (disk_unregister drive st) (\<lambda>(r, st1).
        if r \<noteq> FatFs_OK then Ret (DRIVE_UNREGISTRATION_FAILED, st1)
        else cbind (f_mount F 0 drive_text_id st1) (\<lambda>(res, st2).
          Ret (if res \<noteq> FR_OK then UMOUNT_FAILED else FatFs_OK, st2))))"

section \<open>Properties\<close>

text \<open>Two drives and a FatFs whose volume calls succeed, for the witnesses.\<close>

definition example_system :: "fs_host disk_system" where
  "example_system = \<lparr>disks = [16, 32],
     objects = [16 \<mapsto> InMemory (example_disk 100000), 32 \<mapsto> Persistent example_one],
     host = example_one_host\<rparr>"

definition example_volume :: "fs_host fatfs_volume" where
  "example_volume = \<lparr>f_mkfs = (\<lambda>_ st. Ret (FR_OK, st)), f_mount = (\<lambda>_ _ st. Ret (FR_OK, st))\<rparr>"

lemma disk_at_drive: "disk_at drive st = Ret (p, x) \<Longrightarrow>
    unat drive < length (disks st) \<and> disks st ! unat drive = p \<and> p \<noteq> 0 \<and> objects st p = Some x"
  by (auto simp: disk_at_def Let_def split: if_splits option.splits)

lemma disk_at_frame:
  "disks st' = disks st \<Longrightarrow> objects st' p = objects st p \<Longrightarrow>
    disk_at drive st = Ret (p, x) \<Longrightarrow> disk_at drive st' = Ret (p, x)"
  by (auto simp: disk_at_def Let_def split: if_splits option.splits)

text \<open>drives are isolated: a transfer on one drive, whatever its outcome, leaves the table of drives
  and every other drive's object as they were.\<close>

theorem drive_isolation:
  assumes p: "disk_at drive st = Ret (p, x)" and q: "disk_at other st = Ret (q, y)" and ne: "p \<noteq> q"
  shows "(disk_write E drive buf sector num st = Ret (r, st') \<longrightarrow>
        disks st' = disks st \<and> disk_at other st' = Ret (q, y))
    \<and> (disk_read E drive sector num st = Ret (r, b, st') \<longrightarrow>
        disks st' = disks st \<and> disk_at other st' = Ret (q, y))"
  using p q ne
  by (auto simp: disk_write_def disk_read_def intro!: disk_at_frame [OF _ _ q] split: if_splits disk.splits)

theorem drive_isolation_witness:
  "\<exists>st'. disk_write example_env 0 (replicate 512 7) 3 1 example_system = Ret (RES_OK, st')
     \<and> disk_at 1 st' = Ret (32, Persistent example_one)"
proof -
  have p: "disk_at 0 example_system = Ret (16, InMemory (example_disk 100000))"
    and q: "disk_at 1 example_system = Ret (32, Persistent example_one)"
    by (simp_all add: disk_at_def example_system_def)
  obtain d' where "imd_diskWrite (example_disk 100000) (replicate 512 7) 3 1 = Ret (RES_OK, d')"
    by (simp add: imd_diskWrite_eq [OF example_disk_ok] write_offset_def) (simp add: example_disk_def)
  then have w: "disk_write example_env 0 (replicate 512 7) 3 1 example_system
      = Ret (RES_OK, example_system\<lparr>objects := (objects example_system)(16 \<mapsto> InMemory d')\<rparr>)"
    using p by (simp add: disk_write_def disk_consts)
  have "(16 :: ptr) \<noteq> 32" by simp
  from w drive_isolation [OF p q this, THEN conjunct1, rule_format, OF w] show ?thesis by blast
qed

text \<open>FatFs does not know the table of drives, which it cannot change.\<close>

definition keeps_disks :: "'h fatfs_volume \<Rightarrow> bool" where
  "keeps_disks F \<longleftrightarrow>
     (\<forall>txt st r st'. f_mkfs F txt st = Ret (r, st') \<longrightarrow> disks st' = disks st)
   \<and> (\<forall>fs txt st r st'. f_mount F fs txt st = Ret (r, st') \<longrightarrow> disks st' = disks st)"

lemma keeps_disksD:
  "keeps_disks F \<Longrightarrow> f_mkfs F txt st = Ret (r, st') \<Longrightarrow> disks st' = disks st"
  "keeps_disks F \<Longrightarrow> f_mount F fs txt st = Ret (r, st') \<Longrightarrow> disks st' = disks st"
  unfolding keeps_disks_def by blast+

text \<open>\<open>disk_start\<close> reports success exactly when the volume was formatted (if that was asked for)
  and mounted; the drive stays registered even when it reports a failure of FatFs, and no
  other slot of the table changes.\<close>

theorem disk_start_outcome:
  assumes F: "keeps_disks F" and x: "objects st p = Some x" and drive: "drive = drive_id (disk_base x)" "drive < FF_VOLUMES"
    and len: "length (disks st) = 2" and r: "disk_start F txt p init st = Ret (r, st')"
  defines "st1 \<equiv> st\<lparr>disks := (disks st)[unat drive := p]\<rparr>"
  shows "disks st' = (disks st)[unat drive := p]
    \<and> (r = FatFs_OK \<longleftrightarrow>
        (\<exists>st2 q y. (if init = FORMAT then f_mkfs F txt st1 = Ret (FR_OK, st2) else st2 = st1)
           \<and> disk_at drive st2 = Ret (q, y)
           \<and> f_mount F (filesystem (disk_base y)) txt st2 = Ret (FR_OK, st')))
    \<and> r \<in> {FatFs_OK, MKFS_ABORTED, MKFS_GENERIC_ERROR, MOUNT_FAILED}"
proof -
  have "unat drive < 2" using drive(2) by (simp add: disk_consts word_less_nat_alt)
  then have reg: "disk_register drive p st = Ret (FatFs_OK, st1)"
    using drive(2) len by (simp add: disk_register_def st1_def not_le)
  have nle: "\<not> FF_VOLUMES \<le> drive" using drive(2) by (simp add: not_le)
  have "disk_start F txt p init st = cbind (if init = FORMAT then f_mkfs F txt st1 else Ret (FR_OK, st1)) (\<lambda>(res_mkfs, st2).
      if res_mkfs = FR_MKFS_ABORTED then Ret (MKFS_ABORTED, st2)
      else if res_mkfs \<noteq> FR_OK then Ret (MKFS_GENERIC_ERROR, st2)
      else cbind (disk_at drive st2) (\<lambda>(q, y).
           cbind (f_mount F (filesystem (disk_base y)) txt st2) (\<lambda>(res, st3).
             Ret (if res \<noteq> FR_OK then MOUNT_FAILED else FatFs_OK, st3))))"
    by (simp add: disk_start_def Let_def x nle reg drive(1) [symmetric])
  note run = r [unfolded this]
  have d1: "disks st1 = (disks st)[unat drive := p]" by (simp add: st1_def)
  show ?thesis
    using run d1 keeps_disksD [OF F]
    by (cases "init = FORMAT") (auto split: if_splits)
qed

theorem disk_start_outcome_witness:
  "\<exists>r st'. disk_start example_volume ''0:'' 16 FORMAT (example_system\<lparr>disks := [0, 0]\<rparr>) = Ret (r, st')
     \<and> disks st' = [16, 0]"
proof -
  let ?st = "example_system\<lparr>disks := [0, 0]\<rparr>" and ?d = "InMemory (example_disk 100000)"
  have o: "objects example_system 16 = Some ?d" by (simp add: example_system_def)
  then have x: "objects ?st 16 = Some ?d" by simp
  have i: "drive_id (disk_base ?d) = 0"
    by (simp add: disk_base_def example_disk_def FatFsDisk.defs)
  have F: "keeps_disks example_volume" by (simp add: keeps_disks_def example_volume_def)
  have "disk_register 0 16 ?st = Ret (FatFs_OK, ?st\<lparr>disks := [16, 0]\<rparr>)"
    and "disk_at 0 (?st\<lparr>disks := [16, 0]\<rparr>) = Ret (16, ?d)"
    using o by (simp_all add: disk_register_def disk_consts disk_at_def)
  then have run: "disk_start example_volume ''0:'' 16 FORMAT ?st = Ret (FatFs_OK, ?st\<lparr>disks := [16, 0]\<rparr>)"
    by (simp add: disk_start_def Let_def o i disk_consts example_volume_def)
  have len: "length (disks ?st) = 2" by simp
  have "(0 :: u8) < FF_VOLUMES" by (simp add: disk_consts)
  from disk_start_outcome [OF F x i [symmetric] this len run] run show ?thesis by auto
qed

text \<open>unregistering drive 0 while drive 1 is in use renumbers drive 1: the calls for drive 0
  reach the other drive's object, the calls for drive 1 raise \<open>std::out_of_range\<close>, and registering
  drive 1 again writes past the end of the vector.\<close>

theorem unregister_renumbers:
  assumes "disks st = [a, b]" and "disk_at 1 st = Ret (b, x)"
  shows "\<exists>st'. disk_unregister 0 st = Ret (FatFs_OK, st') \<and> disk_at 0 st' = Ret (b, x)
    \<and> disk_read E 1 sector num st' = Throw OutOfRange
    \<and> disk_write E 1 buf sector num st' = Throw OutOfRange \<and> disk_register 1 p st' = Undef"
  using assms
  by (auto simp: disk_unregister_def disk_at_def disk_read_def disk_write_def disk_register_def disk_consts
      word_le_nat_alt Let_def split: if_splits option.splits)

theorem unregister_renumbers_witness:
  "\<exists>st'. disk_unregister 0 example_system = Ret (FatFs_OK, st') \<and> disk_read example_env 1 0 1 st' = Throw OutOfRange"
proof -
  have "disks example_system = [16, 32]" "disk_at 1 example_system = Ret (32, Persistent example_one)"
    by (simp_all add: disk_at_def example_system_def)
  from unregister_renumbers [OF this] show ?thesis by blast
qed

end
