(* ===== verification/FatFs_File_Manager.thy ===== *)
theory FatFs_File_Manager
  imports Disk_Registry
begin

text \<open>
  The POSIX layer of one filesystem, \<open>FatFsFileManager\<close> of
  \<open>cpp/fatfs/common/src/fatfs_file_manager.cpp\<close>: its tables of open files and directories, the
  mutex every public member function takes, and the functions themselves. FatFs below it is a
  record of parameters over a volume state. Objects made with \<open>new\<close> and \<open>calloc\<close> get their address
  as an argument; an access through a pointer that is not allocated is undefined.
\<close>

unbundle bit_operations_syntax

section \<open>Constants\<close>

definition FA_READ :: u8 where "FA_READ = 0x01"
definition FA_WRITE :: u8 where "FA_WRITE = 0x02"
definition FA_CREATE_NEW :: u8 where "FA_CREATE_NEW = 0x04"
definition FA_CREATE_ALWAYS :: u8 where "FA_CREATE_ALWAYS = 0x08"
definition FA_OPEN_ALWAYS :: u8 where "FA_OPEN_ALWAYS = 0x10"
definition FA_OPEN_APPEND :: u8 where "FA_OPEN_APPEND = 0x30"
definition AM_HID :: u8 where "AM_HID = 0x02"
definition AM_SYS :: u8 where "AM_SYS = 0x04"
definition AM_DIR :: u8 where "AM_DIR = 0x10"
definition AM_ARC :: u8 where "AM_ARC = 0x20"

lemmas fatfs_flags = FA_READ_def FA_WRITE_def FA_CREATE_NEW_def FA_CREATE_ALWAYS_def FA_OPEN_ALWAYS_def
  FA_OPEN_APPEND_def AM_HID_def AM_SYS_def AM_DIR_def AM_ARC_def

text \<open>The flags of \<open>fcntl.h\<close>, the modes of \<open>sys/stat.h\<close> and the errors of \<open>errno.h\<close>, with their Linux values.\<close>

definition O_RDONLY :: u32 where "O_RDONLY = 0"
definition O_WRONLY :: u32 where "O_WRONLY = 1"
definition O_RDWR :: u32 where "O_RDWR = 2"
definition O_CREAT :: u32 where "O_CREAT = 64"
definition O_EXCL :: u32 where "O_EXCL = 128"
definition O_TRUNC :: u32 where "O_TRUNC = 512"
definition O_APPEND :: u32 where "O_APPEND = 1024"

lemmas open_flags = O_RDONLY_def O_WRONLY_def O_RDWR_def O_CREAT_def O_EXCL_def O_TRUNC_def O_APPEND_def

definition S_IFREG :: u32 where "S_IFREG = 32768"
definition S_IFDIR :: u32 where "S_IFDIR = 16384"
definition DT_DIR :: u32 where "DT_DIR = 16384"
definition DT_REG :: u32 where "DT_REG = 32768"

definition ENOENT :: int where "ENOENT = 2"
definition EBADF :: int where "EBADF = 9"
definition EACCES :: int where "EACCES = 13"
definition EBUSY :: int where "EBUSY = 16"
definition EXDEV :: int where "EXDEV = 18"
definition ENOTDIR :: int where "ENOTDIR = 20"
definition EINVAL :: int where "EINVAL = 22"
definition EMFILE :: int where "EMFILE = 24"
definition ENOTEMPTY :: int where "ENOTEMPTY = 39"

lemmas errno_values = ENOENT_def EBADF_def EACCES_def EBUSY_def EXDEV_def ENOTDIR_def EINVAL_def EMFILE_def
  ENOTEMPTY_def

definition SEEK_SET :: int where "SEEK_SET = 0"
definition SEEK_CUR :: int where "SEEK_CUR = 1"
definition SEEK_END :: int where "SEEK_END = 2"

section \<open>Data\<close>

record filinfo =
  fsize :: u32
  fattrib :: u8
  fname :: string

record stat_buf =
  st_size :: int
  st_mode :: u32

text \<open>\<open>struct dirent\<close> and \<open>struct dirent64\<close> have the same members.\<close>

record dirent =
  d_ino :: u64
  d_off :: int
  d_reclen :: u16
  d_type :: u8
  d_name :: string

text \<open>
  The functions of FatFs the manager calls, over the state \<open>'v\<close> of the mounted volumes. \<open>f_read\<close> and
  \<open>f_write\<close> give the number of bytes transferred; file sizes and offsets (\<open>FSIZE_t\<close>) have 32 bits.
\<close>

record 'v fatfs =
  f_open :: "ptr \<Rightarrow> string \<Rightarrow> u8 \<Rightarrow> 'v \<Rightarrow> FRESULT \<times> 'v"
  f_close :: "ptr \<Rightarrow> 'v \<Rightarrow> FRESULT \<times> 'v"
  f_sync :: "ptr \<Rightarrow> 'v \<Rightarrow> FRESULT \<times> 'v"
  f_read :: "ptr \<Rightarrow> u32 \<Rightarrow> 'v \<Rightarrow> FRESULT \<times> bytes \<times> 'v"
  f_write :: "ptr \<Rightarrow> bytes \<Rightarrow> 'v \<Rightarrow> FRESULT \<times> u32 \<times> 'v"
  f_lseek :: "ptr \<Rightarrow> u32 \<Rightarrow> 'v \<Rightarrow> FRESULT \<times> 'v"
  f_tell :: "ptr \<Rightarrow> 'v \<Rightarrow> u32"
  f_size :: "ptr \<Rightarrow> 'v \<Rightarrow> u32"
  f_truncate :: "ptr \<Rightarrow> 'v \<Rightarrow> FRESULT \<times> 'v"
  f_stat :: "string \<Rightarrow> 'v \<Rightarrow> FRESULT \<times> filinfo \<times> 'v"
  f_unlink :: "string \<Rightarrow> 'v \<Rightarrow> FRESULT \<times> 'v"
  f_rename :: "string \<Rightarrow> string \<Rightarrow> 'v \<Rightarrow> FRESULT \<times> 'v"
  f_mkdir :: "string \<Rightarrow> 'v \<Rightarrow> FRESULT \<times> 'v"
  f_chdir :: "string \<Rightarrow> 'v \<Rightarrow> FRESULT \<times> 'v"
  f_getcwd :: "u32 \<Rightarrow> 'v \<Rightarrow> FRESULT \<times> string \<times> 'v"
  f_opendir :: "ptr \<Rightarrow> string \<Rightarrow> 'v \<Rightarrow> FRESULT \<times> 'v"
  f_readdir :: "ptr \<Rightarrow> 'v \<Rightarrow> FRESULT \<times> filinfo \<times> 'v"
  f_closedir :: "ptr \<Rightarrow> 'v \<Rightarrow> FRESULT \<times> 'v"

text \<open>The heap (addresses of live objects, and the directory entries among them) and the volumes.\<close>

record 'v fs_world =
  live :: "ptr list"
  dent :: "(ptr \<times> dirent) list"
  vol :: 'v

record FatFsFileManager =
  files :: "(int \<times> ptr) list"
  file_paths :: "(string \<times> int) list"
  inverse_files_map :: "(ptr \<times> int) list"
  inverse_file_paths :: "(int \<times> string) list"
  dir_paths :: "(string \<times> ptr) list"
  dirents :: "(ptr \<times> ptr) list"
  dirents64 :: "(ptr \<times> ptr) list"
  inverse_dir_paths :: "(ptr \<times> string) list"
  file_mutex :: bool
  first_handle :: int
  next_handle :: int
  last_handle :: int
  mount_path :: string
  drive_text_id :: string
  disk_handler :: ptr

definition FatFsFileManager_new :: "int \<Rightarrow> int \<Rightarrow> string \<Rightarrow> ptr \<Rightarrow> u8 \<Rightarrow> FatFsFileManager" where
  "FatFsFileManager_new first_h max_h mount disk drive =
     \<lparr>files = [], file_paths = [], inverse_files_map = [], inverse_file_paths = [], dir_paths = [],
      dirents = [], dirents64 = [], inverse_dir_paths = [], file_mutex = False,
      first_handle = first_h, next_handle = first_h, last_handle = max_h, mount_path = mount,
      drive_text_id = dec_string (unat drive) @ '':'', disk_handler = disk\<rparr>"

section \<open>Flags\<close>

definition createFlagMap :: "(u32 \<times> u8) list" where
  "createFlagMap =
     [(O_RDONLY, FA_READ),
      (O_RDWR, FA_READ OR FA_WRITE),
      (O_WRONLY OR O_CREAT OR O_TRUNC, FA_CREATE_ALWAYS OR FA_WRITE),
      (O_RDWR OR O_CREAT OR O_TRUNC, FA_CREATE_ALWAYS OR FA_WRITE OR FA_READ),
      (O_WRONLY OR O_CREAT OR O_APPEND, FA_OPEN_APPEND OR FA_WRITE),
      (O_RDWR OR O_CREAT OR O_APPEND, FA_OPEN_APPEND OR FA_WRITE OR FA_READ),
      (O_WRONLY OR O_CREAT OR O_EXCL, FA_CREATE_NEW OR FA_WRITE),
      (O_RDWR OR O_CREAT OR O_EXCL, FA_CREATE_NEW OR FA_WRITE OR FA_READ),
      (O_WRONLY OR O_CREAT, FA_OPEN_ALWAYS OR FA_WRITE),
      (O_RDWR OR O_CREAT, FA_OPEN_ALWAYS OR FA_WRITE OR FA_READ)]"

text \<open>\<open>at\<close> of a map throws when the key is missing.\<close>

definition umap_at :: "('k \<times> 'v) list \<Rightarrow> 'k \<Rightarrow> 'v cpp" where
  "umap_at m k = (case map_of m k of None \<Rightarrow> Throw OutOfRange | Some v \<Rightarrow> Ret v)"

definition flag_mask :: u32 where
  "flag_mask = O_RDONLY OR O_RDWR OR O_WRONLY OR O_CREAT OR O_TRUNC OR O_APPEND OR O_EXCL"

definition convertFlag :: "u32 \<Rightarrow> u8 cpp" where
  "convertFlag posix_flag = umap_at createFlagMap (flag_mask AND posix_flag)"

definition createPosixModeFlagMap :: "(string \<times> u8) list" where
  "createPosixModeFlagMap =
     [(''r'', FA_READ), (''r+'', FA_READ OR FA_WRITE), (''w'', FA_CREATE_ALWAYS OR FA_WRITE),
      (''w+'', FA_CREATE_ALWAYS OR FA_WRITE OR FA_READ), (''a'', FA_OPEN_APPEND OR FA_WRITE),
      (''a+'', FA_OPEN_APPEND OR FA_WRITE OR FA_READ), (''wx'', FA_CREATE_NEW OR FA_WRITE),
      (''w+x'', FA_CREATE_NEW OR FA_WRITE OR FA_READ)]"

definition parsePosixModeFlag :: "string \<Rightarrow> u8 cpp" where
  "parsePosixModeFlag mode =
     umap_at createPosixModeFlagMap
       (removeAll (CHR ''c'') (removeAll (CHR ''m'') (removeAll (CHR ''e'') (removeAll (CHR ''b'') mode))))"

section \<open>Ownership and paths\<close>

definition kRootPath :: string where "kRootPath = ''/''"

definition isPathOwner :: "FatFsFileManager \<Rightarrow> string \<Rightarrow> bool" where
  "isPathOwner m path \<longleftrightarrow> 0 < length path
     \<and> (starts_with path (mount_path m) \<or> path = take (length (mount_path m) - 1) (mount_path m))"

definition isHandleOwner :: "FatFsFileManager \<Rightarrow> int \<Rightarrow> bool" where
  "isHandleOwner m h \<longleftrightarrow> h \<noteq> - 1 \<and> first_handle m \<le> h \<and> h \<le> last_handle m"

definition isDirOwner :: "FatFsFileManager \<Rightarrow> ptr \<Rightarrow> bool" where
  "isDirOwner m dir \<longleftrightarrow> map_of (inverse_dir_paths m) dir \<noteq> None"

definition generateFatFsPath :: "FatFsFileManager \<Rightarrow> cstr \<Rightarrow> string" where
  "generateFatFsPath m path = (case path of None \<Rightarrow> [] | Some s \<Rightarrow> drive_text_id m @ s)"

definition isDirOpen :: "FatFsFileManager \<Rightarrow> string \<Rightarrow> int" where
  "isDirOpen m path = (if map_of (dir_paths m) path \<noteq> None then - 1 else 0)"

definition isFileOpen :: "FatFsFileManager \<Rightarrow> string \<Rightarrow> int" where
  "isFileOpen m path = (if map_of (file_paths m) path \<noteq> None then - 1 else 0)"

text \<open>\<open>path\<close> is never empty where this is called.\<close>

definition isFileInDirOpen :: "FatFsFileManager \<Rightarrow> string \<Rightarrow> int" where
  "isFileInDirOpen m path =
     (let path_dir = (if last path \<noteq> CHR ''/'' then path @ ''/'' else path) in
      if list_ex (\<lambda>(p, h). contains p path_dir) (file_paths m) then - 1 else 0)"

section \<open>The mutex\<close>

text \<open>
  \<open>std::lock_guard\<close> around the body; locking a mutex the thread already holds never returns. An
  exception carries no state: \<open>open\<close>, \<open>fopen\<close> and the first lookup of \<open>closeInternal\<close> throw before
  they change anything, and the lookups after a successful FatFs call only fail on an entry that
  the invariant below says is there.
\<close>

definition lock_guard ::
    "(FatFsFileManager \<Rightarrow> ('r \<times> FatFsFileManager \<times> 'w) cpp) \<Rightarrow> FatFsFileManager \<Rightarrow>
     ('r \<times> FatFsFileManager \<times> 'w) cpp" where
  "lock_guard f m =
     (if file_mutex m then Deadlock
      else cbind (f (m\<lparr>file_mutex := True\<rparr>)) (\<lambda>(r, m', w). Ret (r, m'\<lparr>file_mutex := False\<rparr>, w)))"

text \<open>A FatFs call on an object: the object must be allocated.\<close>

definition on_object :: "'v fs_world \<Rightarrow> ptr \<Rightarrow> ('v \<Rightarrow> FRESULT \<times> 'v) \<Rightarrow> (FRESULT \<times> 'v fs_world) cpp" where
  "on_object w p f =
     (if p \<in> set (live w) then (case f (vol w) of (r, v) \<Rightarrow> Ret (r, w\<lparr>vol := v\<rparr>)) else Undef)"

definition on_volume :: "'v fs_world \<Rightarrow> ('v \<Rightarrow> FRESULT \<times> 'v) \<Rightarrow> FRESULT \<times> 'v fs_world" where
  "on_volume w f = (case f (vol w) of (r, v) \<Rightarrow> (r, w\<lparr>vol := v\<rparr>))"

definition new_object :: "ptr \<Rightarrow> 'v fs_world \<Rightarrow> 'v fs_world" where
  "new_object p w = w\<lparr>live := p # live w\<rparr>"

definition delete_object :: "ptr \<Rightarrow> 'v fs_world \<Rightarrow> 'v fs_world" where
  "delete_object p w = w\<lparr>live := remove1 p (live w), dent := AList.delete p (dent w)\<rparr>"

section \<open>Internal functions\<close>

definition closeInternal ::
    "'v fatfs \<Rightarrow> ptr \<Rightarrow> FatFsFileManager \<Rightarrow> 'v fs_world \<Rightarrow> (int \<times> FatFsFileManager \<times> 'v fs_world) cpp" where
  "closeInternal F fil m w =
     cbind (umap_at (inverse_files_map m) fil) (\<lambda>file_handle.
     cbind (on_object w fil (f_close F fil)) (\<lambda>(res, w1).
       if res = FR_OK then
         cbind (umap_at (inverse_file_paths m) file_handle) (\<lambda>path.
           Ret (0,
             m\<lparr>files := AList.delete file_handle (files m),
               file_paths := AList.delete path (file_paths m),
               inverse_files_map := AList.delete fil (inverse_files_map m),
               inverse_file_paths := AList.delete file_handle (inverse_file_paths m)\<rparr>,
             delete_object fil w1))
       else Ret (- 1, m, w1)))"

text \<open>The second component is what is assigned to \<open>err\<close>, if anything.\<close>

definition unlinkInternal ::
    "'v fatfs \<Rightarrow> string \<Rightarrow> 'v fs_world \<Rightarrow> (int \<times> int option) \<times> 'v fs_world" where
  "unlinkInternal F path w =
     (if path = [] then ((- 1, None), w)
      else case on_volume w (f_unlink F path) of (res, w1) \<Rightarrow>
        (if res = FR_OK then (0, None)
         else if res = FR_DENIED then (- 1, Some ENOTEMPTY)
         else if res = FR_NO_PATH then (- 1, Some ENOENT)
         else (- 1, None), w1))"

definition statWithRoot ::
    "'v fatfs \<Rightarrow> FatFsFileManager \<Rightarrow> cstr \<Rightarrow> 'v fs_world \<Rightarrow> (FRESULT \<times> filinfo \<times> 'v fs_world) cpp" where
  "statWithRoot F m path_in w =
     (case path_in of
        None \<Rightarrow> Undef
      | Some s \<Rightarrow>
          if s = kRootPath then Ret (FR_OK, \<lparr>fsize = 0, fattrib = AM_DIR, fname = []\<rparr>, w)
          else (case f_stat F (generateFatFsPath m path_in) (vol w) of
                  (res, info, v) \<Rightarrow> Ret (res, info, w\<lparr>vol := v\<rparr>)))"

text \<open>\<open>statInternal\<close> and \<open>statInternal64\<close>; the times are all zero (\<open>convertTime\<close>).\<close>

definition stat_mode :: "u8 \<Rightarrow> u32" where
  "stat_mode attr =
     (if attr AND AM_DIR \<noteq> 0 then S_IFDIR else 0)
     OR (if attr AND AM_ARC AND NOT AM_DIR AND NOT AM_HID AND NOT AM_SYS \<noteq> 0 then S_IFREG else 0)"

definition statInternal64 ::
    "'v fatfs \<Rightarrow> FatFsFileManager \<Rightarrow> cstr \<Rightarrow> 'v fs_world \<Rightarrow>
     ((int \<times> int option \<times> stat_buf option) \<times> 'v fs_world) cpp" where
  "statInternal64 F m path_in w =
     cbind (statWithRoot F m path_in w) (\<lambda>(res, info, w1).
       Ret (if res = FR_OK
            then (0, None, Some \<lparr>st_size = int (unat (fsize info)), st_mode = stat_mode (fattrib info)\<rparr>)
            else if res = FR_NO_FILE \<or> res = FR_NO_PATH \<or> res = FR_INVALID_NAME
            then (- 1, Some ENOENT, None) else (- 1, None, None), w1))"

definition statInternal ::
    "'v fatfs \<Rightarrow> FatFsFileManager \<Rightarrow> cstr \<Rightarrow> 'v fs_world \<Rightarrow>
     ((int \<times> int option \<times> stat_buf option) \<times> 'v fs_world) cpp" where
  "statInternal F m path_in w =
     cbind (statWithRoot F m path_in w) (\<lambda>(res, info, w1).
       Ret (if res = FR_OK
            then (0, None, Some \<lparr>st_size = int (unat (fsize info)), st_mode = stat_mode (fattrib info)\<rparr>)
            else if res = FR_NO_FILE \<or> res = FR_NO_PATH \<or> res = FR_INVALID_NAME
            then (- 1, Some ENOENT, None) else (- 1, None, None), w1))"

text \<open>The offset is converted to the 32 bits of \<open>FSIZE_t\<close>.\<close>

definition seek_target :: "'v fatfs \<Rightarrow> ptr \<Rightarrow> int \<Rightarrow> int \<Rightarrow> 'v fs_world \<Rightarrow> int" where
  "seek_target F fil offset whence w =
     (if whence = SEEK_CUR then int (unat (f_tell F fil (vol w))) + offset
      else if whence = SEEK_END then int (unat (f_size F fil (vol w))) + offset
      else offset)"

definition lseekInternal ::
    "'v fatfs \<Rightarrow> int \<Rightarrow> int \<Rightarrow> int \<Rightarrow> FatFsFileManager \<Rightarrow> 'v fs_world \<Rightarrow> (int \<times> 'v fs_world) cpp" where
  "lseekInternal F fd offset whence m w =
     (if whence = SEEK_CUR \<and> offset = 0 then Ret (0, w)
      else case map_of (files m) fd of
        None \<Rightarrow> Ret (- 1, w)
      | Some fil \<Rightarrow>
          cbind (on_object w fil (f_lseek F fil (of_int (seek_target F fil offset whence w)))) (\<lambda>(res, w1).
            Ret (if res = FR_OK then 0 else - 1, w1)))"

text \<open>
  The scan of \<open>getNewHandle\<close>: \<open>k\<close> is the number of handles not yet tried, so that \<open>i\<close> counts up to
  \<open>num_handles\<close>.
\<close>

fun scan_handles :: "FatFsFileManager \<Rightarrow> nat \<Rightarrow> int \<Rightarrow> int \<Rightarrow> int \<times> int" where
  "scan_handles m 0 h i = (h, i)"
| "scan_handles m (Suc k) h i =
     (if map_of (files m) h \<noteq> None
      then scan_handles m k (if h = last_handle m then first_handle m else h + 1) (i + 1)
      else (h, i))"

definition getNewHandle :: "FatFsFileManager \<Rightarrow> int \<times> FatFsFileManager" where
  "getNewHandle m =
     (let start = (if next_handle m = last_handle m + 1 then first_handle m else next_handle m);
          num_handles = last_handle m - first_handle m + 1;
          (h, i) = scan_handles m (nat num_handles) start 0 in
      if i = num_handles then (- 1, m\<lparr>next_handle := h\<rparr>)
      else (h, m\<lparr>next_handle := h + 1\<rparr>))"

definition insertFileHandle :: "int \<Rightarrow> ptr \<Rightarrow> string \<Rightarrow> FatFsFileManager \<Rightarrow> FatFsFileManager" where
  "insertFileHandle h fil path m =
     m\<lparr>files := AList.update h fil (files m),
       file_paths := AList.update path h (file_paths m),
       inverse_files_map := AList.update fil h (inverse_files_map m),
       inverse_file_paths := AList.update h path (inverse_file_paths m)\<rparr>"

definition addDirHandle :: "ptr \<Rightarrow> string \<Rightarrow> FatFsFileManager \<Rightarrow> FatFsFileManager" where
  "addDirHandle dir path m =
     m\<lparr>dir_paths := AList.update path dir (dir_paths m),
       inverse_dir_paths := AList.update dir path (inverse_dir_paths m)\<rparr>"

definition renameFileInternal ::
    "'v fatfs \<Rightarrow> string \<Rightarrow> string \<Rightarrow> FatFsFileManager \<Rightarrow> 'v fs_world \<Rightarrow> (int \<times> int option) \<times> 'v fs_world" where
  "renameFileInternal F oldpath newpath m w =
     (if isFileOpen m oldpath \<noteq> 0 \<or> isFileOpen m newpath \<noteq> 0 then ((- 1, Some EBUSY), w)
      else case on_volume w (f_rename F oldpath newpath) of (res, w1) \<Rightarrow>
        (if res \<noteq> FR_OK then (- 1, Some ENOENT) else (0, None), w1))"

definition renameDirInternal ::
    "'v fatfs \<Rightarrow> string \<Rightarrow> string \<Rightarrow> FatFsFileManager \<Rightarrow> 'v fs_world \<Rightarrow> (int \<times> int option) \<times> 'v fs_world" where
  "renameDirInternal F oldpath newpath m w =
     (if isDirOpen m oldpath \<noteq> 0 \<or> isDirOpen m newpath \<noteq> 0
         \<or> isFileInDirOpen m oldpath \<noteq> 0 \<or> isFileInDirOpen m newpath \<noteq> 0 then ((- 1, Some EBUSY), w)
      else case on_volume w (f_rename F oldpath newpath) of (res, w1) \<Rightarrow>
        (if res \<noteq> FR_OK then (- 1, Some ENOENT) else (0, None), w1))"

section \<open>Files\<close>

text \<open>The common part of \<open>open\<close> and \<open>fopen\<close>: sync an earlier handle, take a new one, open, register.\<close>

definition sync_old ::
    "'v fatfs \<Rightarrow> string \<Rightarrow> FatFsFileManager \<Rightarrow> 'v fs_world \<Rightarrow> (FRESULT \<times> 'v fs_world) cpp" where
  "sync_old F path m w =
     (case map_of (file_paths m) path of
        None \<Rightarrow> Ret (FR_OK, w)
      | Some old_handle \<Rightarrow>
          cbind (umap_at (files m) old_handle) (\<lambda>old_fil. on_object w old_fil (f_sync F old_fil)))"

definition open_new ::
    "'v fatfs \<Rightarrow> string \<Rightarrow> u8 \<Rightarrow> ptr \<Rightarrow> FatFsFileManager \<Rightarrow> 'v fs_world \<Rightarrow>
     ((int \<times> ptr \<times> int option) \<times> FatFsFileManager \<times> 'v fs_world) cpp" where
  "open_new F path mode fil m w =
     (case getNewHandle m of (file_handle, m1) \<Rightarrow>
        if file_handle = - 1 then Ret ((- 1, 0, Some EMFILE), m1, w)
        else cbind (on_object (new_object fil w) fil (f_open F fil path mode)) (\<lambda>(res, w1).
          if res \<noteq> FR_OK then Ret ((- 1, 0, Some ENOENT), m1, delete_object fil w1)
          else Ret ((file_handle, fil, None), insertFileHandle file_handle fil path m1, w1)))"

definition open_with ::
    "'v fatfs \<Rightarrow> string \<Rightarrow> u8 \<Rightarrow> ptr \<Rightarrow> FatFsFileManager \<Rightarrow> 'v fs_world \<Rightarrow>
     ((int \<times> ptr \<times> int option) \<times> FatFsFileManager \<times> 'v fs_world) cpp" where
  "open_with F path mode fil m w =
     cbind (sync_old F path m w) (\<lambda>(res_sync, w1).
       if res_sync \<noteq> FR_OK then Ret ((- 1, 0, Some ENOENT), m, w1) else open_new F path mode fil m w1)"

definition fm_open ::
    "'v fatfs \<Rightarrow> cstr \<Rightarrow> u32 \<Rightarrow> ptr \<Rightarrow> FatFsFileManager \<Rightarrow> 'v fs_world \<Rightarrow>
     ((int \<times> int option) \<times> FatFsFileManager \<times> 'v fs_world) cpp" where
  "fm_open F path_in oflag fil m w =
     lock_guard (\<lambda>m.
       let path = generateFatFsPath m path_in in
       if path = [] then Ret ((- 1, None), m, w)
       else cbind (convertFlag oflag) (\<lambda>mode.
            cbind (open_with F path mode fil m w) (\<lambda>((h, p, err), m1, w1). Ret ((h, err), m1, w1)))) m"

definition fm_fopen ::
    "'v fatfs \<Rightarrow> cstr \<Rightarrow> cstr \<Rightarrow> ptr \<Rightarrow> FatFsFileManager \<Rightarrow> 'v fs_world \<Rightarrow>
     ((ptr \<times> int option) \<times> FatFsFileManager \<times> 'v fs_world) cpp" where
  "fm_fopen F path_in mode fil m w =
     lock_guard (\<lambda>m.
       let path = generateFatFsPath m path_in in
       case mode of
         None \<Rightarrow> Ret ((0, None), m, w)
       | Some md \<Rightarrow>
           if path = [] then Ret ((0, None), m, w)
           else cbind (parsePosixModeFlag md) (\<lambda>fmode.
                cbind (open_with F path fmode fil m w) (\<lambda>((h, p, err), m1, w1). Ret ((p, err), m1, w1)))) m"

definition fm_lseek ::
    "'v fatfs \<Rightarrow> int \<Rightarrow> int \<Rightarrow> int \<Rightarrow> FatFsFileManager \<Rightarrow> 'v fs_world \<Rightarrow> (int \<times> FatFsFileManager \<times> 'v fs_world) cpp" where
  "fm_lseek F fd offset whence m w =
     lock_guard (\<lambda>m. cbind (lseekInternal F fd offset whence m w) (\<lambda>(r, w1). Ret (r, m, w1))) m"

text \<open>
  Reading: the bytes are what is stored at \<open>buf\<close>. The count is converted to the 32 bits of \<open>UINT\<close>.
\<close>

definition read_object ::
    "'v fatfs \<Rightarrow> ptr \<Rightarrow> u64 \<Rightarrow> 'v fs_world \<Rightarrow> ((int \<times> bytes) \<times> 'v fs_world) cpp" where
  "read_object F fil cnt w =
     (if fil \<notin> set (live w) then Undef
      else case f_read F fil (ucast cnt) (vol w) of (res, b, v) \<Rightarrow>
        Ret (if res = FR_OK then (int (length b), b) else (0, b), w\<lparr>vol := v\<rparr>))"

definition fm_read ::
    "'v fatfs \<Rightarrow> int \<Rightarrow> ptr \<Rightarrow> u64 \<Rightarrow> FatFsFileManager \<Rightarrow> 'v fs_world \<Rightarrow>
     ((int \<times> bytes) \<times> FatFsFileManager \<times> 'v fs_world) cpp" where
  "fm_read F fd buf cnt m w =
     lock_guard (\<lambda>m.
       if buf = 0 \<or> cnt = 0 then Ret ((0, []), m, w)
       else case map_of (files m) fd of
         None \<Rightarrow> Ret ((- 1, []), m, w)
       | Some fil \<Rightarrow> cbind (read_object F fil cnt w) (\<lambda>(r, w1). Ret (r, m, w1))) m"

definition fm_fread ::
    "'v fatfs \<Rightarrow> ptr \<Rightarrow> u64 \<Rightarrow> u64 \<Rightarrow> ptr \<Rightarrow> FatFsFileManager \<Rightarrow> 'v fs_world \<Rightarrow>
     ((int \<times> bytes) \<times> FatFsFileManager \<times> 'v fs_world) cpp" where
  "fm_fread F buf sz cnt fp m w =
     lock_guard (\<lambda>m.
       if sz = 0 \<or> cnt = 0 \<or> buf = 0 \<or> fp = 0 then Ret ((0, []), m, w)
       else cbind (read_object F fp cnt w) (\<lambda>(r, w1). Ret (r, m, w1))) m"

definition fm_pread ::
    "'v fatfs \<Rightarrow> int \<Rightarrow> ptr \<Rightarrow> u64 \<Rightarrow> int \<Rightarrow> FatFsFileManager \<Rightarrow> 'v fs_world \<Rightarrow>
     ((int \<times> bytes) \<times> FatFsFileManager \<times> 'v fs_world) cpp" where
  "fm_pread F fd buf cnt offset m w =
     lock_guard (\<lambda>m.
       if cnt = 0 \<or> buf = 0 then Ret ((0, []), m, w)
       else case map_of (files m) fd of
         None \<Rightarrow> Ret ((- 1, []), m, w)
       | Some fil \<Rightarrow>
           cbind (on_object w fil (f_lseek F fil (of_int offset))) (\<lambda>(res, w1).
             if res \<noteq> FR_OK then Ret ((0, []), m, w1)
             else cbind (read_object F fil cnt w1) (\<lambda>(r, w2). Ret (r, m, w2)))) m"

definition fm_fdopen ::
    "int \<Rightarrow> cstr \<Rightarrow> FatFsFileManager \<Rightarrow> 'v fs_world \<Rightarrow> (ptr \<times> FatFsFileManager \<times> 'v fs_world) cpp" where
  "fm_fdopen fd mode m w =
     lock_guard (\<lambda>m.
       if mode = None then Ret (0, m, w)
       else case map_of (files m) fd of None \<Rightarrow> Ret (0, m, w) | Some fil \<Rightarrow> Ret (fil, m, w)) m"

text \<open>Writing: \<open>buf\<close> holds \<open>count\<close> bytes, of which FatFs is given the low 32 bits' worth.\<close>

definition write_object ::
    "'v fatfs \<Rightarrow> ptr \<Rightarrow> bytes \<Rightarrow> u64 \<Rightarrow> 'v fs_world \<Rightarrow> (int \<times> 'v fs_world) cpp" where
  "write_object F fil buf cnt w =
     (if fil \<notin> set (live w) then Undef
      else case f_write F fil (take (unat (ucast cnt :: u32)) buf) (vol w) of (res, n, v) \<Rightarrow>
        Ret (if res = FR_OK then int (unat n) else 0, w\<lparr>vol := v\<rparr>))"

definition fm_fwrite ::
    "'v fatfs \<Rightarrow> bytes \<Rightarrow> u64 \<Rightarrow> u64 \<Rightarrow> ptr \<Rightarrow> FatFsFileManager \<Rightarrow> 'v fs_world \<Rightarrow>
     (int \<times> FatFsFileManager \<times> 'v fs_world) cpp" where
  "fm_fwrite F buf sz cnt fp m w =
     lock_guard (\<lambda>m.
       if sz = 0 \<or> cnt = 0 \<or> fp = 0 then Ret (0, m, w)
       else cbind (write_object F fp buf cnt w) (\<lambda>(r, w1). Ret (r, m, w1))) m"

definition fm_pwrite ::
    "'v fatfs \<Rightarrow> int \<Rightarrow> bytes option \<Rightarrow> u64 \<Rightarrow> int \<Rightarrow> FatFsFileManager \<Rightarrow> 'v fs_world \<Rightarrow>
     (int \<times> FatFsFileManager \<times> 'v fs_world) cpp" where
  "fm_pwrite F fd buf cnt offset m w =
     lock_guard (\<lambda>m.
       case buf of
         None \<Rightarrow> Ret (0, m, w)
       | Some b \<Rightarrow>
           if cnt = 0 then Ret (0, m, w)
           else (case map_of (files m) fd of
             None \<Rightarrow> Ret (- 1, m, w)
           | Some fil \<Rightarrow>
               cbind (lseekInternal F fd offset SEEK_SET m w) (\<lambda>(r, w1).
                 if r = - 1 then Ret (0, m, w1)
                 else cbind (write_object F fil b cnt w1) (\<lambda>(n, w2). Ret (n, m, w2))))) m"

definition fm_write ::
    "'v fatfs \<Rightarrow> int \<Rightarrow> bytes \<Rightarrow> u64 \<Rightarrow> FatFsFileManager \<Rightarrow> 'v fs_world \<Rightarrow>
     (int \<times> FatFsFileManager \<times> 'v fs_world) cpp" where
  "fm_write F fd buf cnt m w =
     lock_guard (\<lambda>m.
       case map_of (files m) fd of
         None \<Rightarrow> Ret (1, m, w)
       | Some fil \<Rightarrow> cbind (write_object F fil buf cnt w) (\<lambda>(r, w1). Ret (r, m, w1))) m"

definition fm_fclose ::
    "'v fatfs \<Rightarrow> ptr \<Rightarrow> FatFsFileManager \<Rightarrow> 'v fs_world \<Rightarrow> (int \<times> FatFsFileManager \<times> 'v fs_world) cpp" where
  "fm_fclose F fp m w =
     lock_guard (\<lambda>m. if fp = 0 then Ret (- 1, m, w) else closeInternal F fp m w) m"

definition fm_close ::
    "'v fatfs \<Rightarrow> int \<Rightarrow> FatFsFileManager \<Rightarrow> 'v fs_world \<Rightarrow> (int \<times> FatFsFileManager \<times> 'v fs_world) cpp" where
  "fm_close F fd m w =
     lock_guard (\<lambda>m.
       case map_of (files m) fd of
         None \<Rightarrow> Ret (0, m, w)
       | Some fil \<Rightarrow>
           if fil = 0
           then Ret (- 1, m\<lparr>files := AList.delete fd (files m),
                            inverse_file_paths := AList.delete fd (inverse_file_paths m)\<rparr>, w)
           else closeInternal F fil m w) m"

text \<open>\<open>dup2\<close> calls the public \<open>close\<close> with the mutex held.\<close>

definition fm_dup2 ::
    "'v fatfs \<Rightarrow> int \<Rightarrow> int \<Rightarrow> FatFsFileManager \<Rightarrow> 'v fs_world \<Rightarrow> (int \<times> FatFsFileManager \<times> 'v fs_world) cpp" where
  "fm_dup2 F oldfd newfd m w = lock_guard (\<lambda>m. fm_close F newfd m w) m"

section \<open>Paths and directories\<close>

definition fm_lstat ::
    "'v fatfs \<Rightarrow> cstr \<Rightarrow> FatFsFileManager \<Rightarrow> 'v fs_world \<Rightarrow>
     ((int \<times> int option \<times> stat_buf option) \<times> FatFsFileManager \<times> 'v fs_world) cpp" where
  "fm_lstat F path_in m w =
     lock_guard (\<lambda>m. cbind (statInternal F m path_in w) (\<lambda>(r, w1). Ret (r, m, w1))) m"

definition fm_lstat64 ::
    "'v fatfs \<Rightarrow> cstr \<Rightarrow> FatFsFileManager \<Rightarrow> 'v fs_world \<Rightarrow>
     ((int \<times> int option \<times> stat_buf option) \<times> FatFsFileManager \<times> 'v fs_world) cpp" where
  "fm_lstat64 F path_in m w =
     lock_guard (\<lambda>m. cbind (statInternal64 F m path_in w) (\<lambda>(r, w1). Ret (r, m, w1))) m"

definition fm_stat ::
    "'v fatfs \<Rightarrow> int \<Rightarrow> cstr \<Rightarrow> FatFsFileManager \<Rightarrow> 'v fs_world \<Rightarrow>
     ((int \<times> int option \<times> stat_buf option) \<times> FatFsFileManager \<times> 'v fs_world) cpp" where
  "fm_stat F ver path_in m w =
     lock_guard (\<lambda>m. cbind (statInternal64 F m path_in w) (\<lambda>(r, w1). Ret (r, m, w1))) m"

definition fm_fstat ::
    "'v fatfs \<Rightarrow> int \<Rightarrow> int \<Rightarrow> FatFsFileManager \<Rightarrow> 'v fs_world \<Rightarrow>
     ((int \<times> int option \<times> stat_buf option) \<times> FatFsFileManager \<times> 'v fs_world) cpp" where
  "fm_fstat F ver fd m w =
     lock_guard (\<lambda>m.
       case map_of (inverse_file_paths m) fd of
         None \<Rightarrow> Ret ((- 1, None, None), m, w)
       | Some path \<Rightarrow>
           cbind (statInternal64 F m (Some (drop (length (drive_text_id m)) path)) w) (\<lambda>(r, w1). Ret (r, m, w1))) m"

definition fm_rename ::
    "'v fatfs \<Rightarrow> cstr \<Rightarrow> cstr \<Rightarrow> FatFsFileManager \<Rightarrow> 'v fs_world \<Rightarrow>
     ((int \<times> int option) \<times> FatFsFileManager \<times> 'v fs_world) cpp" where
  "fm_rename F oldcpath newcpath m w =
     lock_guard (\<lambda>m.
       let oldpath = generateFatFsPath m oldcpath; newpath = generateFatFsPath m newcpath in
       if oldpath = [] \<or> newpath = [] then Ret ((- 1, Some ENOENT), m, w)
       else cbind (statInternal64 F m oldcpath w) (\<lambda>((stat_res_old, stat_err, result_stat), w1).
         let mode = (case result_stat of None \<Rightarrow> 0 | Some b \<Rightarrow> st_mode b) in
         if stat_res_old = 0 \<and> mode = S_IFREG
         then (case renameFileInternal F oldpath newpath m w1 of (r, w2) \<Rightarrow> Ret (r, m, w2))
         else if stat_res_old = 0 \<and> mode = S_IFDIR
         then (case renameDirInternal F oldpath newpath m w1 of (r, w2) \<Rightarrow> Ret (r, m, w2))
         else Ret ((ENOENT, None), m, w1))) m"

definition fm_mkdir ::
    "'v fatfs \<Rightarrow> cstr \<Rightarrow> u32 \<Rightarrow> FatFsFileManager \<Rightarrow> 'v fs_world \<Rightarrow> (int \<times> FatFsFileManager \<times> 'v fs_world) cpp" where
  "fm_mkdir F path_in mode m w =
     lock_guard (\<lambda>m.
       case path_in of
         None \<Rightarrow> Ret (- 1, m, w)
       | Some s \<Rightarrow>
           if s = kRootPath then Ret (0, m, w)
           else case on_volume w (f_mkdir F (generateFatFsPath m path_in)) of (res, w1) \<Rightarrow>
             Ret (if res = FR_OK then 0 else - 1, m, w1)) m"

text \<open>\<open>strcmp\<close> reads the path before it is compared with \<open>nullptr\<close>.\<close>

definition fm_access ::
    "'v fatfs \<Rightarrow> cstr \<Rightarrow> u32 \<Rightarrow> FatFsFileManager \<Rightarrow> 'v fs_world \<Rightarrow>
     ((int \<times> int option) \<times> FatFsFileManager \<times> 'v fs_world) cpp" where
  "fm_access F path_in mode m w =
     lock_guard (\<lambda>m.
       case path_in of
         None \<Rightarrow> Undef
       | Some s \<Rightarrow>
           if s = kRootPath then Ret ((0, None), m, w)
           else case f_stat F (generateFatFsPath m path_in) (vol w) of (res, info, v) \<Rightarrow>
             Ret (if res = FR_OK then (0, None) else (- 1, Some ENOENT), m, w\<lparr>vol := v\<rparr>)) m"

definition fm_unlink ::
    "'v fatfs \<Rightarrow> cstr \<Rightarrow> FatFsFileManager \<Rightarrow> 'v fs_world \<Rightarrow>
     ((int \<times> int option) \<times> FatFsFileManager \<times> 'v fs_world) cpp" where
  "fm_unlink F path_in m w =
     lock_guard (\<lambda>m. case unlinkInternal F (generateFatFsPath m path_in) w of (r, w1) \<Rightarrow> Ret (r, m, w1)) m"

definition fm_rmdir ::
    "'v fatfs \<Rightarrow> cstr \<Rightarrow> FatFsFileManager \<Rightarrow> 'v fs_world \<Rightarrow>
     ((int \<times> int option) \<times> FatFsFileManager \<times> 'v fs_world) cpp" where
  "fm_rmdir F path_in m w =
     lock_guard (\<lambda>m. case unlinkInternal F (generateFatFsPath m path_in) w of (r, w1) \<Rightarrow> Ret (r, m, w1)) m"

definition fm_remove ::
    "'v fatfs \<Rightarrow> cstr \<Rightarrow> FatFsFileManager \<Rightarrow> 'v fs_world \<Rightarrow>
     ((int \<times> int option) \<times> FatFsFileManager \<times> 'v fs_world) cpp" where
  "fm_remove F path_in m w =
     lock_guard (\<lambda>m. case unlinkInternal F (generateFatFsPath m path_in) w of (r, w1) \<Rightarrow> Ret (r, m, w1)) m"

definition fm_chdir ::
    "'v fatfs \<Rightarrow> cstr \<Rightarrow> FatFsFileManager \<Rightarrow> 'v fs_world \<Rightarrow> (int \<times> FatFsFileManager \<times> 'v fs_world) cpp" where
  "fm_chdir F path_in m w =
     lock_guard (\<lambda>m.
       let path = generateFatFsPath m path_in in
       if path = [] then Ret (- 1, m, w)
       else case on_volume w (f_chdir F path) of (res, w1) \<Rightarrow> Ret (if res = FR_OK then 0 else - 1, m, w1)) m"

text \<open>The result is \<open>buf\<close> and the text stored there, or \<open>nullptr\<close>.\<close>

definition fm_getcwd ::
    "'v fatfs \<Rightarrow> ptr \<Rightarrow> u64 \<Rightarrow> FatFsFileManager \<Rightarrow> 'v fs_world \<Rightarrow>
     ((ptr \<times> string) \<times> FatFsFileManager \<times> 'v fs_world) cpp" where
  "fm_getcwd F buf sz m w =
     lock_guard (\<lambda>m.
       if buf = 0 then Ret ((0, []), m, w)
       else case f_getcwd F (ucast sz) (vol w) of (res, txt, v) \<Rightarrow>
         Ret (if res = FR_OK then (buf, txt) else (0, txt), m, w\<lparr>vol := v\<rparr>)) m"

definition fm_opendir ::
    "'v fatfs \<Rightarrow> cstr \<Rightarrow> ptr \<Rightarrow> FatFsFileManager \<Rightarrow> 'v fs_world \<Rightarrow>
     ((ptr \<times> int option) \<times> FatFsFileManager \<times> 'v fs_world) cpp" where
  "fm_opendir F path_in dir m w =
     lock_guard (\<lambda>m.
       let path = generateFatFsPath m path_in in
       if path = [] then Ret ((0, Some ENOTDIR), m, w)
       else if map_of (dir_paths m) path \<noteq> None then Ret ((0, Some EACCES), m, w)
       else cbind (on_object (new_object dir w) dir (f_opendir F dir path)) (\<lambda>(res, w1).
         if res \<noteq> FR_OK then Ret ((0, Some ENOENT), m, delete_object dir w1)
         else Ret ((dir, None), addDirHandle dir path m, w1))) m"

text \<open>
  \<open>readdir\<close> and \<open>readdir64\<close>: \<open>scratch\<close> is the address \<open>calloc\<close> gives when the directory has no entry
  buffer yet. The store into \<open>d_type\<close>, one byte, truncates \<open>DT_DIR\<close> and \<open>DT_REG\<close>.
\<close>

definition zero_dirent :: dirent where
  "zero_dirent = \<lparr>d_ino = 0, d_off = 0, d_reclen = 0, d_type = 0, d_name = []\<rparr>"

definition fill_dirent :: "filinfo \<Rightarrow> dirent" where
  "fill_dirent info =
     \<lparr>d_ino = 0, d_off = 0, d_reclen = of_nat (length (fname info)),
      d_type = ucast (if fattrib info AND AM_DIR \<noteq> 0 then DT_DIR else DT_REG), d_name = fname info\<rparr>"

definition fm_readdir64 ::
    "'v fatfs \<Rightarrow> ptr \<Rightarrow> ptr \<Rightarrow> FatFsFileManager \<Rightarrow> 'v fs_world \<Rightarrow>
     ((ptr \<times> int option) \<times> FatFsFileManager \<times> 'v fs_world) cpp" where
  "fm_readdir64 F dirp scratch m w =
     lock_guard (\<lambda>m.
       if dirp = 0 then Ret ((0, Some EBADF), m, w)
       else
         let (e, m1, w1) =
           (case map_of (dirents64 m) dirp of
              None \<Rightarrow> (scratch, m\<lparr>dirents64 := AList.update dirp scratch (dirents64 m)\<rparr>,
                       (new_object scratch w)\<lparr>dent := AList.update scratch zero_dirent (dent w)\<rparr>)
            | Some e \<Rightarrow> (e, m, w)) in
         if dirp \<notin> set (live w1) then Undef
         else case f_readdir F dirp (vol w1) of (res, info, v) \<Rightarrow>
           let w2 = w1\<lparr>vol := v\<rparr> in
           if res \<noteq> FR_OK then Ret ((0, Some EBADF), m1, w2)
           else if fname info = [] then Ret ((0, None), m1, w2)
           else Ret ((e, None), m1, w2\<lparr>dent := AList.update e (fill_dirent info) (dent w2)\<rparr>)) m"

definition fm_readdir ::
    "'v fatfs \<Rightarrow> ptr \<Rightarrow> ptr \<Rightarrow> FatFsFileManager \<Rightarrow> 'v fs_world \<Rightarrow>
     ((ptr \<times> int option) \<times> FatFsFileManager \<times> 'v fs_world) cpp" where
  "fm_readdir F dirp scratch m w =
     lock_guard (\<lambda>m.
       if dirp = 0 then Ret ((0, Some EBADF), m, w)
       else
         let (e, m1, w1) =
           (case map_of (dirents m) dirp of
              None \<Rightarrow> (scratch, m\<lparr>dirents := AList.update dirp scratch (dirents m)\<rparr>,
                       (new_object scratch w)\<lparr>dent := AList.update scratch zero_dirent (dent w)\<rparr>)
            | Some e \<Rightarrow> (e, m, w)) in
         if dirp \<notin> set (live w1) then Undef
         else case f_readdir F dirp (vol w1) of (res, info, v) \<Rightarrow>
           let w2 = w1\<lparr>vol := v\<rparr> in
           if res \<noteq> FR_OK then Ret ((0, Some EBADF), m1, w2)
           else if fname info = [] then Ret ((0, None), m1, w2)
           else Ret ((e, None), m1, w2\<lparr>dent := AList.update e (fill_dirent info) (dent w2)\<rparr>)) m"

text \<open>The scratch entries are freed before FatFs is asked; the \<open>DIR\<close> object itself is never deleted.\<close>

definition free_scratch :: "ptr option \<Rightarrow> 'v fs_world \<Rightarrow> 'v fs_world" where
  "free_scratch e w = (case e of None \<Rightarrow> w | Some p \<Rightarrow> delete_object p w)"

definition fm_closedir ::
    "'v fatfs \<Rightarrow> ptr \<Rightarrow> FatFsFileManager \<Rightarrow> 'v fs_world \<Rightarrow>
     ((int \<times> int option) \<times> FatFsFileManager \<times> 'v fs_world) cpp" where
  "fm_closedir F dirp m w =
     lock_guard (\<lambda>m.
       if dirp = 0 then Ret ((- 1, Some EBADF), m, w)
       else
         let it = map_of (dirents m) dirp; it64 = map_of (dirents64 m) dirp in
         if it = None \<and> it64 = None then Ret ((- 1, Some EBADF), m, w)
         else
           let w1 = free_scratch it64 (free_scratch it w);
               m1 = m\<lparr>dirents := AList.delete dirp (dirents m), dirents64 := AList.delete dirp (dirents64 m)\<rparr> in
           cbind (on_object w1 dirp (f_closedir F dirp)) (\<lambda>(res, w2).
             if res \<noteq> FR_OK then Ret ((- 1, Some EBADF), m1, w2)
             else cbind (umap_at (inverse_dir_paths m1) dirp) (\<lambda>path.
               Ret ((0, None),
                 m1\<lparr>dir_paths := AList.delete path (dir_paths m1),
                    inverse_dir_paths := AList.delete dirp (inverse_dir_paths m1)\<rparr>, w2)))) m"

text \<open>The third component is what is stored in the global \<open>errno\<close>.\<close>

definition fm_ftruncate ::
    "'v fatfs \<Rightarrow> int \<Rightarrow> int \<Rightarrow> FatFsFileManager \<Rightarrow> 'v fs_world \<Rightarrow>
     ((int \<times> int option \<times> int option) \<times> FatFsFileManager \<times> 'v fs_world) cpp" where
  "fm_ftruncate F fd len m w =
     lock_guard (\<lambda>m.
       cbind (lseekInternal F fd len SEEK_SET m w) (\<lambda>(r, w1).
         if r = - 1 then Ret ((- 1, Some EBADF, None), m, w1)
         else case map_of (files m) fd of
           None \<Rightarrow> Ret ((- 1, Some EBADF, None), m, w1)
         | Some fil \<Rightarrow>
             cbind (on_object w1 fil (f_truncate F fil)) (\<lambda>(res, w2).
               Ret (if res \<noteq> FR_OK then (- 1, None, Some EINVAL) else (0, None, None), m, w2)))) m"

definition fm_fchown ::
    "int \<Rightarrow> u32 \<Rightarrow> u32 \<Rightarrow> FatFsFileManager \<Rightarrow> 'v fs_world \<Rightarrow>
     ((int \<times> int option) \<times> FatFsFileManager \<times> 'v fs_world) cpp" where
  "fm_fchown fd owner grp m w =
     lock_guard (\<lambda>m. Ret (if map_of (files m) fd = None then (- 1, Some EBADF) else (0, None), m, w)) m"

definition fm_fchmod ::
    "int \<Rightarrow> u32 \<Rightarrow> FatFsFileManager \<Rightarrow> 'v fs_world \<Rightarrow>
     ((int \<times> int option) \<times> FatFsFileManager \<times> 'v fs_world) cpp" where
  "fm_fchmod fd mode m w =
     lock_guard (\<lambda>m. Ret (if map_of (files m) fd = None then (- 1, Some EBADF) else (0, None), m, w)) m"

definition fm_utimes ::
    "'v fatfs \<Rightarrow> cstr \<Rightarrow> FatFsFileManager \<Rightarrow> 'v fs_world \<Rightarrow>
     ((int \<times> int option) \<times> FatFsFileManager \<times> 'v fs_world) cpp" where
  "fm_utimes F path_in m w =
     lock_guard (\<lambda>m.
       let path = generateFatFsPath m path_in in
       if path = [] then Ret ((- 1, Some ENOENT), m, w)
       else case f_stat F path (vol w) of (res, info, v) \<Rightarrow>
         Ret (if res = FR_OK then (0, None) else (- 1, Some ENOENT), m, w\<lparr>vol := v\<rparr>)) m"

section \<open>Construction and destruction\<close>

text \<open>
  Here the volumes are the drives of the disk registry. \<open>addr\<close> is the address \<open>calloc\<close> gives a RAM
  drive and \<open>txt\<close> what \<open>disk_start\<close> reads as the name of the drive.
\<close>

definition diskStart :: "'h pd_env \<Rightarrow> ptr \<Rightarrow> ptr \<Rightarrow> 'h disk_system \<Rightarrow> 'h disk_system cpp" where
  "diskStart E addr p st =
     (case objects st p of
        None \<Rightarrow> Undef
      | Some (InMemory d) \<Rightarrow>
          cbind (imd_diskStart addr d) (\<lambda>d'. Ret (st\<lparr>objects := (objects st)(p \<mapsto> InMemory d')\<rparr>))
      | Some (Persistent d) \<Rightarrow>
          cbind (pd_diskStart E d) (\<lambda>d'. Ret (st\<lparr>objects := (objects st)(p \<mapsto> Persistent d')\<rparr>)))"

definition diskStop :: "ptr \<Rightarrow> 'h disk_system \<Rightarrow> 'h disk_system cpp" where
  "diskStop p st =
     (case objects st p of
        None \<Rightarrow> Undef
      | Some (InMemory d) \<Rightarrow> Ret (st\<lparr>objects := (objects st)(p \<mapsto> InMemory (imd_diskStop d))\<rparr>)
      | Some (Persistent d) \<Rightarrow> Ret (st\<lparr>objects := (objects st)(p \<mapsto> Persistent (pd_diskStop d))\<rparr>))"

definition fm_init ::
    "'h pd_env \<Rightarrow> 'h fatfs_volume \<Rightarrow> 'h disk_system fatfs \<Rightarrow> ptr \<Rightarrow> string \<Rightarrow> DiskInitialization \<Rightarrow>
     FatFsFileManager \<Rightarrow> 'h disk_system fs_world \<Rightarrow>
     (FatFsResult \<times> FatFsFileManager \<times> 'h disk_system fs_world) cpp" where
  "fm_init E V F addr txt init_type m w =
     cbind (diskStart E addr (disk_handler m) (vol w)) (\<lambda>v1.
     cbind (disk_start V txt (disk_handler m) init_type v1) (\<lambda>(res_disk_start, v2).
       let w2 = w\<lparr>vol := v2\<rparr> in
       if res_disk_start \<noteq> FatFs_OK then Ret (res_disk_start, m, w2)
       else if mount_path m \<noteq> kRootPath then
         cbind (fm_mkdir F (Some (mount_path m)) 0 m w2) (\<lambda>(res_mkdir, m', w').
           Ret (if res_mkdir \<noteq> 0 then ROOT_DIRECTORY_MOUNT_FAILED else FatFs_OK, m', w'))
       else Ret (FatFs_OK, m, w2)))"

definition fm_destroy ::
    "'h fatfs_volume \<Rightarrow> FatFsFileManager \<Rightarrow> 'h disk_system fs_world \<Rightarrow> ('h disk_system fs_world) cpp" where
  "fm_destroy V m w =
     cbind (diskStop (disk_handler m) (vol w)) (\<lambda>v1.
       case objects v1 (disk_handler m) of
         None \<Rightarrow> Undef
       | Some x \<Rightarrow>
           cbind (disk_stop V (drive_id (disk_base x)) (drive_text_id m) v1) (\<lambda>(r, v2).
             Ret (fold delete_object (filter (\<lambda>p. p \<noteq> 0)
                    (map snd (files m) @ map snd (dirents m) @ map snd (dirents64 m))) (w\<lparr>vol := v2\<rparr>))))"

end
