(* ===== verification/File_Manager_Invariant.thy ===== *)
theory File_Manager_Invariant
  imports FatFs_File_Manager
begin

text \<open>
  The invariant of the file manager's tables and its preservation by every member function; the
  reachable states of a manager under any sequence of calls. The properties of single operations
  follow from it.
\<close>

section \<open>The invariant\<close>

text \<open>The addresses the tables own.\<close>

definition owned :: "FatFsFileManager \<Rightarrow> ptr list" where
  "owned m = map snd (files m) @ map snd (dir_paths m) @ map snd (dirents m) @ map snd (dirents64 m)"

definition handles_ok :: "FatFsFileManager \<Rightarrow> bool" where
  "handles_ok m \<longleftrightarrow> 0 \<le> first_handle m \<and> first_handle m \<le> last_handle m
     \<and> first_handle m \<le> next_handle m \<and> next_handle m \<le> last_handle m + 1"

definition tables_agree :: "FatFsFileManager \<Rightarrow> bool" where
  "tables_agree m \<longleftrightarrow>
     (\<forall>h p. map_of (files m) h = Some p \<longleftrightarrow> map_of (inverse_files_map m) p = Some h)
   \<and> (\<forall>h. map_of (files m) h = None \<longleftrightarrow> map_of (inverse_file_paths m) h = None)
   \<and> (\<forall>s h. map_of (file_paths m) s = Some h \<longrightarrow> map_of (inverse_file_paths m) h = Some s)
   \<and> (\<forall>s d. map_of (dir_paths m) s = Some d \<longleftrightarrow> map_of (inverse_dir_paths m) d = Some s)
   \<and> (\<forall>h p. map_of (files m) h = Some p \<longrightarrow> first_handle m \<le> h \<and> h \<le> last_handle m)"

definition maps_ok :: "FatFsFileManager \<Rightarrow> bool" where
  "maps_ok m \<longleftrightarrow> umap_ok (files m) \<and> umap_ok (file_paths m) \<and> umap_ok (inverse_files_map m)
     \<and> umap_ok (inverse_file_paths m) \<and> umap_ok (dir_paths m) \<and> umap_ok (dirents m)
     \<and> umap_ok (dirents64 m) \<and> umap_ok (inverse_dir_paths m)"

definition heap_ok :: "FatFsFileManager \<Rightarrow> ptr list \<Rightarrow> bool" where
  "heap_ok m ps \<longleftrightarrow> distinct ps \<and> distinct (owned m) \<and> set (owned m) \<subseteq> set ps \<and> 0 \<notin> set ps"

definition fm_ok :: "FatFsFileManager \<Rightarrow> 'v fs_world \<Rightarrow> bool" where
  "fm_ok m w \<longleftrightarrow> handles_ok m \<and> tables_agree m \<and> maps_ok m \<and> heap_ok m (live w)"

lemmas fm_ok_defs = fm_ok_def handles_ok_def tables_agree_def maps_ok_def heap_ok_def owned_def

lemma fm_ok_frame [simp]:
  "fm_ok (m\<lparr>file_mutex := b\<rparr>) w = fm_ok m w" "fm_ok m (w\<lparr>vol := v\<rparr>) = fm_ok m w"
  "fm_ok m (w\<lparr>dent := e\<rparr>) = fm_ok m w"
  by (simp_all add: fm_ok_defs)

lemma fm_ok_new: "0 \<le> a \<Longrightarrow> a \<le> b \<Longrightarrow> distinct (live w) \<Longrightarrow> 0 \<notin> set (live w) \<Longrightarrow>
    fm_ok (FatFsFileManager_new a b mount disk drive) w"
  by (simp add: fm_ok_defs FatFsFileManager_new_def)

section \<open>Association lists and the addresses in them\<close>

lemma snd_delete_subset: "set (map snd (AList.delete k m)) \<subseteq> set (map snd m)"
  by (induction m) auto

lemma distinct_snd_delete: "distinct (map snd m) \<Longrightarrow> distinct (map snd (AList.delete k m))"
proof (induction m)
  case (Cons a m)
  then show ?case using snd_delete_subset [of k m] by (cases a) auto
qed simp

lemma snd_delete_gone:
  "map_of m k = Some v \<Longrightarrow> distinct (map snd m) \<Longrightarrow> v \<notin> set (map snd (AList.delete k m))"
proof (induction m)
  case (Cons a m)
  obtain k' v' where a: "a = (k', v')" by (cases a)
  show ?case
  proof (cases "k' = k")
    case True
    then have "v = v'" using Cons.prems(1) by (simp add: a)
    then show ?thesis using True Cons.prems(2) snd_delete_subset [of k m] by (auto simp: a)
  next
    case False
    then have m: "map_of m k = Some v" using Cons.prems(1) by (simp add: a)
    then have "v \<in> set (map snd m)" by (force dest: map_of_SomeD)
    then have "v \<noteq> v'" using Cons.prems(2) by (auto simp: a)
    then show ?thesis using False Cons.IH [OF m] Cons.prems(2) by (simp add: a)
  qed
qed simp

lemma map_of_snd: "map_of m k = Some v \<Longrightarrow> v \<in> set (map snd m)"
  by (force dest: map_of_SomeD)

section \<open>The mutex\<close>

lemma lock_guard_Ret:
  "lock_guard f m = Ret (r, m', w') \<longleftrightarrow>
    \<not> file_mutex m \<and> (\<exists>m1. f (m\<lparr>file_mutex := True\<rparr>) = Ret (r, m1, w') \<and> m' = m1\<lparr>file_mutex := False\<rparr>)"
  by (auto simp: lock_guard_def)

lemma lock_guard_invariant:
  assumes "lock_guard f m = Ret (r, m', w')" and "fm_ok m w"
    and "\<And>m1. fm_ok (m\<lparr>file_mutex := True\<rparr>) w \<Longrightarrow> f (m\<lparr>file_mutex := True\<rparr>) = Ret (r, m1, w') \<Longrightarrow> fm_ok m1 w'"
  shows "fm_ok m' w' \<and> \<not> file_mutex m'"
  using assms by (auto simp: lock_guard_Ret)

section \<open>A new handle\<close>

text \<open>The handles the scan visits, starting at \<open>h\<close>.\<close>

fun visited :: "FatFsFileManager \<Rightarrow> nat \<Rightarrow> int \<Rightarrow> int list" where
  "visited m 0 h = []"
| "visited m (Suc k) h = h # visited m k (if h = last_handle m then first_handle m else h + 1)"

lemma scan_handles_cases:
  "(snd (scan_handles m k h i) = i + int k \<and> (\<forall>x\<in>set (visited m k h). map_of (files m) x \<noteq> None))
   \<or> (i \<le> snd (scan_handles m k h i) \<and> snd (scan_handles m k h i) < i + int k
      \<and> fst (scan_handles m k h i) \<in> set (visited m k h) \<and> map_of (files m) (fst (scan_handles m k h i)) = None)"
proof (induction k arbitrary: h i)
  case (Suc k)
  show ?case using Suc.IH [of "if h = last_handle m then first_handle m else h + 1" "i + 1"]
    by (cases "map_of (files m) h") auto
qed simp

lemma scan_range:
  "first_handle m \<le> h \<Longrightarrow> h \<le> last_handle m \<Longrightarrow>
    first_handle m \<le> fst (scan_handles m k h i) \<and> fst (scan_handles m k h i) \<le> last_handle m"
proof (induction k arbitrary: h i)
  case (Suc k)
  then show ?case
    using Suc.IH [of "if h = last_handle m then first_handle m else h + 1" "i + 1"] by auto
qed simp

lemma visited_up:
  "h + int k \<le> last_handle m + 1 \<Longrightarrow> set (visited m k h) = {h..<h + int k}"
proof (induction k arbitrary: h)
  case (Suc k)
  show ?case
  proof (cases "h = last_handle m")
    case True
    then have "k = 0" using Suc.prems by simp
    then show ?thesis by auto
  next
    case False
    then have e: "set (visited m (Suc k) h) = insert h {h + 1..<h + 1 + int k}"
      using Suc.IH [of "h + 1"] Suc.prems by simp
    show ?thesis unfolding e by auto
  qed
qed simp

lemma visited_wrap:
  "h + int j = last_handle m + 1 \<Longrightarrow> h \<le> last_handle m \<Longrightarrow>
    visited m (j + k) h = visited m j h @ visited m k (first_handle m)"
proof (induction j arbitrary: h)
  case (Suc j)
  show ?case
  proof (cases "h = last_handle m")
    case True
    then have "j = 0" using Suc.prems by simp
    then show ?thesis using True by simp
  next
    case False
    then show ?thesis using Suc.IH [of "h + 1"] Suc.prems by simp
  qed
qed simp

text \<open>One round visits every handle.\<close>

lemma visited_all:
  assumes "first_handle m \<le> h" and "h \<le> last_handle m"
  shows "set (visited m (nat (last_handle m - first_handle m + 1)) h) = {first_handle m..last_handle m}"
proof -
  let ?j = "nat (last_handle m + 1 - h)" and ?k = "nat (h - first_handle m)"
  have n: "nat (last_handle m - first_handle m + 1) = ?j + ?k" using assms by simp
  have "set (visited m (?j + ?k) h) = {h..<h + int ?j} \<union> {first_handle m..<first_handle m + int ?k}"
    using assms by (simp add: visited_wrap visited_up)
  then show ?thesis using assms by (auto simp: n)
qed

text \<open>What \<open>getNewHandle\<close> returns, and that it touches nothing but \<open>next_handle\<close>.\<close>

lemma getNewHandle_cases:
  assumes ok: "handles_ok m" and r: "getNewHandle m = (h, m')"
  shows "(h = - 1 \<and> (\<forall>x. first_handle m \<le> x \<longrightarrow> x \<le> last_handle m \<longrightarrow> map_of (files m) x \<noteq> None)
      \<or> first_handle m \<le> h \<and> h \<le> last_handle m \<and> map_of (files m) h = None)
    \<and> (\<exists>n. m' = m\<lparr>next_handle := n\<rparr>) \<and> handles_ok m'"
proof -
  let ?start = "if next_handle m = last_handle m + 1 then first_handle m else next_handle m"
    and ?n = "last_handle m - first_handle m + 1"
  let ?s = "scan_handles m (nat ?n) ?start 0"
  have start: "first_handle m \<le> ?start" "?start \<le> last_handle m" using ok by (auto simp: handles_ok_def)
  have n: "0 < ?n" using ok by (simp add: handles_ok_def)
  have all: "set (visited m (nat ?n) ?start) = {first_handle m..last_handle m}"
    using visited_all [OF start] .
  consider (full) "snd ?s = ?n" "\<forall>x\<in>{first_handle m..last_handle m}. map_of (files m) x \<noteq> None"
    | (free) "snd ?s < ?n" "fst ?s \<in> {first_handle m..last_handle m}" "map_of (files m) (fst ?s) = None"
    using scan_handles_cases [of m "nat ?n" ?start 0] n unfolding all by auto
  then show ?thesis
  proof cases
    case full
    have "h = - 1" "m' = m\<lparr>next_handle := fst ?s\<rparr>"
      using r full(1) by (auto simp: getNewHandle_def Let_def split: prod.splits if_splits)
    with full(2) scan_range [OF start, of "nat ?n" 0] ok show ?thesis by (auto simp: handles_ok_def)
  next
    case free
    then have "h = fst ?s" "m' = m\<lparr>next_handle := fst ?s + 1\<rparr>"
      using r by (auto simp: getNewHandle_def Let_def split: prod.splits if_splits)
    with free ok show ?thesis by (auto simp: handles_ok_def)
  qed
qed

section \<open>The changes of the tables\<close>

lemma delete_object_live [simp]: "distinct (live w) \<Longrightarrow> set (live (delete_object p w)) = set (live w) - {p}"
  "distinct (live w) \<Longrightarrow> distinct (live (delete_object p w))"
  by (simp_all add: delete_object_def)

lemma new_object_live [simp]: "live (new_object p w) = p # live w"
  by (simp add: new_object_def)

text \<open>\<open>heap_ok\<close> when an owned address goes, and when a fresh one comes.\<close>

lemma heap_ok_remove:
  assumes "heap_ok m (live w)" and "set (owned m') \<subseteq> set (owned m) - {p}" and "distinct (owned m')"
  shows "heap_ok m' (live (delete_object p w))"
  using assms by (auto simp: heap_ok_def)

lemma heap_ok_add:
  assumes "heap_ok m (live w)" and "p \<notin> set (live w)" and "p \<noteq> 0"
    and "mset (owned m') = add_mset p (mset (owned m))"
  shows "heap_ok m' (live (new_object p w))"
proof -
  have "distinct (owned m') \<longleftrightarrow> distinct (p # owned m)"
    using assms(4) by (intro mset_eq_imp_distinct_iff) simp
  moreover have "set (owned m') = insert p (set (owned m))"
    using assms(4) by (metis set_mset_add_mset_insert set_mset_mset)
  ultimately show ?thesis using assms(1-3) by (auto simp: heap_ok_def)
qed

lemma owned_mono:
  assumes "distinct (owned m)"
    and "set (map snd (files m')) \<subseteq> set (map snd (files m))" "distinct (map snd (files m'))"
    and "set (map snd (dir_paths m')) \<subseteq> set (map snd (dir_paths m))" "distinct (map snd (dir_paths m'))"
    and "set (map snd (dirents m')) \<subseteq> set (map snd (dirents m))" "distinct (map snd (dirents m'))"
    and "set (map snd (dirents64 m')) \<subseteq> set (map snd (dirents64 m))" "distinct (map snd (dirents64 m'))"
  shows "distinct (owned m')"
  using assms unfolding owned_def distinct_append set_append by blast

lemma owned_live: "fm_ok m w \<Longrightarrow> p \<in> set (owned m) \<Longrightarrow> p \<in> set (live w) \<and> p \<noteq> 0"
  by (auto simp: fm_ok_def heap_ok_def)

lemma files_owned: "map_of (files m) h = Some p \<Longrightarrow> p \<in> set (owned m)"
  and dir_paths_owned: "map_of (dir_paths m) s = Some d \<Longrightarrow> d \<in> set (owned m)"
  and dirents_owned: "map_of (dirents m) d = Some e \<Longrightarrow> e \<in> set (owned m)"
  and dirents64_owned: "map_of (dirents64 m) d = Some e \<Longrightarrow> e \<in> set (owned m)"
  by (auto simp: owned_def dest!: map_of_snd)

lemma fm_ok_close:
  assumes ok: "fm_ok m w" and h: "map_of (inverse_files_map m) fil = Some h"
    and path: "map_of (inverse_file_paths m) h = Some path"
  shows "fm_ok (m\<lparr>files := AList.delete h (files m), file_paths := AList.delete path (file_paths m),
      inverse_files_map := AList.delete fil (inverse_files_map m),
      inverse_file_paths := AList.delete h (inverse_file_paths m)\<rparr>) (delete_object fil w)"
    (is "fm_ok ?m _")
proof -
  have fh: "map_of (files m) h = Some fil" using ok h by (simp add: fm_ok_def tables_agree_def)
  have ow: "distinct (owned m)" using ok by (simp add: fm_ok_def heap_ok_def)
  then have df: "distinct (map snd (files m))" by (simp add: owned_def)
  have "fil \<notin> set (map snd (AList.delete h (files m)))" using fh df by (rule snd_delete_gone)
  moreover have "fil \<notin> set (map snd (dir_paths m) @ map snd (dirents m) @ map snd (dirents64 m))"
    using ow map_of_snd [OF fh] by (auto simp: owned_def)
  ultimately have sub: "set (owned ?m) \<subseteq> set (owned m) - {fil}"
    using snd_delete_subset [of h "files m"] by (auto simp: owned_def)
  have "distinct (owned ?m)"
    using ow by (rule owned_mono) (use ow snd_delete_subset [of h "files m"] distinct_snd_delete [OF df] in \<open>simp_all add: owned_def\<close>)
  then have heap: "heap_ok ?m (live (delete_object fil w))"
    using ok sub by (intro heap_ok_remove [of m]) (auto simp: fm_ok_def)
  have uniq: "p = fil" if "map_of (inverse_files_map m) p = Some h" for p
    using ok fh that unfolding fm_ok_def tables_agree_def by (metis option.inject)
  have "tables_agree ?m"
    using ok fh h path unfolding fm_ok_def tables_agree_def
    by (auto simp: delete_conv' dest: uniq split: if_splits)
  with heap show ?thesis using ok by (simp add: fm_ok_def handles_ok_def maps_ok_def)
qed

lemma fm_ok_insert:
  assumes ok: "fm_ok m w" and h: "map_of (files m) h = None" "first_handle m \<le> h" "h \<le> last_handle m"
    and fil: "fil \<notin> set (live w)" "fil \<noteq> 0"
  shows "fm_ok (insertFileHandle h fil path m) (new_object fil w)" (is "fm_ok ?m _")
proof -
  have "mset (owned ?m) = add_mset fil (mset (owned m))"
    using h(1) by (simp add: owned_def insertFileHandle_def update_new)
  then have heap: "heap_ok ?m (live (new_object fil w))"
    using ok fil by (intro heap_ok_add [of m]) (auto simp: fm_ok_def)
  have inv: "map_of (inverse_files_map m) fil = None"
  proof (cases "map_of (inverse_files_map m) fil")
    case (Some h')
    then have "map_of (files m) h' = Some fil" using ok by (simp add: fm_ok_def tables_agree_def)
    with files_owned owned_live [OF ok] fil show ?thesis by blast
  qed
  have "map_of (files m) x \<noteq> Some fil" for x
    using ok inv by (simp add: fm_ok_def tables_agree_def)
  moreover have "map_of (inverse_files_map m) p \<noteq> Some h" for p
    using ok h(1) unfolding fm_ok_def tables_agree_def by (metis option.distinct(1))
  ultimately have "tables_agree ?m"
    using ok h inv unfolding fm_ok_def tables_agree_def insertFileHandle_def
    by (auto simp: update_conv')
  with heap show ?thesis using ok by (simp add: fm_ok_def handles_ok_def maps_ok_def insertFileHandle_def)
qed

lemma fm_ok_add_dir:
  assumes ok: "fm_ok m w" and path: "map_of (dir_paths m) path = None"
    and dir: "dir \<notin> set (live w)" "dir \<noteq> 0"
  shows "fm_ok (addDirHandle dir path m) (new_object dir w)" (is "fm_ok ?m _")
proof -
  have "mset (owned ?m) = add_mset dir (mset (owned m))"
    using path by (simp add: owned_def addDirHandle_def update_new)
  then have heap: "heap_ok ?m (live (new_object dir w))"
    using ok dir by (intro heap_ok_add [of m]) (auto simp: fm_ok_def)
  have "map_of (dir_paths m) s \<noteq> Some dir" for s
    using dir_paths_owned owned_live [OF ok] dir by blast
  moreover have "map_of (inverse_dir_paths m) d \<noteq> Some path" for d
    using ok path unfolding fm_ok_def tables_agree_def by (metis option.distinct(1))
  ultimately have "tables_agree ?m"
    using ok path unfolding fm_ok_def tables_agree_def addDirHandle_def
    by (auto simp: update_conv')
  with heap show ?thesis using ok by (simp add: fm_ok_def handles_ok_def maps_ok_def addDirHandle_def)
qed

text \<open>Closing a directory leaves its \<open>DIR\<close> object allocated.\<close>

lemma fm_ok_remove_dir:
  assumes ok: "fm_ok m w" and path: "map_of (inverse_dir_paths m) dir = Some path"
  shows "fm_ok (m\<lparr>dir_paths := AList.delete path (dir_paths m),
      inverse_dir_paths := AList.delete dir (inverse_dir_paths m)\<rparr>) w" (is "fm_ok ?m _")
proof -
  have p: "map_of (dir_paths m) path = Some dir" using ok path by (simp add: fm_ok_def tables_agree_def)
  have ow: "distinct (owned m)" using ok by (simp add: fm_ok_def heap_ok_def)
  then have dd: "distinct (map snd (dir_paths m))" by (simp add: owned_def)
  have "distinct (owned ?m)"
    using ow by (rule owned_mono) (use ow snd_delete_subset [of path "dir_paths m"] distinct_snd_delete [OF dd] in \<open>simp_all add: owned_def\<close>)
  moreover have "set (owned ?m) \<subseteq> set (owned m)"
    using snd_delete_subset [of path "dir_paths m"] by (simp add: owned_def) blast
  ultimately have heap: "heap_ok ?m (live w)"
    using ok unfolding fm_ok_def heap_ok_def by blast
  have uniq: "d = dir" if "map_of (inverse_dir_paths m) d = Some path" for d
    using ok p that unfolding fm_ok_def tables_agree_def by (metis option.inject)
  have "tables_agree ?m"
    using ok p path unfolding fm_ok_def tables_agree_def
    by (auto simp: delete_conv' dest: uniq split: if_splits)
  with heap show ?thesis using ok by (simp add: fm_ok_def handles_ok_def maps_ok_def)
qed

text \<open>The scratch entries of \<open>readdir\<close> and \<open>readdir64\<close>.\<close>

lemma fm_ok_scratch:
  assumes ok: "fm_ok m w" and e: "e \<notin> set (live w)" "e \<noteq> 0"
  shows "map_of (dirents m) d = None \<Longrightarrow> fm_ok (m\<lparr>dirents := AList.update d e (dirents m)\<rparr>) (new_object e w)"
    and "map_of (dirents64 m) d = None \<Longrightarrow> fm_ok (m\<lparr>dirents64 := AList.update d e (dirents64 m)\<rparr>) (new_object e w)"
proof -
  assume "map_of (dirents m) d = None"
  then have "heap_ok (m\<lparr>dirents := AList.update d e (dirents m)\<rparr>) (live (new_object e w))"
    using ok e by (intro heap_ok_add [of m]) (auto simp: fm_ok_def owned_def update_new)
  then show "fm_ok (m\<lparr>dirents := AList.update d e (dirents m)\<rparr>) (new_object e w)"
    using ok by (simp add: fm_ok_def handles_ok_def maps_ok_def tables_agree_def)
next
  assume "map_of (dirents64 m) d = None"
  then have "heap_ok (m\<lparr>dirents64 := AList.update d e (dirents64 m)\<rparr>) (live (new_object e w))"
    using ok e by (intro heap_ok_add [of m]) (auto simp: fm_ok_def owned_def update_new)
  then show "fm_ok (m\<lparr>dirents64 := AList.update d e (dirents64 m)\<rparr>) (new_object e w)"
    using ok by (simp add: fm_ok_def handles_ok_def maps_ok_def tables_agree_def)
qed

lemma delete_absent: "map_of m k = None \<Longrightarrow> AList.delete k m = m"
  by (induction m) (auto split: if_splits)

lemma fm_ok_free_dirent:
  assumes ok: "fm_ok m w"
  shows "fm_ok (m\<lparr>dirents := AList.delete d (dirents m)\<rparr>) (free_scratch (map_of (dirents m) d) w)" (is "fm_ok ?m _")
proof (cases "map_of (dirents m) d")
  case None
  then show ?thesis using ok by (simp add: free_scratch_def delete_absent)
next
  case (Some e)
  have ow: "distinct (owned m)" using ok by (simp add: fm_ok_def heap_ok_def)
  then have de: "distinct (map snd (dirents m))" by (simp add: owned_def)
  have g: "e \<notin> set (map snd (AList.delete d (dirents m)))" using Some de by (rule snd_delete_gone)
  have "e \<notin> set (map snd (files m) @ map snd (dir_paths m) @ map snd (dirents64 m))"
    using ow map_of_snd [OF Some] by (auto simp: owned_def)
  with g have sub: "set (owned ?m) \<subseteq> set (owned m) - {e}"
    using snd_delete_subset [of d "dirents m"] by (simp add: owned_def) blast
  have "distinct (owned ?m)"
    using ow by (rule owned_mono)
      (use ow snd_delete_subset [of d "dirents m"] distinct_snd_delete [OF de] in \<open>simp_all add: owned_def\<close>)
  with sub have "heap_ok ?m (live (delete_object e w))"
    using ok by (intro heap_ok_remove [of m]) (auto simp: fm_ok_def)
  then show ?thesis using ok Some
    by (simp add: free_scratch_def fm_ok_def handles_ok_def maps_ok_def tables_agree_def)
qed

lemma fm_ok_free_dirent64:
  assumes ok: "fm_ok m w"
  shows "fm_ok (m\<lparr>dirents64 := AList.delete d (dirents64 m)\<rparr>) (free_scratch (map_of (dirents64 m) d) w)" (is "fm_ok ?m _")
proof (cases "map_of (dirents64 m) d")
  case None
  then show ?thesis using ok by (simp add: free_scratch_def delete_absent)
next
  case (Some e)
  have ow: "distinct (owned m)" using ok by (simp add: fm_ok_def heap_ok_def)
  then have de: "distinct (map snd (dirents64 m))" by (simp add: owned_def)
  have g: "e \<notin> set (map snd (AList.delete d (dirents64 m)))" using Some de by (rule snd_delete_gone)
  have "e \<notin> set (map snd (files m) @ map snd (dir_paths m) @ map snd (dirents m))"
    using ow map_of_snd [OF Some] by (auto simp: owned_def)
  with g have sub: "set (owned ?m) \<subseteq> set (owned m) - {e}"
    using snd_delete_subset [of d "dirents64 m"] by (simp add: owned_def) blast
  have "distinct (owned ?m)"
    using ow by (rule owned_mono)
      (use ow snd_delete_subset [of d "dirents64 m"] distinct_snd_delete [OF de] in \<open>simp_all add: owned_def\<close>)
  with sub have "heap_ok ?m (live (delete_object e w))"
    using ok by (intro heap_ok_remove [of m]) (auto simp: fm_ok_def)
  then show ?thesis using ok Some
    by (simp add: free_scratch_def fm_ok_def handles_ok_def maps_ok_def tables_agree_def)
qed

section \<open>Every call keeps the invariant\<close>

text \<open>FatFs calls change the volumes only.\<close>

lemma on_object_Ret: "on_object w p f = Ret (r, w') \<longleftrightarrow> p \<in> set (live w) \<and> (\<exists>v. f (vol w) = (r, v) \<and> w' = w\<lparr>vol := v\<rparr>)"
  by (auto simp: on_object_def split: prod.splits)

lemma on_volume_eq: "on_volume w f = (r, w') \<longleftrightarrow> (\<exists>v. f (vol w) = (r, v) \<and> w' = w\<lparr>vol := v\<rparr>)"
  by (auto simp: on_volume_def split: prod.splits)

lemma umap_at_Ret [simp]: "umap_at m k = Ret v \<longleftrightarrow> map_of m k = Some v"
  by (simp add: umap_at_def split: option.splits)

lemma fm_ok_live: "live w' = live w \<Longrightarrow> fm_ok m w' = fm_ok m w"
  by (simp add: fm_ok_def)

lemma lseekInternal_live:
  assumes "lseekInternal F fd ofs wh m w = Ret (r, w')"
  shows "live w' = live w"
proof (cases "wh = SEEK_CUR \<and> ofs = 0 \<or> map_of (files m) fd = None")
  case True
  then show ?thesis using assms by (auto simp: lseekInternal_def split: if_split_asm option.split_asm)
next
  case False
  then obtain fil where fil: "map_of (files m) fd = Some fil" and nt: "\<not> (wh = SEEK_CUR \<and> ofs = 0)" by auto
  let ?f = "f_lseek F fil (of_int (seek_target F fil ofs wh w))"
  have "lseekInternal F fd ofs wh m w =
      cbind (on_object w fil ?f) (\<lambda>(res, w1). Ret (if res = FR_OK then 0 else - 1, w1))"
    using nt by (simp only: lseekInternal_def fil if_False option.case)
  with assms obtain res where "on_object w fil ?f = Ret (res, w')" by auto
  then show ?thesis by (auto simp only: on_object_Ret) simp
qed

lemma closeInternal_ok:
  "closeInternal F fil m w = Ret (r, m', w') \<Longrightarrow> fm_ok m w \<Longrightarrow> fm_ok m' w'"
proof -
  assume r: "closeInternal F fil m w = Ret (r, m', w')" and ok: "fm_ok m w"
  obtain h res v where h: "map_of (inverse_files_map m) fil = Some h"
    and rest: "(if res = FR_OK then
         cbind (umap_at (inverse_file_paths m) h) (\<lambda>path.
           Ret (0,
             m\<lparr>files := AList.delete h (files m), file_paths := AList.delete path (file_paths m),
               inverse_files_map := AList.delete fil (inverse_files_map m),
               inverse_file_paths := AList.delete h (inverse_file_paths m)\<rparr>,
             delete_object fil (w\<lparr>vol := v\<rparr>)))
       else Ret (- 1, m, w\<lparr>vol := v\<rparr>)) = Ret (r, m', w')"
    using r by (auto simp: closeInternal_def on_object_Ret)
  have "fm_ok m (w\<lparr>vol := v\<rparr>)" using ok by simp
  from fm_ok_close [OF this h] this rest show "fm_ok m' w'" by (auto split: if_split_asm)
qed

lemma getNewHandle_ok:
  assumes ok: "fm_ok m w" and r: "getNewHandle m = (h, m')"
  shows "fm_ok m' w \<and> files m' = files m \<and> first_handle m' = first_handle m \<and> last_handle m' = last_handle m
    \<and> file_paths m' = file_paths m"
proof -
  obtain n where "m' = m\<lparr>next_handle := n\<rparr>" "handles_ok m'"
    using getNewHandle_cases [OF _ r] ok by (auto simp: fm_ok_def)
  then show ?thesis using ok by (simp add: fm_ok_def tables_agree_def maps_ok_def heap_ok_def owned_def)
qed

lemma delete_new_object: "fil \<notin> set (live w) \<Longrightarrow> live (delete_object fil ((new_object fil w)\<lparr>vol := v\<rparr>)) = live w"
  by (simp add: delete_object_def new_object_def)

lemma open_new_ok:
  assumes r: "open_new F path mode fil m w = Ret (x, m', w')" and ok: "fm_ok m w"
    and fil: "fil \<notin> set (live w)" "fil \<noteq> 0"
  shows "fm_ok m' w'"
proof -
  obtain h m1 where g: "getNewHandle m = (h, m1)" by force
  have m1: "fm_ok m1 w" "files m1 = files m" "first_handle m1 = first_handle m" "last_handle m1 = last_handle m"
    using getNewHandle_ok [OF ok g] by auto
  show ?thesis
  proof (cases "h = - 1")
    case True
    then show ?thesis using r g m1 by (simp add: open_new_def)
  next
    case False
    have h: "map_of (files m1) h = None" "first_handle m1 \<le> h" "h \<le> last_handle m1"
      using getNewHandle_cases [OF _ g] ok False m1 by (auto simp: fm_ok_def)
    have "fm_ok m1 (delete_object fil ((new_object fil w)\<lparr>vol := v\<rparr>))" for v
      using m1(1) fm_ok_live [OF delete_new_object [OF fil(1)]] by blast
    moreover have "fm_ok (insertFileHandle h fil path m1) ((new_object fil w)\<lparr>vol := v\<rparr>)" for v
      using fm_ok_insert [OF m1(1) h fil] by simp
    ultimately show ?thesis using r g False by (auto simp: open_new_def on_object_Ret split: if_splits)
  qed
qed

lemma sync_old_live: "sync_old F path m w = Ret (r, w') \<Longrightarrow> live w' = live w"
  by (auto simp: sync_old_def on_object_Ret split: option.splits)

lemma open_with_ok:
  assumes r: "open_with F path mode fil m w = Ret (x, m', w')" and ok: "fm_ok m w"
    and fil: "fil \<notin> set (live w)" "fil \<noteq> 0"
  shows "fm_ok m' w'"
proof -
  obtain res w1 where s: "sync_old F path m w = Ret (res, w1)"
    and rest: "(if res \<noteq> FR_OK then Ret ((- 1, 0, Some ENOENT), m, w1) else open_new F path mode fil m w1) = Ret (x, m', w')"
    using r unfolding open_with_def cbind_Ret_iff by auto
  have l: "live w1 = live w" using sync_old_live [OF s] .
  then have "fm_ok m w1" using ok fm_ok_live by blast
  with open_new_ok [OF _ this] fil rest l show ?thesis by (auto split: if_split_asm)
qed

lemma fm_open_ok:
  assumes "fm_open F path oflag fil m w = Ret (r, m', w')" and "fm_ok m w" and "fil \<notin> set (live w)" "fil \<noteq> 0"
  shows "fm_ok m' w' \<and> \<not> file_mutex m'"
  using assms(1) unfolding fm_open_def
  by (rule lock_guard_invariant [OF _ assms(2)])
    (use assms(3,4) in \<open>auto simp: Let_def simp del: fm_ok_frame(1) dest: open_with_ok split: if_split_asm\<close>)

lemma fm_fopen_ok:
  assumes "fm_fopen F path mode fil m w = Ret (r, m', w')" and "fm_ok m w" and "fil \<notin> set (live w)" "fil \<noteq> 0"
  shows "fm_ok m' w' \<and> \<not> file_mutex m'"
  using assms(1) unfolding fm_fopen_def
  by (rule lock_guard_invariant [OF _ assms(2)])
    (use assms(3,4) in \<open>auto simp: Let_def simp del: fm_ok_frame(1) dest: open_with_ok split: if_split_asm option.split_asm\<close>)

lemma fm_close_ok:
  assumes "fm_ok m w"
  shows "fm_close F fd m w = Ret (r, m', w') \<Longrightarrow> fm_ok m' w' \<and> \<not> file_mutex m'"
    and "fm_fclose F fp m w = Ret (r, m', w') \<Longrightarrow> fm_ok m' w' \<and> \<not> file_mutex m'"
proof -
  assume "fm_close F fd m w = Ret (r, m', w')"
  then show "fm_ok m' w' \<and> \<not> file_mutex m'"
    unfolding fm_close_def
  proof (rule lock_guard_invariant [OF _ assms], goal_cases)
    case (1 m1)
    have "map_of (files m) fd \<noteq> Some 0" using assms owned_live files_owned by blast
    with 1 show ?case by (auto simp del: fm_ok_frame(1) dest: closeInternal_ok split: option.split_asm if_split_asm)
  qed
next
  assume "fm_fclose F fp m w = Ret (r, m', w')"
  then show "fm_ok m' w' \<and> \<not> file_mutex m'"
    unfolding fm_fclose_def
    by (rule lock_guard_invariant [OF _ assms]) (auto simp del: fm_ok_frame(1) dest: closeInternal_ok split: if_split_asm)
qed

lemma fm_dup2_Deadlock: "fm_dup2 F a b m w = Deadlock"
  by (simp add: fm_dup2_def lock_guard_def fm_close_def)

text \<open>The calls that leave the tables and the heap alone.\<close>

lemma lock_guard_frame:
  assumes "lock_guard f m = Ret (r, m', w')" and "fm_ok m w"
    and "\<And>m1. f (m\<lparr>file_mutex := True\<rparr>) = Ret (r, m1, w') \<Longrightarrow> m1 = m\<lparr>file_mutex := True\<rparr> \<and> live w' = live w"
  shows "fm_ok m' w' \<and> \<not> file_mutex m'"
  using assms fm_ok_live [of w' w] by (auto simp: lock_guard_Ret)

lemma read_object_live: "read_object F fil c w = Ret (r, w') \<Longrightarrow> live w' = live w"
  by (auto simp: read_object_def split: if_split_asm prod.split_asm)

lemma write_object_live: "write_object F fil b c w = Ret (r, w') \<Longrightarrow> live w' = live w"
  by (auto simp: write_object_def split: if_split_asm prod.split_asm)

lemma on_object_live: "on_object w fil f = Ret (r, w') \<Longrightarrow> live w' = live w"
  by (auto simp: on_object_Ret)

lemma on_volume_live: "on_volume w f = (r, w') \<Longrightarrow> live w' = live w"
  by (auto simp: on_volume_eq)

lemmas live_dests = read_object_live write_object_live on_object_live on_volume_live lseekInternal_live

lemma fm_transfer_ok:
  assumes "fm_ok m w"
  shows "fm_lseek F fd ofs wh m w = Ret (r, m', w') \<Longrightarrow> fm_ok m' w' \<and> \<not> file_mutex m'"
    and "fm_read F fd buf c m w = Ret (rb, m', w') \<Longrightarrow> fm_ok m' w' \<and> \<not> file_mutex m'"
    and "fm_fread F buf sz c fp m w = Ret (rb, m', w') \<Longrightarrow> fm_ok m' w' \<and> \<not> file_mutex m'"
    and "fm_write F fd b c m w = Ret (r, m', w') \<Longrightarrow> fm_ok m' w' \<and> \<not> file_mutex m'"
    and "fm_fwrite F b sz c fp m w = Ret (r, m', w') \<Longrightarrow> fm_ok m' w' \<and> \<not> file_mutex m'"
    and "fm_fdopen fd md m w = Ret (p, m', w') \<Longrightarrow> fm_ok m' w' \<and> \<not> file_mutex m'"
    and "fm_pread F fd buf c ofs m w = Ret (rb, m', w') \<Longrightarrow> fm_ok m' w' \<and> \<not> file_mutex m'"
    and "fm_pwrite F fd bo c ofs m w = Ret (r, m', w') \<Longrightarrow> fm_ok m' w' \<and> \<not> file_mutex m'"
    and "fm_ftruncate F fd ofs m w = Ret (re, m', w') \<Longrightarrow> fm_ok m' w' \<and> \<not> file_mutex m'"
  unfolding fm_lseek_def fm_read_def fm_fread_def fm_write_def fm_fwrite_def fm_fdopen_def fm_pread_def
    fm_pwrite_def fm_ftruncate_def
  by (erule lock_guard_frame [OF _ assms]; auto dest!: live_dests split: if_split_asm option.split_asm)+

lemma statWithRoot_live: "statWithRoot F m path w = Ret (r, i, w') \<Longrightarrow> live w' = live w"
  by (auto simp: statWithRoot_def split: if_split_asm option.split_asm prod.split_asm)

lemma stat_live:
  "statInternal64 F m path w = Ret (r, w') \<Longrightarrow> live w' = live w"
  "statInternal F m path w = Ret (r, w') \<Longrightarrow> live w' = live w"
  by (auto simp: statInternal64_def statInternal_def dest: statWithRoot_live)

lemma rename_live:
  "renameFileInternal F a b m w = (r, w') \<Longrightarrow> live w' = live w"
  "renameDirInternal F a b m w = (r, w') \<Longrightarrow> live w' = live w"
  by (auto simp: renameFileInternal_def renameDirInternal_def dest: on_volume_live split: if_split_asm prod.split_asm)

lemma unlink_live: "unlinkInternal F path w = (r, w') \<Longrightarrow> live w' = live w"
  by (auto simp: unlinkInternal_def dest: on_volume_live split: if_split_asm prod.split_asm)

lemma fm_path_ok:
  assumes "fm_ok m w"
  shows "fm_lstat F p m w = Ret (rs, m', w') \<Longrightarrow> fm_ok m' w' \<and> \<not> file_mutex m'"
    and "fm_lstat64 F p m w = Ret (rs, m', w') \<Longrightarrow> fm_ok m' w' \<and> \<not> file_mutex m'"
    and "fm_stat F ver p m w = Ret (rs, m', w') \<Longrightarrow> fm_ok m' w' \<and> \<not> file_mutex m'"
    and "fm_fstat F ver fd m w = Ret (rs, m', w') \<Longrightarrow> fm_ok m' w' \<and> \<not> file_mutex m'"
    and "fm_mkdir F p md m w = Ret (r, m', w') \<Longrightarrow> fm_ok m' w' \<and> \<not> file_mutex m'"
    and "fm_access F p md m w = Ret (re, m', w') \<Longrightarrow> fm_ok m' w' \<and> \<not> file_mutex m'"
    and "fm_unlink F p m w = Ret (re, m', w') \<Longrightarrow> fm_ok m' w' \<and> \<not> file_mutex m'"
    and "fm_rmdir F p m w = Ret (re, m', w') \<Longrightarrow> fm_ok m' w' \<and> \<not> file_mutex m'"
    and "fm_remove F p m w = Ret (re, m', w') \<Longrightarrow> fm_ok m' w' \<and> \<not> file_mutex m'"
    and "fm_chdir F p m w = Ret (r, m', w') \<Longrightarrow> fm_ok m' w' \<and> \<not> file_mutex m'"
    and "fm_getcwd F buf sz m w = Ret (rt, m', w') \<Longrightarrow> fm_ok m' w' \<and> \<not> file_mutex m'"
    and "fm_fchown fd ow gr m w = Ret (re, m', w') \<Longrightarrow> fm_ok m' w' \<and> \<not> file_mutex m'"
    and "fm_fchmod fd mo m w = Ret (re, m', w') \<Longrightarrow> fm_ok m' w' \<and> \<not> file_mutex m'"
    and "fm_utimes F p m w = Ret (re, m', w') \<Longrightarrow> fm_ok m' w' \<and> \<not> file_mutex m'"
  unfolding fm_lstat_def fm_lstat64_def fm_stat_def fm_fstat_def fm_mkdir_def fm_access_def fm_unlink_def
    fm_rmdir_def fm_remove_def fm_chdir_def fm_getcwd_def fm_fchown_def fm_fchmod_def fm_utimes_def
  by (erule lock_guard_frame [OF _ assms];
      auto simp: Let_def dest!: stat_live unlink_live on_volume_live split: if_split_asm option.split_asm prod.split_asm)+

lemma fm_rename_ok:
  assumes "fm_ok m w" and "fm_rename F a b m w = Ret (r, m', w')"
  shows "fm_ok m' w' \<and> \<not> file_mutex m'"
  using assms(2) unfolding fm_rename_def
  by (rule lock_guard_frame [OF _ assms(1)])
    (auto simp: Let_def dest!: stat_live(1) rename_live split: if_split_asm prod.split_asm)

lemma fm_opendir_ok:
  assumes "fm_opendir F path dir m w = Ret (r, m', w')" and "fm_ok m w" and dir: "dir \<notin> set (live w)" "dir \<noteq> 0"
  shows "fm_ok m' w' \<and> \<not> file_mutex m'"
  using assms(1) unfolding fm_opendir_def
proof (rule lock_guard_invariant [OF _ assms(2)], goal_cases)
  case (1 m1)
  note ok = 1(1)
  have "fm_ok (addDirHandle dir s (m\<lparr>file_mutex := True\<rparr>)) ((new_object dir w)\<lparr>vol := v\<rparr>)"
    if "map_of (dir_paths m) s = None" for s v
    using fm_ok_add_dir [OF ok _ dir, of s] that by simp
  moreover have "fm_ok (m\<lparr>file_mutex := True\<rparr>) (delete_object dir ((new_object dir w)\<lparr>vol := v\<rparr>))" for v
    using ok fm_ok_live [OF delete_new_object [OF dir(1)]] by blast
  ultimately show ?case
    using 1 by (auto simp: Let_def on_object_Ret simp del: fm_ok_frame(1) split: if_split_asm)
qed

lemma fm_readdir_ok:
  assumes ok: "fm_ok m w" and e: "e \<notin> set (live w)" "e \<noteq> 0"
  shows "fm_readdir F dirp e m w = Ret (r, m', w') \<Longrightarrow> fm_ok m' w' \<and> \<not> file_mutex m'"
    and "fm_readdir64 F dirp e m w = Ret (r, m', w') \<Longrightarrow> fm_ok m' w' \<and> \<not> file_mutex m'"
proof -
  have ok1: "fm_ok (m\<lparr>file_mutex := True\<rparr>) w" using ok by simp
  note new = fm_ok_scratch [OF ok1 e]
  {
    assume "fm_readdir F dirp e m w = Ret (r, m', w')"
    then show "fm_ok m' w' \<and> \<not> file_mutex m'"
      unfolding fm_readdir_def
      by (rule lock_guard_invariant [OF _ ok])
        (use new(1) [of dirp] in \<open>auto simp: Let_def split: if_split_asm option.split_asm prod.split_asm\<close>)
  }
  {
    assume "fm_readdir64 F dirp e m w = Ret (r, m', w')"
    then show "fm_ok m' w' \<and> \<not> file_mutex m'"
      unfolding fm_readdir64_def
      by (rule lock_guard_invariant [OF _ ok])
        (use new(2) [of dirp] in \<open>auto simp: Let_def split: if_split_asm option.split_asm prod.split_asm\<close>)
  }
qed

lemma fm_closedir_ok:
  assumes "fm_closedir F dirp m w = Ret (r, m', w')" and "fm_ok m w"
  shows "fm_ok m' w' \<and> \<not> file_mutex m'"
  using assms(1) unfolding fm_closedir_def
proof (rule lock_guard_invariant [OF _ assms(2)], goal_cases)
  case (1 m1)
  let ?m = "m\<lparr>file_mutex := True\<rparr>"
  let ?m1 = "?m\<lparr>dirents := AList.delete dirp (dirents ?m), dirents64 := AList.delete dirp (dirents64 ?m)\<rparr>"
  let ?w1 = "free_scratch (map_of (dirents64 ?m) dirp) (free_scratch (map_of (dirents ?m) dirp) w)"
  have ok1: "fm_ok ?m1 (?w1\<lparr>vol := v\<rparr>)" for v
    using fm_ok_free_dirent64 [OF fm_ok_free_dirent [OF 1(1), of dirp], of dirp] by simp
  have ok2: "fm_ok (?m1\<lparr>dir_paths := AList.delete path (dir_paths ?m1),
      inverse_dir_paths := AList.delete dirp (inverse_dir_paths ?m1)\<rparr>) (?w1\<lparr>vol := v\<rparr>)"
    if "map_of (inverse_dir_paths ?m1) dirp = Some path" for path v
    using fm_ok_remove_dir [OF ok1 that] .
  from 1(2) ok1 ok2 1(1) show ?case
    unfolding Let_def cbind_Ret_iff
    by (auto simp only: on_object_Ret cbind_Ret_iff umap_at_Ret prod.case cpp.inject prod.inject split: if_split_asm)
qed

section \<open>Sequences of calls\<close>

datatype fm_call =
    Open cstr u32 ptr | Fopen cstr cstr ptr | Lseek int int int | Read int ptr u64
  | Fread ptr u64 u64 ptr | Pread int ptr u64 int | Fdopen int cstr | Fwrite bytes u64 u64 ptr
  | Pwrite int "bytes option" u64 int | Write int bytes u64 | Fclose ptr | Close int | Dup2 int int
  | Lstat cstr | Lstat64 cstr | Stat int cstr | Fstat int int | Rename cstr cstr | Mkdir cstr u32
  | Access cstr u32 | Unlink cstr | Rmdir cstr | Remove cstr | Chdir cstr | Getcwd ptr u64
  | Opendir cstr ptr | Readdir ptr ptr | Readdir64 ptr ptr | Closedir ptr | Ftruncate int int
  | Fchown int u32 u32 | Fchmod int u32 | Utimes cstr

text \<open>The state after a call.\<close>

abbreviation after :: "('r \<times> FatFsFileManager \<times> 'v fs_world) cpp \<Rightarrow> (FatFsFileManager \<times> 'v fs_world) cpp" where
  "after x \<equiv> cbind x (\<lambda>(r, m, w). Ret (m, w))"

fun fm_exec :: "'v fatfs \<Rightarrow> fm_call \<Rightarrow> FatFsFileManager \<Rightarrow> 'v fs_world \<Rightarrow> (FatFsFileManager \<times> 'v fs_world) cpp" where
  "fm_exec F (Open p f a) m w = after (fm_open F p f a m w)"
| "fm_exec F (Fopen p md a) m w = after (fm_fopen F p md a m w)"
| "fm_exec F (Lseek fd ofs wh) m w = after (fm_lseek F fd ofs wh m w)"
| "fm_exec F (Read fd buf c) m w = after (fm_read F fd buf c m w)"
| "fm_exec F (Fread buf sz c fp) m w = after (fm_fread F buf sz c fp m w)"
| "fm_exec F (Pread fd buf c ofs) m w = after (fm_pread F fd buf c ofs m w)"
| "fm_exec F (Fdopen fd md) m w = after (fm_fdopen fd md m w)"
| "fm_exec F (Fwrite b sz c fp) m w = after (fm_fwrite F b sz c fp m w)"
| "fm_exec F (Pwrite fd b c ofs) m w = after (fm_pwrite F fd b c ofs m w)"
| "fm_exec F (Write fd b c) m w = after (fm_write F fd b c m w)"
| "fm_exec F (Fclose fp) m w = after (fm_fclose F fp m w)"
| "fm_exec F (Close fd) m w = after (fm_close F fd m w)"
| "fm_exec F (Dup2 a b) m w = after (fm_dup2 F a b m w)"
| "fm_exec F (Lstat p) m w = after (fm_lstat F p m w)"
| "fm_exec F (Lstat64 p) m w = after (fm_lstat64 F p m w)"
| "fm_exec F (Stat ver p) m w = after (fm_stat F ver p m w)"
| "fm_exec F (Fstat ver fd) m w = after (fm_fstat F ver fd m w)"
| "fm_exec F (Rename a b) m w = after (fm_rename F a b m w)"
| "fm_exec F (Mkdir p md) m w = after (fm_mkdir F p md m w)"
| "fm_exec F (Access p md) m w = after (fm_access F p md m w)"
| "fm_exec F (Unlink p) m w = after (fm_unlink F p m w)"
| "fm_exec F (Rmdir p) m w = after (fm_rmdir F p m w)"
| "fm_exec F (Remove p) m w = after (fm_remove F p m w)"
| "fm_exec F (Chdir p) m w = after (fm_chdir F p m w)"
| "fm_exec F (Getcwd buf sz) m w = after (fm_getcwd F buf sz m w)"
| "fm_exec F (Opendir p a) m w = after (fm_opendir F p a m w)"
| "fm_exec F (Readdir d a) m w = after (fm_readdir F d a m w)"
| "fm_exec F (Readdir64 d a) m w = after (fm_readdir64 F d a m w)"
| "fm_exec F (Closedir d) m w = after (fm_closedir F d m w)"
| "fm_exec F (Ftruncate fd len) m w = after (fm_ftruncate F fd len m w)"
| "fm_exec F (Fchown fd ow gr) m w = after (fm_fchown fd ow gr m w)"
| "fm_exec F (Fchmod fd md) m w = after (fm_fchmod fd md m w)"
| "fm_exec F (Utimes p) m w = after (fm_utimes F p m w)"

text \<open>The allocator hands out addresses that are not in use.\<close>

fun allocated_by :: "fm_call \<Rightarrow> ptr option" where
  "allocated_by (Open p f a) = Some a"
| "allocated_by (Fopen p md a) = Some a"
| "allocated_by (Opendir p a) = Some a"
| "allocated_by (Readdir d a) = Some a"
| "allocated_by (Readdir64 d a) = Some a"
| "allocated_by c = None"

definition fresh_for :: "fm_call \<Rightarrow> 'v fs_world \<Rightarrow> bool" where
  "fresh_for c w \<longleftrightarrow> (case allocated_by c of None \<Rightarrow> True | Some a \<Rightarrow> a \<notin> set (live w) \<and> a \<noteq> 0)"

inductive fm_step :: "'v fatfs \<Rightarrow> FatFsFileManager \<times> 'v fs_world \<Rightarrow> FatFsFileManager \<times> 'v fs_world \<Rightarrow> bool"
  for F where
  call: "fresh_for c w \<Longrightarrow> fm_exec F c m w = Ret (m', w') \<Longrightarrow> fm_step F (m, w) (m', w')"

inductive_cases fm_stepE: "fm_step F s s'"

lemma fm_exec_ok:
  assumes "fm_ok m w" and "fresh_for c w" and "fm_exec F c m w = Ret (m', w')"
  shows "fm_ok m' w' \<and> \<not> file_mutex m'"
  using assms
  by (cases c)
    (auto simp: fresh_for_def fm_dup2_Deadlock
      dest: fm_open_ok fm_fopen_ok fm_close_ok fm_transfer_ok fm_path_ok fm_rename_ok fm_opendir_ok
        fm_readdir_ok fm_closedir_ok)

end
