(* ===== verification/File_Manager_Props.thy ===== *)
theory File_Manager_Props
  imports File_Manager_Invariant
begin

text \<open>
  What the file manager promises its callers: the tables stay consistent, calls on handles are
  never undefined, handles are unique and are found while any is free, opening and closing undo each
  other; and the places where the code departs from POSIX.
\<close>

section \<open>Reachable states\<close>

text \<open>The calls keep the tables consistent and release the mutex.\<close>

definition fm_good :: "FatFsFileManager \<times> 'v fs_world \<Rightarrow> bool" where
  "fm_good s \<longleftrightarrow> fm_ok (fst s) (snd s) \<and> \<not> file_mutex (fst s)"

interpretation fmgr: kept_invariant "fm_step F" fm_good for F
  by unfold_locales (auto simp: fm_good_def elim!: fm_stepE dest: fm_exec_ok)

text \<open>A volume whose every call succeeds, for the witnesses.\<close>

definition example_info :: filinfo where
  "example_info = \<lparr>fsize = 5, fattrib = 0x20, fname = ''f''\<rparr>"

definition example_fatfs :: "'v fatfs" where
  "example_fatfs =
     \<lparr>f_open = (\<lambda>_ _ _ v. (FR_OK, v)), f_close = (\<lambda>_ v. (FR_OK, v)), f_sync = (\<lambda>_ v. (FR_OK, v)),
      f_read = (\<lambda>_ n v. (FR_OK, [], v)), f_write = (\<lambda>_ b v. (FR_OK, of_nat (length b), v)),
      f_lseek = (\<lambda>_ _ v. (FR_OK, v)), f_tell = (\<lambda>_ _. 0), f_size = (\<lambda>_ _. 0),
      f_truncate = (\<lambda>_ v. (FR_OK, v)), f_stat = (\<lambda>_ v. (FR_OK, example_info, v)),
      f_unlink = (\<lambda>_ v. (FR_OK, v)), f_rename = (\<lambda>_ _ v. (FR_OK, v)), f_mkdir = (\<lambda>_ v. (FR_OK, v)),
      f_chdir = (\<lambda>_ v. (FR_OK, v)), f_getcwd = (\<lambda>_ v. (FR_OK, ''/'', v)),
      f_opendir = (\<lambda>_ _ v. (FR_OK, v)), f_readdir = (\<lambda>_ v. (FR_OK, example_info, v)),
      f_closedir = (\<lambda>_ v. (FR_OK, v))\<rparr>"

definition example_fm :: FatFsFileManager where
  "example_fm = FatFsFileManager_new 100000 599999 ''/'' 16 0"

definition example_world :: "unit fs_world" where
  "example_world = \<lparr>live = [], dent = [], vol = ()\<rparr>"

lemma example_ok: "fm_ok example_fm example_world" "\<not> file_mutex example_fm"
  by (auto simp: example_fm_def example_world_def intro!: fm_ok_new) (simp add: FatFsFileManager_new_def)

lemma example_drive: "generateFatFsPath example_fm (Some s) = ''0:'' @ s"
  by (simp add: generateFatFsPath_def example_fm_def FatFsFileManager_new_def dec_string.simps) code_simp

text \<open>C21: under any sequence of calls on a new manager, with any FatFs below it, the tables of files and
  directories stay consistent with each other and with the heap, every handle stays in the
  manager's range, and the mutex is free between calls.\<close>

theorem fm_reachable_invariant:
  assumes "(fm_step F)\<^sup>*\<^sup>* (FatFsFileManager_new a b mount disk drive, w) (m', w')"
    and "0 \<le> a" and "a \<le> b" and "distinct (live w)" and "0 \<notin> set (live w)"
  shows "fm_ok m' w' \<and> \<not> file_mutex m'"
proof -
  have "fm_good (FatFsFileManager_new a b mount disk drive, w)"
    using assms(2-5) by (simp add: fm_good_def fm_ok_new) (simp add: FatFsFileManager_new_def)
  from fmgr.reachable_inv [OF assms(1) this] show ?thesis by (simp add: fm_good_def)
qed

theorem fm_reachable_invariant_witness:
  "\<exists>m' w'. fm_exec example_fatfs (Mkdir (Some ''/a'') 0) example_fm example_world = Ret (m', w')
     \<and> fm_ok m' w' \<and> \<not> file_mutex m'"
proof -
  have u: "\<not> file_mutex example_fm" by (rule example_ok)
  obtain m' w' where r: "fm_exec example_fatfs (Mkdir (Some ''/a'') 0) example_fm example_world = Ret (m', w')"
    using u by (simp add: fm_mkdir_def lock_guard_def kRootPath_def on_volume_def example_fatfs_def)
  then have "fm_step example_fatfs (example_fm, example_world) (m', w')"
    by (intro fm_step.call [where c = "Mkdir (Some ''/a'') 0"]) (simp_all add: fresh_for_def)
  then have "(fm_step example_fatfs)\<^sup>*\<^sup>* (FatFsFileManager_new 100000 599999 ''/'' 16 0, example_world) (m', w')"
    by (simp add: example_fm_def)
  from fm_reachable_invariant [OF this] have "fm_ok m' w' \<and> \<not> file_mutex m'" by (simp add: example_world_def)
  with r show ?thesis by blast
qed

section \<open>Handles\<close>

text \<open>C24: \<open>getNewHandle\<close> returns a handle of the manager's range that is not in use, and it returns \<open>-1\<close>
  only when every handle of the range is in use.\<close>

theorem getNewHandle_correct:
  assumes "fm_ok m w" and "getNewHandle m = (h, m')"
  shows "(h = - 1 \<longleftrightarrow> (\<forall>x. isHandleOwner m x \<longrightarrow> map_of (files m) x \<noteq> None))
    \<and> (h \<noteq> - 1 \<longrightarrow> isHandleOwner m h \<and> map_of (files m) h = None)"
proof -
  have hk: "handles_ok m" using assms(1) by (simp add: fm_ok_def)
  show ?thesis using getNewHandle_cases [OF hk assms(2)] hk
    by (auto simp: isHandleOwner_def handles_ok_def)
qed

theorem getNewHandle_correct_witness:
  "fst (getNewHandle example_fm) \<noteq> - 1 \<and> isHandleOwner example_fm (fst (getNewHandle example_fm))"
proof -
  obtain h m' where g: "getNewHandle example_fm = (h, m')" by force
  have "isHandleOwner example_fm 100000" "map_of (files example_fm) 100000 = None"
    by (simp_all add: isHandleOwner_def example_fm_def FatFsFileManager_new_def)
  with getNewHandle_correct [OF example_ok(1) g] g show ?thesis by auto
qed

text \<open>The calls that name a file by its handle.\<close>

fun by_handle :: "fm_call \<Rightarrow> bool" where
  "by_handle (Lseek fd ofs wh) = True"
| "by_handle (Read fd buf c) = True"
| "by_handle (Pread fd buf c ofs) = True"
| "by_handle (Fdopen fd md) = True"
| "by_handle (Pwrite fd b c ofs) = True"
| "by_handle (Write fd b c) = True"
| "by_handle (Close fd) = True"
| "by_handle (Fstat ver fd) = True"
| "by_handle (Ftruncate fd len) = True"
| "by_handle (Fchown fd ow gr) = True"
| "by_handle (Fchmod fd md) = True"
| "by_handle c = False"

lemma files_live: "fm_ok m w \<Longrightarrow> map_of (files m) fd = Some fil \<Longrightarrow> fil \<in> set (live w) \<and> fil \<noteq> 0"
  using files_owned owned_live by blast

lemma object_total:
  assumes "fil \<in> set (live w)"
  shows "returns (on_object w fil f)" and "returns (read_object F fil c w)" and "returns (write_object F fil b c w)"
  using assms by (simp_all add: on_object_def read_object_def write_object_def split: prod.split)

lemma lseekInternal_total:
  assumes ok: "fm_ok m w"
  shows "returns (lseekInternal F fd ofs wh m w)"
proof (cases "wh = SEEK_CUR \<and> ofs = 0 \<or> map_of (files m) fd = None")
  case False
  then obtain fil where fil: "map_of (files m) fd = Some fil" and nt: "\<not> (wh = SEEK_CUR \<and> ofs = 0)" by auto
  have "returns (cbind (on_object w fil (f_lseek F fil (of_int (seek_target F fil ofs wh w))))
      (\<lambda>(res, w1). Ret (if res = FR_OK then 0 else - 1 :: int, w1)))"
    using files_live [OF ok fil] by (intro returns_cbindI object_total) auto
  then show ?thesis using nt by (simp only: lseekInternal_def fil if_False option.case)
qed (auto simp: lseekInternal_def)

lemma lock_guard_returns: "\<not> file_mutex m \<Longrightarrow> returns (lock_guard f m) = returns (f (m\<lparr>file_mutex := True\<rparr>))"
  by (cases "f (m\<lparr>file_mutex := True\<rparr>)") (auto simp: lock_guard_def)

lemma closeInternal_total:
  assumes ok: "fm_ok m w" and fil: "map_of (files m) fd = Some fil"
  shows "returns (closeInternal F fil m w)"
proof -
  have h: "map_of (inverse_files_map m) fil = Some fd" using ok fil by (simp add: fm_ok_def tables_agree_def)
  have "map_of (inverse_file_paths m) fd \<noteq> None" using ok fil unfolding fm_ok_def tables_agree_def by (metis option.distinct(1))
  then obtain path where p: "map_of (inverse_file_paths m) fd = Some path" by auto
  have "fil \<in> set (live w)" using ok fil files_live by blast
  then have "returns (on_object w fil (f_close F fil))" by (rule object_total)
  then show ?thesis using h p by (auto simp: closeInternal_def umap_at_def intro!: returns_cbindI)
qed

lemma stat_total: "returns (statInternal64 F m (Some s) w)"
  by (simp add: statInternal64_def statWithRoot_def split: prod.split)

lemma handle_transfers_total:
  assumes ok: "fm_ok m w" and unlocked: "\<not> file_mutex m"
  shows "returns (fm_read F fd buf c m w)" and "returns (fm_write F fd b c m w)"
    and "returns (fm_fdopen fd md m w)" and "returns (fm_fchown fd ow gr m w)" and "returns (fm_fchmod fd mo m w)"
    and "returns (fm_close F fd m w)" and "returns (fm_fstat F ver fd m w)" and "returns (fm_lseek F fd ofs wh m w)"
proof -
  have ok1: "fm_ok (m\<lparr>file_mutex := True\<rparr>) w" using ok by simp
  show "returns (fm_close F fd m w)"
    unfolding fm_close_def lock_guard_returns [OF unlocked]
    using closeInternal_total [OF ok1] by (auto split: option.split)
  show "returns (fm_fstat F ver fd m w)"
    unfolding fm_fstat_def lock_guard_returns [OF unlocked]
    by (auto intro!: returns_cbindI stat_total split: option.split)
  show "returns (fm_lseek F fd ofs wh m w)"
    unfolding fm_lseek_def lock_guard_returns [OF unlocked]
    by (auto intro!: returns_cbindI lseekInternal_total [OF ok1])
qed (auto simp: fm_read_def fm_write_def fm_fdopen_def fm_fchown_def fm_fchmod_def lock_guard_returns [OF unlocked]
    intro!: returns_cbindI object_total intro: files_live [OF ok, THEN conjunct1] split: option.split)

lemma handle_positioned_total:
  assumes ok: "fm_ok m w" and unlocked: "\<not> file_mutex m"
  shows "returns (fm_pread F fd buf c ofs m w)" and "returns (fm_pwrite F fd b c ofs m w)"
    and "returns (fm_ftruncate F fd ofs m w)"
proof -
  have ok1: "fm_ok (m\<lparr>file_mutex := True\<rparr>) w" using ok by simp
  show "returns (fm_pread F fd buf c ofs m w)"
    unfolding fm_pread_def lock_guard_returns [OF unlocked]
    by (auto intro!: returns_cbindI object_total dest!: on_object_live split: option.split)
      (simp_all add: files_live [OF ok])
  show "returns (fm_pwrite F fd b c ofs m w)"
    unfolding fm_pwrite_def lock_guard_returns [OF unlocked]
    by (auto intro!: returns_cbindI object_total lseekInternal_total [OF ok1]
        dest!: lseekInternal_live split: option.split)
      (simp_all add: files_live [OF ok])
  show "returns (fm_ftruncate F fd ofs m w)"
    unfolding fm_ftruncate_def lock_guard_returns [OF unlocked]
    by (auto intro!: returns_cbindI object_total lseekInternal_total [OF ok1]
        dest!: lseekInternal_live split: option.split)
      (simp_all add: files_live [OF ok])
qed



section \<open>Opening and closing\<close>

text \<open>A successful \<open>open\<close>, in one step.\<close>

lemma fm_open_success:
  assumes r: "fm_open F path_in oflag fil m w = Ret ((h, err), m', w')" and h: "h \<noteq> - 1"
  shows "\<exists>m1 w1 v path. path_in = Some path \<and> getNewHandle (m\<lparr>file_mutex := True\<rparr>) = (h, m1)
    \<and> live w1 = live w \<and> w' = (new_object fil w1)\<lparr>vol := v\<rparr> \<and> err = None
    \<and> m' = (insertFileHandle h fil (drive_text_id m @ path) m1)\<lparr>file_mutex := False\<rparr>"
proof -
  let ?m = "m\<lparr>file_mutex := True\<rparr>"
  obtain path where p: "path_in = Some path"
    using r h by (cases path_in) (auto simp: fm_open_def lock_guard_Ret generateFatFsPath_def)
  obtain mode p' m1 where o: "open_with F (drive_text_id m @ path) mode fil ?m w = Ret ((h, p', err), m1, w')"
    and m': "m' = m1\<lparr>file_mutex := False\<rparr>"
    using r h by (auto simp: p fm_open_def lock_guard_Ret generateFatFsPath_def Let_def split: if_split_asm)
  obtain res w1 where s: "sync_old F (drive_text_id m @ path) ?m w = Ret (res, w1)"
    and n: "open_new F (drive_text_id m @ path) mode fil ?m w1 = Ret ((h, p', err), m1, w')"
    using o h by (auto simp: open_with_def split: if_split_asm)
  have "live w1 = live w" using sync_old_live [OF s] .
  with n h m' p show ?thesis
    by (auto simp: open_new_def on_object_Ret split: prod.split_asm if_split_asm)
qed

text \<open>\<open>open\<close> hands out a handle of its own range that was not in use, registers the new file object
  under it, and leaves every other handle and every directory as it was.\<close>

theorem fm_open_registers:
  assumes ok: "fm_ok m w" and r: "fm_open F path_in oflag fil m w = Ret ((h, err), m', w')" and h: "h \<noteq> - 1"
  shows "isHandleOwner m h \<and> map_of (files m) h = None
    \<and> map_of (files m') = (map_of (files m))(h \<mapsto> fil)
    \<and> map_of (inverse_file_paths m') = (map_of (inverse_file_paths m))(h \<mapsto> generateFatFsPath m path_in)
    \<and> dir_paths m' = dir_paths m \<and> set (live w') = insert fil (set (live w)) \<and> err = None"
proof -
  let ?m = "m\<lparr>file_mutex := True\<rparr>"
  obtain m1 w1 v path where p: "path_in = Some path" and g: "getNewHandle ?m = (h, m1)"
    and w: "live w1 = live w" "w' = (new_object fil w1)\<lparr>vol := v\<rparr>" "err = None"
    and m': "m' = (insertFileHandle h fil (drive_text_id m @ path) m1)\<lparr>file_mutex := False\<rparr>"
    using fm_open_success [OF r h] by blast
  have hk: "handles_ok ?m" using ok by (simp add: fm_ok_def handles_ok_def)
  obtain n where m1: "m1 = ?m\<lparr>next_handle := n\<rparr>" using getNewHandle_cases [OF hk g] by blast
  have "isHandleOwner m h \<and> map_of (files m) h = None"
    using getNewHandle_cases [OF hk g] h hk by (auto simp: isHandleOwner_def handles_ok_def)
  then show ?thesis
    using w by (simp add: m' m1 insertFileHandle_def update_conv' p generateFatFsPath_def)
qed

text \<open>Opening on a volume whose calls succeed, when the next handle is free.\<close>

lemma example_open_step:
  assumes m: "\<not> file_mutex m" "next_handle m = n" "first_handle m \<le> n" "n \<le> last_handle m" "map_of (files m) n = None" "n \<noteq> - 1"
    and s: "sync_old example_fatfs (drive_text_id m @ p) (m\<lparr>file_mutex := True\<rparr>) w = Ret (FR_OK, w)"
    and c: "convertFlag oflag = Ret md"
  shows "fm_open example_fatfs (Some p) oflag fil m w =
    (if drive_text_id m @ p = [] then Ret ((- 1, None), m, w)
     else Ret ((n, None), insertFileHandle n fil (drive_text_id m @ p) (m\<lparr>next_handle := n + 1\<rparr>), new_object fil w))"
proof -
  let ?m = "m\<lparr>file_mutex := True\<rparr>"
  obtain k where k: "nat (last_handle m - first_handle m + 1) = Suc k"
    using m(3,4) by (metis add_pos_nonneg diff_ge_0_iff_ge gr0_conv_Suc not_less order.trans zero_less_nat_eq
        add.commute zero_less_one)
  have "scan_handles ?m (Suc k) n 0 = (n, 0)" using m(5) by simp
  then have g: "getNewHandle ?m = (n, ?m\<lparr>next_handle := n + 1\<rparr>)"
    using m k by (simp add: getNewHandle_def Let_def del: scan_handles.simps)
  have "on_object (new_object fil w) fil (f_open example_fatfs fil q md) = Ret (FR_OK, new_object fil w)" for q
    by (simp add: on_object_def new_object_def example_fatfs_def)
  then have "open_with example_fatfs (drive_text_id m @ p) md fil ?m w
      = Ret ((n, fil, None), insertFileHandle n fil (drive_text_id m @ p) (?m\<lparr>next_handle := n + 1\<rparr>), new_object fil w)"
    using s g m(6) by (simp add: open_with_def open_new_def)
  then show ?thesis
    using m(1) c by (auto simp: fm_open_def lock_guard_def generateFatFsPath_def Let_def insertFileHandle_def)
qed

lemma example_flag: "convertFlag (O_RDWR OR O_CREAT) = Ret 19"
  by (simp add: convertFlag_def umap_at_def createFlagMap_def flag_mask_def open_flags fatfs_flags)

lemma example_drive_id: "drive_text_id example_fm = ''0:''"
  using example_drive [of "[]"] by (simp add: generateFatFsPath_def)

text \<open>The manager after its first \<open>open\<close>.\<close>

definition example_fm1 :: FatFsFileManager where
  "example_fm1 = insertFileHandle 100000 64 ''0:/a'' (example_fm\<lparr>next_handle := 100001\<rparr>)"

definition example_world1 :: "unit fs_world" where
  "example_world1 = new_object 64 example_world"

lemma example_open:
  "fm_open example_fatfs (Some ''/a'') (O_RDWR OR O_CREAT) 64 example_fm example_world
    = Ret ((100000, None), example_fm1, example_world1)"
proof -
  have e: "next_handle example_fm = 100000" "first_handle example_fm = 100000" "last_handle example_fm = 599999"
    "files example_fm = []" "file_paths example_fm = []"
    by (simp_all add: example_fm_def FatFsFileManager_new_def)
  then show ?thesis
    using example_open_step [OF example_ok(2), of 100000 "''/a''" example_world _ 19 64] example_flag example_drive_id
    by (simp add: sync_old_def example_fm1_def example_world1_def)
qed

lemma example_ok1: "fm_ok example_fm1 example_world1" "\<not> file_mutex example_fm1"
  using fm_open_ok [OF example_open example_ok(1)] by (simp_all add: example_world_def)

theorem fm_open_registers_witness:
  "\<exists>m' w'. fm_open example_fatfs (Some ''/a'') (O_RDWR OR O_CREAT) 64 example_fm example_world = Ret ((100000, None), m', w')
     \<and> map_of (files m') 100000 = Some 64"
proof -
  note r = example_open
  from fm_open_registers [OF example_ok(1) r] have "map_of (files example_fm1) 100000 = Some 64" by simp
  with r show ?thesis by blast
qed

text \<open>Closing a handle that has just been opened.\<close>

lemma close_after_open:
  assumes ok: "fm_ok m w" and fil: "fil \<notin> set (live w)" "fil \<noteq> 0"
    and r: "fm_open F (Some path) oflag fil m w = Ret ((h, err), m', w')" and h: "h \<noteq> - 1"
    and cl: "fst (f_close F fil (vol w')) = FR_OK"
  shows "\<exists>m'' w''. fm_close F h m' w' = Ret (0, m'', w'')
    \<and> map_of (files m'') = map_of (files m) \<and> map_of (inverse_file_paths m'') = map_of (inverse_file_paths m)
    \<and> map_of (file_paths m'') = (map_of (file_paths m))(generateFatFsPath m (Some path) := None)
    \<and> set (live w'') = set (live w) \<and> \<not> file_mutex m'' \<and> drive_text_id m'' = drive_text_id m"
proof -
  let ?m = "m\<lparr>file_mutex := True\<rparr>" and ?p = "drive_text_id m @ path"
  obtain m1 w1 v where g: "getNewHandle ?m = (h, m1)"
    and w: "live w1 = live w" "w' = (new_object fil w1)\<lparr>vol := v\<rparr>"
    and m': "m' = (insertFileHandle h fil ?p m1)\<lparr>file_mutex := False\<rparr>"
    using fm_open_success [OF r h] by blast
  have hk: "handles_ok ?m" using ok by (simp add: fm_ok_def handles_ok_def)
  obtain n where m1: "m1 = ?m\<lparr>next_handle := n\<rparr>" using getNewHandle_cases [OF hk g] by blast
  have hn: "map_of (files m) h = None" using getNewHandle_cases [OF hk g] h by simp
  then have hp: "map_of (inverse_file_paths m) h = None" using ok by (simp add: fm_ok_def tables_agree_def)
  obtain v' where c: "f_close F fil (vol w') = (FR_OK, v')" using cl by (cases "f_close F fil (vol w')") auto
  have dl: "distinct (live w1)" using ok w(1) by (simp add: fm_ok_def heap_ok_def)
  let ?m2 = "m'\<lparr>file_mutex := True\<rparr>"
  have look: "map_of (files m') h = Some fil" "map_of (inverse_files_map m') fil = Some h"
    "map_of (inverse_file_paths m') h = Some ?p"
    by (simp_all add: m' m1 insertFileHandle_def update_conv')
  have o: "on_object w' fil (f_close F fil) = Ret (FR_OK, w'\<lparr>vol := v'\<rparr>)"
    using c by (simp add: on_object_def w(2))
  have "closeInternal F fil ?m2 w' = Ret (0,
      ?m2\<lparr>files := AList.delete h (files ?m2), file_paths := AList.delete ?p (file_paths ?m2),
         inverse_files_map := AList.delete fil (inverse_files_map ?m2),
         inverse_file_paths := AList.delete h (inverse_file_paths ?m2)\<rparr>, delete_object fil (w'\<lparr>vol := v'\<rparr>))"
    by (simp add: closeInternal_def umap_at_def look o)
  then show ?thesis
    using look(1) fil hn hp w dl
    by (simp add: fm_close_def lock_guard_def) (auto simp: m' m1 insertFileHandle_def update_conv' delete_conv'
        generateFatFsPath_def delete_object_def fun_eq_iff)
qed



text \<open>a file opened twice counts as closed after the first \<open>close\<close>: the other handle is still
  registered, but \<open>isFileOpen\<close> no longer finds the path, so that \<open>renameFileInternal\<close> goes on to
  rename the file under the open handle instead of reporting \<open>EBUSY\<close>.\<close>

theorem second_open_forgotten:
  assumes ok: "fm_ok m w" and fil: "fil \<notin> set (live w)" "fil \<noteq> 0"
    and first: "map_of (file_paths m) (generateFatFsPath m (Some path)) = Some h0"
    and r: "fm_open F (Some path) oflag fil m w = Ret ((h, err), m', w')" and h: "h \<noteq> - 1"
    and cl: "fst (f_close F fil (vol w')) = FR_OK" and new: "isFileOpen m newpath = 0"
  shows "\<exists>m'' w''. fm_close F h m' w' = Ret (0, m'', w'') \<and> map_of (files m'') h0 = map_of (files m) h0
    \<and> map_of (files m'') h0 \<noteq> None
    \<and> isFileOpen m'' (generateFatFsPath m (Some path)) = 0
    \<and> renameFileInternal F (generateFatFsPath m (Some path)) newpath m'' w''
      = (case on_volume w'' (f_rename F (generateFatFsPath m (Some path)) newpath) of
           (res, w3) \<Rightarrow> (if res \<noteq> FR_OK then (- 1, Some ENOENT) else (0, None), w3))"
proof -
  let ?p = "generateFatFsPath m (Some path)"
  obtain m'' w'' where c: "fm_close F h m' w' = Ret (0, m'', w'')" "map_of (files m'') = map_of (files m)"
    "map_of (file_paths m'') = (map_of (file_paths m))(?p := None)"
    using close_after_open [OF ok fil r h cl] by blast
  have "map_of (files m) h0 \<noteq> None"
    using ok first unfolding fm_ok_def tables_agree_def by (metis option.distinct(1))
  moreover have "isFileOpen m'' ?p = 0" "isFileOpen m'' newpath = 0"
    using c(3) new by (auto simp: isFileOpen_def split: if_split_asm)
  ultimately show ?thesis using c by (auto simp: renameFileInternal_def)
qed

theorem second_open_forgotten_witness:
  "\<exists>m' w' m'' w''. fm_open example_fatfs (Some ''/a'') (O_RDWR OR O_CREAT) 128 example_fm1 example_world1 = Ret ((100001, None), m', w')
     \<and> fm_close example_fatfs 100001 m' w' = Ret (0, m'', w'')
     \<and> map_of (files m'') 100000 = Some 64 \<and> isFileOpen m'' ''0:/a'' = 0"
proof -
  have e: "next_handle example_fm1 = 100001" "first_handle example_fm1 = 100000" "last_handle example_fm1 = 599999"
    "files example_fm1 = [(100000, 64)]" "file_paths example_fm1 = [(''0:/a'', 100000)]" "drive_text_id example_fm1 = ''0:''"
    using example_drive_id by (simp_all add: example_fm1_def insertFileHandle_def) (simp_all add: example_fm_def FatFsFileManager_new_def)
  have s: "sync_old example_fatfs ''0:/a'' (example_fm1\<lparr>file_mutex := True\<rparr>) example_world1 = Ret (FR_OK, example_world1)"
    by (simp add: sync_old_def e umap_at_def on_object_def example_world1_def) (simp add: example_fatfs_def new_object_def)
  obtain m' w' where r: "fm_open example_fatfs (Some ''/a'') (O_RDWR OR O_CREAT) 128 example_fm1 example_world1
      = Ret ((100001, None), m', w')"
    using example_open_step [OF example_ok1(2), of 100001 "''/a''" example_world1 _ 19 128] example_flag s
    by (simp add: e)
  have p: "generateFatFsPath example_fm1 (Some ''/a'') = ''0:/a''" by (simp add: generateFatFsPath_def e)
  have "\<exists>m'' w''. fm_close example_fatfs 100001 m' w' = Ret (0, m'', w'')
    \<and> map_of (files m'') 100000 = map_of (files example_fm1) 100000 \<and> map_of (files m'') 100000 \<noteq> None
    \<and> isFileOpen m'' (generateFatFsPath example_fm1 (Some ''/a'')) = 0
    \<and> renameFileInternal example_fatfs (generateFatFsPath example_fm1 (Some ''/a'')) ''0:/b'' m'' w''
      = (case on_volume w'' (f_rename example_fatfs (generateFatFsPath example_fm1 (Some ''/a'')) ''0:/b'') of
           (res, w3) \<Rightarrow> (if res \<noteq> FR_OK then (- 1, Some ENOENT) else (0, None), w3))"
    by (rule second_open_forgotten [OF example_ok1(1) _ _ _ r])
      (simp_all add: p e isFileOpen_def example_world1_def example_world_def, simp_all add: example_fatfs_def)
  then show ?thesis using r by (auto simp: p e)
qed

section \<open>Flags and modes\<close>

lemma masked: "flag_mask AND k = k \<Longrightarrow> f AND k = (flag_mask AND f) AND k" for f k :: u32
  by (metis and.assoc and.commute)

lemma mask_parts:
  "flag_mask AND 3 = 3" "flag_mask AND O_CREAT = O_CREAT" "flag_mask AND O_EXCL = O_EXCL"
  "flag_mask AND O_TRUNC = O_TRUNC" "flag_mask AND O_APPEND = O_APPEND"
  by (simp_all add: flag_mask_def open_flags)

text \<open>the translation of \<open>open\<close> flags is faithful where it is defined: the FatFs mode reads, writes,
  creates anew, truncates and appends exactly when the POSIX flags say so. It is not defined for
  every legal combination: write-only access without \<open>O_CREAT\<close> raises \<open>std::out_of_range\<close>.\<close>

theorem convertFlag_faithful:
  "(convertFlag f = Ret r \<longrightarrow>
      (r AND FA_READ \<noteq> 0 \<longleftrightarrow> f AND 3 = O_RDONLY \<or> f AND 3 = O_RDWR)
    \<and> (r AND FA_WRITE \<noteq> 0 \<longleftrightarrow> f AND 3 = O_WRONLY \<or> f AND 3 = O_RDWR)
    \<and> (r AND FA_CREATE_NEW \<noteq> 0 \<longleftrightarrow> f AND O_EXCL \<noteq> 0)
    \<and> (r AND FA_CREATE_ALWAYS \<noteq> 0 \<longleftrightarrow> f AND O_TRUNC \<noteq> 0)
    \<and> (r AND 0x20 \<noteq> 0 \<longleftrightarrow> f AND O_APPEND \<noteq> 0))
  \<and> (f AND 3 = O_WRONLY \<longrightarrow> f AND O_CREAT = 0 \<longrightarrow> convertFlag f = Throw OutOfRange)"
proof -
  define g where "g = flag_mask AND f"
  have f: "f AND 3 = g AND 3" "f AND O_CREAT = g AND O_CREAT" "f AND O_EXCL = g AND O_EXCL"
    "f AND O_TRUNC = g AND O_TRUNC" "f AND O_APPEND = g AND O_APPEND"
    unfolding g_def by (rule masked, rule mask_parts)+
  have c: "convertFlag f = umap_at createFlagMap g" by (simp add: convertFlag_def g_def)
  show ?thesis
    unfolding f c unfolding umap_at_def createFlagMap_def open_flags fatfs_flags
    by (auto split: if_split_asm)
qed

theorem convertFlag_faithful_witness:
  "convertFlag O_WRONLY = Throw OutOfRange"
  using convertFlag_faithful [of O_WRONLY] by (simp add: open_flags)

text \<open>every directory entry is reported with \<open>d_type\<close> 0 (\<open>DT_UNKNOWN\<close>): the constants the code
  assigns do not fit the one-byte member, so that files and directories look the same.\<close>

theorem d_type_always_zero: "d_type (fill_dirent info) = 0"
  by (simp add: fill_dirent_def DT_DIR_def DT_REG_def)

text \<open>\<open>dup2\<close> never comes back: it calls \<open>close\<close>, which takes the mutex \<open>dup2\<close> holds.\<close>

theorem fm_dup2_deadlocks: "fm_dup2 F oldfd newfd m w = Deadlock"
  by (rule fm_dup2_Deadlock)

section \<open>Directories\<close>

text \<open>a directory that is opened and closed without being read stays open for good: \<open>closedir\<close> fails
  with \<open>EBADF\<close> and changes nothing, and opening the directory again fails with \<open>EACCES\<close>.\<close>

theorem unread_directory_stuck:
  assumes r: "fm_opendir F path dir m w = Ret ((d, err), m', w')" and d: "d \<noteq> 0"
    and new: "map_of (dirents m) dir = None" "map_of (dirents64 m) dir = None"
  shows "fm_closedir F d m' w' = Ret ((- 1, Some EBADF), m', w')
    \<and> fm_opendir F path dir2 m' w' = Ret ((0, Some EACCES), m', w')"
proof -
  let ?p = "generateFatFsPath m path"
  have "d = dir \<and> m' = addDirHandle dir ?p m \<and> \<not> file_mutex m \<and> ?p \<noteq> []"
    using r d by (auto simp: fm_opendir_def lock_guard_Ret Let_def addDirHandle_def generateFatFsPath_def
        split: if_split_asm option.split_asm)
  then have e: "d = dir" "m' = addDirHandle dir ?p m" "\<not> file_mutex m" "?p \<noteq> []" by auto
  have "generateFatFsPath (m'\<lparr>file_mutex := True\<rparr>) path = ?p"
    by (cases path) (simp_all add: e(2) addDirHandle_def generateFatFsPath_def)
  with e d new show ?thesis
    by (simp add: fm_closedir_def fm_opendir_def lock_guard_def Let_def) (simp add: addDirHandle_def update_conv')
qed

theorem unread_directory_stuck_witness:
  "\<exists>m' w'. fm_opendir example_fatfs (Some ''/d'') 64 example_fm example_world = Ret ((64, None), m', w')
     \<and> fm_closedir example_fatfs 64 m' w' = Ret ((- 1, Some EBADF), m', w')"
proof -
  have "map_of (dir_paths example_fm) q = None" "map_of (dirents example_fm) 64 = None"
    "map_of (dirents64 example_fm) 64 = None" for q
    by (simp_all add: example_fm_def FatFsFileManager_new_def)
  moreover from this obtain m' w'
    where r: "fm_opendir example_fatfs (Some ''/d'') 64 example_fm example_world = Ret ((64, None), m', w')"
    using example_ok(2) example_drive_id
    by (simp add: fm_opendir_def lock_guard_def generateFatFsPath_def Let_def on_object_def) (simp add: example_fatfs_def)
  ultimately show ?thesis using unread_directory_stuck [OF r] by auto
qed

end
