(* ===== verification/Fs_Api.thy ===== *)
theory Fs_Api
  imports File_Manager_Props
begin

text \<open>
  The entry points of the filesystem layer, \<open>cpp/fatfs/enclave/src/api.cpp\<close>: setting up the persistent
  and the in-memory filesystem, choosing the filesystem of a path, a handle or a directory, and the
  POSIX calls the enclave's C library stubs are redirected to. A shared pointer to a file manager is
  its index in \<open>filesystems\<close>.
\<close>

section \<open>State\<close>

definition kMaxNumFiles :: int where "kMaxNumFiles = 500000"
definition kMaxInMemorySize :: u64 where "kMaxInMemorySize = 4294967295 * 512"
definition kMaxPersistentSize :: u64 where "kMaxPersistentSize = 4294967295 * 512"

record 'v fs_api =
  currentFirstAvailableHandle :: int
  currentDummyHandle :: int
  dummyHandles :: "int list"
  filesystems :: "FatFsFileManager list"
  currentPath :: string
  world :: "'v fs_world"

definition fs_api_init :: "'v fs_world \<Rightarrow> 'v fs_api" where
  "fs_api_init w = \<lparr>currentFirstAvailableHandle = 100000, currentDummyHandle = 100000, dummyHandles = [],
     filesystems = [], currentPath = ''/'', world = w\<rparr>"

section \<open>Setting up the filesystems\<close>

datatype FileSystemType = IN_MEMORY | PERSISTENT

text \<open>Allocations of one filesystem: the drive object, its FATFS work area, the RAM buffer; and the
  drive name \<open>disk_start\<close> reads.\<close>

record fs_alloc =
  disk_addr :: ptr
  fatfs_addr :: ptr
  ram_addr :: ptr
  drive_name :: string

definition createDiskHandler ::
    "'h pd_env \<Rightarrow> FileSystemType \<Rightarrow> u8 \<Rightarrow> u64 \<Rightarrow> bytes \<Rightarrow> ptr \<Rightarrow> disk cpp" where
  "createDiskHandler E ty drive sz key fs =
     (case ty of
        PERSISTENT \<Rightarrow> cbind (PersistentDisk_new E drive sz key fs) (\<lambda>d. Ret (Persistent d))
      | IN_MEMORY \<Rightarrow> cbind (InMemoryDisk_new drive sz fs) (\<lambda>d. Ret (InMemory d)))"

definition createFileSystem ::
    "'h pd_env \<Rightarrow> FileSystemType \<Rightarrow> u8 \<Rightarrow> u64 \<Rightarrow> bytes \<Rightarrow> string \<Rightarrow> fs_alloc \<Rightarrow> 'h disk_system fs_api \<Rightarrow>
     (FatFsFileManager \<times> 'h disk_system fs_api) cpp" where
  "createFileSystem E ty drive sz key mount al st =
     (let first_h = currentFirstAvailableHandle st;
          max_h = currentFirstAvailableHandle st + kMaxNumFiles - 1 in
      cbind (createDiskHandler E ty drive sz key (fatfs_addr al)) (\<lambda>d.
        let v = vol (world st);
            w = (world st)\<lparr>vol := v\<lparr>objects := (objects v)(disk_addr al \<mapsto> d)\<rparr>\<rparr>;
            first' = currentFirstAvailableHandle st + kMaxNumFiles in
        Ret (FatFsFileManager_new first_h max_h mount (disk_addr al) (drive_id (disk_base d)),
             st\<lparr>currentFirstAvailableHandle := first', currentDummyHandle := first', world := w\<rparr>)))"

definition getJniMountPath :: "cstr \<Rightarrow> string" where
  "getJniMountPath path_in =
     (let path = (case path_in of None \<Rightarrow> [] | Some s \<Rightarrow> s) in
      if 0 < length path \<and> last path \<noteq> CHR ''/'' then path @ ''/'' else path)"

text \<open>The argument is what \<open>GetByteArrayElements\<close> gives.\<close>

definition getJniEncryptionKey :: "bytes option \<Rightarrow> bytes option" where
  "getJniEncryptionKey elements =
     (case elements of None \<Rightarrow> None | Some b \<Rightarrow> if length b \<noteq> 16 then None else Some b)"

text \<open>\<open>size_ocall\<close> is \<open>host_disk_get_size_ocall\<close>; when SGX fails the call the result stays \<open>-1\<close>.\<close>

definition getInitializationType ::
    "(u8 \<Rightarrow> u64 \<Rightarrow> 'h \<Rightarrow> int option \<times> 'h) \<Rightarrow> u8 \<Rightarrow> u64 \<Rightarrow> 'h \<Rightarrow> DiskInitialization \<times> 'h" where
  "getInitializationType size_ocall drive persistent_size h =
     (case size_ocall drive persistent_size h of (ans, h') \<Rightarrow>
        let host_file_size = (case ans of None \<Rightarrow> - 1 | Some n \<Rightarrow> n) in
        (if host_file_size = - 1 then INIT_ERROR else if host_file_size \<noteq> 0 then OPEN else FORMAT, h'))"

text \<open>The exception raised in Java: its class and its message.\<close>

datatype java_exception = JavaRuntime string | JavaIO string

definition handleInitException :: "FatFsResult \<Rightarrow> string \<Rightarrow> java_exception" where
  "handleInitException result fsType =
     (if result = MKFS_ABORTED then
        JavaRuntime (''Wrong '' @ fsType @ '' filesystem's sizes have been provided, please choose a value bigger than 97791 bytes'')
      else if result = WRONG_DRIVE_ID \<or> result = MOUNT_FAILED then
        JavaIO (''Unable to initialize the enclave's '' @ fsType @ '' filesystem, potentially corrupted or unencryptable filesystem'')
      else JavaRuntime (''Unable to initialize the enclave's '' @ fsType @ '' filesystem''))"

text \<open>
  Creating, initialising and registering one filesystem; when \<open>init\<close> fails the manager goes out of
  scope and is destroyed.
\<close>

definition add_filesystem ::
    "'h pd_env \<Rightarrow> 'h fatfs_volume \<Rightarrow> 'h disk_system fatfs \<Rightarrow> FileSystemType \<Rightarrow> u8 \<Rightarrow> u64 \<Rightarrow> bytes \<Rightarrow> string \<Rightarrow>
     fs_alloc \<Rightarrow> DiskInitialization \<Rightarrow> string \<Rightarrow> 'h disk_system fs_api \<Rightarrow>
     (java_exception option \<times> 'h disk_system fs_api) cpp" where
  "add_filesystem E V F ty drive sz key mount al init fsType st =
     cbind (createFileSystem E ty drive sz key mount al st) (\<lambda>(m, st1).
     cbind (fm_init E V F (ram_addr al) (drive_name al) init m (world st1)) (\<lambda>(initResult, m', w').
       if initResult \<noteq> FatFs_OK
       then cbind (fm_destroy V m' w') (\<lambda>w''.
              Ret (Some (handleInitException initResult fsType), st1\<lparr>world := w''\<rparr>))
       else Ret (None, st1\<lparr>filesystems := filesystems st1 @ [m'], world := w'\<rparr>)))"

definition setupFileSystems ::
    "'h pd_env \<Rightarrow> 'h fatfs_volume \<Rightarrow> 'h disk_system fatfs \<Rightarrow> (u8 \<Rightarrow> u64 \<Rightarrow> 'h \<Rightarrow> int option \<times> 'h) \<Rightarrow> bool \<Rightarrow>
     u64 \<Rightarrow> u64 \<Rightarrow> cstr \<Rightarrow> cstr \<Rightarrow> bytes option option \<Rightarrow> fs_alloc \<Rightarrow> fs_alloc \<Rightarrow> 'h disk_system fs_api \<Rightarrow>
     (java_exception option \<times> 'h disk_system fs_api) cpp" where
  "setupFileSystems E V F size_ocall jvm_ok in_memory_size persistent_size in_memory_path persistent_path
       key_in al_p al_m st =
     (case key_in of
        None \<Rightarrow> Ret (Some (JavaRuntime ''Filesystems not initialized, key not passed in''), st)
      | Some elements \<Rightarrow>
     (case getJniEncryptionKey elements of
        None \<Rightarrow> Ret (Some (JavaRuntime ''Filesystems not initialized, key not retrieved''), st)
      | Some key \<Rightarrow>
     if in_memory_size > kMaxInMemorySize then
       Ret (Some (JavaRuntime (''Wrong in-memory filesystem's sizes have been provided, please choose a value smaller than ''
         @ dec_string (unat (kMaxInMemorySize + 1)) @ '' bytes'')), st)
     else if persistent_size > kMaxPersistentSize then
       Ret (Some (JavaRuntime (''Wrong persistent filesystem's sizes have been provided, please choose a value smaller than ''
         @ dec_string (unat (kMaxPersistentSize + 1)) @ '' bytes'')), st)
     else
       cbind (if 0 < persistent_size then
                (case getInitializationType size_ocall 0 persistent_size (host (vol (world st))) of (init, h') \<Rightarrow>
                   let st1 = st\<lparr>world := (world st)\<lparr>vol := (vol (world st))\<lparr>host := h'\<rparr>\<rparr>\<rparr> in
                   if init = INIT_ERROR
                   then Ret (Some (JavaRuntime ''Filesystems not initialized''), 0, st1)
                   else cbind (add_filesystem E V F PERSISTENT 0 persistent_size key
                                 (getJniMountPath persistent_path) al_p init ''persistent'' st1) (\<lambda>(e, st2). Ret (e, 1, st2)))
              else Ret (None, 0, st))
       (\<lambda>(e, drive, st2).
         if e \<noteq> None then Ret (e, st2)
         else cbind (if 0 < in_memory_size
                     then add_filesystem E V F IN_MEMORY drive in_memory_size key
                            (getJniMountPath in_memory_path) al_m FORMAT ''in-memory'' st2
                     else Ret (None, st2))
         (\<lambda>(e, st3).
           if e \<noteq> None then Ret (e, st3)
           else if \<not> jvm_ok then Ret (Some (JavaRuntime ''Filesystems not initialized, jni crashed''), st3)
           else Ret (None, st3)))))"

section \<open>Choosing a filesystem\<close>

definition normalizePath :: "'v fs_api \<Rightarrow> string \<Rightarrow> string" where
  "normalizePath st path = (if path = [] \<or> hd path \<noteq> CHR ''/'' then currentPath st @ path else path)"

definition getFatFsInstanceFromPath :: "'v fs_api \<Rightarrow> cstr \<Rightarrow> nat option" where
  "getFatFsInstanceFromPath st path_in =
     (case path_in of
        None \<Rightarrow> None
      | Some s \<Rightarrow>
          if s = [] then None
          else
            let path = normalizePath st s;
                found = filter (\<lambda>i. isPathOwner (filesystems st ! i) path) [0..<length (filesystems st)] in
            if length found = 1 then Some (found ! 0)
            else if length found = 2 then find (\<lambda>i. mount_path (filesystems st ! i) \<noteq> ''/'') found
            else None)"

definition getFatFsInstanceFromHandle :: "'v fs_api \<Rightarrow> int \<Rightarrow> nat option" where
  "getFatFsInstanceFromHandle st fd =
     (if fd = - 1 then None
      else find (\<lambda>i. isHandleOwner (filesystems st ! i) fd) [0..<length (filesystems st)])"

definition getFatFsInstanceFromDir :: "'v fs_api \<Rightarrow> ptr \<Rightarrow> nat option" where
  "getFatFsInstanceFromDir st dir =
     (let found = filter (\<lambda>i. isDirOwner (filesystems st ! i) dir) [0..<length (filesystems st)] in
      if length found = 1 then Some (found ! 0) else None)"

text \<open>A member function of manager \<open>i\<close>.\<close>

definition on_manager ::
    "nat \<Rightarrow> (FatFsFileManager \<Rightarrow> 'v fs_world \<Rightarrow> ('r \<times> FatFsFileManager \<times> 'v fs_world) cpp) \<Rightarrow> 'v fs_api \<Rightarrow>
     ('r \<times> 'v fs_api) cpp" where
  "on_manager i f st =
     cbind (f (filesystems st ! i) (world st)) (\<lambda>(r, m', w').
       Ret (r, st\<lparr>filesystems := (filesystems st)[i := m'], world := w'\<rparr>))"

section \<open>The POSIX calls\<close>

text \<open>The second component is what is assigned to \<open>err\<close>, if anything.\<close>

definition open_impl :: "'v fatfs \<Rightarrow> cstr \<Rightarrow> u32 \<Rightarrow> ptr \<Rightarrow> 'v fs_api \<Rightarrow> ((int \<times> int option) \<times> 'v fs_api) cpp" where
  "open_impl F path oflag fil st =
     (case getFatFsInstanceFromPath st path of
        None \<Rightarrow> Ret ((- 1, Some ENOENT), st)
      | Some i \<Rightarrow> on_manager i (fm_open F path oflag fil) st)"

definition fopen_impl :: "'v fatfs \<Rightarrow> cstr \<Rightarrow> cstr \<Rightarrow> ptr \<Rightarrow> 'v fs_api \<Rightarrow> ((ptr \<times> int option) \<times> 'v fs_api) cpp" where
  "fopen_impl F path mode fil st =
     (case getFatFsInstanceFromPath st path of
        None \<Rightarrow> Ret ((0, Some ENOENT), st)
      | Some i \<Rightarrow> on_manager i (fm_fopen F path mode fil) st)"

definition read_impl :: "'v fatfs \<Rightarrow> int \<Rightarrow> ptr \<Rightarrow> u64 \<Rightarrow> 'v fs_api \<Rightarrow> ((int \<times> bytes) \<times> 'v fs_api) cpp" where
  "read_impl F fd buf cnt st =
     (case getFatFsInstanceFromHandle st fd of
        None \<Rightarrow> Ret ((- 1, []), st)
      | Some i \<Rightarrow> on_manager i (fm_read F fd buf cnt) st)"

text \<open>\<open>pread\<close> does not test the manager it was given; the third component is stored in \<open>errno\<close>.\<close>

definition pread_impl ::
    "'v fatfs \<Rightarrow> int \<Rightarrow> ptr \<Rightarrow> u64 \<Rightarrow> int \<Rightarrow> 'v fs_api \<Rightarrow> ((int \<times> bytes \<times> int option) \<times> 'v fs_api) cpp" where
  "pread_impl F fd buf cnt offset st =
     (case getFatFsInstanceFromHandle st fd of
        None \<Rightarrow> Undef
      | Some i \<Rightarrow>
          cbind (on_manager i (fm_pread F fd buf cnt offset) st) (\<lambda>((res, b), st').
            Ret ((res, b, if res = - 1 then Some (- 1) else None), st')))"

definition rename_impl ::
    "'v fatfs \<Rightarrow> cstr \<Rightarrow> cstr \<Rightarrow> 'v fs_api \<Rightarrow> ((int \<times> int option) \<times> 'v fs_api) cpp" where
  "rename_impl F oldpath newpath st =
     (case (getFatFsInstanceFromPath st oldpath, getFatFsInstanceFromPath st newpath) of
        (Some i, Some j) \<Rightarrow>
          if i \<noteq> j then Ret ((- 1, Some EXDEV), st) else on_manager i (fm_rename F oldpath newpath) st
      | _ \<Rightarrow> Ret ((- 1, Some ENOENT), st))"

text \<open>Handles at or above \<open>currentFirstAvailableHandle\<close> are the dummy ones of \<open>socketpair\<close>.\<close>

definition close_impl :: "'v fatfs \<Rightarrow> int \<Rightarrow> 'v fs_api \<Rightarrow> (int \<times> 'v fs_api) cpp" where
  "close_impl F fd st =
     (if fd \<ge> currentFirstAvailableHandle st
      then Ret (0, st\<lparr>dummyHandles := removeAll fd (dummyHandles st)\<rparr>)
      else case getFatFsInstanceFromHandle st fd of
             None \<Rightarrow> Ret (- 1, st)
           | Some i \<Rightarrow> on_manager i (fm_close F fd) st)"

definition lseek64_impl :: "'v fatfs \<Rightarrow> int \<Rightarrow> int \<Rightarrow> int \<Rightarrow> 'v fs_api \<Rightarrow> (int \<times> 'v fs_api) cpp" where
  "lseek64_impl F fd offset whence st =
     (case getFatFsInstanceFromHandle st fd of
        None \<Rightarrow> Ret (- 1, st)
      | Some i \<Rightarrow> on_manager i (fm_lseek F fd offset whence) st)"

definition write_impl :: "'v fatfs \<Rightarrow> int \<Rightarrow> bytes \<Rightarrow> u64 \<Rightarrow> 'v fs_api \<Rightarrow> (int \<times> 'v fs_api) cpp" where
  "write_impl F fd buf cnt st =
     (case getFatFsInstanceFromHandle st fd of
        None \<Rightarrow> Ret (- 1, st)
      | Some i \<Rightarrow> on_manager i (fm_write F fd buf cnt) st)"

text \<open>The assertion on the count is compiled out of release builds.\<close>

definition pwrite_impl :: "'v fatfs \<Rightarrow> int \<Rightarrow> bytes option \<Rightarrow> u64 \<Rightarrow> int \<Rightarrow> 'v fs_api \<Rightarrow> (int \<times> 'v fs_api) cpp" where
  "pwrite_impl F fd buf cnt offset st =
     (case getFatFsInstanceFromHandle st fd of
        None \<Rightarrow> Ret (- 1, st)
      | Some i \<Rightarrow> on_manager i (fm_pwrite F fd buf cnt offset) st)"

definition fxstat64_impl :: "'v fatfs \<Rightarrow> int \<Rightarrow> int \<Rightarrow> 'v fs_api \<Rightarrow> ((int \<times> int option \<times> stat_buf option) \<times> 'v fs_api) cpp" where
  "fxstat64_impl F ver fd st =
     (case getFatFsInstanceFromHandle st fd of
        None \<Rightarrow> Ret ((- 1, None, None), st)
      | Some i \<Rightarrow> on_manager i (fm_fstat F ver fd) st)"

definition xstat64_impl :: "'v fatfs \<Rightarrow> int \<Rightarrow> cstr \<Rightarrow> 'v fs_api \<Rightarrow> ((int \<times> int option \<times> stat_buf option) \<times> 'v fs_api) cpp" where
  "xstat64_impl F ver path st =
     (case getFatFsInstanceFromPath st path of
        None \<Rightarrow> Ret ((- 1, Some ENOENT, None), st)
      | Some i \<Rightarrow> on_manager i (fm_stat F ver path) st)"

definition mkdir_impl :: "'v fatfs \<Rightarrow> cstr \<Rightarrow> u32 \<Rightarrow> 'v fs_api \<Rightarrow> ((int \<times> int option) \<times> 'v fs_api) cpp" where
  "mkdir_impl F path mode st =
     (case getFatFsInstanceFromPath st path of
        None \<Rightarrow> Ret ((- 1, Some ENOENT), st)
      | Some i \<Rightarrow> cbind (on_manager i (fm_mkdir F path mode) st) (\<lambda>(r, st'). Ret ((r, None), st')))"

definition lstat_impl :: "'v fatfs \<Rightarrow> cstr \<Rightarrow> 'v fs_api \<Rightarrow> ((int \<times> int option \<times> stat_buf option) \<times> 'v fs_api) cpp" where
  "lstat_impl F path st =
     (case getFatFsInstanceFromPath st path of
        None \<Rightarrow> Ret ((- 1, Some ENOENT, None), st)
      | Some i \<Rightarrow> on_manager i (fm_lstat F path) st)"

definition lstat64_impl :: "'v fatfs \<Rightarrow> cstr \<Rightarrow> 'v fs_api \<Rightarrow> ((int \<times> int option \<times> stat_buf option) \<times> 'v fs_api) cpp" where
  "lstat64_impl F path st =
     (case getFatFsInstanceFromPath st path of
        None \<Rightarrow> Ret ((- 1, Some ENOENT, None), st)
      | Some i \<Rightarrow> on_manager i (fm_lstat64 F path) st)"

definition rmdir_impl :: "'v fatfs \<Rightarrow> cstr \<Rightarrow> 'v fs_api \<Rightarrow> ((int \<times> int option) \<times> 'v fs_api) cpp" where
  "rmdir_impl F path st =
     (case getFatFsInstanceFromPath st path of
        None \<Rightarrow> Ret ((- 1, Some ENOENT), st)
      | Some i \<Rightarrow> on_manager i (fm_rmdir F path) st)"

definition unlink_impl :: "'v fatfs \<Rightarrow> cstr \<Rightarrow> 'v fs_api \<Rightarrow> ((int \<times> int option) \<times> 'v fs_api) cpp" where
  "unlink_impl F path st =
     (case getFatFsInstanceFromPath st path of
        None \<Rightarrow> Ret ((- 1, Some ENOENT), st)
      | Some i \<Rightarrow> on_manager i (fm_unlink F path) st)"

definition remove_impl :: "'v fatfs \<Rightarrow> cstr \<Rightarrow> 'v fs_api \<Rightarrow> ((int \<times> int option) \<times> 'v fs_api) cpp" where
  "remove_impl F path st =
     (case getFatFsInstanceFromPath st path of
        None \<Rightarrow> Ret ((- 1, Some ENOENT), st)
      | Some i \<Rightarrow> on_manager i (fm_remove F path) st)"

definition socketpair_impl :: "'v fs_api \<Rightarrow> (int \<times> int \<times> int) \<times> 'v fs_api" where
  "socketpair_impl st =
     (let handle1 = currentDummyHandle st; handle2 = currentDummyHandle st + 1 in
      ((0, handle1, handle2),
       st\<lparr>currentDummyHandle := currentDummyHandle st + 2,
          dummyHandles := List.insert handle2 (List.insert handle1 (dummyHandles st))\<rparr>))"

definition dup2_impl :: "'v fatfs \<Rightarrow> int \<Rightarrow> int \<Rightarrow> 'v fs_api \<Rightarrow> (int \<times> 'v fs_api) cpp" where
  "dup2_impl F oldfd newfd st =
     (case getFatFsInstanceFromHandle st oldfd of
        None \<Rightarrow> Ret (- 1, st)
      | Some i \<Rightarrow> on_manager i (fm_dup2 F oldfd newfd) st)"

definition access_impl :: "'v fatfs \<Rightarrow> cstr \<Rightarrow> u32 \<Rightarrow> 'v fs_api \<Rightarrow> ((int \<times> int option) \<times> 'v fs_api) cpp" where
  "access_impl F path mode st =
     (case getFatFsInstanceFromPath st path of
        None \<Rightarrow> Ret ((- 1, Some ENOENT), st)
      | Some i \<Rightarrow> on_manager i (fm_access F path mode) st)"

definition opendir_impl :: "'v fatfs \<Rightarrow> cstr \<Rightarrow> ptr \<Rightarrow> 'v fs_api \<Rightarrow> ((ptr \<times> int option) \<times> 'v fs_api) cpp" where
  "opendir_impl F path dir st =
     (case getFatFsInstanceFromPath st path of
        None \<Rightarrow> Ret ((0, Some ENOENT), st)
      | Some i \<Rightarrow> on_manager i (fm_opendir F path dir) st)"

definition readdir64_impl :: "'v fatfs \<Rightarrow> ptr \<Rightarrow> ptr \<Rightarrow> 'v fs_api \<Rightarrow> ((ptr \<times> int option) \<times> 'v fs_api) cpp" where
  "readdir64_impl F dirp scratch st =
     (case getFatFsInstanceFromDir st dirp of
        None \<Rightarrow> Ret ((0, Some EBADF), st)
      | Some i \<Rightarrow> on_manager i (fm_readdir64 F dirp scratch) st)"

definition readdir_impl :: "'v fatfs \<Rightarrow> ptr \<Rightarrow> ptr \<Rightarrow> 'v fs_api \<Rightarrow> ((ptr \<times> int option) \<times> 'v fs_api) cpp" where
  "readdir_impl F dirp scratch st =
     (case getFatFsInstanceFromDir st dirp of
        None \<Rightarrow> Ret ((0, Some EBADF), st)
      | Some i \<Rightarrow> on_manager i (fm_readdir F dirp scratch) st)"

definition closedir_impl :: "'v fatfs \<Rightarrow> ptr \<Rightarrow> 'v fs_api \<Rightarrow> ((int \<times> int option) \<times> 'v fs_api) cpp" where
  "closedir_impl F dirp st =
     (case getFatFsInstanceFromDir st dirp of
        None \<Rightarrow> Ret ((- 1, Some EBADF), st)
      | Some i \<Rightarrow> on_manager i (fm_closedir F dirp) st)"

definition ftruncate_impl :: "'v fatfs \<Rightarrow> int \<Rightarrow> int \<Rightarrow> 'v fs_api \<Rightarrow> ((int \<times> int option \<times> int option) \<times> 'v fs_api) cpp" where
  "ftruncate_impl F fd offset st =
     (case getFatFsInstanceFromHandle st fd of
        None \<Rightarrow> Ret ((- 1, Some EBADF, None), st)
      | Some i \<Rightarrow> on_manager i (fm_ftruncate F fd offset) st)"

definition fchown_impl :: "int \<Rightarrow> u32 \<Rightarrow> u32 \<Rightarrow> 'v fs_api \<Rightarrow> ((int \<times> int option) \<times> 'v fs_api) cpp" where
  "fchown_impl fd owner grp st =
     (case getFatFsInstanceFromHandle st fd of
        None \<Rightarrow> Ret ((- 1, Some EBADF), st)
      | Some i \<Rightarrow> on_manager i (fm_fchown fd owner grp) st)"

definition fchmod_impl :: "int \<Rightarrow> u32 \<Rightarrow> 'v fs_api \<Rightarrow> ((int \<times> int option) \<times> 'v fs_api) cpp" where
  "fchmod_impl fd mode st =
     (case getFatFsInstanceFromHandle st fd of
        None \<Rightarrow> Ret ((- 1, Some EBADF), st)
      | Some i \<Rightarrow> on_manager i (fm_fchmod fd mode) st)"

definition utimes_impl :: "'v fatfs \<Rightarrow> cstr \<Rightarrow> 'v fs_api \<Rightarrow> ((int \<times> int option) \<times> 'v fs_api) cpp" where
  "utimes_impl F path st =
     (case getFatFsInstanceFromPath st path of
        None \<Rightarrow> Ret ((- 1, Some ENOENT), st)
      | Some i \<Rightarrow> on_manager i (fm_utimes F path) st)"

section \<open>Handle ranges\<close>

text \<open>The part of a manager that never changes.\<close>

definition config :: "FatFsFileManager \<Rightarrow> int \<times> int \<times> string \<times> string \<times> ptr" where
  "config m = (first_handle m, last_handle m, mount_path m, drive_text_id m, disk_handler m)"

definition api_ranges :: "'v fs_api \<Rightarrow> bool" where
  "api_ranges st \<longleftrightarrow>
     (\<forall>i<length (filesystems st). 0 \<le> first_handle (filesystems st ! i)
        \<and> first_handle (filesystems st ! i) \<le> last_handle (filesystems st ! i)
        \<and> last_handle (filesystems st ! i) < currentFirstAvailableHandle st)
   \<and> (\<forall>i j. i < j \<longrightarrow> j < length (filesystems st) \<longrightarrow>
        last_handle (filesystems st ! i) < first_handle (filesystems st ! j))
   \<and> 0 \<le> currentFirstAvailableHandle st \<and> currentFirstAvailableHandle st \<le> currentDummyHandle st"

lemma config_unlock [simp]: "config (m\<lparr>file_mutex := b\<rparr>) = config m"
  by (simp add: config_def)

lemma lock_guard_config:
  assumes "lock_guard f m = Ret (r, m', w')"
    and "\<And>m1. f (m\<lparr>file_mutex := True\<rparr>) = Ret (r, m1, w') \<Longrightarrow> config m1 = config (m\<lparr>file_mutex := True\<rparr>)"
  shows "config m' = config m"
  using assms by (auto simp: lock_guard_Ret)

lemma fm_open_config: "fm_open F p f a m w = Ret ((h, e), m', w') \<Longrightarrow> h \<noteq> - 1 \<Longrightarrow> handles_ok m \<Longrightarrow> config m' = config m"
proof -
  assume r: "fm_open F p f a m w = Ret ((h, e), m', w')" and h: "h \<noteq> - 1" and hk: "handles_ok m"
  obtain m1 path where g: "getNewHandle (m\<lparr>file_mutex := True\<rparr>) = (h, m1)"
    and m': "m' = (insertFileHandle h a path m1)\<lparr>file_mutex := False\<rparr>"
    using fm_open_success [OF r h] by blast
  have "handles_ok (m\<lparr>file_mutex := True\<rparr>)" using hk by (simp add: handles_ok_def)
  from getNewHandle_cases [OF this g] m' show "config m' = config m"
    by (auto simp: config_def insertFileHandle_def)
qed

lemma fm_mkdir_config: "fm_mkdir F p md m w = Ret (r, m', w') \<Longrightarrow> config m' = config m"
  unfolding fm_mkdir_def
  by (rule lock_guard_config) (auto split: option.split_asm if_split_asm prod.split_asm)

lemma isHandleOwner_config: "config m' = config m \<Longrightarrow> isHandleOwner m' h = isHandleOwner m h"
  by (simp add: config_def isHandleOwner_def)

text \<open>With disjoint ranges the first owner of a handle is the only one.\<close>

lemma find_unique:
  assumes "i < n" and "P i" and "\<And>j. j < n \<Longrightarrow> P j \<Longrightarrow> j = i"
  shows "find P [0..<n] = Some i"
proof -
  have "find P [0..<n] \<noteq> None" using assms(1,2) by (auto simp: find_None_iff)
  then obtain j where j: "find P [0..<n] = Some j" by auto
  then have "j < n \<and> P j" by (auto simp: find_Some_iff)
  with assms(3) j show ?thesis by auto
qed

lemma route_handle:
  assumes r: "api_ranges st" and i: "i < length (filesystems st)" and o: "isHandleOwner (filesystems st ! i) h"
  shows "getFatFsInstanceFromHandle st h = Some i"
proof -
  have "j = i" if "j < length (filesystems st)" "isHandleOwner (filesystems st ! j) h" for j
    using r i o that by (cases j i rule: linorder_cases) (force simp: api_ranges_def isHandleOwner_def)+
  from find_unique [of i "length (filesystems st)" "\<lambda>i. isHandleOwner (filesystems st ! i) h", OF i o this]
  have "find (\<lambda>i. isHandleOwner (filesystems st ! i) h) [0..<length (filesystems st)] = Some i" .
  moreover have "h \<noteq> - 1" using o by (simp add: isHandleOwner_def)
  ultimately show ?thesis by (simp add: getFatFsInstanceFromHandle_def)
qed

lemma api_ranges_update:
  assumes "api_ranges st" and "i < length (filesystems st)" and "config m' = config (filesystems st ! i)"
  shows "api_ranges (st\<lparr>filesystems := (filesystems st)[i := m'], world := w\<rparr>)"
  using assms by (auto simp: api_ranges_def config_def nth_list_update)

lemma fromPath_owner:
  assumes "getFatFsInstanceFromPath st (Some s) = Some i"
  shows "i < length (filesystems st) \<and> isPathOwner (filesystems st ! i) (normalizePath st s)"
proof -
  let ?found = "filter (\<lambda>i. isPathOwner (filesystems st ! i) (normalizePath st s)) [0..<length (filesystems st)]"
  have "i \<in> set ?found"
  proof (cases "length ?found = 1")
    case True
    then have "i = ?found ! 0" using assms by (auto simp: getFatFsInstanceFromPath_def Let_def split: if_split_asm)
    then show ?thesis using True by (metis nth_mem zero_less_one)
  next
    case False
    then have "find (\<lambda>i. mount_path (filesystems st ! i) \<noteq> ''/'') ?found = Some i"
      using assms by (auto simp: getFatFsInstanceFromPath_def Let_def split: if_split_asm)
    then show ?thesis by (metis find_Some_iff nth_mem)
  qed
  then show ?thesis by simp
qed

section \<open>Properties\<close>

text \<open>C23: a handle finds its way home: the handle \<open>open\<close> returns is routed, in all later calls, to the
  filesystem that owns the path and no other; and the handle ranges of the filesystems stay
  disjoint.\<close>

theorem open_routed_home:
  assumes r: "api_ranges st" and p: "getFatFsInstanceFromPath st path = Some i" and ok: "fm_ok (filesystems st ! i) (world st)"
    and o: "open_impl F path oflag fil st = Ret ((h, err), st')" and h: "h \<noteq> - 1"
  shows "getFatFsInstanceFromHandle st' h = Some i \<and> api_ranges st'
    \<and> (\<forall>j<length (filesystems st'). isHandleOwner (filesystems st' ! j) h \<longrightarrow> j = i)"
proof -
  let ?m = "filesystems st ! i"
  obtain s where s: "path = Some s" using p by (cases path) (auto simp: getFatFsInstanceFromPath_def)
  have i: "i < length (filesystems st)" using fromPath_owner p s by blast
  obtain m' w' where m': "fm_open F path oflag fil ?m (world st) = Ret ((h, err), m', w')"
    and st': "st' = st\<lparr>filesystems := (filesystems st)[i := m'], world := w'\<rparr>"
    using o p by (auto simp: open_impl_def on_manager_def)
  have hk: "handles_ok ?m" using ok by (simp add: fm_ok_def)
  have c: "config m' = config ?m" using fm_open_config [OF m' h hk] .
  obtain m1 where "getNewHandle (?m\<lparr>file_mutex := True\<rparr>) = (h, m1)" using fm_open_success [OF m' h] by blast
  moreover have "handles_ok (?m\<lparr>file_mutex := True\<rparr>)" using hk by (simp add: handles_ok_def)
  ultimately have "first_handle ?m \<le> h \<and> h \<le> last_handle ?m"
    using getNewHandle_cases h by fastforce
  then have "isHandleOwner ?m h" using h by (simp add: isHandleOwner_def)
  then have own: "isHandleOwner (filesystems st' ! i) h" using isHandleOwner_config [OF c] i by (simp add: st')
  have r': "api_ranges st'" unfolding st' using r i c by (rule api_ranges_update)
  have i': "i < length (filesystems st')" using i by (simp add: st')
  have "j = i" if "j < length (filesystems st')" "isHandleOwner (filesystems st' ! j) h" for j
    using route_handle [OF r' that] route_handle [OF r' i' own] by simp
  with route_handle [OF r' i' own] r' show ?thesis by blast
qed

text \<open>A system with the persistent filesystem at the root and the in-memory one at \<open>/tmp/\<close>.\<close>

definition example_api :: "unit fs_api" where
  "example_api = (fs_api_init example_world)\<lparr>currentFirstAvailableHandle := 1100000, currentDummyHandle := 1100000,
     filesystems := [example_fm, FatFsFileManager_new 600000 1099999 ''/tmp/'' 32 1]\<rparr>"

lemma example_api_fields:
  "filesystems example_api = [example_fm, FatFsFileManager_new 600000 1099999 ''/tmp/'' 32 1]"
  "world example_api = example_world" "currentFirstAvailableHandle example_api = 1100000"
  "currentDummyHandle example_api = 1100000" "currentPath example_api = ''/''"
  by (simp_all add: example_api_def fs_api_init_def)

lemma example_api_ranges: "api_ranges example_api"
  by (auto simp: api_ranges_def example_api_fields example_fm_def FatFsFileManager_new_def nth_Cons'
      less_Suc_eq numeral_2_eq_2)

lemma example_route: "getFatFsInstanceFromPath example_api (Some ''/a'') = Some 0"
  by (simp add: getFatFsInstanceFromPath_def Let_def normalizePath_def example_api_fields isPathOwner_def
      example_fm_def FatFsFileManager_new_def upt_rec)

theorem open_routed_home_witness:
  "\<exists>st'. open_impl example_fatfs (Some ''/a'') (O_RDWR OR O_CREAT) 64 example_api = Ret ((100000, None), st')
     \<and> getFatFsInstanceFromHandle st' 100000 = Some 0"
proof -
  have "open_impl example_fatfs (Some ''/a'') (O_RDWR OR O_CREAT) 64 example_api = Ret ((100000, None),
      example_api\<lparr>filesystems := (filesystems example_api)[0 := example_fm1], world := example_world1\<rparr>)"
    using example_route example_open by (simp add: open_impl_def on_manager_def example_api_fields)
  from open_routed_home [OF example_api_ranges example_route _ this] this example_ok(1) show ?thesis
    by (simp add: example_api_fields)
qed

lemma starts_with_append [simp]: "starts_with (p @ s) p"
  by (induction p) auto

lemma length_filter_two: "length (filter P [0..<2]) = (if P 0 then 1 else 0) + (if P 1 then 1 else 0)"
  by (simp add: upt_rec)

text \<open>C26: which filesystem a path belongs to: with one filesystem mounted at the root and another at a
  directory, an absolute path goes to the second exactly when it is that directory or lies below it,
  and to the first otherwise.\<close>

theorem path_routing:
  assumes fs: "filesystems st = [a, b]" and mp: "mount_path a = ''/''" "mount_path b = ''/'' @ d @ ''/''" "d \<noteq> []"
  shows "getFatFsInstanceFromPath st (Some (''/'' @ s)) =
    Some (if s = d \<or> (\<exists>r. s = d @ ''/'' @ r) then 1 else 0)"
proof -
  let ?p = "''/'' @ s"
  have n: "normalizePath st ?p = ?p" by (simp add: normalizePath_def)
  have oa: "isPathOwner a ?p" by (simp add: isPathOwner_def mp)
  have ob: "isPathOwner b ?p \<longleftrightarrow> s = d \<or> (\<exists>r. s = d @ ''/'' @ r)"
    by (auto simp: isPathOwner_def mp starts_with_iff)
  have l: "[0..<length [a, b]] = [0, 1]" by (simp add: upt_rec)
  show ?thesis
    unfolding getFatFsInstanceFromPath_def option.case n fs l Let_def
    using oa ob mp by simp
qed

theorem path_routing_witness:
  "getFatFsInstanceFromPath example_api (Some ''/tmp/x'') = Some 1
   \<and> getFatFsInstanceFromPath example_api (Some ''/tmptest.txt'') = Some 0"
proof -
  have fs: "filesystems example_api = [example_fm, FatFsFileManager_new 600000 1099999 ''/tmp/'' 32 1]"
    by (rule example_api_fields)
  have mp: "mount_path example_fm = ''/''" "mount_path (FatFsFileManager_new 600000 1099999 ''/tmp/'' 32 1) = ''/'' @ ''tmp'' @ ''/''"
    by (simp_all add: example_fm_def FatFsFileManager_new_def)
  show ?thesis
    using path_routing [OF fs mp, of "''tmp/x''"] path_routing [OF fs mp, of "''tmptest.txt''"] by simp
qed

text \<open>a file cannot be renamed across filesystems: the call fails with \<open>EXDEV\<close> and changes nothing.\<close>

theorem rename_across_filesystems:
  assumes "getFatFsInstanceFromPath st old = Some i" and "getFatFsInstanceFromPath st new = Some j" and "i \<noteq> j"
  shows "rename_impl F old new st = Ret ((- 1, Some EXDEV), st)"
  using assms by (simp add: rename_impl_def)

theorem rename_across_filesystems_witness:
  "rename_impl example_fatfs (Some ''/a'') (Some ''/tmp/a'') example_api = Ret ((- 1, Some EXDEV), example_api)"
proof -
  have "getFatFsInstanceFromPath example_api (Some ''/tmp/a'') = Some 1"
    by (simp add: getFatFsInstanceFromPath_def Let_def normalizePath_def example_api_fields isPathOwner_def
      example_fm_def FatFsFileManager_new_def upt_rec)
  from rename_across_filesystems [OF example_route this] show ?thesis by simp
qed

text \<open>\<open>socketpair\<close> gives two different handles that no filesystem owns or will be given by
  \<open>createFileSystem\<close> before them, and closing one succeeds without touching a filesystem.\<close>

theorem socketpair_handles_apart:
  assumes r: "api_ranges st" and s: "socketpair_impl st = ((res, h1, h2), st')"
  shows "res = 0 \<and> h1 \<noteq> h2 \<and> getFatFsInstanceFromHandle st' h1 = None \<and> getFatFsInstanceFromHandle st' h2 = None
    \<and> api_ranges st' \<and> (\<exists>st''. close_impl F h1 st' = Ret (0, st'') \<and> filesystems st'' = filesystems st
      \<and> world st'' = world st \<and> h1 \<notin> set (dummyHandles st'') \<and> h2 \<in> set (dummyHandles st''))"
proof -
  have h: "res = 0" "h1 = currentDummyHandle st" "h2 = currentDummyHandle st + 1"
    and st': "st' = st\<lparr>currentDummyHandle := currentDummyHandle st + 2,
      dummyHandles := List.insert h2 (List.insert h1 (dummyHandles st))\<rparr>"
    using s by (auto simp: socketpair_impl_def Let_def)
  have ge: "currentFirstAvailableHandle st \<le> h1" "currentFirstAvailableHandle st \<le> h2"
    using r by (auto simp: h api_ranges_def)
  have none: "getFatFsInstanceFromHandle st' x = None" if "currentFirstAvailableHandle st \<le> x" for x
    using r that by (force simp: st' getFatFsInstanceFromHandle_def find_None_iff isHandleOwner_def api_ranges_def)
  have "api_ranges st'" using r by (simp add: st' api_ranges_def)
  then show ?thesis using none ge h by (auto simp: close_impl_def st')
qed

theorem socketpair_handles_apart_witness:
  "fst (socketpair_impl example_api) = (0, 1100000, 1100001)
   \<and> getFatFsInstanceFromHandle (snd (socketpair_impl example_api)) 1100000 = None"
proof -
  have s: "socketpair_impl example_api = ((0, 1100000, 1100001), snd (socketpair_impl example_api))"
    by (simp add: socketpair_impl_def example_api_fields Let_def)
  from socketpair_handles_apart [OF example_api_ranges s] show ?thesis by (metis s fst_conv)
qed

lemma fm_init_config: "fm_init E V F addr txt init m w = Ret (r, m', w') \<Longrightarrow> config m' = config m"
  by (auto simp: fm_init_def Let_def dest: fm_mkdir_config split: if_split_asm)

text \<open>What adding a filesystem does to the handle ranges, whether or not it succeeds.\<close>

lemma add_filesystem_ranges:
  assumes r: "add_filesystem E V F ty drive sz key mount al init txt st = Ret (e, st')" and ok: "api_ranges st"
  shows "api_ranges st'
    \<and> length (filesystems st') = (if e = None then Suc (length (filesystems st)) else length (filesystems st))
    \<and> currentFirstAvailableHandle st' = currentFirstAvailableHandle st + kMaxNumFiles"
proof -
  obtain m st1 where c: "createFileSystem E ty drive sz key mount al st = Ret (m, st1)"
    and i: "\<exists>res m' w'. fm_init E V F (ram_addr al) (drive_name al) init m (world st1) = Ret (res, m', w')
      \<and> (if res \<noteq> FatFs_OK then \<exists>w''. e = Some (handleInitException res txt) \<and> st' = st1\<lparr>world := w''\<rparr>
         else e = None \<and> st' = st1\<lparr>filesystems := filesystems st1 @ [m'], world := w'\<rparr>)"
    using r by (auto simp: add_filesystem_def split: if_split_asm) blast
  from c have m: "first_handle m = currentFirstAvailableHandle st"
      "last_handle m = currentFirstAvailableHandle st + kMaxNumFiles - 1"
    and st1: "filesystems st1 = filesystems st"
      "currentFirstAvailableHandle st1 = currentFirstAvailableHandle st + kMaxNumFiles"
      "currentDummyHandle st1 = currentFirstAvailableHandle st + kMaxNumFiles"
    by (auto simp: createFileSystem_def Let_def FatFsFileManager_new_def)
  have ok1: "api_ranges (st1\<lparr>world := w\<rparr>)" for w
    using ok st1 by (force simp: api_ranges_def kMaxNumFiles_def)
  have new: "api_ranges (st1\<lparr>filesystems := filesystems st1 @ [m'], world := w\<rparr>)" if "config m' = config m" for m' w
    using ok st1 m that by (auto simp: api_ranges_def kMaxNumFiles_def config_def nth_append less_Suc_eq)
  from i obtain res m' w' where init: "fm_init E V F (ram_addr al) (drive_name al) init m (world st1) = Ret (res, m', w')"
    and e: "if res \<noteq> FatFs_OK then \<exists>w''. e = Some (handleInitException res txt) \<and> st' = st1\<lparr>world := w''\<rparr>
       else e = None \<and> st' = st1\<lparr>filesystems := filesystems st1 @ [m'], world := w'\<rparr>" by blast
  show ?thesis
  proof (cases "res = FatFs_OK")
    case True
    then show ?thesis using e st1 new [OF fm_init_config [OF init], of w'] by simp
  next
    case False
    then show ?thesis using e st1 ok1 by auto
  qed
qed

text \<open>setting up the filesystems gives each its own range of half a million handles, whatever fails
  on the way, and without an exception there is one filesystem for each size that is not zero.\<close>

theorem setup_handle_ranges:
  assumes r: "setupFileSystems E V F size_ocall jvm_ok msize psize mpath ppath key al_p al_m st = Ret (e, st')"
    and ok: "api_ranges st"
  shows "api_ranges st' \<and>
    (e = None \<longrightarrow> length (filesystems st') = length (filesystems st) + (if 0 < psize then 1 else 0) + (if 0 < msize then 1 else 0))"
proof -
  have frame: "api_ranges (s\<lparr>world := w\<rparr>) = api_ranges s" for s :: "'a disk_system fs_api" and w
    by (simp add: api_ranges_def)
  show ?thesis
    using r ok unfolding setupFileSystems_def
    by (auto simp: Let_def frame dest!: add_filesystem_ranges split: option.split_asm if_split_asm prod.split_asm)
qed

text \<open>An in-memory filesystem alone, on a registry with no drives.\<close>

definition example_setup :: "fs_host disk_system fs_api" where
  "example_setup = fs_api_init \<lparr>live = [], dent = [],
     vol = \<lparr>disks = [0, 0], objects = Map.empty, host = example_one_host\<rparr>\<rparr>"

theorem setup_handle_ranges_witness:
  "\<exists>st'. setupFileSystems example_env example_volume example_fatfs (\<lambda>_ _ h. (Some 0, h)) True 102400 0 (Some ''/'') (Some ''/p'')
      (Some (Some (replicate 16 1))) \<lparr>disk_addr = 0, fatfs_addr = 0, ram_addr = 0, drive_name = []\<rparr>
      \<lparr>disk_addr = 16, fatfs_addr = 8, ram_addr = 65536, drive_name = ''0:''\<rparr> example_setup = Ret (None, st')
    \<and> length (filesystems st') = 1 \<and> api_ranges st'"
proof -
  let ?al = "\<lparr>disk_addr = 16, fatfs_addr = 8, ram_addr = 65536, drive_name = ''0:''\<rparr>"
  let ?nil = "\<lparr>disk_addr = 0, fatfs_addr = 0, ram_addr = 0, drive_name = []\<rparr>"
  have "\<exists>st'. add_filesystem example_env example_volume example_fatfs IN_MEMORY 0 102400 (replicate 16 1) ''/'' ?al FORMAT ''in-memory''
      example_setup = Ret (None, st')"
    by (simp add: add_filesystem_def createFileSystem_def createDiskHandler_def InMemoryDisk_new_def FatFsDisk_new_def
        fm_init_def diskStart_def imd_diskStart_def disk_start_def disk_register_def disk_at_def example_volume_def
        disk_consts Let_def disk_base_def FatFsDisk.defs FatFsFileManager_new_def kRootPath_def example_setup_def fs_api_init_def
        word_le_nat_alt)
  then obtain st' where "setupFileSystems example_env example_volume example_fatfs (\<lambda>_ _ h. (Some 0, h)) True 102400 0 (Some ''/'')
      (Some ''/p'') (Some (Some (replicate 16 1))) ?nil ?al example_setup = Ret (None, st')"
    by (auto simp: setupFileSystems_def getJniEncryptionKey_def getJniMountPath_def kMaxInMemorySize_def kMaxPersistentSize_def)
  moreover have "api_ranges example_setup" "filesystems example_setup = []"
    by (simp_all add: api_ranges_def example_setup_def fs_api_init_def)
  ultimately show ?thesis using setup_handle_ranges by fastforce
qed

end
