(* ===== verification/Posix_Stubs.thy ===== *)
theory Posix_Stubs
  imports Special_Files Fs_Api
begin

text \<open>
  The C library of the enclave, as far as files go (unistd.cpp, fcntl.cpp, stdio.cpp, dirent.cpp,
  sys\_stat.cpp): every function asks the special files first and passes the rest to the entry points
  of the filesystems, or refuses. \<open>errno\<close> is part of the state; a stub that calls an entry point with an
  error argument stores that argument, 0 when nothing went wrong.
\<close>

section \<open>State\<close>

record 'v posix =
  special :: FileManager
  fsapi :: "'v fs_api"
  errno :: int

definition EPERM :: int where "EPERM = 1"
definition EAGAIN :: int where "EAGAIN = 11"
definition ENOMEM :: int where "ENOMEM = 12"
definition ERANGE :: int where "ERANGE = 34"
definition ENOSYS :: int where "ENOSYS = 38"

text \<open>A stub that only refuses: it stores a code and returns -1.\<close>

definition refuse :: "int \<Rightarrow> 'v posix \<Rightarrow> int \<times> 'v posix" where
  "refuse e st = (- 1, st\<lparr>errno := e\<rparr>)"

text \<open>\<open>errno = err\<close> after an entry point; \<open>err\<close> starts as 0.\<close>

definition store_err :: "int option \<Rightarrow> 'v posix \<Rightarrow> 'v posix" where
  "store_err e st = st\<lparr>errno := (case e of None \<Rightarrow> 0 | Some c \<Rightarrow> c)\<rparr>"

text \<open>An entry point that returns a value and its error argument.\<close>

definition via_err ::
    "(('r \<times> int option) \<times> 'v fs_api) cpp \<Rightarrow> 'v posix \<Rightarrow> ('r \<times> 'v posix) cpp" where
  "via_err c st = cbind c (\<lambda>((r, e), a). Ret (r, store_err e (st\<lparr>fsapi := a\<rparr>)))"

definition via :: "('r \<times> 'v fs_api) cpp \<Rightarrow> 'v posix \<Rightarrow> ('r \<times> 'v posix) cpp" where
  "via c st = cbind c (\<lambda>(r, a). Ret (r, st\<lparr>fsapi := a\<rparr>))"

section \<open>Files by handle\<close>

text \<open>
  A path is turned into a \<open>std::string\<close> before it is looked at, which is undefined for a null
  pointer. \<open>sf\<close> and \<open>fil\<close> are the addresses of objects that are allocated.
\<close>

definition px_open :: "'v fatfs \<Rightarrow> cstr \<Rightarrow> u32 \<Rightarrow> ptr \<Rightarrow> ptr \<Rightarrow> 'v posix \<Rightarrow> (int \<times> 'v posix) cpp" where
  "px_open F path oflag sf fil st =
     (case path of
        None \<Rightarrow> Undef
      | Some name \<Rightarrow>
          (case sf_open name sf (special st) of
             (Some f, m) \<Rightarrow> Ret (file_handle f, st\<lparr>special := m\<rparr>)
           | (None, m) \<Rightarrow> via_err (open_impl F path oflag fil (fsapi st)) (st\<lparr>special := m\<rparr>)))"

definition px_open64 :: "'v fatfs \<Rightarrow> cstr \<Rightarrow> u32 \<Rightarrow> ptr \<Rightarrow> ptr \<Rightarrow> 'v posix \<Rightarrow> (int \<times> 'v posix) cpp" where
  "px_open64 F path oflag sf fil st =
     (case path of
        None \<Rightarrow> Undef
      | Some name \<Rightarrow>
          (case sf_open name sf (special st) of
             (Some f, m) \<Rightarrow> Ret (file_handle f, st\<lparr>special := m\<rparr>)
           | (None, m) \<Rightarrow> via_err (open_impl F path oflag fil (fsapi st)) (st\<lparr>special := m\<rparr>)))"

text \<open>Results of type \<open>ssize_t\<close>: the number of bytes, or -1; with the bytes that were read.\<close>

definition px_read ::
    "'v fatfs \<Rightarrow> (u64 \<Rightarrow> bytes option) \<Rightarrow> int \<Rightarrow> ptr \<Rightarrow> u64 \<Rightarrow> 'v posix \<Rightarrow> ((int \<times> bytes) \<times> 'v posix) cpp" where
  "px_read F rand fd buf cnt st =
     (case fromHandle fd (special st) of
        Some f \<Rightarrow> (case special_read rand f cnt of (n, b) \<Rightarrow> Ret ((sint n, b), st))
      | None \<Rightarrow>
          cbind (read_impl F fd buf cnt (fsapi st)) (\<lambda>((r, b), a).
            let st1 = st\<lparr>fsapi := a\<rparr> in
            if r \<noteq> - 1 then Ret ((r, b), st1) else Ret ((- 1, b), st1\<lparr>errno := - EPERM\<rparr>)))"

definition px_pread ::
    "'v fatfs \<Rightarrow> (u64 \<Rightarrow> bytes option) \<Rightarrow> int \<Rightarrow> ptr \<Rightarrow> u64 \<Rightarrow> int \<Rightarrow> 'v posix \<Rightarrow> ((int \<times> bytes) \<times> 'v posix) cpp" where
  "px_pread F rand fd buf cnt offset st =
     (case fromHandle fd (special st) of
        Some f \<Rightarrow> (case special_read rand f cnt of (n, b) \<Rightarrow> Ret ((sint n, b), st))
      | None \<Rightarrow>
          cbind (pread_impl F fd buf cnt offset (fsapi st)) (\<lambda>((r, b, e), a).
            let st1 = st\<lparr>fsapi := a\<rparr> in
            if r \<noteq> - 1 then Ret ((r, b), st1) else Ret ((- 1, b), st1\<lparr>errno := - EPERM\<rparr>)))"

definition px_write :: "'v fatfs \<Rightarrow> int \<Rightarrow> bytes \<Rightarrow> u64 \<Rightarrow> 'v posix \<Rightarrow> (int \<times> 'v posix) cpp" where
  "px_write F fd buf cnt st =
     (case fromHandle fd (special st) of
        Some f \<Rightarrow> Ret (sint (special_write f cnt), st)
      | None \<Rightarrow> via (write_impl F fd buf cnt (fsapi st)) st)"

definition px_pwrite :: "'v fatfs \<Rightarrow> int \<Rightarrow> bytes option \<Rightarrow> u64 \<Rightarrow> int \<Rightarrow> 'v posix \<Rightarrow> (int \<times> 'v posix) cpp" where
  "px_pwrite F fd buf cnt offset st =
     (case fromHandle fd (special st) of
        Some f \<Rightarrow> Ret (sint (special_write f cnt), st)
      | None \<Rightarrow> via (pwrite_impl F fd buf cnt offset (fsapi st)) st)"

definition px_pread64 ::
    "'v fatfs \<Rightarrow> (u64 \<Rightarrow> bytes option) \<Rightarrow> int \<Rightarrow> ptr \<Rightarrow> u64 \<Rightarrow> int \<Rightarrow> 'v posix \<Rightarrow> ((int \<times> bytes) \<times> 'v posix) cpp" where
  "px_pread64 F rand fd buf cnt offset st = px_pread F rand fd buf cnt offset st"

definition px_pwrite64 :: "'v fatfs \<Rightarrow> int \<Rightarrow> bytes option \<Rightarrow> u64 \<Rightarrow> int \<Rightarrow> 'v posix \<Rightarrow> (int \<times> 'v posix) cpp" where
  "px_pwrite64 F fd buf cnt offset st = px_pwrite F fd buf cnt offset st"

definition px_close :: "'v fatfs \<Rightarrow> int \<Rightarrow> 'v posix \<Rightarrow> (int \<times> 'v posix) cpp" where
  "px_close F h st =
     (case sf_close h (special st) of (r, m) \<Rightarrow>
        if r = 0 then Ret (0, st\<lparr>special := m\<rparr>)
        else via (close_impl F h (fsapi st)) (st\<lparr>special := m\<rparr>))"

definition px_dup2 :: "'v fatfs \<Rightarrow> int \<Rightarrow> int \<Rightarrow> 'v posix \<Rightarrow> (int \<times> 'v posix) cpp" where
  "px_dup2 F fd1 fd2 st = via (dup2_impl F fd1 fd2 (fsapi st)) st"

definition px_lseek64 :: "'v fatfs \<Rightarrow> int \<Rightarrow> int \<Rightarrow> int \<Rightarrow> 'v posix \<Rightarrow> (int \<times> 'v posix) cpp" where
  "px_lseek64 F fd offset whence st = via (lseek64_impl F fd offset whence (fsapi st)) st"

text \<open>
  \<open>ftruncate\<close>: the file manager stores its own failure in \<open>errno\<close>, and the stub overwrites it with the
  error argument.
\<close>

definition px_ftruncate :: "'v fatfs \<Rightarrow> int \<Rightarrow> int \<Rightarrow> 'v posix \<Rightarrow> (int \<times> 'v posix) cpp" where
  "px_ftruncate F fd len st =
     cbind (ftruncate_impl F fd len (fsapi st)) (\<lambda>((r, e, own), a).
       let st1 = st\<lparr>fsapi := a\<rparr> in
       let st2 = (case own of None \<Rightarrow> st1 | Some c \<Rightarrow> st1\<lparr>errno := c\<rparr>) in
       Ret (r, store_err e st2))"

definition px_ftruncate64 :: "'v fatfs \<Rightarrow> int \<Rightarrow> int \<Rightarrow> 'v posix \<Rightarrow> (int \<times> 'v posix) cpp" where
  "px_ftruncate64 F fd len st =
     cbind (ftruncate_impl F fd len (fsapi st)) (\<lambda>((r, e, own), a).
       let st1 = st\<lparr>fsapi := a\<rparr> in
       let st2 = (case own of None \<Rightarrow> st1 | Some c \<Rightarrow> st1\<lparr>errno := c\<rparr>) in
       Ret (r, store_err e st2))"

definition px_fchown :: "int \<Rightarrow> u32 \<Rightarrow> u32 \<Rightarrow> 'v posix \<Rightarrow> (int \<times> 'v posix) cpp" where
  "px_fchown fd owner grp st = via_err (fchown_impl fd owner grp (fsapi st)) st"

definition px_fchmod :: "int \<Rightarrow> u32 \<Rightarrow> 'v posix \<Rightarrow> (int \<times> 'v posix) cpp" where
  "px_fchmod fd mode st = via_err (fchmod_impl fd mode (fsapi st)) st"

text \<open>The status of a special file is all zero but its mode.\<close>

datatype stat_result = FileStat "stat_buf option" | SpecialStat

definition px_fxstat64 :: "'v fatfs \<Rightarrow> int \<Rightarrow> int \<Rightarrow> 'v posix \<Rightarrow> ((int \<times> stat_result) \<times> 'v posix) cpp" where
  "px_fxstat64 F ver fd st =
     (case fromHandle fd (special st) of
        Some f \<Rightarrow> Ret ((0, SpecialStat), st)
      | None \<Rightarrow>
          cbind (fxstat64_impl F ver fd (fsapi st)) (\<lambda>((r, e, b), a).
            Ret ((r, FileStat b), store_err e (st\<lparr>fsapi := a\<rparr>))))"

section \<open>Files by path\<close>

definition px_access :: "'v fatfs \<Rightarrow> cstr \<Rightarrow> u32 \<Rightarrow> 'v posix \<Rightarrow> (int \<times> 'v posix) cpp" where
  "px_access F path mode st =
     (case path of
        None \<Rightarrow> Undef
      | Some name \<Rightarrow>
          if sf_exists name then Ret (0, st) else via_err (access_impl F path mode (fsapi st)) st)"

definition px_unlink :: "'v fatfs \<Rightarrow> cstr \<Rightarrow> 'v posix \<Rightarrow> (int \<times> 'v posix) cpp" where
  "px_unlink F path st = via_err (unlink_impl F path (fsapi st)) st"

definition px_rmdir :: "'v fatfs \<Rightarrow> cstr \<Rightarrow> 'v posix \<Rightarrow> (int \<times> 'v posix) cpp" where
  "px_rmdir F path st = via_err (rmdir_impl F path (fsapi st)) st"

definition px_remove :: "'v fatfs \<Rightarrow> cstr \<Rightarrow> 'v posix \<Rightarrow> (int \<times> 'v posix) cpp" where
  "px_remove F path st = via_err (remove_impl F path (fsapi st)) st"

definition px_mkdir :: "'v fatfs \<Rightarrow> cstr \<Rightarrow> u32 \<Rightarrow> 'v posix \<Rightarrow> (int \<times> 'v posix) cpp" where
  "px_mkdir F path mode st = via_err (mkdir_impl F path mode (fsapi st)) st"

text \<open>\<open>rename\<close> stores the error only when it failed.\<close>

definition px_rename :: "'v fatfs \<Rightarrow> cstr \<Rightarrow> cstr \<Rightarrow> 'v posix \<Rightarrow> (int \<times> 'v posix) cpp" where
  "px_rename F oldpath newpath st =
     cbind (rename_impl F oldpath newpath (fsapi st)) (\<lambda>((r, e), a).
       let st1 = st\<lparr>fsapi := a\<rparr> in Ret (r, if r \<noteq> 0 then store_err e st1 else st1))"

definition px_xstat64 :: "'v fatfs \<Rightarrow> int \<Rightarrow> cstr \<Rightarrow> 'v posix \<Rightarrow> ((int \<times> stat_buf option) \<times> 'v posix) cpp" where
  "px_xstat64 F ver path st =
     cbind (xstat64_impl F ver path (fsapi st)) (\<lambda>((r, e, b), a). Ret ((r, b), store_err e (st\<lparr>fsapi := a\<rparr>)))"

definition px_lxstat :: "'v fatfs \<Rightarrow> cstr \<Rightarrow> 'v posix \<Rightarrow> ((int \<times> stat_buf option) \<times> 'v posix) cpp" where
  "px_lxstat F path st =
     cbind (lstat_impl F path (fsapi st)) (\<lambda>((r, e, b), a). Ret ((r, b), store_err e (st\<lparr>fsapi := a\<rparr>)))"

definition px_lxstat64 :: "'v fatfs \<Rightarrow> cstr \<Rightarrow> 'v posix \<Rightarrow> ((int \<times> stat_buf option) \<times> 'v posix) cpp" where
  "px_lxstat64 F path st =
     cbind (lstat64_impl F path (fsapi st)) (\<lambda>((r, e, b), a). Ret ((r, b), store_err e (st\<lparr>fsapi := a\<rparr>)))"

definition px_lstat64 :: "'v fatfs \<Rightarrow> cstr \<Rightarrow> 'v posix \<Rightarrow> ((int \<times> stat_buf option) \<times> 'v posix) cpp" where
  "px_lstat64 F path st =
     cbind (lstat64_impl F path (fsapi st)) (\<lambda>((r, e, b), a). Ret ((r, b), store_err e (st\<lparr>fsapi := a\<rparr>)))"

section \<open>Directories\<close>

definition px_opendir :: "'v fatfs \<Rightarrow> cstr \<Rightarrow> ptr \<Rightarrow> 'v posix \<Rightarrow> (ptr \<times> 'v posix) cpp" where
  "px_opendir F path dir st = via_err (opendir_impl F path dir (fsapi st)) st"

definition px_readdir :: "'v fatfs \<Rightarrow> ptr \<Rightarrow> ptr \<Rightarrow> 'v posix \<Rightarrow> (ptr \<times> 'v posix) cpp" where
  "px_readdir F dirp buf st = via_err (readdir_impl F dirp buf (fsapi st)) st"

definition px_readdir64 :: "'v fatfs \<Rightarrow> ptr \<Rightarrow> ptr \<Rightarrow> 'v posix \<Rightarrow> (ptr \<times> 'v posix) cpp" where
  "px_readdir64 F dirp buf st = via_err (readdir64_impl F dirp buf (fsapi st)) st"

text \<open>The reentrant variants: the status and the pointer stored in \<open>result\<close>.\<close>

definition px_readdir_r :: "'v fatfs \<Rightarrow> ptr \<Rightarrow> ptr \<Rightarrow> 'v posix \<Rightarrow> ((int \<times> ptr) \<times> 'v posix) cpp" where
  "px_readdir_r F dirp buf st =
     cbind (readdir_impl F dirp buf (fsapi st)) (\<lambda>((p, e), a).
       let st1 = st\<lparr>fsapi := a\<rparr> in
       if p \<noteq> 0 then Ret ((0, p), st1) else Ret ((- 1, 0), store_err e st1))"

definition px_readdir64_r :: "'v fatfs \<Rightarrow> ptr \<Rightarrow> ptr \<Rightarrow> 'v posix \<Rightarrow> ((int \<times> ptr) \<times> 'v posix) cpp" where
  "px_readdir64_r F dirp buf st =
     cbind (readdir64_impl F dirp buf (fsapi st)) (\<lambda>((p, e), a).
       let st1 = st\<lparr>fsapi := a\<rparr> in
       if p \<noteq> 0 then Ret ((0, p), st1) else Ret ((- 1, 0), store_err e st1))"

definition px_closedir :: "'v fatfs \<Rightarrow> ptr \<Rightarrow> 'v posix \<Rightarrow> (int \<times> 'v posix) cpp" where
  "px_closedir F dirp st = via_err (closedir_impl F dirp (fsapi st)) st"

section \<open>Streams\<close>

text \<open>
  The \<open>FILE*\<close> of a special file is the address of its object, that of any other file the object of
  the filesystem. \<open>fread\<close>, \<open>fwrite\<close>, \<open>fclose\<close> and \<open>fdopen\<close> look only among the special files. Division
  by a \<open>size\<close> of 0 is undefined.
\<close>

definition px_fopen :: "'v fatfs \<Rightarrow> cstr \<Rightarrow> cstr \<Rightarrow> ptr \<Rightarrow> ptr \<Rightarrow> 'v posix \<Rightarrow> (ptr \<times> 'v posix) cpp" where
  "px_fopen F path mode sf fil st =
     (case path of
        None \<Rightarrow> Undef
      | Some name \<Rightarrow>
          (case sf_open name sf (special st) of
             (Some f, m) \<Rightarrow> Ret (file_address f, st\<lparr>special := m\<rparr>)
           | (None, m) \<Rightarrow> via_err (fopen_impl F path mode fil (fsapi st)) (st\<lparr>special := m\<rparr>)))"

definition px_fclose :: "ptr \<Rightarrow> ptr \<Rightarrow> ptr \<Rightarrow> 'v posix \<Rightarrow> int \<times> 'v posix" where
  "px_fclose std_out std_err fp st =
     (case fromFILE std_out std_err fp (special st) of
        (Some f, m) \<Rightarrow> (0, st\<lparr>special := snd (sf_close_file (Some f) m)\<rparr>)
      | (None, m) \<Rightarrow> (0, st\<lparr>special := m\<rparr>))"

definition px_fread ::
    "(u64 \<Rightarrow> bytes option) \<Rightarrow> ptr \<Rightarrow> ptr \<Rightarrow> u64 \<Rightarrow> u64 \<Rightarrow> ptr \<Rightarrow> 'v posix \<Rightarrow> ((u64 \<times> bytes) \<times> 'v posix) cpp" where
  "px_fread rand std_out std_err sz cnt fp st =
     (case fromFILE std_out std_err fp (special st) of
        (Some f, m) \<Rightarrow>
          (case special_read rand f (sz * cnt) of (n, b) \<Rightarrow>
             if sz = 0 then Undef else Ret ((n div sz, b), st\<lparr>special := m\<rparr>))
      | (None, m) \<Rightarrow> Ret ((0, []), st\<lparr>special := m, errno := - EPERM\<rparr>))"

definition px_fwrite :: "ptr \<Rightarrow> ptr \<Rightarrow> u64 \<Rightarrow> u64 \<Rightarrow> ptr \<Rightarrow> 'v posix \<Rightarrow> (u64 \<times> 'v posix) cpp" where
  "px_fwrite std_out std_err sz cnt fp st =
     (case fromFILE std_out std_err fp (special st) of
        (Some f, m) \<Rightarrow> if sz = 0 then Undef else Ret (special_write f (sz * cnt) div sz, st\<lparr>special := m\<rparr>)
      | (None, m) \<Rightarrow> Ret (0, st\<lparr>special := m, errno := - EPERM\<rparr>))"

definition px_fdopen :: "int \<Rightarrow> 'v posix \<Rightarrow> ptr \<times> 'v posix" where
  "px_fdopen fd st = (case fromHandle fd (special st) of Some f \<Rightarrow> (file_address f, st) | None \<Rightarrow> (0, st))"

section \<open>Stubs without a file\<close>

text \<open>
  \<open>getcwd\<close> always names the root. The buffer is null, or given with its size; the result is the
  string written, \<open>alloc\<close> tells whether \<open>calloc\<close> succeeds.
\<close>

definition px_getcwd :: "bool \<Rightarrow> bool \<Rightarrow> u64 \<Rightarrow> 'v posix \<Rightarrow> cstr \<times> 'v posix" where
  "px_getcwd alloc buf sz st =
     (if sz = 0 \<and> buf then (None, st\<lparr>errno := EINVAL\<rparr>)
      else if \<not> buf then (if alloc then (Some ''/'', st) else (None, st\<lparr>errno := ENOMEM\<rparr>))
      else if sz < 2 then (None, st\<lparr>errno := ERANGE\<rparr>)
      else (Some ''/'', st))"

datatype sysconf_name = SC_NPROCESSORS_ONLN | SC_PAGESIZE | SC_PHYS_PAGES | SC_OTHER int

text \<open>\<open>heap_size\<close> is the heap of the enclave in bytes.\<close>

definition px_sysconf :: "int \<Rightarrow> sysconf_name \<Rightarrow> int" where
  "px_sysconf heap_size name = (case name of
     SC_NPROCESSORS_ONLN \<Rightarrow> 1 | SC_PAGESIZE \<Rightarrow> 4096 | SC_PHYS_PAGES \<Rightarrow> heap_size | SC_OTHER _ \<Rightarrow> - 1)"

definition px_symlink :: "'v posix \<Rightarrow> int \<times> 'v posix" where "px_symlink = refuse EPERM"
definition px_link :: "'v posix \<Rightarrow> int \<times> 'v posix" where "px_link = refuse EPERM"
definition px_chdir :: "'v posix \<Rightarrow> int \<times> 'v posix" where "px_chdir = refuse ENOENT"
definition px_dup :: "'v posix \<Rightarrow> int \<times> 'v posix" where "px_dup st = (- 1, st)"
definition px_fork :: "'v posix \<Rightarrow> int \<times> 'v posix" where "px_fork = refuse (- ENOSYS)"
definition px_execvp :: "'v posix \<Rightarrow> int \<times> 'v posix" where "px_execvp = refuse (- ENOSYS)"
definition px_pipe :: "'v posix \<Rightarrow> int \<times> 'v posix" where "px_pipe = refuse (- ENOSYS)"
definition px_vfork :: "'v posix \<Rightarrow> int \<times> 'v posix" where "px_vfork = refuse ENOSYS"
definition px_execve :: "'v posix \<Rightarrow> int \<times> 'v posix" where "px_execve = refuse EACCES"
definition px_isatty :: "'v posix \<Rightarrow> int \<times> 'v posix" where "px_isatty = refuse EBADF"
definition px_tcgetattr :: "'v posix \<Rightarrow> int \<times> 'v posix" where "px_tcgetattr = refuse EAGAIN"
definition px_tcsetattr :: "'v posix \<Rightarrow> int \<times> 'v posix" where "px_tcsetattr = refuse EAGAIN"
definition px_gethostname :: "'v posix \<Rightarrow> int \<times> 'v posix" where "px_gethostname = refuse ENOSYS"
definition px_lseek :: "'v posix \<Rightarrow> int \<times> 'v posix" where "px_lseek = refuse ENOSYS"
definition px_readlink :: "'v posix \<Rightarrow> int \<times> 'v posix" where "px_readlink = refuse ENOSYS"
definition px_lchown :: "'v posix \<Rightarrow> int \<times> 'v posix" where "px_lchown = refuse ENOSYS"
definition px_fileno :: "'v posix \<Rightarrow> int \<times> 'v posix" where "px_fileno = refuse EBADF"

section \<open>Handles of special files and of filesystems\<close>

text \<open>The handles of the filesystems begin at 100000.\<close>

definition fs_handles_high :: "'v fs_api \<Rightarrow> bool" where
  "fs_handles_high a \<longleftrightarrow>
     (\<forall>m\<in>set (filesystems a). 100000 \<le> first_handle m) \<and> 100000 \<le> currentFirstAvailableHandle a"

definition posix_inv :: "'v posix \<Rightarrow> bool" where
  "posix_inv st \<longleftrightarrow> special_inv (special st) \<and> next_file_handle (special st) \<le> 100000 \<and> fs_handles_high (fsapi st)"

lemma fromHandle_low:
  assumes "posix_inv st" and "fromHandle fd (special st) = Some f"
  shows "fd < 100000"
proof -
  have "map_of (files_map (special st)) fd = Some (Some f)"
    using assms(2) by (auto simp: fromHandle_def split: option.split_asm)
  then show ?thesis using assms(1) unfolding posix_inv_def special_inv_def entries_ok_def by fastforce
qed

lemma fs_handle_high:
  assumes "posix_inv st" and "getFatFsInstanceFromHandle (fsapi st) fd = Some i"
  shows "100000 \<le> fd"
proof -
  have "i < length (filesystems (fsapi st))" "isHandleOwner (filesystems (fsapi st) ! i) fd"
    using assms(2) by (auto simp: getFatFsInstanceFromHandle_def find_Some_iff split: if_split_asm)
  then show ?thesis
    using assms(1) by (auto simp: posix_inv_def fs_handles_high_def isHandleOwner_def dest!: nth_mem)
qed

lemma fs_handle_not_special:
  assumes "posix_inv st" and "getFatFsInstanceFromHandle (fsapi st) fd = Some i"
  shows "map_of (files_map (special st)) fd = None"
proof (rule ccontr)
  assume "map_of (files_map (special st)) fd \<noteq> None"
  then obtain f where "map_of (files_map (special st)) fd = Some f" by auto
  then have "fd < 100000" using assms(1) unfolding posix_inv_def special_inv_def entries_ok_def by fastforce
  then show False using fs_handle_high [OF assms] by simp
qed

section \<open>Properties\<close>

definition example_posix :: "unit posix" where
  "example_posix = \<lparr>special = FileManager_new 256 512, fsapi = example_api, errno = 0\<rparr>"

lemma example_posix_inv: "posix_inv example_posix"
  by (simp add: posix_inv_def example_posix_def special_inv_new fs_handles_high_def example_api_fields)
    (simp add: FileManager_new_def example_fm_def FatFsFileManager_new_def)



text \<open>A stream that \<open>fopen\<close> opened in a filesystem is dead: \<open>fread\<close> and \<open>fwrite\<close> transfer nothing
  and \<open>fclose\<close> reports success without closing anything, because the three functions know only the
  special files.\<close>

theorem filesystem_streams_dead:
  assumes "px_fopen F (Some name) mode sf fil st = Ret (fp, st')" and "\<not> sf_exists name" and "fp \<noteq> 0"
    and "fp \<noteq> std_out" and "fp \<noteq> std_err"
    and "\<forall>h f. map_of (files_map (special st)) h = Some (Some f) \<longrightarrow> file_address f \<noteq> fp"
    and "umap_ok (files_map (special st))"
  shows "px_fread rand std_out std_err sz cnt fp st' = Ret ((0, []), st'\<lparr>errno := - EPERM\<rparr>)
    \<and> px_fwrite std_out std_err sz cnt fp st' = Ret (0, st'\<lparr>errno := - EPERM\<rparr>)
    \<and> px_fclose std_out std_err fp st' = (0, st')"
proof -
  have s: "special st' = special st"
    using assms(1,2) by (auto simp: px_fopen_def sf_open_def via_err_def store_err_def)
  have "(case f of Some x \<Rightarrow> file_address x | None \<Rightarrow> 0) \<noteq> fp" if "(h, f) \<in> set (files_map (special st))" for h f
    using that assms(3,6,7) by (cases f) auto
  then have "find (\<lambda>(h, f). (case f of Some x \<Rightarrow> file_address x | None \<Rightarrow> 0) = fp) (files_map (special st)) = None"
    by (auto simp: find_None_iff)
  then have "fromFILE std_out std_err fp (special st') = (None, special st')"
    using assms(4,5) s by (simp add: fromFILE_def)
  then show ?thesis by (simp add: px_fread_def px_fwrite_def px_fclose_def)
qed

lemma example_fopen:
  "\<exists>m w. fm_fopen example_fatfs (Some ''/a'') (Some ''r'') 64 example_fm example_world = Ret ((64, None), m, w)"
proof -
  let ?m = "example_fm\<lparr>file_mutex := True\<rparr>"
  have f: "files ?m = []" by (simp add: example_fm_def FatFsFileManager_new_def)
  have "scan_handles ?m 500000 100000 0 = (100000, 0)"
    by (subst numeral_eq_Suc, subst scan_handles.simps) (simp only: f map_of.simps not_True_eq_False simp_thms if_False)
  then have g: "getNewHandle ?m = (100000, ?m\<lparr>next_handle := 100001\<rparr>)"
    by (simp add: getNewHandle_def Let_def example_fm_def FatFsFileManager_new_def del: scan_handles.simps)
  have "sync_old example_fatfs q ?m example_world = Ret (FR_OK, example_world)" for q
    by (simp add: sync_old_def example_fm_def FatFsFileManager_new_def)
  moreover have "on_object (new_object 64 example_world) 64 (f_open example_fatfs 64 q md) = Ret (FR_OK, new_object 64 example_world)" for q md
    by (simp add: on_object_def new_object_def example_fatfs_def)
  moreover have "parsePosixModeFlag ''r'' = Ret FA_READ"
    by (simp add: parsePosixModeFlag_def umap_at_def createPosixModeFlagMap_def)
  moreover have "generateFatFsPath ?m (Some ''/a'') = ''0:/a''"
    using example_drive [of "''/a''"] by (simp add: generateFatFsPath_def)
  ultimately show ?thesis
    using g by (simp add: fm_fopen_def lock_guard_def example_ok open_with_def open_new_def Let_def)
qed

theorem filesystem_streams_dead_witness:
  "\<exists>st'. px_fopen example_fatfs (Some ''/a'') (Some ''r'') 4096 64 example_posix = Ret (64, st')
    \<and> px_fclose 1 2 64 st' = (0, st')"
proof -
  obtain m w where "fm_fopen example_fatfs (Some ''/a'') (Some ''r'') 64 example_fm example_world = Ret ((64, None), m, w)"
    using example_fopen by blast
  moreover have "sf_open ''/a'' 4096 (special example_posix) = (None, special example_posix)" "\<not> sf_exists ''/a''"
    by (simp_all add: sf_open_def sf_exists_def FILENAME_RANDOM_def FILENAME_URANDOM_def)
  moreover have "fsapi example_posix = example_api" by (simp add: example_posix_def)
  ultimately obtain st' where r: "px_fopen example_fatfs (Some ''/a'') (Some ''r'') 4096 64 example_posix = Ret (64, st')"
    using example_route by (simp add: px_fopen_def fopen_impl_def on_manager_def example_api_fields via_err_def)
  have "px_fclose 1 2 64 st' = (0, st')"
    using filesystem_streams_dead [OF r, of 1 2] \<open>\<not> sf_exists ''/a''\<close>
    by (simp add: example_posix_def FileManager_new_def)
  then show ?thesis using r by blast
qed

section \<open>Lost errors\<close>

text \<open>A failing \<open>f_truncate\<close> is reported as -1 with an \<open>errno\<close> of 0.\<close>

lemma ftruncate_error_lost:
  assumes "ftruncate_impl F fd len (fsapi st) = Ret ((- 1, None, Some EINVAL), a)"
  shows "px_ftruncate F fd len st = Ret (- 1, st\<lparr>fsapi := a, errno := 0\<rparr>)"
  using assms by (simp add: px_ftruncate_def Let_def store_err_def)

text \<open>\<open>read\<close> from a handle that nobody owns fails; \<open>pread\<close> calls through a null pointer.\<close>

lemma pread_unowned:
  assumes "fromHandle fd (special st) = None" and "getFatFsInstanceFromHandle (fsapi st) fd = None"
  shows "px_read F rand fd buf cnt st = Ret ((- 1, []), st\<lparr>errno := - EPERM\<rparr>)"
    and "px_pread F rand fd buf cnt off st = Undef"
  using assms by (simp_all add: px_read_def px_pread_def read_impl_def pread_impl_def Let_def)

end
