(* ===== verification/Enclave_Clock.thy ===== *)
theory Enclave_Clock
  imports Conclave_Prelude
begin

text \<open>
  \<open>EnclaveSharedData\<close> (enclave\_shared\_data.cpp): the clock of the enclave. The time comes from a
  block of host memory whose address the host names in an OCall, so nothing about it is trusted:
  the address has to lie outside the enclave and the clock must run forward whatever the block
  holds. The POSIX clock functions (time.cpp, sys\_time.cpp) and the absolute timeouts of
  \<open>pthread_cond_timedwait\<close> (pthread.cpp) rest on it.

  The functions are modelled twice from the same pieces: as the sequential call of one thread and as
  a step relation in which any number of threads are inside \<open>real_time\<close> and the host answers
  arbitrarily.
\<close>

section \<open>The clock of one thread\<close>

text \<open>
  What the SGX SDK and the virtual machine provide: whether the block at an address lies outside the
  enclave, and whether \<open>jni_throw\<close> comes back to its caller.
\<close>

record clock_env =
  outside_enclave :: "ptr \<Rightarrow> bool"
  jni_throw_returns :: bool

text \<open>
  What the host does during one call: the status and the address of \<open>shared_data_ocall\<close>, and the
  contents of its memory when the block is copied.
\<close>

record host_answer =
  ocall_ok :: bool
  ocall_ptr :: ptr
  host_memory :: "ptr \<Rightarrow> u64"

record EnclaveSharedData =
  shared_data :: ptr
  last_time :: u64

definition EnclaveSharedData_new :: EnclaveSharedData where
  "EnclaveSharedData_new = \<lparr>shared_data = 0, last_time = 0\<rparr>"

definition ONE_USEC :: u64 where "ONE_USEC = 1000"
definition NS_PER_SEC :: u64 where "NS_PER_SEC = 1000 * 1000 * 1000"

text \<open>The part of \<open>init\<close> that runs with the lock held and no address stored.\<close>

definition init_ocall :: "clock_env \<Rightarrow> bool \<Rightarrow> ptr \<Rightarrow> 'a EnclaveSharedData_scheme \<Rightarrow> 'a EnclaveSharedData_scheme cpp" where
  "init_ocall E ok p s =
     (if ok then
        (if \<not> outside_enclave E p then Abort else Ret (s\<lparr>shared_data := p\<rparr>))
      else if jni_throw_returns E then Ret s
      else Abort)"

definition esd_init :: "clock_env \<Rightarrow> host_answer \<Rightarrow> EnclaveSharedData \<Rightarrow> EnclaveSharedData cpp" where
  "esd_init E a s = (if shared_data s \<noteq> 0 then Ret s else init_ocall E (ocall_ok a) (ocall_ptr a) s)"

definition getSharedData :: "clock_env \<Rightarrow> (ptr \<Rightarrow> u64) \<Rightarrow> 'a EnclaveSharedData_scheme \<Rightarrow> u64 cpp" where
  "getSharedData E mem s =
     (let p = shared_data s in
      if p = 0 \<or> \<not> outside_enclave E p then Abort else Ret (mem p))"

text \<open>The locked part of \<open>real_time\<close>: the new time from the host's time and the last one returned.\<close>

definition advance_time :: "u64 \<Rightarrow> u64 \<Rightarrow> u64" where
  "advance_time local_real_time local_last_time =
     (if local_real_time > local_last_time then local_real_time else local_last_time + ONE_USEC)"

definition real_time :: "clock_env \<Rightarrow> host_answer \<Rightarrow> EnclaveSharedData \<Rightarrow> (u64 \<times> EnclaveSharedData) cpp" where
  "real_time E a s =
     cbind (esd_init E a s) (\<lambda>s1.
     cbind (getSharedData E (host_memory a) s1) (\<lambda>rt.
       let t = advance_time rt (last_time s1) in Ret (t, s1\<lparr>last_time := t\<rparr>)))"

record timespec =
  tv_sec :: u64
  tv_nsec :: u64

definition to_timespec :: "u64 \<Rightarrow> timespec" where
  "to_timespec ns = \<lparr>tv_sec = ns div NS_PER_SEC, tv_nsec = ns mod NS_PER_SEC\<rparr>"

definition real_time_timespec ::
    "clock_env \<Rightarrow> host_answer \<Rightarrow> EnclaveSharedData \<Rightarrow> (timespec \<times> EnclaveSharedData) cpp" where
  "real_time_timespec E a s = cbind (real_time E a s) (\<lambda>(ns, s'). Ret (to_timespec ns, s'))"

text \<open>A \<open>timeval\<close> is the pair of its seconds and microseconds.\<close>

definition real_time_timeval ::
    "clock_env \<Rightarrow> host_answer \<Rightarrow> EnclaveSharedData \<Rightarrow> ((u64 \<times> u64) \<times> EnclaveSharedData) cpp" where
  "real_time_timeval E a s =
     cbind (real_time E a s) (\<lambda>(ns, s'). Ret ((ns div NS_PER_SEC, (ns mod NS_PER_SEC) div 1000), s'))"

section \<open>POSIX functions\<close>

text \<open>
  The output argument is null or receives the value; the first component is the return value.
\<close>

definition clock_gettime ::
    "clock_env \<Rightarrow> host_answer \<Rightarrow> bool \<Rightarrow> EnclaveSharedData \<Rightarrow> (int \<times> timespec option \<times> EnclaveSharedData) cpp" where
  "clock_gettime E a tp s =
     (if tp then cbind (real_time_timespec E a s) (\<lambda>(t, s'). Ret (0, Some t, s')) else Ret (0, None, s))"

text \<open>The time zone, when asked for, is reported as (0, 0).\<close>

definition gettimeofday ::
    "clock_env \<Rightarrow> host_answer \<Rightarrow> bool \<Rightarrow> bool \<Rightarrow> EnclaveSharedData \<Rightarrow>
     (int \<times> (u64 \<times> u64) option \<times> (int \<times> int) option \<times> EnclaveSharedData) cpp" where
  "gettimeofday E a tv tz s =
     cbind (if tv then cbind (real_time_timeval E a s) (\<lambda>(t, s'). Ret (Some t, s')) else Ret (None, s))
       (\<lambda>(t, s'). Ret (0, t, if tz then Some (0, 0) else None, s'))"

definition ETIMEDOUT :: int where "ETIMEDOUT = 110"

text \<open>
  \<open>pthread_cond_timedwait\<close> either returns a code at once or waits: without a limit, or for a relative
  time handed to the SDK's \<open>_pthread_cond_timedwait\<close>.
\<close>

datatype cond_wait = Return int | WaitFor timespec | WaitForever

definition pthread_cond_timedwait ::
    "clock_env \<Rightarrow> host_answer \<Rightarrow> timespec option \<Rightarrow> EnclaveSharedData \<Rightarrow> (cond_wait \<times> EnclaveSharedData) cpp" where
  "pthread_cond_timedwait E a abstime s =
     (case abstime of
        None \<Rightarrow> Ret (WaitForever, s)
      | Some ts \<Rightarrow>
          let timeout = tv_sec ts * NS_PER_SEC + tv_nsec ts in
          cbind (real_time E a s) (\<lambda>(now, s').
            if timeout \<le> now then Ret (Return ETIMEDOUT, s')
            else Ret (WaitFor (to_timespec (timeout - now)), s')))"

section \<open>Threads interleaved with each other and the host\<close>

text \<open>
  Where a thread is inside \<open>real_time\<close>: before the first load of \<open>init\<close>, waiting for the spin lock
  of \<open>init\<close>, holding it before the second load, holding it during the OCall, before the copy of the
  host's block, waiting for the spin lock of \<open>real_time\<close> with the copied time, holding it. A thread
  outside is \<open>Idle\<close>.
\<close>

datatype clock_pc = Idle | Load | LockInit | Check | Ocall | Copy | LockTime u64 | Update u64

record clock_sys = EnclaveSharedData +
  spinlock :: "nat option"
  pc :: "nat \<Rightarrow> clock_pc"
  aborted :: bool
  returned :: "u64 list"

definition clock_sys_new :: clock_sys where
  "clock_sys_new = EnclaveSharedData.extend EnclaveSharedData_new
     \<lparr>spinlock = None, pc = (\<lambda>_. Idle), aborted = False, returned = []\<rparr>"

definition goto :: "nat \<Rightarrow> clock_pc \<Rightarrow> clock_sys \<Rightarrow> clock_sys" where
  "goto t c s = s\<lparr>pc := (pc s)(t := c)\<rparr>"

text \<open>\<open>sgx_scoped_lock\<close>: the constructor spins until the lock is free, the destructor releases it.\<close>

definition scoped_lock :: "nat \<Rightarrow> clock_sys \<Rightarrow> clock_sys" where
  "scoped_lock t s = s\<lparr>spinlock := Some t\<rparr>"

definition scoped_unlock :: "clock_sys \<Rightarrow> clock_sys" where
  "scoped_unlock s = s\<lparr>spinlock := None\<rparr>"

text \<open>
  One step of a thread inside \<open>real_time\<close>. The host chooses the answer to the OCall (\<open>ok\<close>, \<open>p\<close>) and
  the contents of its memory (\<open>mem\<close>) freely in every step.
\<close>

inductive clock_internal :: "clock_env \<Rightarrow> clock_sys \<Rightarrow> clock_sys \<Rightarrow> bool" for E where
  Load: "\<not> aborted s \<Longrightarrow> pc s t = Load \<Longrightarrow>
    clock_internal E s (goto t (if shared_data s \<noteq> 0 then Copy else LockInit) s)"
| LockInit: "\<not> aborted s \<Longrightarrow> pc s t = LockInit \<Longrightarrow> spinlock s = None \<Longrightarrow>
    clock_internal E s (goto t Check (scoped_lock t s))"
| Check: "\<not> aborted s \<Longrightarrow> pc s t = Check \<Longrightarrow>
    clock_internal E s (if shared_data s \<noteq> 0 then goto t Copy (scoped_unlock s) else goto t Ocall s)"
| Ocall: "\<not> aborted s \<Longrightarrow> pc s t = Ocall \<Longrightarrow> init_ocall E ok p s = Ret s' \<Longrightarrow>
    clock_internal E s (goto t Copy (scoped_unlock s'))"
| OcallAbort: "\<not> aborted s \<Longrightarrow> pc s t = Ocall \<Longrightarrow> init_ocall E ok p s = Abort \<Longrightarrow>
    clock_internal E s (s\<lparr>aborted := True\<rparr>)"
| Copy: "\<not> aborted s \<Longrightarrow> pc s t = Copy \<Longrightarrow> getSharedData E mem s = Ret rt \<Longrightarrow>
    clock_internal E s (goto t (LockTime rt) s)"
| CopyAbort: "\<not> aborted s \<Longrightarrow> pc s t = Copy \<Longrightarrow> getSharedData E mem s = Abort \<Longrightarrow>
    clock_internal E s (s\<lparr>aborted := True\<rparr>)"
| LockTime: "\<not> aborted s \<Longrightarrow> pc s t = LockTime rt \<Longrightarrow> spinlock s = None \<Longrightarrow>
    clock_internal E s (goto t (Update rt) (scoped_lock t s))"
| Update: "\<not> aborted s \<Longrightarrow> pc s t = Update rt \<Longrightarrow> now = advance_time rt (last_time s) \<Longrightarrow>
    clock_internal E s (goto t Idle (scoped_unlock (s\<lparr>last_time := now, returned := returned s @ [now]\<rparr>)))"

inductive clock_step :: "clock_env \<Rightarrow> clock_sys \<Rightarrow> clock_sys \<Rightarrow> bool" for E where
  Call: "\<not> aborted s \<Longrightarrow> pc s t = Idle \<Longrightarrow> clock_step E s (goto t Load s)"
| Internal: "clock_internal E s s' \<Longrightarrow> clock_step E s s'"

inductive_cases clock_stepE: "clock_step E s s'"
inductive_cases clock_internalE: "clock_internal E s s'"

lemmas clock_defs = goto_def scoped_lock_def scoped_unlock_def init_ocall_def

section \<open>Invariant\<close>

text \<open>The program points at which a thread holds the lock.\<close>

fun holds_lock :: "clock_pc \<Rightarrow> bool" where
  "holds_lock Check = True"
| "holds_lock Ocall = True"
| "holds_lock (Update rt) = True"
| "holds_lock _ = False"

text \<open>The spin lock is held by the one thread, if any, that is at such a point.\<close>

definition lock_ok :: "nat option \<Rightarrow> (nat \<Rightarrow> clock_pc) \<Rightarrow> bool" where
  "lock_ok l f \<longleftrightarrow> (\<forall>t. l = Some t \<longleftrightarrow> holds_lock (f t))"

lemma lock_ok_keep: "lock_ok l f \<Longrightarrow> holds_lock c = holds_lock (f t) \<Longrightarrow> lock_ok l (f(t := c))"
  by (simp add: lock_ok_def)

lemma lock_ok_acquire: "lock_ok None f \<Longrightarrow> holds_lock c \<Longrightarrow> lock_ok (Some t) (f(t := c))"
  by (auto simp: lock_ok_def)

lemma lock_ok_release: "lock_ok l f \<Longrightarrow> holds_lock (f t) \<Longrightarrow> \<not> holds_lock c \<Longrightarrow> lock_ok None (f(t := c))"
  unfolding lock_ok_def by (metis fun_upd_apply option.inject option.distinct(1))

lemma lock_ok_exclusive: "lock_ok l f \<Longrightarrow> holds_lock (f t) \<Longrightarrow> holds_lock (f u) \<Longrightarrow> t = u"
  unfolding lock_ok_def by (metis option.inject)

definition active :: "(nat \<Rightarrow> clock_pc) \<Rightarrow> nat set" where
  "active f = {t. f t \<noteq> Idle}"

lemma active_upd: "active (f(t := c)) = (if c = Idle then active f - {t} else insert t (active f))"
  by (auto simp: active_def)

text \<open>No time returned so far came within a microsecond of the largest value of the counter.\<close>

definition below_wrap :: "u64 list \<Rightarrow> bool" where
  "below_wrap ts \<longleftrightarrow> (\<forall>v\<in>set ts. unat v + 1000 < 2 ^ 64)"

definition clock_inv :: "clock_env \<Rightarrow> clock_sys \<Rightarrow> bool" where
  "clock_inv E s \<longleftrightarrow>
     lock_ok (spinlock s) (pc s) \<and> finite (active (pc s)) \<and>
     (shared_data s = 0 \<or> outside_enclave E (shared_data s)) \<and>
     (\<forall>t. pc s t = Ocall \<longrightarrow> shared_data s = 0) \<and>
     (returned s \<noteq> [] \<longrightarrow> last_time s = last (returned s)) \<and>
     (below_wrap (returned s) \<longrightarrow> sorted_wrt (<) (returned s))"

lemma advance_time_increases:
  assumes "unat l + 1000 < 2 ^ 64"
  shows "l < advance_time rt l"
  using assms by (auto simp: advance_time_def ONE_USEC_def word_less_nat_alt unat_word_ariths)

lemma sorted_wrt_snoc_last:
  fixes xs :: "'b::preorder list"
  assumes "sorted_wrt (<) xs" and "xs \<noteq> [] \<Longrightarrow> last xs < y"
  shows "sorted_wrt (<) (xs @ [y])"
proof -
  have "x < y" if "x \<in> set xs" for x
  proof -
    have "x \<le> last xs"
      using that assms(1)
      by (cases xs rule: rev_cases) (auto simp: sorted_wrt_append intro: less_imp_le)
    moreover have "last xs < y" using that by (intro assms(2)) auto
    ultimately show ?thesis by (rule le_less_trans)
  qed
  then show ?thesis using assms(1) by (simp add: sorted_wrt_append)
qed

lemma returned_sorted_step:
  assumes "returned s \<noteq> [] \<longrightarrow> last_time s = last (returned s)"
    and "below_wrap (returned s) \<longrightarrow> sorted_wrt (<) (returned s)"
    and "below_wrap (returned s @ [advance_time rt (last_time s)])"
  shows "sorted_wrt (<) (returned s @ [advance_time rt (last_time s)])"
proof (rule sorted_wrt_snoc_last)
  show "sorted_wrt (<) (returned s)" using assms(2,3) by (simp add: below_wrap_def)
  show "last (returned s) < advance_time rt (last_time s)" if "returned s \<noteq> []"
    using assms(1,3) that by (auto simp: below_wrap_def intro!: advance_time_increases)
qed

lemma clock_inv_new: "clock_inv E clock_sys_new"
  by (simp add: clock_inv_def clock_sys_new_def EnclaveSharedData_new_def
      EnclaveSharedData.extend_def below_wrap_def lock_ok_def active_def)

lemma no_other_Ocall:
  assumes "lock_ok l f" and "holds_lock (f t)"
  shows "\<forall>u. u \<noteq> t \<longrightarrow> f u \<noteq> Ocall"
  using lock_ok_exclusive [OF assms] by (metis holds_lock.simps(2))

lemma clock_inv_internal:
  assumes "clock_internal E s s'" and "clock_inv E s"
  shows "clock_inv E s'"
  using assms
proof (induction rule: clock_internal.induct)
  case (Update s t rt now)
  then show ?case
    using returned_sorted_step [of s rt] lock_ok_release [of "spinlock s" "pc s" t Idle]
    by (simp add: clock_inv_def clock_defs active_upd) blast
next
  case (Ocall s t ok p s')
  then show ?case
    using no_other_Ocall [of "spinlock s" "pc s" t] lock_ok_release [of "spinlock s" "pc s" t Copy]
    by (auto simp: clock_inv_def clock_defs active_upd split: if_split_asm)
next
  case (Check s t)
  then show ?case
    using lock_ok_release [of "spinlock s" "pc s" t Copy] lock_ok_keep [of "spinlock s" "pc s" Ocall t]
    by (simp add: clock_inv_def clock_defs active_upd) blast
qed (auto simp: clock_inv_def clock_defs active_upd intro: lock_ok_keep lock_ok_acquire)

lemma clock_inv_step: "clock_inv E s \<Longrightarrow> clock_step E s s' \<Longrightarrow> clock_inv E s'"
  by (erule clock_stepE) (auto simp: clock_inv_internal, auto simp: clock_inv_def clock_defs active_upd intro: lock_ok_keep)

interpretation enclave_clock: kept_invariant "clock_step E" "clock_inv E" for E
  by unfold_locales (rule clock_inv_step)

text \<open>The address, once stored, is never replaced.\<close>

lemma shared_data_internal:
  assumes "clock_internal E s s'" and "clock_inv E s" and "shared_data s \<noteq> 0"
  shows "shared_data s' = shared_data s"
  using assms
  by (induction rule: clock_internal.induct) (auto simp: clock_defs clock_inv_def split: if_split_asm)

lemma shared_data_fixed:
  assumes "(clock_step E)\<^sup>*\<^sup>* s s'" and "clock_inv E s" and "shared_data s \<noteq> 0"
  shows "shared_data s' = shared_data s"
  using assms
proof (induction rule: rtranclp_induct)
  case (step y z)
  have "shared_data z = shared_data y"
    using step.hyps(2) shared_data_internal [of E y z] step enclave_clock.reachable_inv [OF step.hyps(1)]
    by (auto elim!: clock_stepE simp: clock_defs)
  then show ?case using step by simp
qed simp

section \<open>Progress\<close>

text \<open>
  How many steps a call still takes, at most, and the sum of it over the calls under way. An abort
  counts as one step.
\<close>

fun steps_left :: "clock_pc \<Rightarrow> nat" where
  "steps_left Idle = 0"
| "steps_left Load = 7"
| "steps_left LockInit = 6"
| "steps_left Check = 5"
| "steps_left Ocall = 4"
| "steps_left Copy = 3"
| "steps_left (LockTime rt) = 2"
| "steps_left (Update rt) = 1"

definition work :: "(nat \<Rightarrow> clock_pc) \<Rightarrow> nat" where
  "work f = (\<Sum>t\<in>active f. steps_left (f t))"

definition potential :: "clock_sys \<Rightarrow> nat" where
  "potential s = work (pc s) + (if aborted s then 0 else 1)"

lemma steps_left_0 [simp]: "steps_left c = 0 \<longleftrightarrow> c = Idle"
  by (cases c) auto

lemma steps_left_le: "steps_left c \<le> 7"
  by (cases c) auto

lemma work_upd:
  assumes "finite (active f)" and "f t \<noteq> Idle"
  shows "work (f(t := c)) + steps_left (f t) = work f + steps_left c"
proof -
  have t: "t \<in> active f" using assms(2) by (simp add: active_def)
  have "work (f(t := c)) = steps_left c + (\<Sum>u\<in>active f - {t}. steps_left (f u))"
    using t by (cases "c = Idle")
      (auto simp: work_def active_upd insert_absorb sum.remove [OF assms(1) t] intro!: sum.cong)
  moreover have "work f = steps_left (f t) + (\<Sum>u\<in>active f - {t}. steps_left (f u))"
    unfolding work_def by (rule sum.remove [OF assms(1) t])
  ultimately show ?thesis by simp
qed

lemma work_decreases:
  "finite (active f) \<Longrightarrow> steps_left c < steps_left (f t) \<Longrightarrow> work (f(t := c)) < work f"
  using work_upd [of f t c] by (cases "f t = Idle") auto

lemma potential_decreases:
  assumes "clock_internal E s s'" and "finite (active (pc s))"
  shows "potential s' < potential s"
  using assms
  by (induction rule: clock_internal.induct)
    (auto simp: potential_def clock_defs intro!: work_decreases split: if_split_asm)

lemma potential_le: "finite (active (pc s)) \<Longrightarrow> potential s \<le> 7 * card (active (pc s)) + 1"
  using sum_bounded_above [of "active (pc s)" "\<lambda>t. steps_left (pc s t)" 7] steps_left_le
  by (simp add: potential_def work_def mult.commute)

lemma internal_run:
  assumes "(clock_internal E ^^ n) s s'" and "clock_inv E s"
  shows "clock_inv E s' \<and> n + potential s' \<le> potential s"
  using assms
proof (induction n arbitrary: s')
  case (Suc n)
  then obtain r where r: "(clock_internal E ^^ n) s r" "clock_internal E r s'" by auto
  then have i: "clock_inv E r" "n + potential r \<le> potential s" using Suc by auto
  then have "potential s' < potential r" using r(2) by (auto simp: clock_inv_def intro: potential_decreases)
  then show ?case using i r(2) clock_inv_internal by fastforce
qed simp

lemma init_ocall_cases: "(\<exists>s'. init_ocall E ok p s = Ret s') \<or> init_ocall E ok p s = Abort"
  by (simp add: init_ocall_def)

lemma getSharedData_cases: "(\<exists>v. getSharedData E mem s = Ret v) \<or> getSharedData E mem s = Abort"
  by (simp add: getSharedData_def Let_def)

lemma internal_enabled:
  assumes "\<not> aborted s" and "pc s t \<noteq> Idle"
    and "spinlock s = None \<or> holds_lock (pc s t) \<or> pc s t = Load \<or> pc s t = Copy"
  shows "\<exists>s'. clock_internal E s s'"
proof (cases "pc s t")
  case Ocall
  then show ?thesis
    using assms(1) init_ocall_cases [of E True 0 s] by (blast intro: clock_internal.intros)
next
  case Copy
  then show ?thesis
    using assms(1) getSharedData_cases [of E "\<lambda>_. 0" s] by (blast intro: clock_internal.intros)
next
  case Load
  then show ?thesis using assms(1) clock_internal.Load by blast
next
  case Check
  then show ?thesis using assms(1) clock_internal.Check by blast
next
  case (Update rt)
  then show ?thesis using assms(1) clock_internal.Update by blast
qed (use assms in \<open>auto intro: clock_internal.LockInit clock_internal.LockTime\<close>)

lemma no_step_done:
  assumes "clock_inv E s" and "\<not> (\<exists>s'. clock_internal E s s')"
  shows "aborted s \<or> (\<forall>t. pc s t = Idle)"
proof (rule ccontr)
  assume "\<not> ?thesis"
  then obtain t where t: "\<not> aborted s" "pc s t \<noteq> Idle" by auto
  show False
  proof (cases "spinlock s")
    case None
    then show False using internal_enabled t assms(2) by blast
  next
    case (Some u)
    then have "holds_lock (pc s u)" using assms(1) by (auto simp: clock_inv_def lock_ok_def)
    then show False using internal_enabled [of s u E] t(1) assms(2) by fastforce
  qed
qed

section \<open>A sequential call is a run of the steps\<close>

lemma clock_stepsI: "clock_step E s r \<Longrightarrow> (clock_step E)\<^sup>*\<^sup>* r s' \<Longrightarrow> (clock_step E)\<^sup>*\<^sup>* s s'"
  by (rule converse_rtranclp_into_rtranclp)

lemma run_from_Copy:
  assumes "\<not> aborted s" "pc s t = Copy" "spinlock s = None" "getSharedData E mem s = Ret rt"
    and "now = advance_time rt (last_time s)"
  shows "(clock_step E)\<^sup>*\<^sup>* s (goto t Idle (s\<lparr>last_time := now, returned := returned s @ [now]\<rparr>))"
proof -
  let ?a = "goto t (LockTime rt) s" and ?b = "goto t (Update rt) (scoped_lock t (goto t (LockTime rt) s))"
  have "clock_step E s ?a" using assms by (intro clock_step.Internal clock_internal.Copy)
  moreover have "clock_step E ?a ?b"
    using assms by (intro clock_step.Internal clock_internal.LockTime) (auto simp: clock_defs)
  moreover have "clock_step E ?b (goto t Idle (scoped_unlock (?b\<lparr>last_time := now, returned := returned ?b @ [now]\<rparr>)))"
    using assms by (intro clock_step.Internal clock_internal.Update) (auto simp: clock_defs)
  moreover have "goto t Idle (scoped_unlock (?b\<lparr>last_time := now, returned := returned ?b @ [now]\<rparr>))
      = goto t Idle (s\<lparr>last_time := now, returned := returned s @ [now]\<rparr>)"
    using assms by (simp add: clock_defs)
  ultimately show ?thesis by (metis clock_stepsI rtranclp.rtrancl_refl)
qed

lemma run_to_Copy:
  assumes "\<not> aborted s" "pc s t = Idle" "spinlock s = None"
    and "esd_init E a (EnclaveSharedData.truncate s) = Ret c"
  shows "(clock_step E)\<^sup>*\<^sup>* s (goto t Copy (s\<lparr>shared_data := shared_data c\<rparr>))"
proof (cases "shared_data s = 0")
  case False
  then have c: "shared_data c = shared_data s"
    using assms(4) by (auto simp: esd_init_def EnclaveSharedData.truncate_def)
  have "clock_step E s (goto t Load s)" using assms by (intro clock_step.Call)
  moreover have "clock_step E (goto t Load s) (goto t (if shared_data (goto t Load s) \<noteq> 0 then Copy else LockInit) (goto t Load s))"
    using assms by (intro clock_step.Internal clock_internal.Load) (auto simp: clock_defs)
  moreover have "goto t (if shared_data (goto t Load s) \<noteq> 0 then Copy else LockInit) (goto t Load s)
      = goto t Copy (s\<lparr>shared_data := shared_data c\<rparr>)"
    using False c by (simp add: clock_defs)
  ultimately show ?thesis by (metis clock_stepsI rtranclp.rtrancl_refl)
next
  case True
  define s1 where "s1 = goto t Load s"
  define s2 where "s2 = goto t LockInit s1"
  define s3 where "s3 = goto t Check (scoped_lock t s2)"
  define s4 where "s4 = goto t Ocall s3"
  note d = s1_def s2_def s3_def s4_def goto_def scoped_lock_def scoped_unlock_def
  have 1: "clock_step E s s1" using assms by (simp add: s1_def clock_step.Call)
  have 2: "clock_step E s1 s2"
    using assms True clock_internal.Load [of s1 t E] by (auto intro: clock_step.Internal simp: d)
  have 3: "clock_step E s2 s3"
    using assms True clock_internal.LockInit [of s2 t E] by (auto intro: clock_step.Internal simp: d)
  have 4: "clock_step E s3 s4"
    using assms True clock_internal.Check [of s3 t E] by (auto intro: clock_step.Internal simp: d)
  have "init_ocall E (ocall_ok a) (ocall_ptr a) s4 = Ret (s4\<lparr>shared_data := shared_data c\<rparr>)"
    using assms(4) True
    by (auto simp: esd_init_def init_ocall_def EnclaveSharedData.truncate_def d split: if_split_asm)
  then have 5: "clock_step E s4 (goto t Copy (scoped_unlock (s4\<lparr>shared_data := shared_data c\<rparr>)))"
    using assms by (intro clock_step.Internal clock_internal.Ocall) (auto simp: d)
  have "goto t Copy (scoped_unlock (s4\<lparr>shared_data := shared_data c\<rparr>)) = goto t Copy (s\<lparr>shared_data := shared_data c\<rparr>)"
    using assms by (simp add: d)
  then show ?thesis using 1 2 3 4 5 by (metis clock_stepsI rtranclp.rtrancl_refl)
qed

lemma real_time_by_steps:
  assumes "\<not> aborted s" "pc s t = Idle" "spinlock s = None"
    and "real_time E a (EnclaveSharedData.truncate s) = Ret (v, c)"
  shows "(clock_step E)\<^sup>*\<^sup>* s (s\<lparr>shared_data := shared_data c, last_time := v, returned := returned s @ [v]\<rparr>)"
proof -
  let ?c = "goto t Copy (s\<lparr>shared_data := shared_data c\<rparr>)"
  obtain c1 rt where c1: "esd_init E a (EnclaveSharedData.truncate s) = Ret c1"
    and rt: "getSharedData E (host_memory a) c1 = Ret rt"
    and v: "v = advance_time rt (last_time c1)" and c: "c = c1\<lparr>last_time := v\<rparr>"
    using assms(4) by (auto simp: real_time_def Let_def)
  have eq: "shared_data c1 = shared_data c" "last_time c1 = last_time s"
    using c c1 by (auto simp: esd_init_def init_ocall_def EnclaveSharedData.truncate_def split: if_split_asm)
  have 1: "(clock_step E)\<^sup>*\<^sup>* s ?c" using run_to_Copy [OF assms(1-3) c1] eq by simp
  have 2: "(clock_step E)\<^sup>*\<^sup>* ?c (goto t Idle (?c\<lparr>last_time := v, returned := returned ?c @ [v]\<rparr>))"
    by (rule run_from_Copy [of _ _ _ "host_memory a" rt])
      (use assms rt v eq in \<open>auto simp: goto_def getSharedData_def\<close>)
  have 3: "goto t Idle (?c\<lparr>last_time := v, returned := returned ?c @ [v]\<rparr>)
      = s\<lparr>shared_data := shared_data c, last_time := v, returned := returned s @ [v]\<rparr>"
    by (simp add: goto_def fun_upd_idem [of "pc s", OF assms(2)])
  show ?thesis using rtranclp_trans [OF 1 2] by (simp only: 3)
qed

section \<open>Conversions\<close>

definition ns_of :: "timespec \<Rightarrow> nat" where
  "ns_of ts = unat (tv_sec ts) * 10 ^ 9 + unat (tv_nsec ts)"

lemma unat_NS_PER_SEC [simp]: "unat NS_PER_SEC = 10 ^ 9"
  by (simp add: NS_PER_SEC_def)

lemma to_timespec_ns: "ns_of (to_timespec ns) = unat ns \<and> unat (tv_nsec (to_timespec ns)) < 10 ^ 9"
  by (simp add: ns_of_def to_timespec_def unat_div unat_mod del: One_nat_def)

lemma ns_of_wrapping:
  assumes "ns_of ts < 2 ^ 64"
  shows "unat (tv_sec ts * NS_PER_SEC + tv_nsec ts) = ns_of ts"
proof -
  have m: "unat (tv_sec ts * NS_PER_SEC) = unat (tv_sec ts) * 10 ^ 9"
    using assms unat_mult_no_wrap [of "tv_sec ts" NS_PER_SEC] by (simp add: ns_of_def)
  show ?thesis
    using assms unat_add_no_wrap [of "tv_sec ts * NS_PER_SEC" "tv_nsec ts"] by (simp add: ns_of_def m)
qed

section \<open>Properties\<close>

text \<open>An honest host with one block at 4096, for the examples.\<close>

definition example_clock_env :: clock_env where
  "example_clock_env = \<lparr>outside_enclave = (\<lambda>p. p < 65536), jni_throw_returns = True\<rparr>"

definition example_answer :: "u64 \<Rightarrow> host_answer" where
  "example_answer v = \<lparr>ocall_ok = True, ocall_ptr = 4096, host_memory = (\<lambda>_. v)\<rparr>"

lemma example_clock_run:
  "(clock_step example_clock_env)\<^sup>*\<^sup>* clock_sys_new
     (clock_sys_new\<lparr>shared_data := 4096, last_time := 1500, returned := [500, 1500]\<rparr>)"
proof -
  let ?E = example_clock_env
  have "(clock_step ?E)\<^sup>*\<^sup>* clock_sys_new
      (clock_sys_new\<lparr>shared_data := 4096, last_time := 500, returned := [500]\<rparr>)"
    using real_time_by_steps [of clock_sys_new 0 ?E "example_answer 500" 500 "\<lparr>shared_data = 4096, last_time = 500\<rparr>"]
    by (simp add: clock_sys_new_def EnclaveSharedData_new_def EnclaveSharedData.defs real_time_def esd_init_def
        init_ocall_def getSharedData_def example_answer_def example_clock_env_def advance_time_def)
  moreover have "(clock_step ?E)\<^sup>*\<^sup>* (clock_sys_new\<lparr>shared_data := 4096, last_time := 500, returned := [500]\<rparr>)
      (clock_sys_new\<lparr>shared_data := 4096, last_time := 1500, returned := [500, 1500]\<rparr>)"
    using real_time_by_steps [of "clock_sys_new\<lparr>shared_data := 4096, last_time := 500, returned := [500]\<rparr>" 7 ?E
        "example_answer 400" 1500 "\<lparr>shared_data = 4096, last_time = 1500\<rparr>"]
    by (simp add: clock_sys_new_def EnclaveSharedData_new_def EnclaveSharedData.defs real_time_def esd_init_def
        init_ocall_def getSharedData_def example_answer_def example_clock_env_def advance_time_def ONE_USEC_def)
  ultimately show ?thesis by (rule rtranclp_trans)
qed

text \<open>C27: Whatever the host writes into the shared block and answers to the OCall, and however
  the threads that call \<open>real_time\<close> interleave, the times returned form a strictly increasing
  sequence, as long as the counter stays a microsecond away from its largest value.\<close>

theorem clock_runs_forward:
  assumes "(clock_step E)\<^sup>*\<^sup>* clock_sys_new s" and "below_wrap (returned s)"
  shows "sorted_wrt (<) (returned s)"
  using enclave_clock.reachable_inv [OF assms(1) clock_inv_new] assms(2) by (simp add: clock_inv_def)

theorem clock_runs_forward_witness: "sorted_wrt (<) [500, 1500 :: u64]"
  using clock_runs_forward [OF example_clock_run] by (simp add: below_wrap_def)

text \<open>The address of the host's block is checked before it is stored and stored once: in
  every reachable state it is null or outside the enclave, and no later step of any thread replaces
  it, although several threads may find it null at the same time.\<close>

theorem clock_address_fixed:
  assumes "(clock_step E)\<^sup>*\<^sup>* clock_sys_new s" and "(clock_step E)\<^sup>*\<^sup>* s s'" and "shared_data s \<noteq> 0"
  shows "outside_enclave E (shared_data s) \<and> shared_data s' = shared_data s"
proof -
  have i: "clock_inv E s" by (rule enclave_clock.reachable_inv [OF assms(1) clock_inv_new])
  then show ?thesis using shared_data_fixed [OF assms(2) i assms(3)] assms(3) by (simp add: clock_inv_def)
qed

theorem clock_address_fixed_witness: "outside_enclave example_clock_env 4096"
  using clock_address_fixed [OF example_clock_run rtranclp.rtrancl_refl] by simp



text \<open>\<open>pthread_cond_timedwait\<close> turns an absolute deadline into the time that is left of it:
  a deadline that has passed gives \<open>ETIMEDOUT\<close>, any other waits for exactly the difference to the
  clock's time, normalised to nanoseconds below a second.\<close>

theorem timedwait_relative:
  assumes "ns_of ts < 2 ^ 64" and "real_time E a s = Ret (now, s')"
  shows "if ns_of ts \<le> unat now
    then pthread_cond_timedwait E a (Some ts) s = Ret (Return ETIMEDOUT, s')
    else \<exists>r. pthread_cond_timedwait E a (Some ts) s = Ret (WaitFor r, s')
      \<and> ns_of r = ns_of ts - unat now \<and> unat (tv_nsec r) < 10 ^ 9"
proof -
  let ?t = "tv_sec ts * NS_PER_SEC + tv_nsec ts"
  have t: "unat ?t = ns_of ts" by (rule ns_of_wrapping [OF assms(1)])
  have le: "?t \<le> now \<longleftrightarrow> ns_of ts \<le> unat now" by (simp add: word_le_nat_alt t)
  have run: "pthread_cond_timedwait E a (Some ts) s =
      (if ?t \<le> now then Ret (Return ETIMEDOUT, s') else Ret (WaitFor (to_timespec (?t - now)), s'))"
    using assms(2) by (simp add: pthread_cond_timedwait_def Let_def)
  have "unat (?t - now) = ns_of ts - unat now" if "\<not> ?t \<le> now"
    using that t by (simp add: unat_minus_le)
  then show ?thesis using to_timespec_ns [of "?t - now"] run le by auto
qed

theorem timedwait_relative_witness:
  "\<exists>r. pthread_cond_timedwait example_clock_env (example_answer 1700000000) (Some \<lparr>tv_sec = 3, tv_nsec = 5\<rparr>)
      EnclaveSharedData_new = Ret (WaitFor r, \<lparr>shared_data = 4096, last_time = 1700000000\<rparr>)
    \<and> ns_of r = 1300000005 \<and> unat (tv_nsec r) < 10 ^ 9"
  using timedwait_relative [of "\<lparr>tv_sec = 3, tv_nsec = 5\<rparr>" example_clock_env "example_answer 1700000000"
      EnclaveSharedData_new 1700000000 "\<lparr>shared_data = 4096, last_time = 1700000000\<rparr>"]
  by (simp add: ns_of_def EnclaveSharedData_new_def real_time_def esd_init_def init_ocall_def getSharedData_def
      example_answer_def example_clock_env_def advance_time_def)

text \<open>The counter does wrap when the host names a time near its end.\<close>

lemma clock_wraps: "advance_time 5 (- 1) = 999"
  by (simp add: advance_time_def ONE_USEC_def)

end
