(* ===== verification/Host_Clock.thy ===== *)
theory Host_Clock
  imports Enclave_Clock
begin

text \<open>
  \<open>HostSharedData\<close> (host\_shared\_data.cpp): the host's side of the clock. It keeps one block per
  enclave and a thread that writes the time of the host into all of them ten times a second while
  there is at least one enclave. \<open>shared_data_ocall\<close> (host\_jni.cpp) hands a block to its enclave.
\<close>

text \<open>
  The map from enclaves to their blocks, the contents of the blocks, the master copy and whether the
  update thread is running, which it is exactly while \<open>initialised_\<close> is set.
\<close>

record HostSharedData =
  initialised :: bool
  blocks :: "(u64 \<times> ptr) list"
  block_time :: "ptr \<Rightarrow> u64"
  master_sd :: u64

definition HostSharedData_new :: HostSharedData where
  "HostSharedData_new = \<lparr>initialised = False, blocks = [], block_time = (\<lambda>_. 0), master_sd = 0\<rparr>"

definition TIMESPEC_TO_NS :: "timespec \<Rightarrow> u64" where
  "TIMESPEC_TO_NS t = tv_sec t * 1000 * 1000 * 1000 + tv_nsec t"

text \<open>\<open>clock_gettime\<close> of the host fails (\<open>None\<close>) or gives its time.\<close>

definition hsd_update :: "timespec option \<Rightarrow> HostSharedData \<Rightarrow> HostSharedData" where
  "hsd_update tm h = h\<lparr>master_sd := (case tm of None \<Rightarrow> 0 | Some t \<Rightarrow> TIMESPEC_TO_NS t)\<rparr>"

definition hsd_init :: "timespec option \<Rightarrow> HostSharedData \<Rightarrow> HostSharedData" where
  "hsd_init tm h = (if initialised h then h else hsd_update tm (h\<lparr>initialised := True\<rparr>))"

text \<open>One round of the update thread, under the lock; it stops once \<open>initialised_\<close> is reset.\<close>

definition hsd_tick :: "timespec option \<Rightarrow> HostSharedData \<Rightarrow> HostSharedData" where
  "hsd_tick tm h =
     (if initialised h then
        let h1 = hsd_update tm h in
        h1\<lparr>block_time := (\<lambda>p. if p \<in> snd ` set (blocks h1) then master_sd h1 else block_time h1 p)\<rparr>
      else h)"

text \<open>\<open>get\<close>; \<open>p\<close> is the address of the block that is allocated for a new enclave.\<close>

definition hsd_get :: "u64 \<Rightarrow> ptr \<Rightarrow> timespec option \<Rightarrow> HostSharedData \<Rightarrow> ptr \<times> HostSharedData" where
  "hsd_get enclave p tm h =
     (case map_of (blocks h) enclave of
        Some q \<Rightarrow> (q, h)
      | None \<Rightarrow>
          let h1 = hsd_init tm h in
          (p, h1\<lparr>blocks := AList.update enclave p (blocks h1), block_time := (block_time h1)(p := 0)\<rparr>))"

text \<open>\<open>shared_data_ocall\<close> names the block of the calling enclave.\<close>

definition shared_data_ocall :: "u64 \<Rightarrow> ptr \<Rightarrow> timespec option \<Rightarrow> HostSharedData \<Rightarrow> ptr \<times> HostSharedData" where
  "shared_data_ocall enclave p tm h = hsd_get enclave p tm h"

text \<open>\<open>free\<close> releases the mutex between its two halves: other calls may run in between.\<close>

definition hsd_free_locked :: "u64 \<Rightarrow> HostSharedData \<Rightarrow> bool \<times> HostSharedData" where
  "hsd_free_locked enclave h =
     (let h1 = h\<lparr>blocks := AList.delete enclave (blocks h)\<rparr> in (blocks h1 = [], h1))"

definition hsd_deinit :: "HostSharedData \<Rightarrow> HostSharedData" where
  "hsd_deinit h = (if initialised h then h\<lparr>initialised := False\<rparr> else h)"

definition hsd_free :: "u64 \<Rightarrow> HostSharedData \<Rightarrow> HostSharedData" where
  "hsd_free enclave h =
     (case hsd_free_locked enclave h of (need_deinit, h1) \<Rightarrow> if need_deinit then hsd_deinit h1 else h1)"

lemmas hsd_defs = hsd_update_def hsd_init_def hsd_tick_def hsd_get_def hsd_free_locked_def hsd_deinit_def
  hsd_free_def shared_data_ocall_def

section \<open>Invariant of the calls\<close>

datatype hsd_op = Get u64 ptr "timespec option" | Free u64 | Tick "timespec option"

fun hsd_exec :: "hsd_op \<Rightarrow> HostSharedData \<Rightarrow> HostSharedData" where
  "hsd_exec (Get e p tm) h = snd (hsd_get e p tm h)"
| "hsd_exec (Free e) h = hsd_free e h"
| "hsd_exec (Tick tm) h = hsd_tick tm h"

text \<open>A new block does not share its address with a live one.\<close>

fun hsd_allocates :: "HostSharedData \<Rightarrow> hsd_op \<Rightarrow> bool" where
  "hsd_allocates h (Get e p tm) = (p \<notin> snd ` set (blocks h))"
| "hsd_allocates h _ = True"

definition hsd_step :: "HostSharedData \<Rightarrow> HostSharedData \<Rightarrow> bool" where
  "hsd_step h h' \<longleftrightarrow> (\<exists>x. hsd_allocates h x \<and> h' = hsd_exec x h)"

text \<open>
  Every enclave has a block of its own, the thread runs exactly while there are enclaves.
\<close>

definition hsd_inv :: "HostSharedData \<Rightarrow> bool" where
  "hsd_inv h \<longleftrightarrow> umap_ok (blocks h) \<and> distinct (map snd (blocks h)) \<and> (initialised h \<longleftrightarrow> blocks h \<noteq> [])"

lemma hsd_inv_exec: "hsd_inv h \<Longrightarrow> hsd_allocates h x \<Longrightarrow> hsd_inv (hsd_exec x h)"
proof (induction x)
  case (Get e p tm)
  show ?case
  proof (cases "map_of (blocks h) e")
    case None
    then have "e \<notin> fst ` set (blocks h)" by (simp add: map_of_eq_None_iff)
    then show ?thesis using Get None by (auto simp: hsd_inv_def hsd_defs Let_def update_new [OF None])
  qed (use Get in \<open>auto simp: hsd_inv_def hsd_defs\<close>)
next
  case (Free e)
  have "distinct (map snd (AList.delete e (blocks h)))"
    using Free by (auto simp: hsd_inv_def AList.delete_eq distinct_map inj_on_def)
  then show ?case using Free by (auto simp: hsd_inv_def hsd_defs Let_def)
next
  case (Tick tm)
  then show ?case by (simp add: hsd_inv_def hsd_defs Let_def)
qed

interpretation host_clock: kept_invariant hsd_step hsd_inv
  by unfold_locales (auto simp: hsd_step_def intro: hsd_inv_exec)

section \<open>Properties\<close>

lemma TIMESPEC_TO_NS_ns:
  assumes "ns_of t < 2 ^ 64"
  shows "unat (TIMESPEC_TO_NS t) = ns_of t"
  using ns_of_wrapping [OF assms] by (simp add: TIMESPEC_TO_NS_def NS_PER_SEC_def mult.assoc)

text \<open>The time of the host reaches the enclave unchanged: after a round of the update thread,
  an enclave that has the address of its block and whose clock is behind the host's gets exactly
  the host's \<open>timespec\<close> from \<open>clock_gettime\<close>.\<close>

theorem host_time_reaches_enclave:
  assumes "initialised h" and "map_of (blocks h) enclave = Some p"
    and "outside_enclave E p" and "p \<noteq> 0" and "shared_data s = p"
    and "ns_of t < 2 ^ 64" and "unat (tv_nsec t) < 10 ^ 9" and "unat (last_time s) < ns_of t"
    and "host_memory a = block_time (hsd_tick (Some t) h)"
  shows "\<exists>s'. clock_gettime E a True s = Ret (0, Some t, s')"
proof -
  have "p \<in> snd ` set (blocks h)" using map_of_SomeD [OF assms(2)] by (force simp: image_iff)
  then have m: "host_memory a p = TIMESPEC_TO_NS t" using assms(1,9) by (simp add: hsd_defs Let_def)
  have n: "unat (TIMESPEC_TO_NS t) = ns_of t" by (rule TIMESPEC_TO_NS_ns [OF assms(6)])
  have "last_time s < TIMESPEC_TO_NS t" using assms(8) by (simp add: word_less_nat_alt n)
  then have r: "real_time E a s = Ret (TIMESPEC_TO_NS t, s\<lparr>last_time := TIMESPEC_TO_NS t\<rparr>)"
    using assms(3-5) m by (simp add: real_time_def esd_init_def getSharedData_def advance_time_def Let_def)
  have d: "(unat (tv_sec t) * 10 ^ 9 + unat (tv_nsec t)) div 10 ^ 9 = unat (tv_sec t)"
    and e: "(unat (tv_sec t) * 10 ^ 9 + unat (tv_nsec t)) mod 10 ^ 9 = unat (tv_nsec t)"
    using assms(7) by simp_all
  have "tv_sec (to_timespec (TIMESPEC_TO_NS t)) = tv_sec t" "tv_nsec (to_timespec (TIMESPEC_TO_NS t)) = tv_nsec t"
    using n d e by (simp_all only: to_timespec_def timespec.simps word_unat_eq_iff unat_div unat_mod unat_NS_PER_SEC ns_of_def)
  then have "to_timespec (TIMESPEC_TO_NS t) = t" by (cases t) (auto simp: to_timespec_def)
  then show ?thesis using r by (simp add: clock_gettime_def real_time_timespec_def)
qed

definition example_host_clock :: HostSharedData where
  "example_host_clock = snd (hsd_get 1 4096 None HostSharedData_new)"

theorem host_time_reaches_enclave_witness:
  "\<exists>s'. clock_gettime example_clock_env
      \<lparr>ocall_ok = True, ocall_ptr = 4096, host_memory = block_time (hsd_tick (Some \<lparr>tv_sec = 3, tv_nsec = 5\<rparr>) example_host_clock)\<rparr>
      True \<lparr>shared_data = 4096, last_time = 0\<rparr> = Ret (0, Some \<lparr>tv_sec = 3, tv_nsec = 5\<rparr>, s')"
  by (rule host_time_reaches_enclave [of example_host_clock 1 4096])
    (simp_all add: example_host_clock_def HostSharedData_new_def hsd_defs example_clock_env_def ns_of_def)

text \<open>Calls that run one after another give every enclave a block of its own and keep the update
  thread running exactly while there are enclaves. The mutex is however released inside \<open>free\<close>: a
  \<open>get\<close> for another enclave between its two halves leaves that enclave registered with no
  thread updating its block.\<close>

theorem hsd_thread_runs:
  assumes "hsd_step\<^sup>*\<^sup>* HostSharedData_new h"
  shows "(initialised h \<longleftrightarrow> blocks h \<noteq> []) \<and> distinct (map fst (blocks h)) \<and> distinct (map snd (blocks h))
    \<and> (\<forall>a b p tm. blocks h = [(a, q)] \<longrightarrow> a \<noteq> b \<longrightarrow>
         (case hsd_free_locked a h of (need_deinit, h1) \<Rightarrow>
          case hsd_get b p tm h1 of (r, h2) \<Rightarrow>
            need_deinit \<and> blocks (hsd_deinit h2) = [(b, p)] \<and> \<not> initialised (hsd_deinit h2)))"
proof -
  have "hsd_inv HostSharedData_new" by (simp add: hsd_inv_def HostSharedData_new_def)
  then have "hsd_inv h" by (rule host_clock.reachable_inv [OF assms])
  then show ?thesis by (auto simp: hsd_inv_def hsd_defs Let_def)
qed

lemma hsd_example_step: "hsd_step\<^sup>*\<^sup>* HostSharedData_new example_host_clock"
proof (rule r_into_rtranclp)
  show "hsd_step HostSharedData_new example_host_clock"
    unfolding hsd_step_def example_host_clock_def
    by (rule exI [of _ "Get 1 4096 None"]) (simp add: HostSharedData_new_def)
qed

theorem hsd_thread_runs_witness:
  "\<not> initialised (hsd_deinit (snd (hsd_get 2 8192 None (snd (hsd_free_locked 1 example_host_clock)))))"
  using hsd_thread_runs [OF hsd_example_step, of 4096]
  by (simp add: example_host_clock_def HostSharedData_new_def hsd_defs)

text \<open>
  A new block is not filled from the master copy: until the next round of the thread it holds 0,
  and the first time the enclave reads is one microsecond after the epoch.
\<close>

lemma first_time_is_one_usec:
  assumes "map_of (blocks h) enclave = None" and "hsd_get enclave p tm h = (q, h')"
    and "outside_enclave E p" and "p \<noteq> 0"
    and "ocall_ok a" and "ocall_ptr a = q" and "host_memory a = block_time h'"
  shows "real_time E a EnclaveSharedData_new = Ret (1000, \<lparr>shared_data = p, last_time = 1000\<rparr>)"
proof -
  have "q = p" "block_time h' p = 0" using assms(1,2) by (auto simp: hsd_get_def Let_def)
  then show ?thesis
    using assms by (simp add: real_time_def esd_init_def init_ocall_def getSharedData_def advance_time_def
        EnclaveSharedData_new_def ONE_USEC_def)
qed

end
