(* ===== verification/Enclave_Threads.thy ===== *)
theory Enclave_Threads
  imports Conclave_Prelude
begin

text \<open>
  The threads of the enclave (enclave\_thread.cpp, host\_start\_thread.cpp). The enclave cannot start
  a thread itself: \<open>create\<close> queues the runnable and asks the host for a thread in an OCall, the host
  enters the enclave with \<open>ecall_attach_thread\<close>, and the thread that came in takes the first runnable
  of the queue. A \<open>Thread::Impl\<close> tells its creator through a state and a condition variable how far
  the runnable has come; the factory counts the runnables in execution for its \<open>shutdown\<close>.

  Threads interleave at their locks and OCalls, so the model is a step relation; each step is a
  function on the state. The host is not trusted: it attaches threads and answers the OCall whenever
  and however it likes. Waiting on a condition variable is waiting for its predicate;
  \<open>set_state_on_start\<close> notifies nobody, but no caller of \<open>start\<close> or \<open>join\<close> has the thread before it
  has run.
\<close>

section \<open>State\<close>

datatype ThreadState = CREATED | STARTED | COMPLETED

text \<open>\<open>sgx_status_t\<close>: 0 is \<open>SGX_SUCCESS\<close>.\<close>

definition SGX_SUCCESS :: u32 where "SGX_SUCCESS = 0"

record thread_impl =
  state :: ThreadState
  sgx_status :: u32

text \<open>
  A thread the host sent in, between the parts of \<open>attach_host_thread\<close>: it has taken a runnable from
  the queue, told the host so, entered the checkpoint, set the state \<open>STARTED\<close> and runs the task, has
  finished the task, has set \<open>COMPLETED\<close> and leaves the checkpoint.
\<close>

datatype worker = Outside | Popped nat | Reported nat | Counted nat | Running nat | TaskDone nat | Leaving nat

text \<open>
  \<open>alive_checked\<close> are the runnables whose creation has passed \<open>aex_assert (is_alive ())\<close>, \<open>creating\<close>
  those whose \<open>create\<close> is in its OCall. \<open>task_log\<close> lists the tasks in the order in which they
  were started and \<open>finished\<close> those that have returned; nothing depends on the two.
\<close>

record thread_sys =
  impls :: "nat \<Rightarrow> thread_impl option"
  alive_checked :: "nat set"
  creating :: "nat set"
  queue :: "nat list"
  shutdown_started :: bool
  running_threads :: u64
  workers :: "nat \<Rightarrow> worker"
  terminated :: bool
  task_log :: "nat list"
  finished :: "nat set"

definition threads_new :: thread_sys where
  "threads_new = \<lparr>impls = (\<lambda>_. None), alive_checked = {}, creating = {}, queue = [], shutdown_started = False,
     running_threads = 0, workers = (\<lambda>_. Outside), terminated = False, task_log = [], finished = {}\<rparr>"

section \<open>Operations\<close>

definition Impl_new :: thread_impl where
  "Impl_new = \<lparr>state = CREATED, sgx_status = SGX_SUCCESS\<rparr>"

definition set_state :: "ThreadState \<Rightarrow> thread_impl \<Rightarrow> thread_impl" where
  "set_state st x = x\<lparr>state := st\<rparr>"

definition set_state_on_start :: "u32 \<Rightarrow> thread_impl \<Rightarrow> thread_impl" where
  "set_state_on_start status x =
     x\<lparr>state := (if status = SGX_SUCCESS then STARTED else COMPLETED), sgx_status := status\<rparr>"

definition on_impl :: "nat \<Rightarrow> (thread_impl \<Rightarrow> thread_impl) \<Rightarrow> thread_sys \<Rightarrow> thread_sys" where
  "on_impl r f s = s\<lparr>impls := (impls s)(r := map_option f (impls s r))\<rparr>"

definition move :: "nat \<Rightarrow> worker \<Rightarrow> thread_sys \<Rightarrow> thread_sys" where
  "move w c s = s\<lparr>workers := (workers s)(w := c)\<rparr>"

text \<open>The predicates of \<open>start\<close>, \<open>join\<close> and \<open>shutdown\<close>: the call returns once its predicate holds.\<close>

definition start_returns :: "nat \<Rightarrow> thread_sys \<Rightarrow> u32 option" where
  "start_returns r s = (case impls s r of
     Some x \<Rightarrow> if state x \<noteq> CREATED then Some (sgx_status x) else None
   | None \<Rightarrow> None)"

definition join_returns :: "nat \<Rightarrow> thread_sys \<Rightarrow> bool" where
  "join_returns r s \<longleftrightarrow> (\<exists>x. impls s r = Some x \<and> state x = COMPLETED)"

definition shutdown_returns :: "thread_sys \<Rightarrow> bool" where
  "shutdown_returns s \<longleftrightarrow> shutdown_started s \<and> running_threads s = 0"

definition is_alive :: "thread_sys \<Rightarrow> bool" where
  "is_alive s \<longleftrightarrow> \<not> shutdown_started s"

text \<open>\<open>EnclaveThreadFactory::create\<close>: the assertion, the part of \<open>create\<close> before its OCall, and after it.\<close>

definition create_check :: "nat \<Rightarrow> thread_sys \<Rightarrow> thread_sys" where
  "create_check r s =
     (if is_alive s then s\<lparr>alive_checked := insert r (alive_checked s)\<rparr> else s\<lparr>terminated := True\<rparr>)"

definition create_push :: "nat \<Rightarrow> thread_sys \<Rightarrow> thread_sys" where
  "create_push r s = s\<lparr>impls := (impls s)(r \<mapsto> Impl_new), queue := queue s @ [r], creating := insert r (creating s)\<rparr>"

definition create_return :: "nat \<Rightarrow> u32 \<Rightarrow> u32 \<Rightarrow> thread_sys \<Rightarrow> thread_sys" where
  "create_return r ret status s =
     (on_impl r (set_state_on_start (if ret = SGX_SUCCESS then status else ret)) s)\<lparr>creating := creating s - {r}\<rparr>"

text \<open>\<open>attach_host_thread\<close>: \<open>aex_assert\<close> ends the enclave when the queue is empty.\<close>

definition attach_pop :: "nat \<Rightarrow> thread_sys \<Rightarrow> thread_sys" where
  "attach_pop w s = (case queue s of
     [] \<Rightarrow> s\<lparr>terminated := True\<rparr>
   | r # q \<Rightarrow> move w (Popped r) (s\<lparr>queue := q\<rparr>))"

definition checkpoint_enter :: "thread_sys \<Rightarrow> thread_sys" where
  "checkpoint_enter s = s\<lparr>running_threads := running_threads s + 1\<rparr>"

definition detach_thread :: "thread_sys \<Rightarrow> thread_sys" where
  "detach_thread s = s\<lparr>running_threads := running_threads s - 1\<rparr>"

definition run_start :: "nat \<Rightarrow> thread_sys \<Rightarrow> thread_sys" where
  "run_start r s = (on_impl r (set_state STARTED) s)\<lparr>task_log := task_log s @ [r]\<rparr>"

definition run_task :: "nat \<Rightarrow> thread_sys \<Rightarrow> thread_sys" where
  "run_task r s = s\<lparr>finished := insert r (finished s)\<rparr>"

definition run_complete :: "nat \<Rightarrow> thread_sys \<Rightarrow> thread_sys" where
  "run_complete r s = on_impl r (set_state COMPLETED) s"

definition shutdown_begin :: "thread_sys \<Rightarrow> thread_sys" where
  "shutdown_begin s = s\<lparr>shutdown_started := True\<rparr>"

inductive thread_step :: "thread_sys \<Rightarrow> thread_sys \<Rightarrow> bool" where
  CreateCheck: "\<not> terminated s \<Longrightarrow> impls s r = None \<Longrightarrow> thread_step s (create_check r s)"
| CreatePush: "\<not> terminated s \<Longrightarrow> impls s r = None \<Longrightarrow> r \<in> alive_checked s \<Longrightarrow> thread_step s (create_push r s)"
| CreateReturn: "\<not> terminated s \<Longrightarrow> r \<in> creating s \<Longrightarrow> thread_step s (create_return r ret status s)"
| Attach: "\<not> terminated s \<Longrightarrow> workers s w = Outside \<Longrightarrow> thread_step s (attach_pop w s)"
| Report: "\<not> terminated s \<Longrightarrow> workers s w = Popped r \<Longrightarrow> thread_step s (move w (Reported r) s)"
| Enter: "\<not> terminated s \<Longrightarrow> workers s w = Reported r \<Longrightarrow> thread_step s (move w (Counted r) (checkpoint_enter s))"
| Start: "\<not> terminated s \<Longrightarrow> workers s w = Counted r \<Longrightarrow> thread_step s (move w (Running r) (run_start r s))"
| Task: "\<not> terminated s \<Longrightarrow> workers s w = Running r \<Longrightarrow> thread_step s (move w (TaskDone r) (run_task r s))"
| Complete: "\<not> terminated s \<Longrightarrow> workers s w = TaskDone r \<Longrightarrow> thread_step s (move w (Leaving r) (run_complete r s))"
| Detach: "\<not> terminated s \<Longrightarrow> workers s w = Leaving r \<Longrightarrow> thread_step s (move w Outside (detach_thread s))"
| Shutdown: "\<not> terminated s \<Longrightarrow> thread_step s (shutdown_begin s)"

inductive_cases thread_stepE: "thread_step s s'"

lemmas thread_defs = on_impl_def move_def create_check_def create_push_def create_return_def attach_pop_def
  checkpoint_enter_def detach_thread_def run_start_def run_task_def run_complete_def shutdown_begin_def
  set_state_def set_state_on_start_def Impl_new_def

section \<open>Invariant\<close>

text \<open>The runnable a thread carries before it has started it, and at all.\<close>

fun pending :: "worker \<Rightarrow> nat option" where
  "pending (Popped r) = Some r"
| "pending (Reported r) = Some r"
| "pending (Counted r) = Some r"
| "pending _ = None"

fun carries :: "worker \<Rightarrow> nat option" where
  "carries Outside = None"
| "carries (Popped r) = Some r"
| "carries (Reported r) = Some r"
| "carries (Counted r) = Some r"
| "carries (Running r) = Some r"
| "carries (TaskDone r) = Some r"
| "carries (Leaving r) = Some r"

fun counted :: "worker \<Rightarrow> bool" where
  "counted (Counted r) = True"
| "counted (Running r) = True"
| "counted (TaskDone r) = True"
| "counted (Leaving r) = True"
| "counted _ = False"

fun task_over :: "worker \<Rightarrow> nat option" where
  "task_over (TaskDone r) = Some r"
| "task_over _ = None"

text \<open>The threads inside the checkpoint.\<close>

definition inside :: "(nat \<Rightarrow> worker) \<Rightarrow> nat set" where
  "inside f = {w. counted (f w)}"

text \<open>
  Every runnable is in exactly one place: in the queue, carried by one thread that has not started
  it, or in the log of the started ones.
\<close>

definition placed_once :: "nat list \<Rightarrow> nat list \<Rightarrow> (nat \<Rightarrow> worker) \<Rightarrow> bool" where
  "placed_once q l f \<longleftrightarrow> distinct (q @ l) \<and>
     (\<forall>w r. pending (f w) = Some r \<longrightarrow> r \<notin> set q \<and> r \<notin> set l \<and> (\<forall>v. pending (f v) = Some r \<longrightarrow> v = w))"

definition count_inv :: "thread_sys \<Rightarrow> bool" where
  "count_inv s \<longleftrightarrow> finite (inside (workers s)) \<and> running_threads s = of_nat (card (inside (workers s)))"

definition carried_exist :: "(nat \<Rightarrow> worker) \<Rightarrow> nat set \<Rightarrow> bool" where
  "carried_exist f D \<longleftrightarrow> (\<forall>w r. carries (f w) = Some r \<longrightarrow> r \<in> D)"

definition place_inv :: "thread_sys \<Rightarrow> bool" where
  "place_inv s \<longleftrightarrow> placed_once (queue s) (task_log s) (workers s) \<and>
     set (queue s) \<subseteq> dom (impls s) \<and> set (task_log s) \<subseteq> dom (impls s) \<and>
     carried_exist (workers s) (dom (impls s))"

definition done_inv :: "thread_sys \<Rightarrow> bool" where
  "done_inv s \<longleftrightarrow>
     (\<forall>w r. task_over (workers s w) = Some r \<longrightarrow> r \<in> finished s) \<and>
     (\<forall>r x. impls s r = Some x \<longrightarrow> state x = COMPLETED \<longrightarrow> r \<in> finished s \<or> sgx_status x \<noteq> SGX_SUCCESS)"

definition threads_inv :: "thread_sys \<Rightarrow> bool" where
  "threads_inv s \<longleftrightarrow> count_inv s \<and> place_inv s \<and> done_inv s"

lemma inside_upd: "inside (f(w := c)) = (if counted c then insert w (inside f) else inside f - {w})"
  by (auto simp: inside_def)

lemma in_inside [simp]: "w \<in> inside f \<longleftrightarrow> counted (f w)"
  by (simp add: inside_def)

lemma inside_same: "counted c = counted (f w) \<Longrightarrow> inside (f(w := c)) = inside f"
  by (auto simp: inside_def)

lemma of_nat_card_remove:
  assumes "finite A" and "w \<in> A"
  shows "(of_nat (card (A - {w})) :: u64) = of_nat (card A) - 1"
proof -
  have "card A = Suc (card (A - {w}))" using card.remove [OF assms] .
  then show ?thesis by simp
qed

lemma count_inv_step: "thread_step s s' \<Longrightarrow> count_inv s \<Longrightarrow> count_inv s'"
  by (induction rule: thread_step.induct)
    (auto simp: count_inv_def thread_defs inside_same inside_upd insert_absorb of_nat_card_remove
      simp del: card_Diff_insert split: list.split)

lemma pending_carries: "pending c = Some r \<Longrightarrow> carries c = Some r"
  by (cases c) auto

lemma placed_once_pop: "placed_once (r # q) l f \<Longrightarrow> f w = Outside \<Longrightarrow> placed_once q l (f(w := Popped r))"
  by (auto simp: placed_once_def)

lemma placed_once_move: "placed_once q l f \<Longrightarrow> pending c = pending (f w) \<Longrightarrow> placed_once q l (f(w := c))"
  by (auto simp: placed_once_def)

lemma placed_once_start:
  "placed_once q l f \<Longrightarrow> pending (f w) = Some r \<Longrightarrow> pending c = None \<Longrightarrow> placed_once q (l @ [r]) (f(w := c))"
  by (auto simp: placed_once_def)

lemma placed_once_push:
  "placed_once q l f \<Longrightarrow> r \<notin> set q \<Longrightarrow> r \<notin> set l \<Longrightarrow> \<forall>w. pending (f w) \<noteq> Some r \<Longrightarrow> placed_once (q @ [r]) l f"
  by (auto simp: placed_once_def)

lemma carried_existD: "carried_exist f D \<Longrightarrow> carries (f w) = Some r \<Longrightarrow> r \<in> D"
  by (simp add: carried_exist_def)

lemma carried_exist_move:
  "carried_exist f D \<Longrightarrow> carries c = carries (f w) \<or> carries c = None \<Longrightarrow> carried_exist (f(w := c)) D"
  by (auto simp: carried_exist_def)

lemma carried_exist_pop: "carried_exist f D \<Longrightarrow> r \<in> D \<Longrightarrow> carried_exist (f(w := Popped r)) D"
  by (auto simp: carried_exist_def)

lemma carried_exist_mono: "carried_exist f D \<Longrightarrow> D \<subseteq> D' \<Longrightarrow> carried_exist f D'"
  by (auto simp: carried_exist_def)

lemma dom_upd_map [simp]: "dom (m(r := map_option g (m r))) = dom m"
  by (auto simp: dom_def)

lemma place_inv_push:
  assumes "place_inv s" and "impls s r = None"
  shows "place_inv (create_push r s)"
proof -
  have "placed_once (queue s @ [r]) (task_log s) (workers s)"
    by (rule placed_once_push)
      (use assms in \<open>auto simp: place_inv_def dest!: pending_carries dest: carried_existD\<close>)
  then show ?thesis using assms by (auto simp: place_inv_def create_push_def elim: carried_exist_mono)
qed

lemma place_inv_step: "thread_step s s' \<Longrightarrow> place_inv s \<Longrightarrow> place_inv s'"
proof (induction rule: thread_step.induct)
  case (CreatePush s r)
  then show ?case by (simp add: place_inv_push)
next
  case (Start s w r)
  have "carries (workers s w) = Some r" using Start by simp
  then have r: "r \<in> dom (impls s)" using Start(3) unfolding place_inv_def by (blast dest: carried_existD)
  then show ?case
    using Start placed_once_start [of "queue s" "task_log s" "workers s" w r "Running r"]
      carried_exist_move [of "workers s" "dom (impls s)" "Running r" w]
    by (simp add: place_inv_def run_start_def move_def on_impl_def r del: dom_fun_upd)
qed (auto simp: place_inv_def thread_defs simp del: dom_fun_upd intro: placed_once_pop placed_once_move
    carried_exist_move carried_exist_pop split: list.split)

lemma done_inv_step: "thread_step s s' \<Longrightarrow> done_inv s \<Longrightarrow> done_inv s'"
proof (induction rule: thread_step.induct)
  case (Complete s w r)
  have "task_over (workers s w) = Some r" using Complete by simp
  then have "r \<in> finished s" using Complete(3) unfolding done_inv_def by blast
  then show ?case using Complete by (auto simp: done_inv_def thread_defs)
qed (auto simp: done_inv_def thread_defs split: list.split)

lemma threads_inv_new: "threads_inv threads_new"
  by (simp add: threads_inv_def count_inv_def place_inv_def done_inv_def threads_new_def placed_once_def inside_def
      carried_exist_def)

interpretation enclave_threads: kept_invariant thread_step threads_inv
  by unfold_locales (auto simp: threads_inv_def intro: count_inv_step place_inv_step done_inv_step)

section \<open>Executable runs\<close>

text \<open>The steps as a function of the event that happens, for concrete interleavings.\<close>

datatype thread_event = ECheck nat | EPush nat | EReturn nat u32 u32 | EAttach nat | EAdvance nat | EShutdown

fun advance_worker :: "nat \<Rightarrow> thread_sys \<Rightarrow> worker \<Rightarrow> thread_sys option" where
  "advance_worker w s Outside = None"
| "advance_worker w s (Popped r) = Some (move w (Reported r) s)"
| "advance_worker w s (Reported r) = Some (move w (Counted r) (checkpoint_enter s))"
| "advance_worker w s (Counted r) = Some (move w (Running r) (run_start r s))"
| "advance_worker w s (Running r) = Some (move w (TaskDone r) (run_task r s))"
| "advance_worker w s (TaskDone r) = Some (move w (Leaving r) (run_complete r s))"
| "advance_worker w s (Leaving r) = Some (move w Outside (detach_thread s))"

fun exec_event :: "thread_event \<Rightarrow> thread_sys \<Rightarrow> thread_sys option" where
  "exec_event (ECheck r) s = (if impls s r = None then Some (create_check r s) else None)"
| "exec_event (EPush r) s = (if impls s r = None \<and> r \<in> alive_checked s then Some (create_push r s) else None)"
| "exec_event (EReturn r ret status) s = (if r \<in> creating s then Some (create_return r ret status s) else None)"
| "exec_event (EAttach w) s = (if workers s w = Outside then Some (attach_pop w s) else None)"
| "exec_event (EAdvance w) s = advance_worker w s (workers s w)"
| "exec_event EShutdown s = Some (shutdown_begin s)"

fun run_events :: "thread_event list \<Rightarrow> thread_sys \<Rightarrow> thread_sys option" where
  "run_events [] s = Some s"
| "run_events (e # es) s = (if terminated s then None else Option.bind (exec_event e s) (run_events es))"

lemma advance_worker_step:
  "advance_worker w s c = Some s' \<Longrightarrow> workers s w = c \<Longrightarrow> \<not> terminated s \<Longrightarrow> thread_step s s'"
  by (cases c) (auto intro: thread_step.intros)

lemma exec_event_step: "exec_event e s = Some s' \<Longrightarrow> \<not> terminated s \<Longrightarrow> thread_step s s'"
  by (cases e) (auto intro: thread_step.intros advance_worker_step split: if_split_asm)

lemma run_events_reach: "run_events es s = Some s' \<Longrightarrow> thread_step\<^sup>*\<^sup>* s s'"
proof (induction es arbitrary: s)
  case (Cons e es)
  then obtain r where "\<not> terminated s" "exec_event e s = Some r" "run_events es r = Some s'"
    by (auto split: if_split_asm bind_splits)
  then show ?case using Cons.IH exec_event_step by (meson converse_rtranclp_into_rtranclp)
qed simp

lemma run_events_witness:
  "run_events es threads_new \<noteq> None \<Longrightarrow> thread_step\<^sup>*\<^sup>* threads_new (the (run_events es threads_new))"
  by (auto intro: run_events_reach)

text \<open>A runnable that has left the queue, its thread and its \<open>create\<close> keeps its state for ever.\<close>

definition settled :: "nat \<Rightarrow> thread_impl \<Rightarrow> thread_sys \<Rightarrow> bool" where
  "settled r x s \<longleftrightarrow> impls s r = Some x \<and> r \<notin> set (queue s) \<and> r \<notin> creating s
     \<and> (\<forall>w. carries (workers s w) \<noteq> Some r)"

lemma settled_step: "thread_step s s' \<Longrightarrow> settled r x s \<Longrightarrow> settled r x s'"
proof (induction rule: thread_step.induct)
  case (Start s w q)
  then have "q \<noteq> r" unfolding settled_def by (metis carries.simps(4))
  then show ?case using Start by (auto simp: settled_def thread_defs)
next
  case (Complete s w q)
  then have "q \<noteq> r" unfolding settled_def by (metis carries.simps(6))
  then show ?case using Complete by (auto simp: settled_def thread_defs)
next
  case (Report s w q)
  then have "q \<noteq> r" unfolding settled_def by (metis carries.simps(2))
  then show ?case using Report by (auto simp: settled_def thread_defs)
next
  case (Enter s w q)
  then have "q \<noteq> r" unfolding settled_def by (metis carries.simps(3))
  then show ?case using Enter by (auto simp: settled_def thread_defs)
next
  case (Task s w q)
  then have "q \<noteq> r" unfolding settled_def by (metis carries.simps(5))
  then show ?case using Task by (auto simp: settled_def thread_defs)
qed (auto simp: settled_def thread_defs split: list.split)

interpretation settled_thread: kept_invariant thread_step "settled r x" for r x
  by unfold_locales (rule settled_step)

section \<open>Properties\<close>

text \<open>A thread is created and the worker 7 takes it; the creation returns.\<close>

definition example_events :: "thread_event list" where
  "example_events = [ECheck 1, EPush 1, EAttach 7, EAdvance 7, EReturn 1 0 0, EAdvance 7, EAdvance 7]"

text \<open>C28: However the creating threads, the threads of the host, the shutdown and the host's answers
  interleave, the factory's counter is the number of threads inside the checkpoint, so that it never
  runs below zero, and no task is started twice: a runnable is in the queue at most once and
  leaves it for exactly one thread.\<close>

theorem thread_bookkeeping:
  assumes "thread_step\<^sup>*\<^sup>* threads_new s"
  shows "running_threads s = of_nat (card (inside (workers s))) \<and> finite (inside (workers s))
    \<and> distinct (queue s @ task_log s)"
  using enclave_threads.reachable_inv [OF assms threads_inv_new]
  by (simp add: threads_inv_def count_inv_def place_inv_def placed_once_def)

theorem thread_bookkeeping_witness:
  "running_threads (the (run_events example_events threads_new)) = 1
    \<and> inside (workers (the (run_events example_events threads_new))) = {7}"
proof -
  let ?s = "the (run_events example_events threads_new)"
  have "thread_step\<^sup>*\<^sup>* threads_new ?s"
    by (rule run_events_witness) (simp add: example_events_def threads_new_def thread_defs is_alive_def)
  then have "running_threads ?s = of_nat (card (inside (workers ?s)))" using thread_bookkeeping by blast
  moreover have "inside (workers ?s) = {7}"
    by (auto simp: example_events_def threads_new_def thread_defs is_alive_def SGX_SUCCESS_def inside_def split: if_split_asm)
  ultimately show ?thesis by simp
qed


definition example_refused :: thread_sys where
  "example_refused = the (run_events [ECheck 1, EPush 1, EReturn 1 0 3] threads_new)"

lemma example_refused_facts:
  "thread_step\<^sup>*\<^sup>* threads_new example_refused" "finished example_refused = {}"
  "impls example_refused 1 = Some \<lparr>state = COMPLETED, sgx_status = 3\<rparr>"
  unfolding example_refused_def
  by (rule run_events_witness) (simp_all add: threads_new_def thread_defs is_alive_def SGX_SUCCESS_def)


text \<open>When \<open>shutdown\<close> returns, no thread is inside the checkpoint. A thread that has taken its
  runnable but not yet entered the checkpoint is however not waited for: there is a run in which
  \<open>shutdown\<close> may return and a task is started afterwards.\<close>

theorem shutdown_waits:
  assumes "thread_step\<^sup>*\<^sup>* threads_new s" and "shutdown_returns s" and "card (inside (workers s)) < 2 ^ 64"
  shows "inside (workers s) = {}
    \<and> (\<exists>u v. thread_step\<^sup>*\<^sup>* threads_new u \<and> shutdown_returns u \<and> task_log u = []
         \<and> thread_step\<^sup>*\<^sup>* u v \<and> task_log v = [1])"
proof -
  have i: "finite (inside (workers s))" "(of_nat (card (inside (workers s))) :: u64) = 0"
    using enclave_threads.reachable_inv [OF assms(1) threads_inv_new] assms(2)
    by (auto simp: threads_inv_def count_inv_def shutdown_returns_def)
  have "card (inside (workers s)) = 0"
    using i(2) assms(3) by (simp add: word_of_nat_eq_0_iff) (metis dvd_imp_le not_less gr_zeroI)
  then have e: "inside (workers s) = {}" using i(1) by simp
  let ?es = "[ECheck 1, EPush 1, EAttach 7, EShutdown]" and ?fs = "[EAdvance 7, EAdvance 7, EAdvance 7]"
  let ?u = "the (run_events ?es threads_new)"
  have u: "thread_step\<^sup>*\<^sup>* threads_new ?u"
    by (rule run_events_witness) (simp add: threads_new_def thread_defs is_alive_def)
  have v: "thread_step\<^sup>*\<^sup>* ?u (the (run_events ?fs ?u))"
    by (rule run_events_reach [of ?fs]) (simp add: threads_new_def thread_defs is_alive_def)
  have "shutdown_returns ?u" "task_log ?u = []" "task_log (the (run_events ?fs ?u)) = [1]"
    by (simp_all add: threads_new_def thread_defs is_alive_def shutdown_returns_def)
  then show ?thesis using e u v by blast
qed

theorem shutdown_waits_witness: "inside (workers (shutdown_begin threads_new)) = {}"
proof -
  have "thread_step\<^sup>*\<^sup>* threads_new (shutdown_begin threads_new)"
    by (rule r_into_rtranclp, rule thread_step.Shutdown) (simp add: threads_new_def)
  then show ?thesis
    using shutdown_waits [of "shutdown_begin threads_new"]
    by (simp add: shutdown_returns_def shutdown_begin_def threads_new_def inside_def)
qed

text \<open>A completion can be lost. When the new thread runs to its end before the creating thread
  comes back from its OCall, \<open>create\<close> overwrites \<open>COMPLETED\<close> with \<open>STARTED\<close>: the task is
  finished, nothing is left to do, and \<open>join\<close> does not return in any later state.\<close>

theorem completion_lost:
  "\<exists>s. thread_step\<^sup>*\<^sup>* threads_new s \<and> 1 \<in> finished s \<and> queue s = [] \<and> creating s = {}
     \<and> (\<forall>w. workers s w = Outside) \<and> start_returns 1 s = Some SGX_SUCCESS
     \<and> (\<nexists>s'. thread_step\<^sup>*\<^sup>* s s' \<and> join_returns 1 s')"
proof -
  let ?es = "[ECheck 1, EPush 1, EAttach 7, EAdvance 7, EAdvance 7, EAdvance 7, EAdvance 7, EAdvance 7,
    EAdvance 7, EReturn 1 0 0]"
  let ?s = "the (run_events ?es threads_new)" and ?x = "\<lparr>state = STARTED, sgx_status = SGX_SUCCESS\<rparr>"
  have r: "thread_step\<^sup>*\<^sup>* threads_new ?s"
    by (rule run_events_witness) (simp add: threads_new_def thread_defs is_alive_def)
  have f: "1 \<in> finished ?s" "queue ?s = []" "creating ?s = {}" "\<forall>w. workers ?s w = Outside"
    "start_returns 1 ?s = Some SGX_SUCCESS"
    by (simp_all add: threads_new_def thread_defs is_alive_def start_returns_def SGX_SUCCESS_def)
  have "settled 1 ?x ?s"
    by (simp add: settled_def threads_new_def thread_defs is_alive_def SGX_SUCCESS_def)
  then have "\<not> join_returns 1 s'" if "thread_step\<^sup>*\<^sup>* ?s s'" for s'
    using settled_thread.reachable_inv [OF that] by (fastforce simp: settled_def join_returns_def)
  then show ?thesis using r f by blast
qed

text \<open>
  A request that the host refuses leaves its runnable in the queue: the thread that comes for the
  next request runs the refused task, and the task of that request is never run.
\<close>

lemma refused_request_misdirects:
  "\<exists>s. thread_step\<^sup>*\<^sup>* threads_new s \<and> start_returns 1 s = Some 3 \<and> finished s = {1} \<and> queue s = [2]
     \<and> start_returns 2 s = Some SGX_SUCCESS \<and> creating s = {} \<and> (\<forall>w. workers s w = Outside)"
proof -
  let ?es = "[ECheck 1, EPush 1, EReturn 1 0 3, ECheck 2, EPush 2, EAttach 7, EAdvance 7, EReturn 2 0 0,
    EAdvance 7, EAdvance 7, EAdvance 7, EAdvance 7, EAdvance 7]"
  let ?s = "the (run_events ?es threads_new)"
  have "thread_step\<^sup>*\<^sup>* threads_new ?s"
    by (rule run_events_witness) (simp add: threads_new_def thread_defs is_alive_def)
  moreover have "start_returns 1 ?s = Some 3" "finished ?s = {1}" "queue ?s = [2]"
    "start_returns 2 ?s = Some SGX_SUCCESS" "creating ?s = {}" "\<forall>w. workers ?s w = Outside"
    by (simp_all add: threads_new_def thread_defs is_alive_def start_returns_def SGX_SUCCESS_def)
  ultimately show ?thesis by blast
qed

end
