(* ===== verification/Host_Enclave.thy ===== *)
theory Host_Enclave
  imports Host_Clock Enclave_Threads
begin

text \<open>
  The host's side of an enclave (host\_jni.cpp, ecall\_context.cpp, host\_start\_thread.cpp and the
  ECalls of edl.cpp): loading and destroying enclaves, calls into an enclave and the OCalls that come
  back while such a call is running, and the threads the host starts for an enclave.

  A thread of the host may be inside several ECalls at a time, one inside the other, and inside
  different enclaves: an OCall runs Java code, which may call an enclave again. An OCall does not
  name its enclave. The host looks it up in a stack of contexts that each thread keeps.
\<close>

section \<open>Contexts\<close>

text \<open>The promise of a context is null or a number that identifies it.\<close>

record Context =
  enclaveId :: u64
  context_env :: ptr
  threadStartPromise :: "nat option"

text \<open>The stack of a thread, the back of the vector first. Taking the back of an empty vector is undefined.\<close>

definition EcallContext_new :: "u64 \<Rightarrow> ptr \<Rightarrow> nat option \<Rightarrow> Context list \<Rightarrow> Context list" where
  "EcallContext_new eid env p st = \<lparr>enclaveId = eid, context_env = env, threadStartPromise = p\<rparr> # st"

definition EcallContext_delete :: "Context list \<Rightarrow> Context list cpp" where
  "EcallContext_delete st = (case st of [] \<Rightarrow> Undef | c # r \<Rightarrow> Ret r)"

definition getEnclaveId :: "Context list \<Rightarrow> u64 cpp" where
  "getEnclaveId st = (case st of [] \<Rightarrow> Undef | c # r \<Rightarrow> Ret (enclaveId c))"

definition available :: "Context list \<Rightarrow> bool" where
  "available st \<longleftrightarrow> st \<noteq> []"

definition getJniEnv :: "Context list \<Rightarrow> ptr cpp" where
  "getJniEnv st = (case st of [] \<Rightarrow> Undef | c # r \<Rightarrow> Ret (context_env c))"

text \<open>
  The promises and the values they were given. Setting a promise twice throws, which the reset of
  the pointer prevents.
\<close>

definition setThreadStartStatus :: "u32 \<Rightarrow> Context list \<times> (nat \<Rightarrow> u32 option) \<Rightarrow> (Context list \<times> (nat \<Rightarrow> u32 option)) cpp" where
  "setThreadStartStatus status x =
     (case x of
        ([], ps) \<Rightarrow> Undef
      | (c # r, ps) \<Rightarrow>
          (case threadStartPromise c of
             None \<Rightarrow> Ret (c # r, ps)
           | Some p \<Rightarrow>
               if ps p \<noteq> None then Throw (RuntimeError ''promise already satisfied'')
               else Ret (c\<lparr>threadStartPromise := None\<rparr> # r, ps(p \<mapsto> status))))"

lemmas context_defs = EcallContext_new_def EcallContext_delete_def getEnclaveId_def available_def getJniEnv_def
  setThreadStartStatus_def

section \<open>Threads for the enclave\<close>

text \<open>
  What the enclave does with a thread: how often it reports through \<open>ocall_complete_request_thread\<close>
  that the thread has taken its runnable, and the status with which \<open>ecall_attach_thread\<close> comes back,
  if it does.
\<close>

record attach_outcome =
  completions :: nat
  attach_status :: "u32 option"

definition ocall_complete_request_thread ::
    "Context list \<times> (nat \<Rightarrow> u32 option) \<Rightarrow> (Context list \<times> (nat \<Rightarrow> u32 option)) cpp" where
  "ocall_complete_request_thread x = setThreadStartStatus SGX_SUCCESS x"

fun complete_times :: "nat \<Rightarrow> Context list \<times> (nat \<Rightarrow> u32 option) \<Rightarrow> (Context list \<times> (nat \<Rightarrow> u32 option)) cpp" where
  "complete_times 0 x = Ret x"
| "complete_times (Suc n) x = cbind (ocall_complete_request_thread x) (complete_times n)"

text \<open>
  The detached thread; its stack of contexts is its own. The result is the promises as the thread
  leaves them.
\<close>

definition thread_main :: "u64 \<Rightarrow> ptr \<Rightarrow> nat \<Rightarrow> attach_outcome \<Rightarrow> (nat \<Rightarrow> u32 option) cpp" where
  "thread_main eid env p a =
     cbind (complete_times (completions a) (EcallContext_new eid env (Some p) [], \<lambda>_. None)) (\<lambda>x.
       (case attach_status a of
          None \<Rightarrow> Ret (snd x)
        | Some ret \<Rightarrow>
            cbind (if ret \<noteq> SGX_SUCCESS then setThreadStartStatus ret x else Ret x) (\<lambda>(st, ps).
            cbind (EcallContext_delete st) (\<lambda>_. Ret ps))))"

text \<open>
  \<open>future::get\<close> waits until the promise has its value. The caller keeps a pointer to the promise, so
  the promise stays and the caller waits for ever when no value is set.
\<close>

definition future_get :: "nat \<Rightarrow> (nat \<Rightarrow> u32 option) \<Rightarrow> u32 cpp" where
  "future_get p ps = (case ps p of Some status \<Rightarrow> Ret status | None \<Rightarrow> Deadlock)"

definition ocall_request_thread :: "nat \<Rightarrow> ptr \<Rightarrow> attach_outcome \<Rightarrow> Context list \<Rightarrow> u32 cpp" where
  "ocall_request_thread p env a st =
     cbind (getEnclaveId st) (\<lambda>eid.
       if \<not> available st then Throw (RuntimeError ''Ocall missing an ecall context structure'')
       else cbind (getJniEnv st) (\<lambda>jni.
         if jni = 0 then Undef else cbind (thread_main eid env p a) (future_get p)))"

section \<open>Calls into enclaves\<close>

text \<open>
  What a Java thread does with enclaves, as a tree. A call into an enclave (\<open>jvmECall\<close>) names the
  enclave, whether its bytes could be pinned, the status the call ends with, and the OCalls it makes;
  the destruction of an enclave has the status of the finalising ECall and of the SDK. An OCall
  either brings a message to Java (whether the JNI calls before the delivery succeed, and what the
  Java code does then) or asks for the shared block (the address and time for a new one).
\<close>

datatype java_action = JvmECall u64 bool u32 "ocall list" | DestroyEnclave u64 u32 u32 "ocall list"
  and ocall = JvmOCall bool "java_action list" | SharedDataOCall ptr "timespec option"

text \<open>What is observed: messages with the enclave they are attributed to, and raised exceptions.\<close>

datatype host_event = Received u64 | Shared u64 | Failed u32 | DestroyRefused | Destroyed u64 | LoadFailed u32

record host_state =
  contextStack :: "Context list"
  hclock :: HostSharedData
  events :: "host_event list"
  signal_registered :: bool
  thread_blocking :: "(u64 \<times> u64) list"

definition emit :: "host_event \<Rightarrow> host_state \<Rightarrow> host_state" where
  "emit e s = s\<lparr>events := events s @ [e]\<rparr>"

definition raise_status :: "u32 \<Rightarrow> host_state \<Rightarrow> host_state" where
  "raise_status status s = (if status \<noteq> SGX_SUCCESS then emit (Failed status) s else s)"

text \<open>
  The \<open>JNIEnv\<close> is that of the thread. An OCall that ends in a C++ exception ends the process.
\<close>

fun java_call :: "ptr \<Rightarrow> java_action \<Rightarrow> host_state \<Rightarrow> host_state cpp"
  and java_calls :: "ptr \<Rightarrow> java_action list \<Rightarrow> host_state \<Rightarrow> host_state cpp"
  and jvm_ocall :: "ptr \<Rightarrow> ocall \<Rightarrow> host_state \<Rightarrow> host_state cpp"
  and jvm_ocalls :: "ptr \<Rightarrow> ocall list \<Rightarrow> host_state \<Rightarrow> host_state cpp" where
  "java_call env (JvmECall eid pinned status ocs) s =
     (if \<not> pinned then Ret s
      else cbind (jvm_ocalls env ocs (s\<lparr>contextStack := EcallContext_new eid env None (contextStack s)\<rparr>)) (\<lambda>s1.
        let s2 = raise_status status s1 in
        cbind (EcallContext_delete (contextStack s2)) (\<lambda>st. Ret (s2\<lparr>contextStack := st\<rparr>))))"
| "java_call env (DestroyEnclave eid fin_status status ocs) s =
     (if available (contextStack s) then Ret (emit DestroyRefused s)
      else cbind (jvm_ocalls env ocs (s\<lparr>contextStack := EcallContext_new eid env None (contextStack s)\<rparr>)) (\<lambda>s1.
        let s2 = raise_status fin_status s1 in
        cbind (EcallContext_delete (contextStack s2)) (\<lambda>st.
          let s3 = raise_status status (s2\<lparr>contextStack := st\<rparr>) in
          Ret (emit (Destroyed eid) (s3\<lparr>hclock := hsd_free eid (hclock s3)\<rparr>)))))"
| "java_calls env [] s = Ret s"
| "java_calls env (c # cs) s = cbind (java_call env c s) (java_calls env cs)"
| "jvm_ocall env (JvmOCall delivered cs) s =
     cbind (getJniEnv (contextStack s)) (\<lambda>jni.
       if jni = 0 then Throw (RuntimeError ''Cannot find JNIEnv'')
       else if \<not> delivered then Ret s
       else cbind (getEnclaveId (contextStack s)) (\<lambda>eid. java_calls env cs (emit (Received eid) s)))"
| "jvm_ocall env (SharedDataOCall p tm) s =
     cbind (getEnclaveId (contextStack s)) (\<lambda>eid.
       case shared_data_ocall eid p tm (hclock s) of (q, h) \<Rightarrow> Ret (emit (Shared eid) (s\<lparr>hclock := h\<rparr>)))"
| "jvm_ocalls env [] s = Ret s"
| "jvm_ocalls env (oc # ocs) s = cbind (jvm_ocall env oc s) (jvm_ocalls env ocs)"

text \<open>The structure the enclave fills on its start (edl.cpp); it has one member of 64 bits.\<close>

definition ecall_initialise_enclave :: "bool \<Rightarrow> nat \<Rightarrow> u64 \<Rightarrow> u64 cpp" where
  "ecall_initialise_enclave present len deadlock_timeout =
     (if \<not> present \<or> len \<noteq> 8
      then Throw (RuntimeError ''Invalid configuration structure passed to ecall_initialise_enclave()'')
      else Ret deadlock_timeout)"

definition initialise_enclave :: "u64 \<Rightarrow> u64 \<Rightarrow> ptr \<Rightarrow> timespec option \<Rightarrow> host_state \<Rightarrow> host_state cpp" where
  "initialise_enclave eid deadlock_timeout p tm s =
     (case hsd_get eid p tm (hclock s) of (q, h) \<Rightarrow>
        cbind (ecall_initialise_enclave True 8 deadlock_timeout) (\<lambda>t.
          Ret (s\<lparr>hclock := h, thread_blocking := thread_blocking s @ [(eid, t)]\<rparr>)))"

text \<open>The status and number are those of \<open>sgx_create_enclave\<close>; -1 is returned with an exception.\<close>

definition createEnclave :: "u32 \<Rightarrow> u64 \<Rightarrow> u64 \<Rightarrow> ptr \<Rightarrow> timespec option \<Rightarrow> host_state \<Rightarrow> (u64 \<times> host_state) cpp" where
  "createEnclave status eid deadlock_timeout p tm s =
     (let s1 = s\<lparr>signal_registered := True\<rparr> in
      if status = SGX_SUCCESS
      then cbind (initialise_enclave eid deadlock_timeout p tm s1) (\<lambda>s2. Ret (eid, s2))
      else Ret (- 1, emit (LoadFailed status) s1))"

section \<open>OCalls and their enclaves\<close>

text \<open>
  What a tree of calls should show, with no stack: every OCall belongs to the call it is part of.
  \<open>nested\<close> tells whether the thread is inside an ECall already.
\<close>

definition status_events :: "u32 \<Rightarrow> host_event list" where
  "status_events status = (if status \<noteq> SGX_SUCCESS then [Failed status] else [])"

fun call_events :: "bool \<Rightarrow> java_action \<Rightarrow> host_event list"
  and calls_events :: "bool \<Rightarrow> java_action list \<Rightarrow> host_event list"
  and ocall_events :: "u64 \<Rightarrow> ocall \<Rightarrow> host_event list"
  and ocalls_events :: "u64 \<Rightarrow> ocall list \<Rightarrow> host_event list" where
  "call_events nested (JvmECall eid pinned status ocs) =
     (if pinned then ocalls_events eid ocs @ status_events status else [])"
| "call_events nested (DestroyEnclave eid fin_status status ocs) =
     (if nested then [DestroyRefused]
      else ocalls_events eid ocs @ status_events fin_status @ status_events status @ [Destroyed eid])"
| "calls_events nested [] = []"
| "calls_events nested (c # cs) = call_events nested c @ calls_events nested cs"
| "ocall_events eid (JvmOCall delivered cs) = (if delivered then Received eid # calls_events True cs else [])"
| "ocall_events eid (SharedDataOCall p tm) = [Shared eid]"
| "ocalls_events eid [] = []"
| "ocalls_events eid (oc # ocs) = ocall_events eid oc @ ocalls_events eid ocs"

text \<open>A call shows the events \<open>es\<close> and otherwise changes the host's clock at most.\<close>

definition shows_events :: "host_state \<Rightarrow> host_event list \<Rightarrow> host_state cpp \<Rightarrow> bool" where
  "shows_events s es m \<longleftrightarrow> (\<exists>h. m = Ret (s\<lparr>hclock := h, events := events s @ es\<rparr>))"

lemma shows_events_refl: "shows_events s [] (Ret s)"
  by (auto simp: shows_events_def intro: exI [of _ "hclock s"])

lemma shows_events_bind:
  assumes "shows_events s es m" and "\<And>h. shows_events (s\<lparr>hclock := h, events := events s @ es\<rparr>) fs (f (s\<lparr>hclock := h, events := events s @ es\<rparr>))"
  shows "shows_events s (es @ fs) (cbind m f)"
proof -
  obtain h where m: "m = Ret (s\<lparr>hclock := h, events := events s @ es\<rparr>)" using assms(1) by (auto simp: shows_events_def)
  show ?thesis using assms(2) [of h] by (auto simp: m shows_events_def)
qed

lemma shows_events_Cons: "shows_events (s\<lparr>events := events s @ [e]\<rparr>) es m \<Longrightarrow> shows_events s (e # es) m"
  by (auto simp: shows_events_def)

lemma raise_status_events: "raise_status status s = s\<lparr>events := events s @ status_events status\<rparr>"
  by (simp add: raise_status_def status_events_def emit_def)

lemma shows_events_call:
  assumes "shows_events (s\<lparr>contextStack := st\<rparr>) es m" and "\<And>h. f (s\<lparr>contextStack := st, hclock := h, events := events s @ es\<rparr>) = Ret (s\<lparr>hclock := g h, events := events s @ es @ fs\<rparr>)"
  shows "shows_events s (es @ fs) (cbind m f)"
  using assms by (auto simp: shows_events_def)

lemma calls_show_events:
  "env \<noteq> 0 \<Longrightarrow> shows_events s (call_events (available (contextStack s)) c) (java_call env c s)"
  "env \<noteq> 0 \<Longrightarrow> shows_events s (calls_events (available (contextStack s)) cs) (java_calls env cs s)"
  "env \<noteq> 0 \<Longrightarrow> contextStack s = d # r \<Longrightarrow> context_env d = env \<Longrightarrow> shows_events s (ocall_events (enclaveId d) oc) (jvm_ocall env oc s)"
  "env \<noteq> 0 \<Longrightarrow> contextStack s = d # r \<Longrightarrow> context_env d = env \<Longrightarrow> shows_events s (ocalls_events (enclaveId d) ocs) (jvm_ocalls env ocs s)"
proof (induction env c s and env cs s and env oc s and env ocs s arbitrary: and and d r and d r
    rule: java_call_java_calls_jvm_ocall_jvm_ocalls.induct)
  case (1 env eid pinned status ocs s)
  show ?case
  proof (cases pinned)
    case True
    then have "shows_events (s\<lparr>contextStack := EcallContext_new eid env None (contextStack s)\<rparr>) (ocalls_events eid ocs)
      (jvm_ocalls env ocs (s\<lparr>contextStack := EcallContext_new eid env None (contextStack s)\<rparr>))"
      using 1 by (simp add: EcallContext_new_def)
    from shows_events_call [OF this] show ?thesis using True
      by (simp add: raise_status_events EcallContext_new_def EcallContext_delete_def)
  qed (simp add: shows_events_refl)
next
  case (2 env eid fin_status status ocs s)
  show ?case
  proof (cases "available (contextStack s)")
    case True
    then show ?thesis by (simp add: emit_def shows_events_def) (metis host_state.surjective host_state.update_convs(2))
  next
    case False
    then have "shows_events (s\<lparr>contextStack := EcallContext_new eid env None (contextStack s)\<rparr>) (ocalls_events eid ocs)
      (jvm_ocalls env ocs (s\<lparr>contextStack := EcallContext_new eid env None (contextStack s)\<rparr>))"
      using 2 by (simp add: EcallContext_new_def)
    from shows_events_call [OF this, where g = "hsd_free eid"] show ?thesis using False
      by (simp add: raise_status_events EcallContext_new_def EcallContext_delete_def emit_def)
  qed
next
  case (4 env c cs s)
  let ?es = "call_events (available (contextStack s)) c"
  have "shows_events (s\<lparr>hclock := h, events := events s @ ?es\<rparr>) (calls_events (available (contextStack s)) cs)
      (java_calls env cs (s\<lparr>hclock := h, events := events s @ ?es\<rparr>))" for h
    using 4(2) [of "s\<lparr>hclock := h, events := events s @ ?es\<rparr>"] 4(3) by simp
  from shows_events_bind [OF 4(1) [OF 4(3)] this] show ?case by simp
next
  case (5 env delivered cs s)
  then show ?case
    by (auto simp: getJniEnv_def getEnclaveId_def available_def emit_def intro: shows_events_refl shows_events_Cons)
next
  case (6 env p tm s)
  then show ?case
    by (auto simp: getEnclaveId_def emit_def shows_events_def split: prod.split)
next
  case (8 env oc ocs s)
  let ?es = "ocall_events (enclaveId d) oc"
  have "shows_events (s\<lparr>hclock := h, events := events s @ ?es\<rparr>) (ocalls_events (enclaveId d) ocs)
      (jvm_ocalls env ocs (s\<lparr>hclock := h, events := events s @ ?es\<rparr>))" for h
    using 8(2) [of "s\<lparr>hclock := h, events := events s @ ?es\<rparr>"] 8(3-5) by simp
  from shows_events_bind [OF 8(1) [OF 8(3-5)] this] show ?case by simp
qed (auto intro: shows_events_refl)

section \<open>Live enclaves and their blocks\<close>

text \<open>
  The enclaves of a process as its threads create and destroy them, one call at a time. The SDK names
  a new enclave by a number that no live one has, and \<open>new\<close> returns an address no live block has.
\<close>

inductive host_step :: "host_state \<times> u64 set \<Rightarrow> host_state \<times> u64 set \<Rightarrow> bool" where
  Create: "eid \<notin> live \<Longrightarrow> p \<notin> snd ` set (blocks (hclock s)) \<Longrightarrow> createEnclave status eid t p tm s = Ret (r, s') \<Longrightarrow>
    host_step (s, live) (s', if status = SGX_SUCCESS then insert eid live else live)"
| Destroy: "eid \<in> live \<Longrightarrow> java_call env (DestroyEnclave eid fin status []) s = Ret s' \<Longrightarrow>
    host_step (s, live) (s', if available (contextStack s) then live else live - {eid})"
| Ask: "contextStack s = c # st \<Longrightarrow> enclaveId c \<in> live \<Longrightarrow> jvm_ocall env (SharedDataOCall p tm) s = Ret s' \<Longrightarrow>
    host_step (s, live) (s', live)"
| Update: "host_step (s, live) (s\<lparr>hclock := hsd_tick tm (hclock s)\<rparr>, live)"
| Thread: "host_step (s, live) (s\<lparr>contextStack := st\<rparr>, live)"

text \<open>\<open>Thread\<close> changes the thread that is looked at: its stack of contexts is another one.\<close>

definition host_new :: host_state where
  "host_new = \<lparr>contextStack = [], hclock = HostSharedData_new, events = [], signal_registered = False, thread_blocking = []\<rparr>"

definition host_inv :: "host_state \<times> u64 set \<Rightarrow> bool" where
  "host_inv x \<longleftrightarrow> hsd_inv (hclock (fst x)) \<and> fst ` set (blocks (hclock (fst x))) = snd x"

lemma hsd_inv_get: "hsd_inv h \<Longrightarrow> p \<notin> snd ` set (blocks h) \<Longrightarrow> hsd_inv (snd (hsd_get e p tm h))"
  using hsd_inv_exec [of h "Get e p tm"] by simp

lemma hsd_inv_free: "hsd_inv h \<Longrightarrow> hsd_inv (hsd_free e h)"
  using hsd_inv_exec [of h "Free e"] by simp

lemma hsd_inv_tick: "hsd_inv h \<Longrightarrow> hsd_inv (hsd_tick tm h)"
  using hsd_inv_exec [of h "Tick tm"] by simp

lemma blocks_get: "fst ` set (blocks (snd (hsd_get e p tm h))) = insert e (fst ` set (blocks h))"
  by (cases "map_of (blocks h) e")
    (auto simp: hsd_defs Let_def update_new dest: map_of_SomeD intro: rev_image_eqI)

lemma blocks_free: "fst ` set (blocks (hsd_free e h)) = fst ` set (blocks h) - {e}"
  by (auto simp: hsd_defs Let_def AList.delete_eq filter_empty_conv)

lemma blocks_tick: "blocks (hsd_tick tm h) = blocks h"
  by (simp add: hsd_defs Let_def)

lemma get_known: "e \<in> fst ` set (blocks h) \<Longrightarrow> snd (hsd_get e p tm h) = h"
  by (auto simp: hsd_get_def map_of_eq_None_iff split: option.split)

lemma destroy_hclock:
  "java_call env (DestroyEnclave eid fin status []) s = Ret s' \<Longrightarrow>
     hclock s' = (if available (contextStack s) then hclock s else hsd_free eid (hclock s))"
  by (auto simp: EcallContext_new_def EcallContext_delete_def emit_def raise_status_def Let_def split: if_split_asm)

lemma host_inv_step: "host_step x y \<Longrightarrow> host_inv x \<Longrightarrow> host_inv y"
proof (induction rule: host_step.induct)
  case (Create eid live p s status t tm r s')
  obtain q h where g: "hsd_get eid p tm (hclock s) = (q, h)" by fastforce
  then have "hsd_inv h" "fst ` set (blocks h) = insert eid live"
    using Create(2,4) hsd_inv_get [of "hclock s" p eid tm] blocks_get [of eid p tm "hclock s"]
    by (simp_all add: host_inv_def)
  moreover have "hclock s' = (if status = SGX_SUCCESS then h else hclock s)" using Create(3) g
    by (auto simp: createEnclave_def initialise_enclave_def ecall_initialise_enclave_def emit_def
        Let_def split: if_split_asm)
  ultimately show ?case using Create(4) by (simp add: host_inv_def)
next
  case (Destroy eid live env fin status s s')
  then show ?case using destroy_hclock [OF Destroy(2)] by (simp add: host_inv_def hsd_inv_free blocks_free)
next
  case (Ask s c st live env p tm s')
  then have "hclock s' = hclock s" using get_known [of "enclaveId c" "hclock s" p tm]
    by (auto simp: host_inv_def getEnclaveId_def emit_def shared_data_ocall_def split: prod.splits)
  then show ?case using Ask by (simp add: host_inv_def)
qed (auto simp: host_inv_def hsd_inv_tick blocks_tick)

interpretation host_enclave: kept_invariant host_step host_inv
  by unfold_locales (rule host_inv_step)

section \<open>Properties\<close>

text \<open>C33: However calls into enclaves and OCalls are nested on a thread, every OCall is attributed to
  the enclave that made it and no other, an enclave is never destroyed from inside a call, and the
  stack of contexts is the same after the call as before.\<close>

theorem ocalls_attributed:
  assumes "env \<noteq> 0"
  shows "\<exists>h. java_call env c s = Ret (s\<lparr>hclock := h, events := events s @ call_events (available (contextStack s)) c\<rparr>)"
  using calls_show_events(1) [OF assms] by (simp add: shows_events_def)

theorem ocalls_attributed_witness:
  "\<exists>h. java_call 64 (JvmECall 1 True 0 [JvmOCall True [JvmECall 2 True 0 [JvmOCall True [DestroyEnclave 1 0 0 []]]], SharedDataOCall 16 None]) host_new
    = Ret (host_new\<lparr>hclock := h, events := [Received 1, Received 2, DestroyRefused, Shared 1]\<rparr>)"
  using ocalls_attributed [of 64 "JvmECall 1 True 0 [JvmOCall True [JvmECall 2 True 0 [JvmOCall True [DestroyEnclave 1 0 0 []]]], SharedDataOCall 16 None]" host_new]
  by (simp add: host_new_def status_events_def SGX_SUCCESS_def)

text \<open>In any sequence of creations, destructions and requests, exactly the live enclaves have a
  block, no two share one, and the thread that updates the blocks runs exactly while there is a live
  enclave.\<close>

theorem live_enclaves_have_blocks:
  assumes "host_step\<^sup>*\<^sup>* (host_new, {}) (s, live)"
  shows "fst ` set (blocks (hclock s)) = live \<and> umap_ok (blocks (hclock s)) \<and> distinct (map snd (blocks (hclock s)))
    \<and> (initialised (hclock s) \<longleftrightarrow> live \<noteq> {})"
proof -
  have "host_inv (host_new, {})" by (simp add: host_inv_def host_new_def hsd_inv_def HostSharedData_new_def)
  then have "host_inv (s, live)" by (rule host_enclave.reachable_inv [OF assms])
  then show ?thesis by (auto simp: host_inv_def hsd_inv_def)
qed

theorem live_enclaves_have_blocks_witness:
  "fst ` set (blocks (hclock (case createEnclave 0 7 0 16 None host_new of Ret (r, s) \<Rightarrow> s))) = {7}"
proof -
  let ?s = "case createEnclave 0 7 0 16 None host_new of Ret (r, s) \<Rightarrow> s"
  have "host_step (host_new, {}) (?s, if (0 :: u32) = SGX_SUCCESS then insert 7 {} else {})"
    by (rule host_step.Create [where p = 16 and r = 7 and t = 0 and tm = None])
      (simp_all add: host_new_def HostSharedData_new_def createEnclave_def initialise_enclave_def
        ecall_initialise_enclave_def SGX_SUCCESS_def split: prod.split)
  then have "host_step\<^sup>*\<^sup>* (host_new, {}) (?s, {7})" by (auto simp: SGX_SUCCESS_def)
  from live_enclaves_have_blocks [OF this] show ?thesis by simp
qed

text \<open>
  The answer to a request for a thread: success as soon as the enclave has taken the thread, else
  the error of the ECall. When the enclave does neither, the request never comes back. A request
  outside of every ECall is undefined: the check for the missing context follows its use.
\<close>

lemma setThreadStartStatus_none:
  "threadStartPromise c = None \<Longrightarrow> setThreadStartStatus status (c # r, ps) = Ret (c # r, ps)"
  by (simp add: setThreadStartStatus_def)

lemma complete_times_none:
  "threadStartPromise c = None \<Longrightarrow> complete_times n (c # r, ps) = Ret (c # r, ps)"
  by (induction n) (simp_all add: ocall_complete_request_thread_def setThreadStartStatus_none)

lemma request_thread_outcome:
  assumes "context_env c \<noteq> 0"
  shows "ocall_request_thread p env a (c # st) =
    (if 0 < completions a then Ret SGX_SUCCESS
     else (case attach_status a of
             Some ret \<Rightarrow> if ret \<noteq> SGX_SUCCESS then Ret ret else Deadlock
           | None \<Rightarrow> Deadlock))"
    and "ocall_request_thread p env a [] = Undef"
proof -
  let ?c = "\<lparr>enclaveId = enclaveId c, context_env = env, threadStartPromise = None\<rparr>"
  have "thread_main (enclaveId c) env p a =
    Ret (if 0 < completions a then [p \<mapsto> SGX_SUCCESS]
      else (case attach_status a of
         Some ret \<Rightarrow> if ret \<noteq> SGX_SUCCESS then [p \<mapsto> ret] else Map.empty
       | None \<Rightarrow> Map.empty))"
    using complete_times_none [of ?c]
    by (cases "completions a")
      (auto simp: thread_main_def context_defs ocall_complete_request_thread_def split: option.split)
  then show "ocall_request_thread p env a (c # st) =
    (if 0 < completions a then Ret SGX_SUCCESS
     else (case attach_status a of
             Some ret \<Rightarrow> if ret \<noteq> SGX_SUCCESS then Ret ret else Deadlock
           | None \<Rightarrow> Deadlock))"
    using assms by (auto simp: ocall_request_thread_def context_defs future_get_def split: option.split)
qed (simp add: ocall_request_thread_def context_defs)

end
