(* ===== verification/Jvm_Lifecycle.thy ===== *)
theory Jvm_Lifecycle
  imports Conclave_Prelude "HOL-Library.Multiset"
begin

text \<open>
  The embedded virtual machine (substrate\_jvm.cpp): \<open>Jvm\<close> is created by the first thread that
  attaches, counts the contexts it hands out, detaches a context from GraalVM when its last holder
  lets go of it, and is torn down by \<open>close\<close>. GraalVM itself is used through the functions of
  graal\_isolate.h; their documentation there is what the step relation below assumes of them.
\<close>

section \<open>The Jvm object\<close>

datatype jvm_state = INITIALIZED | STARTED | CLOSED

text \<open>
  \<open>impl_\<close> is a \<open>JvmStateImpl_Started\<close> with its isolate and its multiset of contexts, until \<open>close\<close>
  replaces it by a \<open>JvmStateImpl_Stopped\<close>.
\<close>

record Jvm =
  stopped :: bool
  isolate :: ptr
  threads :: "ptr multiset"

definition Jvm_new :: Jvm where
  "Jvm_new = \<lparr>stopped = False, isolate = 0, threads = {#}\<rparr>"

text \<open>What \<open>graal_create_isolate\<close> or \<open>graal_attach_thread\<close> answers.\<close>

record graal_answer =
  graal_ret :: int
  graal_isolate :: ptr
  graal_thread :: ptr

definition jvm_state :: "'a Jvm_scheme \<Rightarrow> jvm_state" where
  "jvm_state j = (if stopped j then CLOSED else if isolate j = 0 then INITIALIZED else STARTED)"

definition jvm_is_alive :: "'a Jvm_scheme \<Rightarrow> bool" where
  "jvm_is_alive j \<longleftrightarrow> jvm_state j \<noteq> CLOSED"

definition init_vm :: "graal_answer \<Rightarrow> 'a Jvm_scheme \<Rightarrow> (ptr \<times> 'a Jvm_scheme) cpp" where
  "init_vm a j =
     (if graal_ret a \<noteq> 0 then Abort
      else Ret (graal_thread a, j\<lparr>isolate := graal_isolate a, threads := add_mset (graal_thread a) (threads j)\<rparr>))"

definition attach_thread :: "graal_answer \<Rightarrow> 'a Jvm_scheme \<Rightarrow> (ptr \<times> 'a Jvm_scheme) cpp" where
  "attach_thread a j =
     (if isolate j = 0 \<or> graal_ret a \<noteq> 0 then Abort
      else Ret (graal_thread a, j\<lparr>threads := add_mset (graal_thread a) (threads j)\<rparr>))"

text \<open>A stopped machine hands out a null pointer.\<close>

definition attach_current_thread :: "graal_answer \<Rightarrow> 'a Jvm_scheme \<Rightarrow> (ptr \<times> 'a Jvm_scheme) cpp" where
  "attach_current_thread a j =
     (if stopped j then Ret (0, j)
      else if jvm_state j = INITIALIZED then init_vm a j
      else attach_thread a j)"

text \<open>\<open>notify_detach\<close>; the first result tells whether \<open>graal_detach_thread\<close> is called.\<close>

definition notify_detach :: "ptr \<Rightarrow> 'a Jvm_scheme \<Rightarrow> bool \<times> 'a Jvm_scheme" where
  "notify_detach p j =
     (if stopped j then (False, j)
      else let ts = threads j - {#p#} in (p \<notin># ts, j\<lparr>threads := ts\<rparr>))"

text \<open>\<open>GraalThreadDeleter\<close>: nothing is detached for a null pointer.\<close>

definition release_context :: "ptr \<Rightarrow> 'a Jvm_scheme \<Rightarrow> bool \<times> 'a Jvm_scheme" where
  "release_context p j = (if p = 0 then (False, j) else notify_detach p j)"

text \<open>
  \<open>close\<close> up to the call of \<open>graal_tear_down_isolate\<close> (the answer is that of
  \<open>graal_attach_thread\<close>): \<open>True\<close> when the isolate has to be torn down, \<open>False\<close> when there is nothing
  to wait for.
\<close>

definition close_begin :: "graal_answer \<Rightarrow> 'a Jvm_scheme \<Rightarrow> bool cpp" where
  "close_begin a j =
     (if stopped j \<or> isolate j = 0 then Ret False
      else if graal_ret a \<noteq> 0 \<or> graal_thread a = 0 then Abort
      else Ret True)"

text \<open>\<open>close\<close> after \<open>graal_tear_down_isolate\<close> came back with \<open>ret\<close>.\<close>

definition close_end :: "int \<Rightarrow> 'a Jvm_scheme \<Rightarrow> 'a Jvm_scheme cpp" where
  "close_end ret j =
     (if ret \<noteq> 0 then Abort else Ret (j\<lparr>stopped := True, isolate := 0, threads := {#}\<rparr>))"

definition jniEnv :: "graal_answer \<Rightarrow> 'a Jvm_scheme \<Rightarrow> (ptr \<times> 'a Jvm_scheme) cpp" where
  "jniEnv a j =
     cbind (attach_current_thread a j) (\<lambda>(p, j').
       if p = 0 \<and> \<not> jvm_is_alive j'
       then Throw (RuntimeError ''Attempt to attach a new thread after enclave destruction has started'')
       else Ret (p, j'))"

section \<open>Threads, GraalVM and the mutex\<close>

text \<open>
  \<open>contexts\<close> are the threads GraalVM has attached, with their contexts; \<open>tokens\<close> the shared pointers
  that threads hold; \<open>closer\<close> is the thread inside \<open>close\<close> waiting for \<open>graal_tear_down_isolate\<close>, which
  holds \<open>mutex_\<close> all the time.
\<close>

record jvm_sys = Jvm +
  contexts :: "nat \<Rightarrow> ptr option"
  tokens :: "(nat \<times> ptr) multiset"
  closer :: "nat option"
  ended :: bool

definition jvm_sys_new :: jvm_sys where
  "jvm_sys_new = Jvm.extend Jvm_new \<lparr>contexts = (\<lambda>_. None), tokens = {#}, closer = None, ended = False\<rparr>"

text \<open>
  \<open>graal_attach_thread\<close> (and \<open>graal_create_isolate\<close>) on success: the structure of the calling thread,
  the one it has when it is attached already, a new one otherwise.
\<close>

definition graal_attaches :: "nat \<Rightarrow> graal_answer \<Rightarrow> (nat \<Rightarrow> ptr option) \<Rightarrow> bool" where
  "graal_attaches t a c \<longleftrightarrow> graal_ret a = 0 \<and> graal_isolate a \<noteq> 0 \<and> graal_thread a \<noteq> 0 \<and>
     (case c t of Some p \<Rightarrow> p = graal_thread a | None \<Rightarrow> \<forall>u. c u \<noteq> Some (graal_thread a))"

definition graal_detach :: "ptr \<Rightarrow> (nat \<Rightarrow> ptr option) \<Rightarrow> nat \<Rightarrow> ptr option" where
  "graal_detach p c = (\<lambda>t. if c t = Some p then None else c t)"

inductive jvm_step :: "jvm_sys \<Rightarrow> jvm_sys \<Rightarrow> bool" where
  Attach: "\<not> ended s \<Longrightarrow> closer s = None \<Longrightarrow> graal_attaches t a (contexts s) \<Longrightarrow>
    attach_current_thread a s = Ret (p, s') \<Longrightarrow> p \<noteq> 0 \<Longrightarrow>
    jvm_step s (s'\<lparr>contexts := (contexts s)(t \<mapsto> p), tokens := add_mset (t, p) (tokens s)\<rparr>)"
| AttachStopped: "\<not> ended s \<Longrightarrow> closer s = None \<Longrightarrow> attach_current_thread a s = Ret (0, s') \<Longrightarrow> stopped s \<Longrightarrow> jvm_step s s'"
| AttachFails: "\<not> ended s \<Longrightarrow> closer s = None \<Longrightarrow> attach_current_thread a s = Abort \<Longrightarrow> jvm_step s (s\<lparr>ended := True\<rparr>)"
| Release: "\<not> ended s \<Longrightarrow> closer s = None \<Longrightarrow> (t, p) \<in># tokens s \<Longrightarrow> release_context p s = (d, s') \<Longrightarrow>
    jvm_step s (s'\<lparr>contexts := (if d then graal_detach p (contexts s) else contexts s),
                   tokens := tokens s - {#(t, p)#}\<rparr>)"
| ReleaseStopped: "\<not> ended s \<Longrightarrow> stopped s \<Longrightarrow> (t, p) \<in># tokens s \<Longrightarrow> jvm_step s (s\<lparr>tokens := tokens s - {#(t, p)#}\<rparr>)"
| CloseNothing: "\<not> ended s \<Longrightarrow> closer s = None \<Longrightarrow> close_begin a s = Ret False \<Longrightarrow> jvm_step s (s\<lparr>stopped := True\<rparr>)"
| CloseWait: "\<not> ended s \<Longrightarrow> closer s = None \<Longrightarrow> graal_attaches t a (contexts s) \<Longrightarrow> close_begin a s = Ret True \<Longrightarrow>
    jvm_step s (s\<lparr>contexts := (contexts s)(t \<mapsto> graal_thread a), closer := Some t\<rparr>)"
| CloseFails: "\<not> ended s \<Longrightarrow> closer s = None \<Longrightarrow> close_begin a s = Abort \<Longrightarrow> jvm_step s (s\<lparr>ended := True\<rparr>)"
| CloseDone: "\<not> ended s \<Longrightarrow> closer s = Some t \<Longrightarrow> \<forall>u. u \<noteq> t \<longrightarrow> contexts s u = None \<Longrightarrow> close_end 0 s = Ret s' \<Longrightarrow>
    jvm_step s (s'\<lparr>contexts := (\<lambda>_. None), closer := None\<rparr>)"

inductive_cases jvm_stepE: "jvm_step s s'"

lemmas jvm_defs = attach_current_thread_def init_vm_def attach_thread_def notify_detach_def release_context_def
  close_begin_def close_end_def jvm_state_def

section \<open>Invariant\<close>

text \<open>
  While the machine runs, the multiset of the code counts exactly the shared pointers, a pointer
  that is held is the attached context of its holder, and a thread is attached only while it
  holds one (or is the one that closes).
\<close>

definition jvm_inv :: "jvm_sys \<Rightarrow> bool" where
  "jvm_inv s \<longleftrightarrow> \<not> stopped s \<longrightarrow>
     threads s = image_mset snd (tokens s) \<and>
     (\<forall>t p. (t, p) \<in># tokens s \<longrightarrow> contexts s t = Some p \<and> p \<noteq> 0) \<and>
     (\<forall>t p. contexts s t = Some p \<longrightarrow> (t, p) \<in># tokens s \<or> closer s = Some t) \<and>
     (\<forall>t u p. contexts s t = Some p \<longrightarrow> contexts s u = Some p \<longrightarrow> t = u)"

lemma jvm_inv_new: "jvm_inv jvm_sys_new"
  by (simp add: jvm_inv_def jvm_sys_new_def Jvm_new_def Jvm.extend_def)

text \<open>The three facts about pointers that are held, apart from the count.\<close>

definition held_ok :: "nat option \<Rightarrow> (nat \<times> ptr) multiset \<Rightarrow> (nat \<Rightarrow> ptr option) \<Rightarrow> bool" where
  "held_ok cl m c \<longleftrightarrow>
     (\<forall>t p. (t, p) \<in># m \<longrightarrow> c t = Some p \<and> p \<noteq> 0) \<and>
     (\<forall>t p. c t = Some p \<longrightarrow> (t, p) \<in># m \<or> cl = Some t) \<and>
     (\<forall>t u p. c t = Some p \<longrightarrow> c u = Some p \<longrightarrow> t = u)"

lemma jvm_inv_iff:
  "jvm_inv s \<longleftrightarrow> stopped s \<or> threads s = image_mset snd (tokens s) \<and> held_ok (closer s) (tokens s) (contexts s)"
  by (auto simp: jvm_inv_def held_ok_def)

lemma held_okI:
  assumes "\<And>t p. (t, p) \<in># m \<Longrightarrow> c t = Some p \<and> p \<noteq> 0"
    and "\<And>t p. c t = Some p \<Longrightarrow> (t, p) \<in># m \<or> cl = Some t"
    and "\<And>t u p. c t = Some p \<Longrightarrow> c u = Some p \<Longrightarrow> t = u"
  shows "held_ok cl m c"
  unfolding held_ok_def using assms by blast

lemma held_okD:
  assumes "held_ok cl m c"
  shows "(t, p) \<in># m \<Longrightarrow> c t = Some p" and "(t, p) \<in># m \<Longrightarrow> p \<noteq> 0"
    and "c t = Some p \<Longrightarrow> (t, p) \<in># m \<or> cl = Some t"
    and "c t = Some p \<Longrightarrow> c u = Some p \<Longrightarrow> t = u"
  using assms unfolding held_ok_def by blast+

lemma graal_attaches_context:
  assumes "graal_attaches t a c" and "c u = Some (graal_thread a)"
  shows "u = t \<or> c t = c u"
  using assms by (cases "c t") (auto simp: graal_attaches_def)

lemma held_ok_upd:
  assumes h: "held_ok None m c" and g: "graal_attaches t a c"
    and m': "\<And>x. x \<in># m' \<longleftrightarrow> x \<in># m \<or> (new \<and> x = (t, graal_thread a))" and cl: "new \<and> cl = None \<or> \<not> new \<and> cl = Some t"
  shows "held_ok cl m' (c(t \<mapsto> graal_thread a))"
proof (rule held_okI)
  have same: "c t = None \<or> c t = Some (graal_thread a)" and nz: "graal_thread a \<noteq> 0"
    using g by (auto simp: graal_attaches_def split: option.split_asm)
  have old: "u = t" if "c u = Some (graal_thread a)" for u
    using graal_attaches_context [OF g that] held_okD(4) [OF h] that by metis
  show "(c(t \<mapsto> graal_thread a)) u = Some p \<and> p \<noteq> 0" if "(u, p) \<in># m'" for u p
    using that m' same nz held_okD(1,2) [OF h] by fastforce
  show "(u, p) \<in># m' \<or> cl = Some u" if "(c(t \<mapsto> graal_thread a)) u = Some p" for u p
    using that m' cl held_okD(3) [OF h] by (cases "u = t") auto
  show "u = v" if "(c(t \<mapsto> graal_thread a)) u = Some p" "(c(t \<mapsto> graal_thread a)) v = Some p" for u v p
    using that old held_okD(4) [OF h] by (cases "u = t"; cases "v = t") auto
qed

lemma held_ok_release_last:
  assumes h: "held_ok None m c" and "(t, p) \<in># m" and "p \<notin># image_mset snd (m - {#(t, p)#})"
  shows "held_ok None (m - {#(t, p)#}) (graal_detach p c)"
proof (rule held_okI)
  fix u q assume uq: "(u, q) \<in># m - {#(t, p)#}"
  then have "(u, q) \<in># m" by (rule in_diffD)
  moreover have "q \<noteq> p" using uq assms(3) by force
  ultimately show "graal_detach p c u = Some q \<and> q \<noteq> 0"
    using held_okD(1,2) [OF h, of u q] by (simp add: graal_detach_def)
next
  fix u q assume "graal_detach p c u = Some q"
  then have "c u = Some q" "q \<noteq> p" by (auto simp: graal_detach_def split: if_split_asm)
  then show "(u, q) \<in># m - {#(t, p)#} \<or> None = Some u"
    using held_okD(3) [OF h, of u q] by (simp add: in_diff_count)
next
  fix u v q assume "graal_detach p c u = Some q" "graal_detach p c v = Some q"
  then have "c u = Some q" "c v = Some q" by (auto simp: graal_detach_def split: if_split_asm)
  then show "u = v" by (rule held_okD(4) [OF h])
qed

lemma held_ok_release_one:
  assumes h: "held_ok None m c" and tp: "(t, p) \<in># m" and "p \<in># image_mset snd (m - {#(t, p)#})"
  shows "held_ok None (m - {#(t, p)#}) c"
proof -
  obtain u where u: "(u, p) \<in># m - {#(t, p)#}" using assms(3) by auto
  have "u = t" using held_okD(4) [OF h held_okD(1) [OF h in_diffD [OF u]] held_okD(1) [OF h tp]] .
  then have keep: "(v, q) \<in># m - {#(t, p)#}" if "(v, q) \<in># m" for v q
    using that u by (cases "(v, q) = (t, p)") (auto simp: in_diff_count)
  show ?thesis
    by (rule held_okI) (metis held_okD(1,2) [OF h] in_diffD, metis held_okD(3) [OF h] keep, metis held_okD(4) [OF h])
qed

lemma jvm_inv_release:
  assumes "jvm_inv s" and "closer s = None" and "(t, p) \<in># tokens s" and "release_context p s = (d, s')"
  shows "jvm_inv (s'\<lparr>contexts := (if d then graal_detach p (contexts s) else contexts s), tokens := tokens s - {#(t, p)#}\<rparr>)"
proof (cases "stopped s")
  case True
  then show ?thesis using assms(4) by (auto simp: jvm_inv_iff jvm_defs split: if_split_asm)
next
  case False
  let ?m = "tokens s - {#(t, p)#}"
  have h: "held_ok None (tokens s) (contexts s)" and th: "threads s = image_mset snd (tokens s)"
    using assms(1,2) False by (auto simp: jvm_inv_iff)
  have "p \<noteq> 0" using held_okD(2) [OF h assms(3)] .
  then have s': "d \<longleftrightarrow> p \<notin># threads s - {#p#}" "s' = s\<lparr>threads := threads s - {#p#}\<rparr>"
    using assms(4) False by (auto simp: jvm_defs Let_def)
  have m: "threads s - {#p#} = image_mset snd ?m" using th assms(3) by (simp add: image_mset_Diff)
  have "held_ok None ?m (if d then graal_detach p (contexts s) else contexts s)"
    using held_ok_release_last [OF h assms(3)] held_ok_release_one [OF h assms(3)] s'(1) m by simp
  then show ?thesis using assms(2) m s' by (simp add: jvm_inv_iff)
qed

lemma jvm_inv_step: "jvm_step s s' \<Longrightarrow> jvm_inv s \<Longrightarrow> jvm_inv s'"
proof (induction rule: jvm_step.induct)
  case (Attach s t a p s')
  then have "\<not> stopped s" "p = graal_thread a"
    by (auto simp: jvm_defs graal_attaches_def split: if_split_asm)
  moreover have "closer s' = closer s" "threads s' = add_mset p (threads s)"
    using Attach \<open>p = graal_thread a\<close> by (auto simp: jvm_defs graal_attaches_def split: if_split_asm)
  moreover have "held_ok None (tokens s) (contexts s)" "threads s = image_mset snd (tokens s)"
    using Attach \<open>\<not> stopped s\<close> by (simp_all add: jvm_inv_iff)
  moreover have "held_ok None (add_mset (t, p) (tokens s)) ((contexts s)(t \<mapsto> graal_thread a))"
    by (rule held_ok_upd [of "tokens s", where new = True]) (use calculation Attach in auto)
  ultimately show ?case using Attach by (simp add: jvm_inv_iff)
next
  case (Release s t p d s')
  then show ?case by (intro jvm_inv_release)
next
  case (CloseWait s t a)
  then have "\<not> stopped s" by (auto simp: jvm_defs split: if_split_asm)
  then have "held_ok (Some t) (tokens s) ((contexts s)(t \<mapsto> graal_thread a))"
    using CloseWait by (intro held_ok_upd [of "tokens s", where new = False]) (auto simp: jvm_inv_iff)
  then show ?case using CloseWait by (auto simp: jvm_inv_iff)
qed (auto simp: jvm_inv_iff jvm_defs split: if_split_asm)

interpretation jvm: kept_invariant jvm_step jvm_inv
  by unfold_locales (rule jvm_inv_step)

text \<open>While the closing thread waits and another thread is attached, nothing moves.\<close>

lemma closing_stuck:
  assumes "jvm_step s s'" and "jvm_inv s" and "closer s = Some t" and "\<not> stopped s" and "(u, p) \<in># tokens s" and "u \<noteq> t"
  shows False
proof -
  have "contexts s u = Some p" using assms(2,4,5) unfolding jvm_inv_def by blast
  then show False using assms(1,3,4,6) by (auto elim!: jvm_stepE)
qed

lemma stopped_step: "jvm_step s s' \<Longrightarrow> stopped s \<Longrightarrow> stopped s'"
  by (induction rule: jvm_step.induct) (auto simp: jvm_defs split: if_split_asm)

interpretation stopped_jvm: kept_invariant jvm_step stopped
  by unfold_locales (rule stopped_step)

section \<open>Properties\<close>

text \<open>Thread 5 attaches and gets the context 64, then thread 6 closes the machine.\<close>

definition example_attached :: jvm_sys where
  "example_attached = \<lparr>stopped = False, isolate = 32, threads = {#64#}, contexts = [5 \<mapsto> 64], tokens = {#(5, 64)#},
     closer = None, ended = False\<rparr>"

lemma example_attach: "jvm_step\<^sup>*\<^sup>* jvm_sys_new example_attached"
proof -
  let ?a = "\<lparr>graal_ret = 0, graal_isolate = 32, graal_thread = 64\<rparr>"
  have "jvm_step jvm_sys_new ((jvm_sys_new\<lparr>isolate := 32, threads := {#64#}\<rparr>)
      \<lparr>contexts := (contexts jvm_sys_new)(5 \<mapsto> 64), tokens := add_mset (5, 64) (tokens jvm_sys_new)\<rparr>)"
    by (rule jvm_step.Attach [of _ _ ?a])
      (auto simp: jvm_sys_new_def Jvm_new_def Jvm.extend_def graal_attaches_def jvm_defs)
  then show ?thesis
    by (auto simp: jvm_sys_new_def Jvm_new_def Jvm.extend_def example_attached_def)
qed

lemma example_close: "jvm_step example_attached (example_attached\<lparr>contexts := [5 \<mapsto> 64, 6 \<mapsto> 96], closer := Some 6\<rparr>)"
proof -
  let ?a = "\<lparr>graal_ret = 0, graal_isolate = 32, graal_thread = 96\<rparr>"
  have "jvm_step example_attached
      (example_attached\<lparr>contexts := (contexts example_attached)(6 \<mapsto> graal_thread ?a), closer := Some 6\<rparr>)"
    by (rule jvm_step.CloseWait) (auto simp: example_attached_def graal_attaches_def jvm_defs)
  then show ?thesis by (simp add: example_attached_def)
qed

text \<open>C32: A context is never used after it was detached and never outlives its holders: in every
  reachable state of a running machine, however often threads re-enter, a shared pointer refers to
  the attached context of the thread that holds it, and a thread is attached only while it holds
  one or is the one that closes the machine.\<close>

theorem jvm_contexts_live:
  assumes "jvm_step\<^sup>*\<^sup>* jvm_sys_new s" and "\<not> stopped s"
  shows "((t, p) \<in># tokens s \<longrightarrow> contexts s t = Some p)
    \<and> (contexts s t = Some p \<longrightarrow> (t, p) \<in># tokens s \<or> closer s = Some t)
    \<and> threads s = image_mset snd (tokens s)"
proof -
  have "jvm_inv s" by (rule jvm.reachable_inv [OF assms(1) jvm_inv_new])
  then have "held_ok (closer s) (tokens s) (contexts s)" "threads s = image_mset snd (tokens s)"
    using assms(2) by (simp_all add: jvm_inv_iff)
  then show ?thesis using held_okD(1,3) [of "closer s" "tokens s" "contexts s"] by blast
qed

theorem jvm_contexts_live_witness: "contexts example_attached 5 = Some 64 \<and> threads example_attached = {#64#}"
  using jvm_contexts_live [OF example_attach, of 5 64] by (simp add: example_attached_def)



text \<open>Once \<open>close\<close> has returned the machine stays closed: no later step reopens it, every
  further attempt to attach gets a null pointer and \<open>jniEnv\<close> reports the destruction.\<close>

theorem jvm_stays_closed:
  assumes "stopped s" and "jvm_step\<^sup>*\<^sup>* s s'"
  shows "jvm_state s' = CLOSED \<and> attach_current_thread a s' = Ret (0, s')
    \<and> jniEnv a s' = Throw (RuntimeError ''Attempt to attach a new thread after enclave destruction has started'')"
  using stopped_jvm.reachable_inv [OF assms(2,1)]
  by (simp add: jvm_state_def attach_current_thread_def jniEnv_def jvm_is_alive_def)

theorem jvm_stays_closed_witness: "jvm_state (jvm_sys_new\<lparr>stopped := True\<rparr>) = CLOSED"
  using jvm_stays_closed [of "jvm_sys_new\<lparr>stopped := True\<rparr>" "jvm_sys_new\<lparr>stopped := True\<rparr>"] by simp

end
