(* ===== verification/Enclave_Native.thy ===== *)
theory Enclave_Native
  imports Conclave_Prelude
begin

text \<open>
  The native methods of the enclave's virtual machine (enclave\_jni.cpp): messages to the host,
  reports and keys, and the sealing of data. Java byte arrays are option values (\<open>None\<close> is \<open>null\<close>); pinning an array
  (\<open>GetByteArrayElements\<close>) is assumed to succeed, as it does short of memory exhaustion. The functions
  of the SGX SDK are parameters. \<open>jint\<close> arguments are integers in the 32-bit range.

  A method reports errors by raising Java exceptions, which stay pending while it goes on: the
  result of a method includes the exceptions it raised, in their order.
\<close>

section \<open>Exceptions and parameters\<close>

text \<open>
  The message of an exception: that of \<open>getErrorMessage\<close> for a status, a text, or the text
  \<open>output (size \<dots>) can't fit sealed data (size \<dots>)\<close> with its two numbers.
\<close>

datatype java_exn = SgxError u32 | Message string | OutputTooSmall int u32

definition SGX_OK :: u32 where "SGX_OK = 0"
definition SGX_ERROR_UNEXPECTED :: u32 where "SGX_ERROR_UNEXPECTED = 1"
definition SGX_ERROR_INVALID_PARAMETER :: u32 where "SGX_ERROR_INVALID_PARAMETER = 2"
definition UINT32_MAX :: u32 where "UINT32_MAX = - 1"

type_synonym jbyteArray = "bytes option"

record seal_sdk =
  calc_sealed_data_size :: "u32 \<Rightarrow> u32 \<Rightarrow> u32"
  seal_data :: "bytes \<Rightarrow> bytes \<Rightarrow> u32 \<Rightarrow> u32 \<times> bytes"
  get_add_mac_txt_len :: "jbyteArray \<Rightarrow> u32"
  get_encrypt_txt_len :: "jbyteArray \<Rightarrow> u32"
  unseal_data :: "bytes \<Rightarrow> u32 \<Rightarrow> u32 \<Rightarrow> u32 \<times> bytes \<times> bytes"
  memcpy_s :: "bytes \<Rightarrow> nat \<Rightarrow> nat \<Rightarrow> bytes \<Rightarrow> bytes"

text \<open>A \<open>jint\<close> converted to \<open>uint32_t\<close>.\<close>

definition to_u32 :: "int \<Rightarrow> u32" where
  "to_u32 i = word_of_int i"

definition is_jint :: "int \<Rightarrow> bool" where
  "is_jint i \<longleftrightarrow> - (2 ^ 31) \<le> i \<and> i < 2 ^ 31"

section \<open>Sealing\<close>

text \<open>
  The sum of two \<open>jint\<close>s that does not fit overflows, which is undefined. The first component is
  the result of the check.
\<close>

definition validateArrayOffsetLength ::
    "jbyteArray \<Rightarrow> int \<Rightarrow> int \<Rightarrow> string \<Rightarrow> (bool \<times> java_exn list) cpp" where
  "validateArrayOffsetLength arr offset sz fieldName =
     (if sz > 0 then
        (case arr of
           None \<Rightarrow> Ret (False, [Message (''invalid '' @ fieldName)])
         | Some b \<Rightarrow>
             if \<not> is_jint (offset + sz) then Undef
             else if int (length b) < offset + sz then Ret (False, [Message (fieldName @ '' array too small'')])
             else Ret (True, []))
      else if sz < 0 then Ret (False, [Message (fieldName @ '' array has a negative size'')])
      else Ret (True, []))"

definition validateSealDataArgs ::
    "jbyteArray \<Rightarrow> int \<Rightarrow> int \<Rightarrow> jbyteArray \<Rightarrow> int \<Rightarrow> int \<Rightarrow> jbyteArray \<Rightarrow> int \<Rightarrow> int \<Rightarrow> (bool \<times> java_exn list) cpp" where
  "validateSealDataArgs aad aadOffset aadSize plaintext ptOffset ptSize output outOffset outLength =
     cbind (validateArrayOffsetLength plaintext ptOffset ptSize ''plaintext'') (\<lambda>(ok1, e1).
       if \<not> ok1 then Ret (False, e1)
       else cbind (if aadSize \<noteq> 0 then validateArrayOffsetLength aad aadOffset aadSize ''authenticatedData'' else Ret (True, [])) (\<lambda>(ok2, e2).
         if \<not> ok2 then Ret (False, e1 @ e2)
         else cbind (if outLength \<noteq> 0 then validateArrayOffsetLength output outOffset outLength ''output'' else Ret (True, [])) (\<lambda>(ok3, e3).
           Ret (ok3, e1 @ e2 @ e3))))"

text \<open>The \<open>n\<close> bytes at the start of a pinned array; reading past its end is undefined.\<close>

definition pinned :: "bytes \<Rightarrow> int \<Rightarrow> bytes cpp" where
  "pinned b n = (if n \<le> int (length b) then Ret (take (nat n) b) else Undef)"

text \<open>
  \<open>sgx_seal_data\<close> is handed the start of the arrays: the offsets of the plaintext and of the
  additional data are not added. The result is written back to the output array at its offset.
\<close>

definition sealData ::
    "seal_sdk \<Rightarrow> jbyteArray \<Rightarrow> int \<Rightarrow> int \<Rightarrow> jbyteArray \<Rightarrow> int \<Rightarrow> int \<Rightarrow> jbyteArray \<Rightarrow> int \<Rightarrow> int \<Rightarrow>
     (java_exn list \<times> jbyteArray) cpp" where
  "sealData S output outOffset outSize plaintext ptOffset ptSize aad aadOffset aadSize =
     cbind (validateSealDataArgs aad aadOffset aadSize plaintext ptOffset ptSize output outOffset outSize) (\<lambda>(ok, es).
       if \<not> ok then Ret (es @ [Message ''sealData arguments validation failure''], output)
       else
         let sealedDataSize = calc_sealed_data_size S (to_u32 aadSize) (to_u32 ptSize) in
         if to_u32 outSize < sealedDataSize then Ret (es @ [OutputTooSmall outSize sealedDataSize], output)
         else (case plaintext of
             None \<Rightarrow> Ret (es @ [SgxError SGX_ERROR_UNEXPECTED], output)
           | Some pt \<Rightarrow>
               cbind (pinned pt ptSize) (\<lambda>p.
               cbind (case aad of None \<Rightarrow> Ret [] | Some a \<Rightarrow> pinned a aadSize) (\<lambda>a.
                 (case seal_data S a p sealedDataSize of (ret, buffer) \<Rightarrow>
                    if ret \<noteq> SGX_OK then Ret (es @ [SgxError ret], output)
                    else (case output of
                        None \<Rightarrow> Undef
                      | Some out \<Rightarrow>
                          if 0 \<le> outOffset \<and> outOffset + outSize \<le> int (length out)
                          then Ret (es, Some (memcpy_s S out (nat outOffset) (nat outSize) buffer))
                          else Undef))))))"

section \<open>Unsealing\<close>

text \<open>The lambda \<open>validateParameter\<close>: true when something is invalid.\<close>

definition validateParameter :: "jbyteArray \<Rightarrow> int \<Rightarrow> int \<Rightarrow> bool" where
  "validateParameter arr offset len \<longleftrightarrow>
     (case arr of None \<Rightarrow> True
      | Some b \<Rightarrow> offset < 0 \<or> len \<le> 0 \<or> offset \<ge> len \<or> offset + len > int (length b))"

text \<open>
  The lengths are read from the start of the blob, without its offset. The output arrays are
  returned. \<open>&deData[0]\<close> of an empty vector is taken to be the pointer it is in practice, one that no
  byte is written through.
\<close>

definition unsealData ::
    "seal_sdk \<Rightarrow> jbyteArray \<Rightarrow> int \<Rightarrow> int \<Rightarrow> jbyteArray \<Rightarrow> int \<Rightarrow> int \<Rightarrow> jbyteArray \<Rightarrow> int \<Rightarrow> int \<Rightarrow>
     (java_exn list \<times> jbyteArray \<times> jbyteArray) cpp" where
  "unsealData S blob blobOffset blobLength dataOut dataOutOffset dataOutLength aadOut aadOutOffset aadOutLength =
     (let aadLen = get_add_mac_txt_len S blob;
          decLen = get_encrypt_txt_len S blob in
      if aadLen = UINT32_MAX \<or> decLen = UINT32_MAX then Ret ([SgxError SGX_ERROR_UNEXPECTED], dataOut, aadOut)
      else if validateParameter blob blobOffset blobLength \<or> validateParameter dataOut dataOutOffset dataOutLength
              \<or> int (unat aadLen) + int (unat decLen) > blobLength
      then Ret ([SgxError SGX_ERROR_INVALID_PARAMETER], dataOut, aadOut)
      else (case (blob, dataOut) of
          (Some b, Some out) \<Rightarrow>
            (case unseal_data S (drop (nat blobOffset) b) aadLen decLen of (res, deAad, deData) \<Rightarrow>
               if res \<noteq> SGX_OK then Ret ([SgxError res], dataOut, aadOut)
               else
                 let copied = Some (memcpy_s S out (nat dataOutOffset) (nat dataOutLength) deData) in
                 if aadOutLength = 0 then Ret ([], copied, aadOut)
                 else
                   let len = min aadOutLength (sint aadLen) in
                   if validateParameter aadOut aadOutOffset len
                   then Ret ([SgxError SGX_ERROR_INVALID_PARAMETER], dataOut, aadOut)
                   else (case aadOut of
                       None \<Rightarrow> Undef
                     | Some ao \<Rightarrow> Ret ([], copied, Some (memcpy_s S ao (nat aadOutOffset) (nat len) deAad))))
        | _ \<Rightarrow> Undef))"

text \<open>The sizes; the status of an exception and the result -1 when the SDK cannot tell.\<close>

definition calcSealedBlobSize :: "seal_sdk \<Rightarrow> int \<Rightarrow> int \<Rightarrow> java_exn list \<times> int" where
  "calcSealedBlobSize S plaintextSize authenticatedDataSize =
     (let ret = calc_sealed_data_size S (to_u32 authenticatedDataSize) (to_u32 plaintextSize) in
      if ret = UINT32_MAX then ([SgxError SGX_ERROR_UNEXPECTED], - 1) else ([], sint ret))"

definition authenticatedDataSize :: "seal_sdk \<Rightarrow> jbyteArray \<Rightarrow> java_exn list \<times> int" where
  "authenticatedDataSize S blob =
     (if blob \<noteq> None \<and> get_add_mac_txt_len S blob \<noteq> UINT32_MAX then ([], sint (get_add_mac_txt_len S blob))
      else ([SgxError SGX_ERROR_UNEXPECTED], - 1))"

definition plaintextSizeFromSealedData :: "seal_sdk \<Rightarrow> jbyteArray \<Rightarrow> java_exn list \<times> int" where
  "plaintextSizeFromSealedData S blob =
     (if blob \<noteq> None \<and> get_encrypt_txt_len S blob \<noteq> UINT32_MAX then ([], sint (get_encrypt_txt_len S blob))
      else ([SgxError SGX_ERROR_UNEXPECTED], - 1))"

section \<open>Messages to the host\<close>

text \<open>
  What the host does with one message: the status of the OCall that passes a small message on the
  stack, the status and address of the untrusted buffer for a large one, and the status of the two
  OCalls that pass and free it. A failed allocation leaves the pointer null.
\<close>

record ocall_host =
  stack_status :: u32
  alloc_status :: u32
  alloc_ptr :: ptr
  heap_status :: u32
  free_status :: u32

text \<open>The bytes the host receives, if the call gets so far, and the exceptions raised.\<close>

definition sgx_raise :: "u32 \<Rightarrow> java_exn list" where
  "sgx_raise status = (if status \<noteq> SGX_OK then [SgxError status] else [])"

definition jvmOCall :: "(ptr \<Rightarrow> nat \<Rightarrow> bool) \<Rightarrow> ocall_host \<Rightarrow> bytes \<Rightarrow> (java_exn list \<times> bytes option) cpp" where
  "jvmOCall outside h data =
     (if length data < 131072 then
        Ret (sgx_raise (stack_status h), if stack_status h = SGX_OK then Some data else None)
      else
        let p = (if alloc_status h \<noteq> SGX_OK then 0 else alloc_ptr h);
            es = (if alloc_status h \<noteq> SGX_OK then [SgxError (alloc_status h)]
                  else if p = 0 then [Message ''Failed to allocate host side buffer for ocall data.'']
                  else []) in
        if alloc_status h = SGX_OK \<and> p \<noteq> 0 \<and> \<not> outside p (length data) then Abort
        else if p = 0 then Undef
        else Ret (es @ sgx_raise (heap_status h) @ sgx_raise (free_status h),
                  if heap_status h = SGX_OK then Some data else None))"

section \<open>Reports and keys\<close>

text \<open>
  The SDK is handed the start of the arrays as pointers to structures of fixed sizes: 512 bytes of
  target information, 64 of report data, 512 of a key request, and 432 and 16 for the results. The
  lengths of the arrays are not checked; touching bytes they do not have is undefined, and so is
  pinning a null array. The SDK's functions are arguments.
\<close>

definition pinned_struct :: "jbyteArray \<Rightarrow> nat \<Rightarrow> bytes option cpp" where
  "pinned_struct arr n =
     (case arr of None \<Rightarrow> Ret None | Some b \<Rightarrow> cbind (pinned b (int n)) (\<lambda>x. Ret (Some x)))"

definition write_struct :: "bytes \<Rightarrow> nat \<Rightarrow> u32 \<times> bytes \<Rightarrow> (java_exn list \<times> jbyteArray) cpp" where
  "write_struct out n r =
     (case r of (status, res) \<Rightarrow>
        if status \<noteq> SGX_OK then Ret ([SgxError status], Some out)
        else if length out < n then Undef
        else Ret ([], Some (blit out 0 (take n res))))"

definition createReport ::
    "(bytes option \<Rightarrow> bytes option \<Rightarrow> u32 \<times> bytes) \<Rightarrow> jbyteArray \<Rightarrow> jbyteArray \<Rightarrow> jbyteArray \<Rightarrow> (java_exn list \<times> jbyteArray) cpp" where
  "createReport create_report targetInfoIn reportDataIn reportOut =
     cbind (pinned_struct targetInfoIn 512) (\<lambda>target_info.
     cbind (pinned_struct reportDataIn 64) (\<lambda>report_data.
       (case reportOut of
          None \<Rightarrow> Undef
        | Some out \<Rightarrow> write_struct out 432 (create_report target_info report_data))))"

definition getKey :: "(bytes \<Rightarrow> u32 \<times> bytes) \<Rightarrow> jbyteArray \<Rightarrow> jbyteArray \<Rightarrow> (java_exn list \<times> jbyteArray) cpp" where
  "getKey get_key keyRequestIn keyOut =
     (case (keyRequestIn, keyOut) of
        (Some req, Some out) \<Rightarrow> cbind (pinned req 512) (\<lambda>r. write_struct out 16 (get_key r))
      | _ \<Rightarrow> Undef)"

definition isEnclaveSimulation :: "bool \<Rightarrow> bool" where
  "isEnclaveSimulation sgx_sim = sgx_sim"

section \<open>Documented behaviour of the SDK\<close>

text \<open>
  \<open>memcpy_s\<close> copies when the source fits the size it is given and never writes outside of it.
\<close>

definition memcpy_laws :: "seal_sdk \<Rightarrow> bool" where
  "memcpy_laws S \<longleftrightarrow>
     (\<forall>dst off n src. off + n \<le> length dst \<longrightarrow> length src \<le> n \<longrightarrow> memcpy_s S dst off n src = blit dst off src) \<and>
     (\<forall>dst off n src. off + n \<le> length dst \<longrightarrow>
        length (memcpy_s S dst off n src) = length dst \<and>
        (\<forall>i<length dst. i < off \<or> off + n \<le> i \<longrightarrow> memcpy_s S dst off n src ! i = dst ! i))"

text \<open>
  A blob that sealing produced has the size announced for it, carries the two lengths and
  unseals to what was sealed.
\<close>

definition seal_laws :: "seal_sdk \<Rightarrow> bool" where
  "seal_laws S \<longleftrightarrow>
     (\<forall>a p n buf. seal_data S a p n = (SGX_OK, buf) \<longrightarrow> n = calc_sealed_data_size S (of_nat (length a)) (of_nat (length p)) \<longrightarrow>
        length buf = unat n \<and> length a + length p \<le> length buf \<and>
        get_add_mac_txt_len S (Some buf) = of_nat (length a) \<and> get_encrypt_txt_len S (Some buf) = of_nat (length p) \<and>
        unseal_data S buf (of_nat (length a)) (of_nat (length p)) = (SGX_OK, a, p))"

section \<open>Properties\<close>

text \<open>A range of an array may have changed, and nothing else.\<close>

definition same_outside :: "jbyteArray \<Rightarrow> jbyteArray \<Rightarrow> int \<Rightarrow> int \<Rightarrow> bool" where
  "same_outside x y off len =
     (case (x, y) of
        (None, None) \<Rightarrow> True
      | (Some b, Some c) \<Rightarrow> length b = length c \<and> (\<forall>i<length b. int i < off \<or> off + len \<le> int i \<longrightarrow> c ! i = b ! i)
      | _ \<Rightarrow> False)"

lemma same_outside_refl [simp]: "same_outside x x off len"
  by (simp add: same_outside_def split: option.split)

lemma same_outside_memcpy:
  assumes "memcpy_laws S" and "\<not> validateParameter (Some b) off len"
  shows "same_outside (Some b) (Some (memcpy_s S b (nat off) (nat len) src)) off len"
proof -
  have r: "0 \<le> off" "0 < len" "off + len \<le> int (length b)" using assms(2) by (auto simp: validateParameter_def)
  then have "nat off + nat len \<le> length b" by linarith
  then have "length (memcpy_s S b (nat off) (nat len) src) = length b"
    "\<forall>i<length b. i < nat off \<or> nat off + nat len \<le> i \<longrightarrow> memcpy_s S b (nat off) (nat len) src ! i = b ! i"
    using assms(1) unfolding memcpy_laws_def by blast+
  then show ?thesis using r by (auto simp: same_outside_def zless_nat_eq_int_zless nat_le_iff)
qed

lemma same_outside_mono: "same_outside x y off len \<Longrightarrow> len \<le> len' \<Longrightarrow> same_outside x y off len'"
  by (auto simp: same_outside_def split: option.split option.split_asm)


text \<open>
  An implementation of the SDK's functions that satisfies the laws: the two lengths, the additional
  data and the text.
\<close>

definition example_sdk :: seal_sdk where
  "example_sdk = \<lparr>
     calc_sealed_data_size = (\<lambda>a p. a + p + 8),
     seal_data = (\<lambda>a p n. if length a + length p < 2 ^ 31
        then (SGX_OK, le_bytes 4 (of_nat (length a)) @ le_bytes 4 (of_nat (length p)) @ a @ p)
        else (SGX_ERROR_UNEXPECTED, [])),
     get_add_mac_txt_len = (\<lambda>b. case b of None \<Rightarrow> UINT32_MAX | Some b \<Rightarrow> of_nat (of_le_bytes (take 4 b))),
     get_encrypt_txt_len = (\<lambda>b. case b of None \<Rightarrow> UINT32_MAX | Some b \<Rightarrow> of_nat (of_le_bytes (take 4 (drop 4 b)))),
     unseal_data = (\<lambda>b la lp. (SGX_OK, take (unat la) (drop 8 b), take (unat lp) (drop (8 + unat la) b))),
     memcpy_s = (\<lambda>dst off n src. if length src \<le> n then blit dst off src else dst)\<rparr>"

lemma example_memcpy_laws: "memcpy_laws example_sdk"
  by (auto simp: memcpy_laws_def example_sdk_def nth_blit)

lemma unat_u32_of_nat: "n < 4294967296 \<Longrightarrow> unat (of_nat n :: u32) = n"
  by (simp add: unat_of_nat take_bit_nat_eq_self)

lemma example_seal_laws: "seal_laws example_sdk"
  unfolding seal_laws_def
proof (intro allI impI)
  fix a p :: bytes and n :: u32 and buf
  assume s: "seal_data example_sdk a p n = (SGX_OK, buf)"
    and n: "n = calc_sealed_data_size example_sdk (of_nat (length a)) (of_nat (length p))"
  have l: "length a + length p < 2 ^ 31"
    and b: "buf = le_bytes 4 (of_nat (length a)) @ le_bytes 4 (of_nat (length p)) @ a @ p"
    using s by (auto simp: example_sdk_def SGX_OK_def SGX_ERROR_UNEXPECTED_def split: if_split_asm)
  have n': "n = of_nat (length a + length p + 8)" using n by (simp add: example_sdk_def)
  have "unat n = length a + length p + 8"
    unfolding n' by (rule unat_u32_of_nat) (use l in simp)
  moreover have "of_le_bytes (le_bytes 4 (of_nat (length x))) = length x" if "length x < 2 ^ 31" for x :: bytes
    using that by (simp add: of_le_bytes_le_bytes unat_of_nat take_bit_nat_eq_self)
  moreover have "unat (of_nat (length a) :: u32) = length a" "unat (of_nat (length p) :: u32) = length p"
    using l unat_u32_of_nat by simp_all
  ultimately show "length buf = unat n \<and> length a + length p \<le> length buf \<and>
      get_add_mac_txt_len example_sdk (Some buf) = of_nat (length a) \<and>
      get_encrypt_txt_len example_sdk (Some buf) = of_nat (length p) \<and>
      unseal_data example_sdk buf (of_nat (length a)) (of_nat (length p)) = (SGX_OK, a, p)"
    using l b by (simp add: example_sdk_def)
qed


lemma sint_u32_of_nat: "n < 2 ^ 31 \<Longrightarrow> sint (of_nat n :: u32) = int n"
  by (simp add: signed_of_nat signed_take_bit_int_eq_self)

lemma u32_of_nat_not_max: "n < 2 ^ 31 \<Longrightarrow> (of_nat n :: u32) \<noteq> UINT32_MAX"
  using sint_u32_of_nat [of n] by (auto simp: UINT32_MAX_def)

lemma to_u32_int [simp]: "to_u32 (int n) = of_nat n"
  by (simp add: to_u32_def)

lemma to_u32_uint [simp]: "to_u32 (uint w) = w"
  by (simp add: to_u32_def)

lemma memcpy_all:
  assumes "memcpy_laws S" and "length src = length dst"
  shows "memcpy_s S dst 0 (length dst) src = src"
  using assms by (simp add: memcpy_laws_def blit_def)

lemma validate_whole:
  "length x < 2 ^ 31 \<Longrightarrow> validateArrayOffsetLength (Some x) 0 (int (length x)) f = Ret (True, [])"
  by (simp add: validateArrayOffsetLength_def is_jint_def)

lemma validate_seal_whole:
  "length pt < 2 ^ 31 \<Longrightarrow> length a < 2 ^ 31 \<Longrightarrow> length out < 2 ^ 31 \<Longrightarrow>
   validateSealDataArgs (Some a) 0 (int (length a)) (Some pt) 0 (int (length pt)) (Some out) 0 (int (length out))
     = Ret (True, [])"
  by (simp add: validateSealDataArgs_def validate_whole ex_bool_eq)

text \<open>C30: Sealing and unsealing are inverse: when the SDK seals a non-empty plaintext with its
  additional data, \<open>sealData\<close> returns the blob without an exception, and \<open>unsealData\<close> of that blob,
  called with arrays of the sizes the blob announces, gives back the plaintext and the additional
  data without an exception.\<close>

theorem seal_unseal_roundtrip:
  assumes laws: "memcpy_laws S" "seal_laws S"
    and pt: "0 < length pt" "length pt < 2 ^ 31" and a: "length a < 2 ^ 31"
    and n: "n = calc_sealed_data_size S (of_nat (length a)) (of_nat (length pt))" "unat n < 2 ^ 31"
    and seal: "seal_data S a pt n = (SGX_OK, buf)"
    and out: "length out = unat n" and r: "length r = length pt" and ar: "length ar = length a"
  shows "sealData S (Some out) 0 (int (unat n)) (Some pt) 0 (int (length pt)) (Some a) 0 (int (length a)) = Ret ([], Some buf)
    \<and> unsealData S (Some buf) 0 (int (length buf)) (Some r) 0 (int (length r))
        (if a = [] then None else Some ar) 0 (int (length a)) = Ret ([], Some pt, if a = [] then None else Some a)"
proof -
  have b: "length buf = unat n" "length a + length pt \<le> length buf"
    "get_add_mac_txt_len S (Some buf) = of_nat (length a)" "get_encrypt_txt_len S (Some buf) = of_nat (length pt)"
    "unseal_data S buf (of_nat (length a)) (of_nat (length pt)) = (SGX_OK, a, pt)"
    using laws(2) n(1) seal unfolding seal_laws_def by blast+
  have u: "unat (of_nat (length a) :: u32) = length a" "unat (of_nat (length pt) :: u32) = length pt"
    using a pt unat_u32_of_nat by simp_all
  have 1: "sealData S (Some out) 0 (int (unat n)) (Some pt) 0 (int (length pt)) (Some a) 0 (int (length a)) = Ret ([], Some buf)"
    unfolding out [symmetric]
    using validate_seal_whole [of pt a out] out n(2) pt a seal memcpy_all [OF laws(1), of buf out] b(1) n(1)
    by (simp add: sealData_def pinned_def out Let_def)
  have nmax: "(of_nat (length a) :: u32) \<noteq> UINT32_MAX" "(of_nat (length pt) :: u32) \<noteq> UINT32_MAX"
    using a pt u32_of_nat_not_max by blast+
  have v: "\<not> validateParameter (Some buf) 0 (int (length buf))" "\<not> validateParameter (Some r) 0 (int (length r))"
    "a \<noteq> [] \<Longrightarrow> \<not> validateParameter (Some ar) 0 (int (length a))"
    using b(2) pt(1) r ar by (auto simp: validateParameter_def)
  have m: "memcpy_s S r 0 (length r) pt = pt" "memcpy_s S ar 0 (length a) a = a"
    using memcpy_all [OF laws(1), of pt r] memcpy_all [OF laws(1), of a ar] r ar by simp_all
  have "unsealData S (Some buf) 0 (int (length buf)) (Some r) 0 (int (length r))
        (if a = [] then None else Some ar) 0 (int (length a)) = Ret ([], Some pt, if a = [] then None else Some a)"
    using b(2-5) nmax v m u sint_u32_of_nat [OF a] by (simp add: unsealData_def Let_def)
  then show ?thesis using 1 by simp
qed

theorem seal_unseal_roundtrip_witness:
  "sealData example_sdk (Some (replicate 11 0)) 0 11 (Some [5, 6]) 0 2 (Some [7]) 0 1
      = Ret ([], Some [1, 0, 0, 0, 2, 0, 0, 0, 7, 5, 6])
    \<and> unsealData example_sdk (Some [1, 0, 0, 0, 2, 0, 0, 0, 7, 5, 6]) 0 11 (Some [0, 0]) 0 2 (Some [0]) 0 1
      = Ret ([], Some [5, 6], Some [7])"
  using seal_unseal_roundtrip [OF example_memcpy_laws example_seal_laws, of "[5, 6]" "[7]" 11
      "[1, 0, 0, 0, 2, 0, 0, 0, 7, 5, 6]" "replicate 11 0" "[0, 0]" "[0]"]
  by (simp add: example_sdk_def le_bytes_def upt_conv_Cons SGX_OK_def)

text \<open>A message to the host arrives complete or not at all: every call that comes back with no
  exception raised has delivered exactly the bytes of the message, in a buffer outside the enclave
  when it was too large for the stack. When the host refuses the buffer of a large message, the
  method raises its exception and then copies the message to the null pointer.\<close>

theorem ocall_delivers:
  assumes "jvmOCall outside h data = Ret ([], received)"
  shows "received = Some data \<and> (131072 \<le> length data \<longrightarrow> alloc_ptr h \<noteq> 0 \<and> outside (alloc_ptr h) (length data))
    \<and> (131072 \<le> length data \<longrightarrow> (\<forall>st. st \<noteq> SGX_OK \<longrightarrow> jvmOCall outside (h\<lparr>alloc_status := st\<rparr>) data = Undef))"
  using assms by (auto simp: jvmOCall_def sgx_raise_def Let_def split: if_split_asm)

theorem ocall_delivers_witness:
  "jvmOCall (\<lambda>p n. True) \<lparr>stack_status = 0, alloc_status = 0, alloc_ptr = 4096, heap_status = 0, free_status = 0\<rparr> [1, 2]
    = Ret ([], Some [1, 2])"
  using ocall_delivers [of "\<lambda>p n. True"
      "\<lparr>stack_status = 0, alloc_status = 0, alloc_ptr = 4096, heap_status = 0, free_status = 0\<rparr>" "[1, 2]" "Some [1, 2]"]
  by (simp add: jvmOCall_def sgx_raise_def SGX_OK_def)

section \<open>Results of reports and keys\<close>

text \<open>
  With arrays of the right sizes a method either raises the SDK's error and leaves the output as it
  was, or stores exactly the result; a shorter output array is written past its end.
\<close>

lemma createReport_result:
  assumes "length ti = 512" and "length rd = 64" and "create_report (Some ti) (Some rd) = (status, rep)" and "length rep = 432"
  shows "createReport create_report (Some ti) (Some rd) (Some out) =
    (if status \<noteq> SGX_OK then Ret ([SgxError status], Some out)
     else if length out < 432 then Undef else Ret ([], Some (rep @ drop 432 out)))"
  using assms by (simp add: createReport_def pinned_struct_def pinned_def write_struct_def blit_def)

lemma getKey_result:
  assumes "length req = 512" and "get_key req = (status, key)" and "length key = 16"
  shows "getKey get_key (Some req) (Some out) =
    (if status \<noteq> SGX_OK then Ret ([SgxError status], Some out)
     else if length out < 16 then Undef else Ret ([], Some (key @ drop 16 out)))"
  using assms by (simp add: getKey_def pinned_def write_struct_def blit_def)

section \<open>What the arguments allow\<close>

text \<open>
  The offsets are not used when the data is read: the first bytes of the arrays are sealed.
\<close>

lemma seal_ignores_offsets:
  assumes "length pt < 2 ^ 31" and "0 \<le> off" and "0 < k" and "off + k \<le> int (length pt)"
  shows "sealData S out oo os (Some pt) off k None 0 0 = sealData S out oo os (Some (take (nat k) pt)) 0 k None 0 0"
proof -
  have "is_jint (off + k)" "is_jint k" "int (length (take (nat k) pt)) = k" using assms by (auto simp: is_jint_def)
  then have "validateArrayOffsetLength (Some pt) off k f = Ret (True, [])"
    "validateArrayOffsetLength (Some (take (nat k) pt)) 0 k f = Ret (True, [])" for f
    using assms by (simp_all add: validateArrayOffsetLength_def)
  then have v: "validateSealDataArgs None 0 0 (Some pt) off k out oo os
      = validateSealDataArgs None 0 0 (Some (take (nat k) pt)) 0 k out oo os"
    by (simp add: validateSealDataArgs_def)
  have p: "pinned pt k = pinned (take (nat k) pt) k" using assms by (simp add: pinned_def)
  show ?thesis by (simp only: sealData_def v p option.case)
qed

text \<open>A negative offset makes up for a size beyond the end of the array.\<close>

lemma seal_reads_past_end:
  "sealData example_sdk (Some (replicate 11 0)) 0 11 (Some [5, 6]) (- 1) 3 None 0 0 = Undef"
  by (simp add: sealData_def validateSealDataArgs_def validateArrayOffsetLength_def is_jint_def pinned_def
      example_sdk_def to_u32_def)

text \<open>An empty plaintext cannot be unsealed, and neither can a blob at an offset beyond its length.\<close>

lemma unseal_rejects:
  assumes "get_add_mac_txt_len S blob \<noteq> UINT32_MAX" and "get_encrypt_txt_len S blob \<noteq> UINT32_MAX"
    and "dataOutLength = 0 \<or> blobLength \<le> blobOffset"
  shows "unsealData S blob blobOffset blobLength dataOut dataOutOffset dataOutLength aadOut aadOutOffset aadOutLength
    = Ret ([SgxError SGX_ERROR_INVALID_PARAMETER], dataOut, aadOut)"
proof -
  have "validateParameter blob blobOffset blobLength \<or> validateParameter dataOut dataOutOffset dataOutLength"
    using assms(3) by (auto simp: validateParameter_def split: option.split)
  then show ?thesis using assms(1,2) by (elim disjE) (simp_all add: unsealData_def Let_def)
qed

end
