(* ===== verification/Pthread_Attrs.thy ===== *)
theory Pthread_Attrs
  imports Conclave_Prelude
begin

text \<open>
  The thread attributes (pthread.cpp): \<open>PthreadData\<close> keeps up to 256 copies of a thread's data; the
  index of its copy is stored in the first four bytes of the caller's \<open>pthread_attr_t\<close>, so the
  attribute object is represented by that 32-bit value, which is arbitrary before it is initialised.
\<close>

section \<open>The table\<close>

record thread_data =
  stack_base_addr :: u64
  stack_limit_addr :: u64

definition zero_data :: thread_data where
  "zero_data = \<lparr>stack_base_addr = 0, stack_limit_addr = 0\<rparr>"

definition MAX_HANDLES :: nat where "MAX_HANDLES = 256"

type_synonym pthread_table = "thread_data option list"

definition PthreadData_new :: pthread_table where
  "PthreadData_new = replicate MAX_HANDLES None"

text \<open>The search of \<open>create\<close> from a handle on.\<close>

function find_unused :: "pthread_table \<Rightarrow> nat \<Rightarrow> nat option" where
  "find_unused tab h = (if h < MAX_HANDLES then (if tab ! h = None then Some h else find_unused tab (h + 1)) else None)"
  by pat_completeness auto
termination
  by (relation "measure (\<lambda>(tab, h). MAX_HANDLES - h)") auto

declare find_unused.simps [simp del]

definition pd_create :: "u32 \<Rightarrow> pthread_table \<Rightarrow> bool \<times> u32 \<times> pthread_table" where
  "pd_create attr tab = (case find_unused tab 0 of
     Some h \<Rightarrow> (True, of_nat h, tab[h := Some zero_data])
   | None \<Rightarrow> (False, attr, tab))"

definition pd_get :: "u32 \<Rightarrow> pthread_table \<Rightarrow> thread_data option" where
  "pd_get attr tab = (if unat attr < MAX_HANDLES then tab ! unat attr else None)"

definition pd_set :: "u32 \<Rightarrow> thread_data \<Rightarrow> pthread_table \<Rightarrow> bool \<times> pthread_table" where
  "pd_set attr td tab =
     (if unat attr < MAX_HANDLES \<and> tab ! unat attr \<noteq> None then (True, tab[unat attr := Some td]) else (False, tab))"

definition pd_free :: "u32 \<Rightarrow> pthread_table \<Rightarrow> pthread_table" where
  "pd_free attr tab = (if unat attr < MAX_HANDLES then tab[unat attr := None] else tab)"

section \<open>The functions\<close>

definition EINVAL_rc :: int where "EINVAL_rc = 22"
definition ENOMEM_rc :: int where "ENOMEM_rc = 12"
definition EPERM_rc :: int where "EPERM_rc = 1"

text \<open>The attribute argument is a pointer: \<open>None\<close> when null.\<close>

definition pthread_attr_init :: "u32 option \<Rightarrow> pthread_table \<Rightarrow> int \<times> u32 option \<times> pthread_table" where
  "pthread_attr_init attr tab = (case attr of
     None \<Rightarrow> (EINVAL_rc, None, tab)
   | Some a \<Rightarrow> (case pd_create a tab of
       (True, a', tab') \<Rightarrow> (0, Some a', tab')
     | (False, a', tab') \<Rightarrow> (ENOMEM_rc, Some a', tab')))"

definition pthread_attr_destroy :: "u32 option \<Rightarrow> pthread_table \<Rightarrow> int \<times> pthread_table" where
  "pthread_attr_destroy attr tab = (case attr of None \<Rightarrow> (EINVAL_rc, tab) | Some a \<Rightarrow> (0, pd_free a tab))"

text \<open>\<open>getguardsize\<close> does not test its argument for null.\<close>

definition pthread_attr_getguardsize :: "u32 option \<Rightarrow> pthread_table \<Rightarrow> (int \<times> u64 option) cpp" where
  "pthread_attr_getguardsize attr tab = (case attr of
     None \<Rightarrow> Undef
   | Some a \<Rightarrow> (case pd_get a tab of None \<Rightarrow> Ret (EINVAL_rc, None) | Some _ \<Rightarrow> Ret (0, Some 0)))"

definition pthread_attr_getstack :: "u32 option \<Rightarrow> pthread_table \<Rightarrow> int \<times> (u64 \<times> u64) option" where
  "pthread_attr_getstack attr tab = (case attr of
     None \<Rightarrow> (EINVAL_rc, None)
   | Some a \<Rightarrow> (case pd_get a tab of
       None \<Rightarrow> (EINVAL_rc, None)
     | Some td \<Rightarrow> (0, Some (stack_limit_addr td, stack_base_addr td - stack_limit_addr td))))"

text \<open>\<open>self\<close> is the calling thread, \<open>tdata\<close> what \<open>get_thread_data\<close> of the SDK gives for it.\<close>

definition pthread_getattr_np ::
    "u64 \<Rightarrow> u64 \<Rightarrow> thread_data option \<Rightarrow> u32 option \<Rightarrow> pthread_table \<Rightarrow> int \<times> u32 option \<times> pthread_table" where
  "pthread_getattr_np self thread tdata attr tab =
     (if thread \<noteq> self then (EINVAL_rc, attr, tab)
      else case pthread_attr_init attr tab of (r, attr1, tab1) \<Rightarrow>
        if r \<noteq> 0 then (r, attr1, tab1)
        else case tdata of
          None \<Rightarrow> (EPERM_rc, attr1, tab1)
        | Some td \<Rightarrow> (case attr1 of
            None \<Rightarrow> (EINVAL_rc, attr1, tab1)
          | Some a \<Rightarrow> (case pd_set a td tab1 of
              (True, tab2) \<Rightarrow> (0, attr1, tab2)
            | (False, tab2) \<Rightarrow> (EINVAL_rc, attr1, tab2))))"

text \<open>\<open>stack_pages\<close> is the value the linker provides; the check multiplies it by the page size.\<close>

definition pthread_attr_setstacksize :: "u64 \<Rightarrow> u64 \<Rightarrow> bool" where
  "pthread_attr_setstacksize stack_pages stacksize \<longleftrightarrow> \<not> stacksize > stack_pages * 4096"

section \<open>Properties\<close>

lemma find_unused_Some:
  "find_unused tab h = Some k \<Longrightarrow> h \<le> k \<and> k < MAX_HANDLES \<and> tab ! k = None \<and> (\<forall>i. h \<le> i \<longrightarrow> i < k \<longrightarrow> tab ! i \<noteq> None)"
proof (induction tab h rule: find_unused.induct)
  case (1 tab h)
  show ?case
  proof (cases "tab ! h = None")
    case True
    then show ?thesis using 1(2) by (subst (asm) find_unused.simps) (auto split: if_split_asm)
  next
    case False
    then have "h < MAX_HANDLES" "find_unused tab (h + 1) = Some k"
      using 1(2) by (subst (asm) find_unused.simps, auto split: if_split_asm)+
    then show ?thesis using 1(1) False by (metis Suc_eq_plus1 Suc_leD Suc_leI le_neq_implies_less)
  qed
qed

lemma find_unused_None:
  "find_unused tab h = None \<Longrightarrow> h \<le> i \<Longrightarrow> i < MAX_HANDLES \<Longrightarrow> tab ! i \<noteq> None"
proof (induction tab h rule: find_unused.induct)
  case (1 tab h)
  then have "h < MAX_HANDLES" by simp
  then have "tab ! h \<noteq> None" "find_unused tab (h + 1) = None"
    using 1(2) by (subst (asm) find_unused.simps, auto split: if_split_asm)+
  then show ?case using 1 \<open>h < MAX_HANDLES\<close> by (cases "h = i") auto
qed

text \<open>How many entries are in use.\<close>

definition in_use :: "pthread_table \<Rightarrow> nat" where
  "in_use tab = length (filter (\<lambda>x. x \<noteq> None) tab)"

text \<open>The attributes of the current thread: on a table that is not full \<open>pthread_getattr_np\<close>
  succeeds, the attribute it fills names an entry that no other attribute names, the stack that
  \<open>pthread_attr_getstack\<close> then reports is the thread's, and destroying the attribute restores the
  table; on a full table it reports \<open>ENOMEM\<close> and changes nothing.\<close>

theorem pthread_attr_roundtrip:
  assumes "length tab = MAX_HANDLES"
  shows "if in_use tab < MAX_HANDLES
    then \<exists>b tab'. pthread_getattr_np t t (Some td) (Some a) tab = (0, Some b, tab')
      \<and> pd_get b tab = None \<and> (\<forall>c. c \<noteq> b \<longrightarrow> pd_get c tab' = pd_get c tab)
      \<and> pthread_attr_getstack (Some b) tab' = (0, Some (stack_limit_addr td, stack_base_addr td - stack_limit_addr td))
      \<and> pthread_attr_destroy (Some b) tab' = (0, tab)
    else pthread_getattr_np t t (Some td) (Some a) tab = (ENOMEM_rc, Some a, tab)"
proof (cases "find_unused tab 0")
  case None
  then have "\<forall>x\<in>set tab. x \<noteq> None" using find_unused_None [of tab 0] assms by (metis in_set_conv_nth le0)
  then have "in_use tab = MAX_HANDLES" using assms by (simp add: in_use_def filter_id_conv)
  then show ?thesis
    using None by (simp add: pthread_getattr_np_def pthread_attr_init_def pd_create_def ENOMEM_rc_def)
next
  case (Some k)
  have k: "k < MAX_HANDLES" "tab ! k = None" using find_unused_Some [OF Some] by auto
  then have "in_use tab < MAX_HANDLES"
    using assms length_filter_less [of None tab "\<lambda>x. x \<noteq> None"] by (metis in_use_def nth_mem)
  moreover have u: "unat (of_nat k :: u32) = k" using k(1) by (simp add: MAX_HANDLES_def unat_of_nat take_bit_nat_eq_self)
  have set: "pthread_getattr_np t t (Some td) (Some a) tab = (0, Some (of_nat k), tab[k := Some td])"
    using Some u k assms by (simp add: pthread_getattr_np_def pthread_attr_init_def pd_create_def pd_set_def)
  moreover have "pd_get c (tab[k := Some td]) = pd_get c tab" if "c \<noteq> of_nat k" for c :: u32
  proof -
    have "unat c \<noteq> k" using that by auto
    then show ?thesis by (simp add: pd_get_def)
  qed
  moreover have "pd_get (of_nat k) tab = None" "pd_get (of_nat k) (tab[k := Some td]) = Some td"
    "pd_free (of_nat k) (tab[k := Some td]) = tab"
    using k u assms by (simp_all add: pd_get_def pd_free_def) (metis list_update_id)
  ultimately show ?thesis
    by (auto simp: pthread_attr_getstack_def pthread_attr_destroy_def intro!: exI [of _ "of_nat k :: u32"])
qed

theorem pthread_attr_roundtrip_witness:
  "\<exists>b tab'. pthread_getattr_np 9 9 (Some \<lparr>stack_base_addr = 8192, stack_limit_addr = 4096\<rparr>) (Some 77) PthreadData_new = (0, Some b, tab')
    \<and> pthread_attr_getstack (Some b) tab' = (0, Some (4096, 4096))"
proof -
  have "in_use PthreadData_new < MAX_HANDLES" by (simp add: in_use_def PthreadData_new_def MAX_HANDLES_def)
  then show ?thesis
    using pthread_attr_roundtrip [of PthreadData_new 9 "\<lparr>stack_base_addr = 8192, stack_limit_addr = 4096\<rparr>" 77]
    by (auto simp: PthreadData_new_def)
qed

text \<open>A failure of \<open>get_thread_data\<close> leaves the new entry allocated.\<close>

lemma getattr_np_leaks:
  assumes "length tab = MAX_HANDLES" and "find_unused tab 0 = Some k"
  shows "pthread_getattr_np t t None (Some a) tab = (EPERM_rc, Some (of_nat k), tab[k := Some zero_data])"
  using assms by (simp add: pthread_getattr_np_def pthread_attr_init_def pd_create_def)

end
