(* ===== verification/Ctype_Tables.thy ===== *)
theory Ctype_Tables
  imports Conclave_Prelude
begin

unbundle bit_operations_syntax

text \<open>
  The character tables of the C library (ctype.cpp): glibc's macros index the tables that
  \<open>__ctype_toupper_loc\<close> and \<open>__ctype_b_loc\<close> return with a character code from -128 to 255. The tables of
  the stub begin at the code 0.
\<close>

section \<open>The tables\<close>

definition toupper_loc :: "u32 list" where
  "toupper_loc = [
     0, 1, 2, 3, 4, 5, 6, 7,
     8, 9, 0xA, 0xB, 0xC, 0xD, 0xE, 0xF,
     0x10, 0x11, 0x12, 0x13, 0x14, 0x15, 0x16, 0x17,
     0x18, 0x19, 0x1A, 0x1B, 0x1C, 0x1D, 0x1E, 0x1F,
     0x20, 0x21, 0x22, 0x23, 0x24, 0x25, 0x26, 0x27,
     0x28, 0x29, 0x2A, 0x2B, 0x2C, 0x2D, 0x2E, 0x2F,
     0x30, 0x31, 0x32, 0x33, 0x34, 0x35, 0x36, 0x37,
     0x38, 0x39, 0x3A, 0x3B, 0x3C, 0x3D, 0x3E, 0x3F,
     0x40, 0x41, 0x42, 0x43, 0x44, 0x45, 0x46, 0x47,
     0x48, 0x49, 0x4A, 0x4B, 0x4C, 0x4D, 0x4E, 0x4F,
     0x50, 0x51, 0x52, 0x53, 0x54, 0x55, 0x56, 0x57,
     0x58, 0x59, 0x5A, 0x5B, 0x5C, 0x5D, 0x5E, 0x5F,
     0x60, 0x41, 0x42, 0x43, 0x44, 0x45, 0x46, 0x47,
     0x48, 0x49, 0x4A, 0x4B, 0x4C, 0x4D, 0x4E, 0x4F,
     0x50, 0x51, 0x52, 0x53, 0x54, 0x55, 0x56, 0x57,
     0x58, 0x59, 0x5A, 0x7B, 0x7C, 0x7D, 0x7E, 0x7F,
     0x80, 0x81, 0x82, 0x83, 0x84, 0x85, 0x86, 0x87,
     0x88, 0x89, 0x8A, 0x8B, 0x8C, 0x8D, 0x8E, 0x8F,
     0x90, 0x91, 0x92, 0x93, 0x94, 0x95, 0x96, 0x97,
     0x98, 0x99, 0x9A, 0x9B, 0x9C, 0x9D, 0x9E, 0x9F,
     0xA0, 0xA1, 0xA2, 0xA3, 0xA4, 0xA5, 0xA6, 0xA7,
     0xA8, 0xA9, 0xAA, 0xAB, 0xAC, 0xAD, 0xAE, 0xAF,
     0xB0, 0xB1, 0xB2, 0xB3, 0xB4, 0xB5, 0xB6, 0xB7,
     0xB8, 0xB9, 0xBA, 0xBB, 0xBC, 0xBD, 0xBE, 0xBF,
     0xC0, 0xC1, 0xC2, 0xC3, 0xC4, 0xC5, 0xC6, 0xC7,
     0xC8, 0xC9, 0xCA, 0xCB, 0xCC, 0xCD, 0xCE, 0xCF,
     0xD0, 0xD1, 0xD2, 0xD3, 0xD4, 0xD5, 0xD6, 0xD7,
     0xD8, 0xD9, 0xDA, 0xDB, 0xDC, 0xDD, 0xDE, 0xDF,
     0xE0, 0xE1, 0xE2, 0xE3, 0xE4, 0xE5, 0xE6, 0xE7,
     0xE8, 0xE9, 0xEA, 0xEB, 0xEC, 0xED, 0xEE, 0xEF,
     0xF0, 0xF1, 0xF2, 0xF3, 0xF4, 0xF5, 0xF6, 0xF7,
     0xF8, 0xF9, 0xFA, 0xFB, 0xFC, 0xFD, 0xFE, 0xFF,
     0x20000, 0x20000, 0x20000, 0x20000, 0x20000, 0x20000, 0x20000, 0x20000,
     0x20000, 0x20030000, 0x20020000, 0x20020000, 0x20020000, 0x20020000, 0x20000, 0x20000,
     0x20000, 0x20000, 0x20000, 0x20000, 0x20000, 0x20000, 0x20000, 0x20000,
     0x20000, 0x20000, 0x20000, 0x20000, 0x20000, 0x20000, 0x20000, 0x20000,
     0x60010000, 0xC0040000, 0xC0040000, 0xC0040000, 0xC0040000, 0xC0040000, 0xC0040000, 0xC0040000,
     0xC0040000, 0xC0040000, 0xC0040000, 0xC0040000, 0xC0040000, 0xC0040000, 0xC0040000, 0xC0040000,
     0xD8080000, 0xD8080000, 0xD8080000, 0xD8080000, 0xD8080000, 0xD8080000, 0xD8080000, 0xD8080000,
     0xD8080000, 0xD8080000, 0xC0040000, 0xC0040000, 0xC0040000, 0xC0040000, 0xC0040000, 0xC0040000,
     0xC0040000, 0xD5080000, 0xD5080000, 0xD5080000, 0xD5080000, 0xD5080000, 0xD5080000, 0xC5080000,
     0xC5080000, 0xC5080000, 0xC5080000, 0xC5080000, 0xC5080000, 0xC5080000, 0xC5080000, 0xC5080000,
     0xC5080000, 0xC5080000, 0xC5080000, 0xC5080000, 0xC5080000, 0xC5080000, 0xC5080000, 0xC5080000,
     0xC5080000, 0xC5080000, 0xC5080000, 0xC0040000, 0xC0040000, 0xC0040000, 0xC0040000, 0xC0040000,
     0xC0040000, 0xD6080000, 0xD6080000, 0xD6080000, 0xD6080000, 0xD6080000, 0xD6080000, 0xC6080000,
     0xC6080000, 0xC6080000, 0xC6080000, 0xC6080000, 0xC6080000, 0xC6080000, 0xC6080000, 0xC6080000,
     0xC6080000, 0xC6080000, 0xC6080000, 0xC6080000, 0xC6080000, 0xC6080000, 0xC6080000, 0xC6080000,
     0xC6080000, 0xC6080000, 0xC6080000, 0xC0040000, 0xC0040000, 0xC0040000, 0xC0040000, 0x20000]"

definition b_loc :: "u16 list" where
  "b_loc = [
     2, 2, 2, 2, 2, 2, 2, 2,
     2, 0x2003, 0x2002, 0x2002, 0x2002, 0x2002, 2, 2,
     2, 2, 2, 2, 2, 2, 2, 2,
     2, 2, 2, 2, 2, 2, 2, 2,
     0x6001, 0xC004, 0xC004, 0xC004, 0xC004, 0xC004, 0xC004, 0xC004,
     0xC004, 0xC004, 0xC004, 0xC004, 0xC004, 0xC004, 0xC004, 0xC004,
     0xD808, 0xD808, 0xD808, 0xD808, 0xD808, 0xD808, 0xD808, 0xD808,
     0xD808, 0xD808, 0xC004, 0xC004, 0xC004, 0xC004, 0xC004, 0xC004,
     0xC004, 0xD508, 0xD508, 0xD508, 0xD508, 0xD508, 0xD508, 0xC508,
     0xC508, 0xC508, 0xC508, 0xC508, 0xC508, 0xC508, 0xC508, 0xC508,
     0xC508, 0xC508, 0xC508, 0xC508, 0xC508, 0xC508, 0xC508, 0xC508,
     0xC508, 0xC508, 0xC508, 0xC004, 0xC004, 0xC004, 0xC004, 0xC004,
     0xC004, 0xD608, 0xD608, 0xD608, 0xD608, 0xD608, 0xD608, 0xC608,
     0xC608, 0xC608, 0xC608, 0xC608, 0xC608, 0xC608, 0xC608, 0xC608,
     0xC608, 0xC608, 0xC608, 0xC608, 0xC608, 0xC608, 0xC608, 0xC608,
     0xC608, 0xC608, 0xC608, 0xC004, 0xC004, 0xC004, 0xC004, 2,
     0, 0, 0, 0, 0, 0, 0, 0,
     0, 0, 0, 0, 0, 0, 0, 0,
     0, 0, 0, 0, 0, 0, 0, 0,
     0, 0, 0, 0, 0, 0, 0, 0,
     0, 0, 0, 0, 0, 0, 0, 0,
     0, 0, 0, 0, 0, 0, 0, 0,
     0, 0, 0, 0, 0, 0, 0, 0,
     0, 0, 0, 0, 0, 0, 0, 0,
     0, 0, 0, 0, 0, 0, 0, 0,
     0, 0, 0, 0, 0, 0, 0, 0,
     0, 0, 0, 0, 0, 0, 0, 0,
     0, 0, 0, 0, 0, 0, 0, 0,
     0, 0, 0, 0, 0, 0, 0, 0,
     0, 0, 0, 0, 0, 0, 0, 0,
     0, 0, 0, 0, 0, 0, 0, 0,
     0, 0, 0, 0, 0, 0, 0, 0,
     0x20, 0, 0, 0, 0, 0, 0x28, 0,
     0x43, 0, 0x29, 0, 0, 0, 0, 0,
     0x3C, 0, 0x3C, 0, 0, 0, 0, 0,
     0x2D, 0, 0, 0, 0, 0, 0x28, 0,
     0x52, 0, 0x29, 0, 0, 0, 0, 0,
     0x75, 0, 0, 0, 0, 0, 0x2C, 0,
     0, 0, 0, 0, 0x3E, 0, 0x3E, 0,
     0, 0, 0, 0, 0x20, 0, 0x31, 0,
     0x2F, 0, 0x34, 0, 0x20, 0, 0, 0,
     0, 0, 0x20, 0, 0x31, 0, 0x2F, 0,
     0x32, 0, 0x20, 0, 0, 0, 0, 0,
     0x20, 0, 0x33, 0, 0x2F, 0, 0x34, 0,
     0x20, 0, 0, 0, 0, 0, 0x41, 0,
     0x45, 0, 0, 0, 0, 0, 0x78, 0,
     0, 0, 0, 0, 0x73, 0, 0x73, 0,
     0, 0, 0, 0, 0x61, 0, 0x65, 0]"

text \<open>The macros' access \<open>(*loc)[c]\<close>; outside of the table it is undefined.\<close>

definition ctype_toupper_loc :: "int \<Rightarrow> u32 cpp" where
  "ctype_toupper_loc c =
     (if 0 \<le> c \<and> nat c < length toupper_loc then Ret (toupper_loc ! nat c) else Undef)"

definition ctype_b_loc :: "int \<Rightarrow> u16 cpp" where
  "ctype_b_loc c = (if 0 \<le> c \<and> nat c < length b_loc then Ret (b_loc ! nat c) else Undef)"

section \<open>Reference\<close>

text \<open>The character classes of the C locale and the bit that glibc gives to each of them.\<close>

definition is_upper :: "nat \<Rightarrow> bool" where "is_upper c \<longleftrightarrow> 65 \<le> c \<and> c \<le> 90"
definition is_lower :: "nat \<Rightarrow> bool" where "is_lower c \<longleftrightarrow> 97 \<le> c \<and> c \<le> 122"
definition is_digit :: "nat \<Rightarrow> bool" where "is_digit c \<longleftrightarrow> 48 \<le> c \<and> c \<le> 57"
definition is_alpha :: "nat \<Rightarrow> bool" where "is_alpha c \<longleftrightarrow> is_upper c \<or> is_lower c"
definition is_alnum :: "nat \<Rightarrow> bool" where "is_alnum c \<longleftrightarrow> is_alpha c \<or> is_digit c"
definition is_xdigit :: "nat \<Rightarrow> bool" where
  "is_xdigit c \<longleftrightarrow> is_digit c \<or> (65 \<le> c \<and> c \<le> 70) \<or> (97 \<le> c \<and> c \<le> 102)"
definition is_blank :: "nat \<Rightarrow> bool" where "is_blank c \<longleftrightarrow> c = 9 \<or> c = 32"
definition is_space :: "nat \<Rightarrow> bool" where "is_space c \<longleftrightarrow> c = 32 \<or> (9 \<le> c \<and> c \<le> 13)"
definition is_cntrl :: "nat \<Rightarrow> bool" where "is_cntrl c \<longleftrightarrow> c < 32 \<or> c = 127"
definition is_graph :: "nat \<Rightarrow> bool" where "is_graph c \<longleftrightarrow> 33 \<le> c \<and> c \<le> 126"
definition is_print :: "nat \<Rightarrow> bool" where "is_print c \<longleftrightarrow> 32 \<le> c \<and> c \<le> 126"
definition is_punct :: "nat \<Rightarrow> bool" where "is_punct c \<longleftrightarrow> is_graph c \<and> \<not> is_alnum c"

definition ctype_classes :: "nat \<Rightarrow> u16" where
  "ctype_classes c =
     (if is_upper c then 0x100 else 0) OR (if is_lower c then 0x200 else 0) OR
     (if is_alpha c then 0x400 else 0) OR (if is_digit c then 0x800 else 0) OR
     (if is_xdigit c then 0x1000 else 0) OR (if is_space c then 0x2000 else 0) OR
     (if is_print c then 0x4000 else 0) OR (if is_graph c then 0x8000 else 0) OR
     (if is_blank c then 1 else 0) OR (if is_cntrl c then 2 else 0) OR
     (if is_punct c then 4 else 0) OR (if is_alnum c then 8 else 0)"

definition upper_case :: "nat \<Rightarrow> nat" where
  "upper_case c = (if is_lower c then c - 32 else c)"

section \<open>Equivalence\<close>

lemma length_toupper_loc: "length toupper_loc = 384"
  by (simp add: toupper_loc_def)

lemma length_b_loc: "length b_loc = 384"
  by (simp add: b_loc_def)

lemma toupper_loc_head: "take 256 toupper_loc = map (\<lambda>c. of_nat (upper_case c)) [0..<256]"
  by code_simp

lemma b_loc_head: "take 256 b_loc = map (\<lambda>c. if c < 128 then ctype_classes c else 0) [0..<256]"
  by code_simp

lemma nth_head: "take n xs = map f [0..<n] \<Longrightarrow> i < n \<Longrightarrow> xs ! i = f i"
  by (metis add_0 diff_zero length_upt nth_map nth_take nth_upt)

text \<open>For every character code from 0 to 255 the two tables agree with the definitions of the C
  locale: upper case maps the small letters and nothing else, and the class bits are those of the
  classes the character is in. A code below 0, such as \<open>EOF\<close> or a negative \<open>char\<close>, which glibc
  admits, reads outside of the tables.\<close>

theorem ctype_tables_correct:
  "(0 \<le> c \<and> c < 256 \<longrightarrow>
      ctype_toupper_loc c = Ret (of_nat (upper_case (nat c)))
      \<and> ctype_b_loc c = Ret (if c < 128 then ctype_classes (nat c) else 0))
   \<and> (c < 0 \<longrightarrow> ctype_toupper_loc c = Undef \<and> ctype_b_loc c = Undef)"
proof -
  have "toupper_loc ! nat c = of_nat (upper_case (nat c))" "b_loc ! nat c = (if c < 128 then ctype_classes (nat c) else 0)"
    if "0 \<le> c" "c < 256"
    using nth_head [OF toupper_loc_head, of "nat c"] nth_head [OF b_loc_head, of "nat c"] that
    by (auto simp: nat_less_iff)
  then show ?thesis by (auto simp: ctype_toupper_loc_def ctype_b_loc_def length_toupper_loc length_b_loc)
qed

theorem ctype_tables_correct_witness: "ctype_toupper_loc 97 = Ret 65 \<and> ctype_b_loc (- 1) = Undef"
  using ctype_tables_correct [of 97] ctype_tables_correct [of "- 1"] by (simp add: upper_case_def is_lower_def)

end
