(* ===== verification/Enclave_Console.thy ===== *)
theory Enclave_Console
  imports Conclave_Prelude
begin

text \<open>
  Debug output of an enclave on the host's console (enclave\_console.cpp). The text is split into
  lines so that each gets a prefix. \<open>mblen\<close> of the host's C library is a parameter: it gives the length
  of the first character, 0 when it is the null character and -1 when the bytes are no character.
\<close>

section \<open>Splitting into lines\<close>

definition is_eol :: "u8 \<Rightarrow> bool" where
  "is_eol b \<longleftrightarrow> b = 13 \<or> b = 10"

text \<open>The position after the line end at \<open>pos\<close>, a pair of different line end characters counting as one.\<close>

definition after_eol :: "bytes \<Rightarrow> nat \<Rightarrow> nat" where
  "after_eol s pos =
     (if pos + 1 < length s \<and> is_eol (s ! (pos + 1)) \<and> s ! (pos + 1) \<noteq> s ! pos then pos + 2 else pos + 1)"

text \<open>
  The loop, with the lines found so far; the result adds whether the text ends with a line end. Nothing
  bounds the loop, so it gets a number of rounds: \<open>None\<close> says that they were not enough.
\<close>

fun getLines_loop ::
    "nat \<Rightarrow> (bytes \<Rightarrow> int) \<Rightarrow> bytes \<Rightarrow> nat \<Rightarrow> nat \<Rightarrow> bytes list \<Rightarrow> (bytes list \<times> bool) option" where
  "getLines_loop 0 mb s pos start lines = None"
| "getLines_loop (Suc k) mb s pos start lines =
     (if pos < length s then
        let cp_len = mb (drop pos s) in
        if cp_len = - 1 then Some ([s], True)
        else if cp_len = 1 \<and> is_eol (s ! pos) then
          let p = after_eol s pos in
          getLines_loop k mb s (p + nat cp_len) p (lines @ [slice s start (p - start)])
        else getLines_loop k mb s (pos + nat cp_len) start lines
      else if start < length s then Some (lines @ [drop start s], False)
      else Some (lines, True))"

definition getLines :: "nat \<Rightarrow> (bytes \<Rightarrow> int) \<Rightarrow> bytes \<Rightarrow> (bytes list \<times> bool) option" where
  "getLines fuel mb s = getLines_loop fuel mb s 0 0 []"

text \<open>
  What is printed, and whether the next text starts with a prefix. The prefix is left out only for
  the first line of a text that continues an unfinished one.
\<close>

definition DEBUG_PREFIX :: bytes where
  "DEBUG_PREFIX = map (of_nat \<circ> of_char) ''Enclave> ''"

fun with_prefixes :: "bool \<Rightarrow> bytes list \<Rightarrow> bytes" where
  "with_prefixes show_prefix [] = []"
| "with_prefixes show_prefix (l # ls) = (if show_prefix then DEBUG_PREFIX else []) @ l @ with_prefixes True ls"

definition enclave_console ::
    "nat \<Rightarrow> (bytes \<Rightarrow> int) \<Rightarrow> bytes \<times> bytes \<Rightarrow> bool \<Rightarrow> bytes \<Rightarrow> bool \<Rightarrow> (bytes \<times> bool) option" where
  "enclave_console fuel mb colours supports s show_prefix =
     (case getLines fuel mb s of
        None \<Rightarrow> None
      | Some (lines, ends) \<Rightarrow>
          Some ((if supports then fst colours else []) @ with_prefixes show_prefix lines
                @ (if supports then snd colours else []), ends))"

section \<open>Termination\<close>

definition mblen_ok :: "(bytes \<Rightarrow> int) \<Rightarrow> bool" where
  "mblen_ok mb \<longleftrightarrow> (\<forall>b. b \<noteq> [] \<longrightarrow> mb b = - 1 \<or>
     (if hd b = 0 then mb b = 0 else 1 \<le> mb b \<and> mb b \<le> int (length b)))"

lemma after_eol_bounds: "pos < length s \<Longrightarrow> pos < after_eol s pos \<and> after_eol s pos \<le> length s"
  by (auto simp: after_eol_def)

lemma take_slice: "start \<le> p \<Longrightarrow> take start s @ slice s start (p - start) = take p s"
  by (metis le_add_diff_inverse slice_def take_add)

lemma mblen_okD:
  "mblen_ok mb \<Longrightarrow> b \<noteq> [] \<Longrightarrow> mb b \<noteq> - 1 \<Longrightarrow> if hd b = 0 then mb b = 0 else 1 \<le> mb b \<and> mb b \<le> int (length b)"
  unfolding mblen_ok_def by blast

lemma mblen_progress:
  assumes "mblen_ok mb" and "0 \<notin> set s" and "pos < length s" and "mb (drop pos s) \<noteq> - 1"
  shows "1 \<le> nat (mb (drop pos s))"
proof -
  have "hd (drop pos s) \<noteq> 0" using assms(2,3) by (metis hd_drop_conv_nth nth_mem)
  moreover have "drop pos s \<noteq> []" using assms(3) by simp
  ultimately have "1 \<le> mb (drop pos s)" using mblen_okD [OF assms(1) _ assms(4)] by simp
  then show ?thesis by simp
qed

lemma getLines_loop_ends:
  assumes "mblen_ok mb" and "0 \<notin> set s" and "length s - pos < k" and "start \<le> length s" and "start \<le> pos"
    and "concat lines = take start s"
  shows "\<exists>ls e. getLines_loop k mb s pos start lines = Some (ls, e) \<and> concat ls = s"
  using assms(3-6)
proof (induction k arbitrary: pos start lines)
  case (Suc k)
  let ?cp = "mb (drop pos s)" and ?p = "after_eol s pos"
  show ?case
  proof (cases "pos < length s \<and> ?cp \<noteq> - 1")
    case False
    then show ?thesis using Suc.prems by (auto simp: Let_def)
  next
    case True
    then have pos: "pos < length s" and cp: "?cp \<noteq> - 1" by auto
    have pr: "1 \<le> nat ?cp" by (rule mblen_progress [OF assms(1,2) pos cp])
    have b: "pos < ?p" "?p \<le> length s" using after_eol_bounds [OF pos] by auto
    show ?thesis
    proof (cases "?cp = 1 \<and> is_eol (s ! pos)")
      case eol: True
      have "concat (lines @ [slice s start (?p - start)]) = take ?p s"
        using Suc.prems b take_slice [of start ?p s] by simp
      then have "\<exists>ls e. getLines_loop k mb s (?p + nat ?cp) ?p (lines @ [slice s start (?p - start)]) = Some (ls, e) \<and> concat ls = s"
        using Suc.prems b by (intro Suc.IH) auto
      then show ?thesis using pos eol by (simp add: Let_def)
    next
      case False
      have "\<exists>ls e. getLines_loop k mb s (pos + nat ?cp) start lines = Some (ls, e) \<and> concat ls = s"
        using Suc.prems pos pr by (intro Suc.IH) auto
      then show ?thesis using pos cp False by (auto simp: Let_def)
    qed
  qed
qed simp

lemma getLines_loop_stuck:
  assumes "mblen_ok mb" and "pos < length s" and "s ! pos = 0" and "mb (drop pos s) \<noteq> - 1"
  shows "getLines_loop k mb s pos start lines = None"
proof (induction k)
  case (Suc k)
  have "hd (drop pos s) = 0" "drop pos s \<noteq> []" using assms(2,3) by (simp_all add: hd_drop_conv_nth)
  then have "mb (drop pos s) = 0" using mblen_okD [OF assms(1) _ assms(4)] by simp
  then show ?case using Suc assms(2) by simp
qed simp

section \<open>Property\<close>

text \<open>An ASCII-only \<open>mblen\<close>.\<close>

definition ascii_mblen :: "bytes \<Rightarrow> int" where
  "ascii_mblen b = (case b of [] \<Rightarrow> 0 | x # _ \<Rightarrow> if x = 0 then 0 else if x < 128 then 1 else - 1)"

lemma ascii_mblen_ok: "mblen_ok ascii_mblen"
  by (auto simp: mblen_ok_def ascii_mblen_def split: list.split)

text \<open>Splitting a text without null characters into lines ends after at most one round per byte
  and loses nothing: the lines put together are the text. A text that begins with a null character,
  of length 0 for \<open>mblen\<close>, is never split: the loop does not end, whatever number of rounds it is
  given.\<close>

theorem getLines_terminates:
  assumes "mblen_ok mb"
  shows "(0 \<notin> set s \<longrightarrow> (\<exists>ls e. getLines (Suc (length s)) mb s = Some (ls, e) \<and> concat ls = s))
    \<and> (s \<noteq> [] \<and> hd s = 0 \<and> mb s \<noteq> - 1 \<longrightarrow> (\<forall>fuel. getLines fuel mb s = None))"
proof (intro conjI impI allI)
  show "\<exists>ls e. getLines (Suc (length s)) mb s = Some (ls, e) \<and> concat ls = s" if "0 \<notin> set s"
    unfolding getLines_def by (rule getLines_loop_ends [OF assms that]) auto
  show "getLines fuel mb s = None" if "s \<noteq> [] \<and> hd s = 0 \<and> mb s \<noteq> - 1" for fuel
    unfolding getLines_def using that by (intro getLines_loop_stuck [OF assms]) (auto simp: hd_conv_nth)
qed

theorem getLines_terminates_witness:
  "(\<exists>ls e. getLines (Suc (Suc (Suc (Suc (Suc 0))))) ascii_mblen [97, 10, 98, 99] = Some (ls, e) \<and> concat ls = [97, 10, 98, 99])
    \<and> getLines 1000 ascii_mblen [0, 97] = None"
  using getLines_terminates [OF ascii_mblen_ok, of "[97, 10, 98, 99]"] getLines_terminates [OF ascii_mblen_ok, of "[0, 97]"]
  by (simp add: ascii_mblen_def)

text \<open>After a line end one character is skipped: of three line ends in a row the last two make one line.\<close>

lemma getLines_skips: "getLines 5 ascii_mblen [10, 10, 10] = Some ([[10], [10, 10]], True)"
  by code_simp

end
