(* ===== verification/Fat_Volume.thy ===== *)
theory Fat_Volume
  imports Disk_Registry
begin

text \<open>
  The volume layer of FatFs (\<open>cpp/fatfs/common/src/ff.cpp\<close>, \<open>ff.hpp\<close>, in the configuration of
  \<open>ffconf.hpp\<close>: FAT12, FAT16 and FAT32, sectors of 512 bytes, 32-bit sector numbers, one private
  buffer per file). It holds the multi-byte fields of the FAT structures, the filesystem object with
  its disk access window, and the three functions that move and flush the window.

  The window is a cache of one sector that is written back late. The locale \<open>sector_device\<close> is the
  contract of the drive below; in it the window is shown to be transparent: a volume has one
  contents, whatever the window holds, and the two copies of the FAT on the drive never differ.
\<close>

unbundle bit_operations_syntax

section \<open>Fields of the FAT structures\<close>

definition ld_word :: "bytes \<Rightarrow> nat \<Rightarrow> u16" where
  "ld_word b i = push_bit 8 (ucast (b ! (i + 1))) OR ucast (b ! i)"

definition ld_dword :: "bytes \<Rightarrow> nat \<Rightarrow> u32" where
  "ld_dword b i =
     push_bit 8 (push_bit 8 (push_bit 8 (ucast (b ! (i + 3))) OR ucast (b ! (i + 2))) OR ucast (b ! (i + 1))) OR ucast (b ! i)"

definition st_word :: "bytes \<Rightarrow> nat \<Rightarrow> u16 \<Rightarrow> bytes" where
  "st_word b i val = b[i := ucast val, i + 1 := ucast (drop_bit 8 val)]"

definition st_dword :: "bytes \<Rightarrow> nat \<Rightarrow> u32 \<Rightarrow> bytes" where
  "st_dword b i val =
     b[i := ucast val, i + 1 := ucast (drop_bit 8 val), i + 2 := ucast (drop_bit 8 (drop_bit 8 val)),
       i + 3 := ucast (drop_bit 8 (drop_bit 8 (drop_bit 8 val)))]"

lemma length_st [simp]: "length (st_word b i w) = length b" "length (st_dword b i d) = length b"
  by (simp_all add: st_word_def st_dword_def)

lemma ld_st_word: "i + 1 < length b \<Longrightarrow> ld_word (st_word b i w) i = w"
  by (rule bit_word_eqI) (auto simp: ld_word_def st_word_def bit_simps)

lemma ld_st_dword:
  assumes "i + 3 < length b"
  shows "ld_dword (st_dword b i w) i = w"
proof (rule bit_word_eqI)
  fix n assume "n < LENGTH(32)"
  then consider "n < 8" | "8 \<le> n" "n < 16" | "16 \<le> n" "n < 24" | "24 \<le> n" "n < 32" by fastforce
  then show "bit (ld_dword (st_dword b i w) i) n = bit w n"
    using assms by cases (auto simp: ld_dword_def st_dword_def bit_simps)
qed

lemma st_word_other: "j < i \<or> i + 1 < j \<Longrightarrow> st_word b i w ! j = b ! j"
  by (auto simp: st_word_def)

lemma st_dword_other: "j < i \<or> i + 3 < j \<Longrightarrow> st_dword b i w ! j = b ! j"
  by (auto simp: st_dword_def)

section \<open>The filesystem object\<close>

text \<open>
  The members of \<open>FATFS\<close> that the configuration has, except for the name buffer, and the drives it
  reaches through \<open>disk_read\<close> and \<open>disk_write\<close>.
\<close>

record FATFS =
  fs_type :: u8
  pdrv :: u8
  n_fats :: u8
  wflag :: u8
  fsi_flag :: u8
  volume_id :: u16
  n_rootdir :: u16
  csize :: u16
  last_clst :: u32
  free_clst :: u32
  cdir :: u32
  n_fatent :: u32
  fsize :: u32
  volbase :: u32
  fatbase :: u32
  dirbase :: u32
  database :: u32
  winsect :: u32
  win :: bytes

record 'd volume = FATFS +
  dev :: 'd

definition FS_FAT12 :: u8 where "FS_FAT12 = 1"
definition FS_FAT16 :: u8 where "FS_FAT16 = 2"
definition FS_FAT32 :: u8 where "FS_FAT32 = 3"

text \<open>The functions of \<open>diskio.cpp\<close> that FatFs calls; those of the table of drives are one instance.\<close>

record 'd diskio =
  dio_read :: "u8 \<Rightarrow> u32 \<Rightarrow> u8 \<Rightarrow> 'd \<Rightarrow> (DRESULT \<times> bytes \<times> 'd) cpp"
  dio_write :: "u8 \<Rightarrow> bytes \<Rightarrow> u32 \<Rightarrow> u8 \<Rightarrow> 'd \<Rightarrow> (DRESULT \<times> 'd) cpp"
  dio_sync :: "u8 \<Rightarrow> 'd \<Rightarrow> (DRESULT \<times> 'd) cpp"
  dio_status :: "u8 \<Rightarrow> 'd \<Rightarrow> u8 cpp"

text \<open>\<open>DSTATUS\<close> is a byte of flags; the functions of \<open>diskio.cpp\<close> return a \<open>DRESULT\<close> as one.\<close>

definition STA_NOINIT :: u8 where "STA_NOINIT = 0x01"
definition STA_PROTECT :: u8 where "STA_PROTECT = 0x04"

definition dresult_code :: "DRESULT \<Rightarrow> u8" where
  "dresult_code r = (case r of RES_OK \<Rightarrow> 0 | RES_ERROR \<Rightarrow> 1 | RES_WRPRT \<Rightarrow> 2 | RES_NOTRDY \<Rightarrow> 3 | RES_PARERR \<Rightarrow> 4)"

definition registry_io :: "'h pd_env \<Rightarrow> 'h disk_system diskio" where
  "registry_io E = \<lparr>dio_read = disk_read E, dio_write = disk_write E,
     dio_sync = (\<lambda>drive st. cbind (disk_ioctl E drive CTRL_SYNC st) (\<lambda>(r, _, st'). Ret (r, st'))),
     dio_status = (\<lambda>drive st. cbind (disk_status drive st) (\<lambda>r. Ret (dresult_code r)))\<rparr>"

text \<open>A read fills the front of a buffer, all of it when it succeeds.\<close>

definition fill_buffer :: "bytes \<Rightarrow> bytes \<Rightarrow> bytes" where
  "fill_buffer b new = take (length b) new @ drop (length new) b"

section \<open>The disk access window\<close>

definition sync_window :: "'d diskio \<Rightarrow> 'd volume \<Rightarrow> (FRESULT \<times> 'd volume) cpp" where
  "sync_window io v =
     (if wflag v \<noteq> 0 then
        cbind (dio_write io (pdrv v) (win v) (winsect v) 1 (dev v)) (\<lambda>(r, d).
          if r = RES_OK then
            let v1 = v\<lparr>dev := d, wflag := 0\<rparr> in
            if winsect v1 - fatbase v1 < fsize v1 \<and> n_fats v1 = 2
            then cbind (dio_write io (pdrv v1) (win v1) (winsect v1 + fsize v1) 1 (dev v1)) (\<lambda>(_, d2).
                   Ret (FR_OK, v1\<lparr>dev := d2\<rparr>))
            else Ret (FR_OK, v1)
          else Ret (FR_DISK_ERR, v\<lparr>dev := d\<rparr>))
      else Ret (FR_OK, v))"

definition move_window :: "'d diskio \<Rightarrow> u32 \<Rightarrow> 'd volume \<Rightarrow> (FRESULT \<times> 'd volume) cpp" where
  "move_window io sect v =
     (if sect \<noteq> winsect v then
        cbind (sync_window io v) (\<lambda>(res, v1).
          if res = FR_OK then
            cbind (dio_read io (pdrv v1) sect 1 (dev v1)) (\<lambda>(r, b, d).
              let v2 = v1\<lparr>win := fill_buffer (win v1) b, dev := d\<rparr> in
              if r \<noteq> RES_OK then Ret (FR_DISK_ERR, v2\<lparr>winsect := - 1\<rparr>)
              else Ret (FR_OK, v2\<lparr>winsect := sect\<rparr>))
          else Ret (res, v1))
      else Ret (FR_OK, v))"

text \<open>The offsets of the FSInfo sector.\<close>

definition BS_55AA :: nat where "BS_55AA = 510"
definition FSI_LeadSig :: nat where "FSI_LeadSig = 0"
definition FSI_StrucSig :: nat where "FSI_StrucSig = 484"
definition FSI_Free_Count :: nat where "FSI_Free_Count = 488"
definition FSI_Nxt_Free :: nat where "FSI_Nxt_Free = 492"

definition fsinfo_sector :: "u32 \<Rightarrow> u32 \<Rightarrow> bytes" where
  "fsinfo_sector free last_cl =
     st_dword (st_dword (st_dword (st_dword (st_word (replicate 512 0) BS_55AA 0xAA55)
       FSI_LeadSig 0x41615252) FSI_StrucSig 0x61417272) FSI_Free_Count free) FSI_Nxt_Free last_cl"

definition sync_fs :: "'d diskio \<Rightarrow> 'd volume \<Rightarrow> (FRESULT \<times> 'd volume) cpp" where
  "sync_fs io v =
     cbind (sync_window io v) (\<lambda>(res, v1).
       if res = FR_OK then
         cbind (if fs_type v1 = FS_FAT32 \<and> fsi_flag v1 = 1 then
                  let v2 = v1\<lparr>win := fsinfo_sector (free_clst v1) (last_clst v1), winsect := volbase v1 + 1\<rparr> in
                  cbind (dio_write io (pdrv v2) (win v2) (winsect v2) 1 (dev v2)) (\<lambda>(_, d).
                    Ret (v2\<lparr>dev := d, fsi_flag := 0\<rparr>))
                else Ret v1) (\<lambda>v3.
           cbind (dio_sync io (pdrv v3) (dev v3)) (\<lambda>(r, d).
             Ret (if r \<noteq> RES_OK then FR_DISK_ERR else FR_OK, v3\<lparr>dev := d\<rparr>)))
       else Ret (res, v1))"

section \<open>The contract of a drive\<close>

text \<open>
  A drive in a good state has \<open>cap\<close> sectors: transfers inside of them succeed, reading returns their
  contents and changes nothing, writing changes exactly the sectors written. Beyond the capacity the
  contents are empty.
\<close>

definition sector_run :: "(nat \<Rightarrow> bytes) \<Rightarrow> nat \<Rightarrow> nat \<Rightarrow> bytes" where
  "sector_run f s n = concat (map f [s..<s + n])"

text \<open>
  The layout of a volume: the reserved sectors, the FAT (once or twice), the root directory of FAT12
  and FAT16 and the clusters follow each other on the drive; the FAT has room for all entries, and the
  number of entries decides the type.
\<close>

definition fat_bytes :: "'a FATFS_scheme \<Rightarrow> nat" where
  "fat_bytes v =
     (if fs_type v = FS_FAT12 then unat (n_fatent v) + unat (n_fatent v) div 2 + 1
      else if fs_type v = FS_FAT16 then unat (n_fatent v) * 2
      else unat (n_fatent v) * 4)"

definition max_fatent :: "u8 \<Rightarrow> nat" where
  "max_fatent ty = (if ty = FS_FAT12 then 0xFF7 else if ty = FS_FAT16 then 0xFFF7 else 0xFFFFFF7)"

definition geometry_ok :: "nat \<Rightarrow> 'a FATFS_scheme \<Rightarrow> bool" where
  "geometry_ok cap v \<longleftrightarrow> fs_type v \<in> {FS_FAT12, FS_FAT16, FS_FAT32} \<and> n_fats v \<in> {1, 2}
     \<and> 2 \<le> unat (n_fatent v) \<and> unat (n_fatent v) \<le> max_fatent (fs_type v)
     \<and> fat_bytes v \<le> unat (fsize v) * 512
     \<and> unat (volbase v) + (if fs_type v = FS_FAT32 then 1 else 0) < unat (fatbase v)
     \<and> unat (fatbase v) + unat (n_fats v) * unat (fsize v) \<le> unat (database v)
     \<and> unat (csize v) \<in> {1, 2, 4, 8, 16, 32, 64, 128} \<and> unat (database v) + unat (csize v) * (unat (n_fatent v) - 2) \<le> cap \<and> cap < 2 ^ 32"

text \<open>The second copy of the FAT is written when the first is, and never read.\<close>

definition mirrored :: "'a FATFS_scheme \<Rightarrow> nat \<Rightarrow> bool" where
  "mirrored v t \<longleftrightarrow> n_fats v = 2 \<and> unat (fatbase v) + unat (fsize v) \<le> t \<and> t < unat (fatbase v) + 2 * unat (fsize v)"

text \<open>The contents of a volume: the window in the place of its sector, and the drive.\<close>

definition vol_view :: "('d \<Rightarrow> nat \<Rightarrow> bytes) \<Rightarrow> 'd volume \<Rightarrow> nat \<Rightarrow> bytes" where
  "vol_view sec v t = (if mirrored v t then [] else if t = unat (winsect v) then win v else sec (dev v) t)"

definition copies_agree :: "('d \<Rightarrow> nat \<Rightarrow> bytes) \<Rightarrow> 'd volume \<Rightarrow> bool" where
  "copies_agree sec v \<longleftrightarrow>
     (n_fats v = 2 \<longrightarrow> (\<forall>i<unat (fsize v). sec (dev v) (unat (fatbase v) + unat (fsize v) + i) = sec (dev v) (unat (fatbase v) + i)))"

definition vol_ok :: "('d \<Rightarrow> bool) \<Rightarrow> nat \<Rightarrow> ('d \<Rightarrow> nat \<Rightarrow> bytes) \<Rightarrow> u8 \<Rightarrow> 'd volume \<Rightarrow> bool" where
  "vol_ok good cap sec drv v \<longleftrightarrow> good (dev v) \<and> pdrv v = drv \<and> geometry_ok cap v \<and> length (win v) = 512
     \<and> unat (winsect v) < cap \<and> \<not> mirrored v (unat (winsect v))
     \<and> (wflag v = 0 \<longrightarrow> win v = sec (dev v) (unat (winsect v))) \<and> copies_agree sec v"

lemma geometry_simps [simp]:
  "geometry_ok cap (v\<lparr>wflag := a\<rparr>) = geometry_ok cap v" "geometry_ok cap (v\<lparr>win := w\<rparr>) = geometry_ok cap v"
  "geometry_ok cap (v\<lparr>winsect := s\<rparr>) = geometry_ok cap v" "geometry_ok cap (v\<lparr>fsi_flag := a\<rparr>) = geometry_ok cap v"
  "geometry_ok cap (v\<lparr>free_clst := s\<rparr>) = geometry_ok cap v" "geometry_ok cap (v\<lparr>last_clst := s\<rparr>) = geometry_ok cap v"
  "mirrored (v\<lparr>wflag := a\<rparr>) = mirrored v" "mirrored (v\<lparr>win := w\<rparr>) = mirrored v"
  "mirrored (v\<lparr>winsect := s\<rparr>) = mirrored v" "mirrored (v\<lparr>fsi_flag := a\<rparr>) = mirrored v"
  "mirrored (v\<lparr>free_clst := s\<rparr>) = mirrored v" "mirrored (v\<lparr>last_clst := s\<rparr>) = mirrored v"
  by (simp_all add: geometry_ok_def fat_bytes_def mirrored_def fun_eq_iff)

lemma geometry_dev [simp]:
  "geometry_ok cap (u\<lparr>dev := d\<rparr>) = geometry_ok cap u" "mirrored (u\<lparr>dev := d\<rparr>) = mirrored u"
  by (simp_all add: geometry_ok_def fat_bytes_def mirrored_def fun_eq_iff)

locale sector_device =
  fixes io :: "'d diskio" and drv :: u8 and good :: "'d \<Rightarrow> bool" and cap :: nat and sec :: "'d \<Rightarrow> nat \<Rightarrow> bytes"
  assumes length_sec: "good d \<Longrightarrow> length (sec d t) = (if t < cap then 512 else 0)"
    and read_run: "good d \<Longrightarrow> 0 < n \<Longrightarrow> unat s + unat n \<le> cap \<Longrightarrow>
      \<exists>d'. dio_read io drv s n d = Ret (RES_OK, sector_run (sec d) (unat s) (unat n), d') \<and> good d' \<and> sec d' = sec d"
    and write_run: "good d \<Longrightarrow> 0 < n \<Longrightarrow> unat s + unat n \<le> cap \<Longrightarrow> length b = unat n * 512 \<Longrightarrow>
      \<exists>d'. dio_write io drv b s n d = Ret (RES_OK, d') \<and> good d'
        \<and> sec d' = (\<lambda>t. if unat s \<le> t \<and> t < unat s + unat n then slice b ((t - unat s) * 512) 512 else sec d t)"
    and sync_run: "good d \<Longrightarrow> \<exists>d'. dio_sync io drv d = Ret (RES_OK, d') \<and> good d' \<and> sec d' = sec d"
    and status_run: "good d \<Longrightarrow> dio_status io drv d = Ret 0"
begin

lemma read_one:
  assumes "good d" and "unat s < cap"
  shows "\<exists>d'. dio_read io drv s 1 d = Ret (RES_OK, sec d (unat s), d') \<and> good d' \<and> sec d' = sec d"
  using read_run [OF assms(1), of 1 s] assms(2) by (simp add: sector_run_def)

lemma write_one:
  assumes "good d" and "unat s < cap" and "length b = 512"
  shows "\<exists>d'. dio_write io drv b s 1 d = Ret (RES_OK, d') \<and> good d' \<and> sec d' = (sec d)(unat s := b)"
proof -
  obtain d' where d': "dio_write io drv b s 1 d = Ret (RES_OK, d')" "good d'"
    "sec d' = (\<lambda>t. if unat s \<le> t \<and> t < unat s + 1 then slice b ((t - unat s) * 512) 512 else sec d t)"
    using write_run [OF assms(1), of 1 s b] assms(2,3) by auto
  moreover have "sec d' = (sec d)(unat s := b)"
    using assms(3) by (auto simp: d'(3) fun_eq_iff slice_def le_less_Suc_eq)
  ultimately show ?thesis by blast
qed

abbreviation vok :: "'d volume \<Rightarrow> bool" where "vok \<equiv> vol_ok good cap sec drv"
abbreviation vview :: "'d volume \<Rightarrow> nat \<Rightarrow> bytes" where "vview \<equiv> vol_view sec"

lemma winsect_in_fat:
  assumes "geometry_ok cap v"
  shows "winsect v - fatbase v < fsize v \<longleftrightarrow>
    unat (fatbase v) \<le> unat (winsect v) \<and> unat (winsect v) < unat (fatbase v) + unat (fsize v)"
proof -
  have "unat (n_fats v) \<ge> 1" using assms by (auto simp: geometry_ok_def)
  then have "unat (fsize v) \<le> unat (n_fats v) * unat (fsize v)" by simp
  then have "unat (fatbase v) + unat (fsize v) < 2 ^ 32" using assms unfolding geometry_ok_def by linarith
  then show ?thesis
    by (auto simp: word_less_nat_alt unat_sub_if' word_le_nat_alt split: if_splits)
qed

text \<open>Flushing the window keeps the contents of the volume and brings both copies of the FAT up to date.\<close>

lemma sync_window_ok:
  assumes "vok v"
  shows "\<exists>d. sync_window io v = Ret (FR_OK, v\<lparr>wflag := 0, dev := d\<rparr>)
    \<and> vok (v\<lparr>wflag := 0, dev := d\<rparr>) \<and> vview (v\<lparr>wflag := 0, dev := d\<rparr>) = vview v"
proof (cases "wflag v = 0")
  case True
  then have e: "v\<lparr>wflag := 0, dev := dev v\<rparr> = v" by simp
  show ?thesis using True assms by (intro exI [of _ "dev v"]) (simp only: e, simp add: sync_window_def)
next
  case False
  let ?s = "unat (winsect v)" and ?b = "unat (fatbase v)" and ?n = "unat (fsize v)"
  have v: "good (dev v)" "pdrv v = drv" "geometry_ok cap v" "length (win v) = 512" "?s < cap"
    "\<not> mirrored v ?s" "copies_agree sec v" using assms by (simp_all add: vol_ok_def)
  obtain d where d: "dio_write io drv (win v) (winsect v) 1 (dev v) = Ret (RES_OK, d)" "good d"
    "sec d = (sec (dev v))(?s := win v)" using write_one [OF v(1,5,4)] by blast
  show ?thesis
  proof (cases "winsect v - fatbase v < fsize v \<and> n_fats v = 2")
    case True
    then have in_fat: "?b \<le> ?s" "?s < ?b + ?n" "n_fats v = 2" using winsect_in_fat [OF v(3)] by auto
    then have c: "?b + 2 * ?n \<le> cap" "cap < 2 ^ 32" using v(3) by (auto simp: geometry_ok_def)
    then have m: "unat (winsect v + fsize v) = ?s + ?n" using in_fat by (intro unat_add_no_wrap) simp
    obtain d2 where d2: "dio_write io drv (win v) (winsect v + fsize v) 1 d = Ret (RES_OK, d2)" "good d2"
      "sec d2 = (sec d)(?s + ?n := win v)" using write_one [OF d(2), of "winsect v + fsize v" "win v"] v(4) m c in_fat by auto
    have "copies_agree sec (v\<lparr>wflag := 0, dev := d2\<rparr>)"
      using v(7) in_fat by (auto simp: copies_agree_def d2(3) d(3))
    moreover have "mirrored v (?s + ?n)" using in_fat by (simp add: mirrored_def)
    moreover have "vview (v\<lparr>wflag := 0, dev := d2\<rparr>) = vview v"
      using \<open>mirrored v (?s + ?n)\<close> by (auto simp: vol_view_def fun_eq_iff d2(3) d(3))
    ultimately show ?thesis using True \<open>wflag v \<noteq> 0\<close> v d d2
      by (intro exI [of _ d2]) (auto simp: sync_window_def vol_ok_def)
  next
    case False
    have "copies_agree sec (v\<lparr>wflag := 0, dev := d\<rparr>)"
    proof (cases "n_fats v = 2")
      case True
      then have "\<not> (?b \<le> ?s \<and> ?s < ?b + ?n)" using False winsect_in_fat [OF v(3)] by auto
      then have "?b + i \<noteq> ?s" "?b + ?n + i \<noteq> ?s" if "i < ?n" for i
        using that v(6) True by (auto simp: mirrored_def)
      then show ?thesis using v(7) by (auto simp: copies_agree_def d(3))
    qed (simp add: copies_agree_def)
    moreover have "vview (v\<lparr>wflag := 0, dev := d\<rparr>) = vview v"
      by (auto simp: vol_view_def fun_eq_iff d(3))
    ultimately show ?thesis using False \<open>wflag v \<noteq> 0\<close> v d
      by (intro exI [of _ d]) (auto simp: sync_window_def vol_ok_def)
  qed
qed

text \<open>Moving the window shows the sector it is moved to and keeps the contents of the volume.\<close>

lemma move_window_ok:
  assumes "vok v" and "unat s < cap" and "\<not> mirrored v (unat s)"
  shows "\<exists>f d. let v' = v\<lparr>wflag := f, win := vview v (unat s), winsect := s, dev := d\<rparr> in
    move_window io s v = Ret (FR_OK, v') \<and> vok v' \<and> vview v' = vview v"
proof (cases "s = winsect v")
  case True
  then have "v\<lparr>wflag := wflag v, win := vview v (unat s), winsect := s, dev := dev v\<rparr> = v"
    using assms(3) by (simp add: vol_view_def)
  then show ?thesis using True assms(1)
    by (intro exI [of _ "wflag v"] exI [of _ "dev v"]) (simp add: move_window_def)
next
  case False
  obtain d where d: "sync_window io v = Ret (FR_OK, v\<lparr>wflag := 0, dev := d\<rparr>)"
    and ok: "vok (v\<lparr>wflag := 0, dev := d\<rparr>)" and view: "vview (v\<lparr>wflag := 0, dev := d\<rparr>) = vview v"
    using sync_window_ok [OF assms(1)] by blast
  have g: "good d" "pdrv v = drv" using ok by (simp_all add: vol_ok_def)
  have g3: "length (win v) = 512" using assms(1) by (simp add: vol_ok_def)
  obtain d2 where d2: "dio_read io drv s 1 d = Ret (RES_OK, sec d (unat s), d2)" "good d2" "sec d2 = sec d"
    using read_one [OF g(1) assms(2)] by blast
  have sd: "vview v t = (if mirrored v t then [] else sec d t)" for t
    using ok by (simp add: view [symmetric] vol_view_def vol_ok_def)
  then have w: "sec d (unat s) = vview v (unat s)" using assms(3) by simp
  have l: "length (sec d (unat s)) = 512" using length_sec [OF g(1)] assms(2) by simp
  then have f: "fill_buffer (win v) (sec d (unat s)) = vview v (unat s)" using g3 w by (simp add: fill_buffer_def)
  let ?v = "v\<lparr>wflag := 0, win := vview v (unat s), winsect := s, dev := d2\<rparr>"
  have "move_window io s v = Ret (FR_OK, ?v)" using False d d2 g f by (simp add: move_window_def Let_def)
  moreover have "vok ?v" using ok assms(2,3) d2 w l by (simp add: vol_ok_def copies_agree_def)
  moreover have "vview ?v = vview v"
    by (simp add: fun_eq_iff sd) (simp add: vol_view_def d2(3))
  ultimately show ?thesis by (metis (mono_tags))
qed

lemma window_write:
  assumes "vok v" and "length w = 512"
  shows "vok (v\<lparr>win := w, wflag := 1\<rparr>)" and "vview (v\<lparr>win := w, wflag := 1\<rparr>) = (vview v)(unat (winsect v) := w)"
  using assms by (auto simp: vol_ok_def copies_agree_def vol_view_def fun_eq_iff)

text \<open>
  After \<open>sync_fs\<close> the drive holds the contents of the volume. On a FAT32 volume whose allocation
  changed, the FSInfo sector is rewritten.
\<close>

definition on_drive :: "'d volume \<Rightarrow> bool" where
  "on_drive v \<longleftrightarrow> (\<forall>t. \<not> mirrored v t \<longrightarrow> sec (dev v) t = vview v t)"

lemma sync_fs_ok:
  assumes "vok v"
  shows "\<exists>v'. sync_fs io v = Ret (FR_OK, v') \<and> vok v' \<and> wflag v' = 0 \<and> on_drive v'
    \<and> vview v' = (if fs_type v = FS_FAT32 \<and> fsi_flag v = 1
         then (vview v)(unat (volbase v) + 1 := fsinfo_sector (free_clst v) (last_clst v)) else vview v)
    \<and> (\<exists>w s f. v' = v\<lparr>wflag := 0, win := w, winsect := s, fsi_flag := f, dev := dev v'\<rparr> \<and> (s = winsect v \<or> unat s < unat (fatbase v)))"
proof -
  obtain d where d: "sync_window io v = Ret (FR_OK, v\<lparr>wflag := 0, dev := d\<rparr>)"
    and ok: "vok (v\<lparr>wflag := 0, dev := d\<rparr>)" and view: "vview (v\<lparr>wflag := 0, dev := d\<rparr>) = vview v"
    using sync_window_ok [OF assms] by blast
  have g: "good d" "pdrv v = drv" "geometry_ok cap v" using ok by (simp_all add: vol_ok_def)
  have sd: "vview v t = (if mirrored v t then [] else sec d t)" for t
    using ok by (simp add: view [symmetric] vol_view_def vol_ok_def)
  show ?thesis
  proof (cases "fs_type v = FS_FAT32 \<and> fsi_flag v = 1")
    case True
    let ?w = "fsinfo_sector (free_clst v) (last_clst v)" and ?s = "unat (volbase v) + 1"
    have s: "unat (volbase v + 1) = ?s" "?s < unat (fatbase v)" "?s < cap" and c: "cap < 2 ^ 32"
      using g(3) unat_add_no_wrap [of "volbase v" 1] True by (auto simp: geometry_ok_def)
    have w: "length ?w = 512" by (simp add: fsinfo_sector_def)
    have nm: "\<not> mirrored v ?s" using s by (auto simp: mirrored_def)
    obtain d2 where d2: "dio_write io drv ?w (volbase v + 1) 1 d = Ret (RES_OK, d2)" "good d2" "sec d2 = (sec d)(?s := ?w)"
      using write_one [OF g(1), of "volbase v + 1" ?w] s w by auto
    obtain d3 where d3: "dio_sync io drv d2 = Ret (RES_OK, d3)" "good d3" "sec d3 = sec d2" using sync_run [OF d2(2)] by blast
    let ?v = "v\<lparr>wflag := 0, win := ?w, winsect := volbase v + 1, fsi_flag := 0, dev := d3\<rparr>"
    have "copies_agree sec ?v" using ok s by (auto simp: vol_ok_def copies_agree_def d3(3) d2(3))
    then have "vok ?v" using ok s nm w d3 d2 by (simp add: vol_ok_def)
    moreover have "vview ?v = (vview v)(?s := ?w)"
      using nm by (auto simp: fun_eq_iff sd) (auto simp: vol_view_def s d3(3) d2(3))
    moreover have "on_drive ?v" using \<open>vok ?v\<close> by (auto simp: on_drive_def vol_view_def vol_ok_def)
    moreover have "sync_fs io v = Ret (FR_OK, ?v)" using True d d2 d3 g by (simp add: sync_fs_def Let_def)
    moreover have "\<exists>w s f. ?v = v\<lparr>wflag := 0, win := w, winsect := s, fsi_flag := f, dev := dev ?v\<rparr> \<and> (s = winsect v \<or> unat s < unat (fatbase v))"
      using s(1,2) by (intro exI [of _ ?w] exI [of _ "volbase v + 1"] exI [of _ 0]) simp
    ultimately show ?thesis using True by (intro exI [of _ ?v]) simp
  next
    case False
    obtain d3 where d3: "dio_sync io drv d = Ret (RES_OK, d3)" "good d3" "sec d3 = sec d" using sync_run [OF g(1)] by blast
    let ?v = "v\<lparr>wflag := 0, dev := d3\<rparr>"
    have "vok ?v" using ok d3 length_sec [OF g(1)] by (simp add: vol_ok_def copies_agree_def)
    moreover have "vview ?v = vview v" using ok by (simp add: fun_eq_iff sd) (simp add: vol_view_def vol_ok_def d3(3))
    moreover have "on_drive ?v" using \<open>vok ?v\<close> by (auto simp: on_drive_def vol_view_def vol_ok_def)
    moreover have "sync_fs io v = Ret (FR_OK, ?v)"
      using d d3 g by (simp add: sync_fs_def) (use False in auto)
    moreover have "(if fs_type v = FS_FAT32 \<and> fsi_flag v = 1
        then (vview v)(unat (volbase v) + 1 := fsinfo_sector (free_clst v) (last_clst v)) else vview v) = vview v"
      using False by (simp only: if_False)
    moreover have "\<exists>w s f. ?v = v\<lparr>wflag := 0, win := w, winsect := s, fsi_flag := f, dev := dev ?v\<rparr> \<and> (s = winsect v \<or> unat s < unat (fatbase v))"
      by (intro exI [of _ "win v"] exI [of _ "winsect v"] exI [of _ "fsi_flag v"]) simp
    ultimately show ?thesis by (intro exI [of _ ?v]) simp
  qed
qed

end

section \<open>The RAM drive as a drive\<close>

text \<open>
  A drive of the table that holds a started RAM drive keeps the contract, up to the sectors both
  offset computations of \<open>InMemoryDisk\<close> reach.
\<close>

definition ram_drive :: "u8 \<Rightarrow> 'h disk_system \<Rightarrow> inmemory_disk" where
  "ram_drive drv st = (case objects st (disks st ! unat drv) of Some (InMemory d) \<Rightarrow> d | _ \<Rightarrow> \<lparr>drive_id = 0, drive_size = 0,
     num_sectors = 0, filesystem = 0, ram_buffer = None\<rparr>)"

definition ram_drive_ok :: "u8 \<Rightarrow> nat \<Rightarrow> 'h disk_system \<Rightarrow> bool" where
  "ram_drive_ok drv n st \<longleftrightarrow> drv < FF_VOLUMES \<and> unat drv < length (disks st) \<and> disks st ! unat drv \<noteq> 0
     \<and> objects st (disks st ! unat drv) = Some (InMemory (ram_drive drv st))
     \<and> imd_ok (ram_drive drv st) \<and> n \<le> imd_cap (ram_drive drv st)"

definition ram_sectors :: "u8 \<Rightarrow> nat \<Rightarrow> 'h disk_system \<Rightarrow> nat \<Rightarrow> bytes" where
  "ram_sectors drv n st t = (if t < n then slice (ram_bytes (ram_drive drv st)) (t * 512) 512 else [])"

lemma ram_drive_at: "ram_drive_ok drv n st \<Longrightarrow> disk_at drv st = Ret (disks st ! unat drv, InMemory (ram_drive drv st))"
  by (simp add: ram_drive_ok_def disk_at_def Let_def)

lemma slice_append: "slice b i (n + m) = slice b i n @ slice b (i + n) m"
  unfolding slice_def take_add drop_drop by (simp only: add.commute)

lemma sector_run_slices:
  "(\<And>t. s \<le> t \<Longrightarrow> t < s + n \<Longrightarrow> f t = slice b (t * 512) 512) \<Longrightarrow> sector_run f s n = slice b (s * 512) (n * 512)"
proof (induction n)
  case (Suc n)
  then show ?case
    using slice_append [of b "s * 512" "n * 512" 512]
    by (simp add: sector_run_def algebra_simps)
qed (simp add: sector_run_def slice_def)

lemma slice_blit_sector:
  assumes "s * 512 + length src \<le> length b" and "(t - s) * 512 + 512 \<le> length src" and "s \<le> t"
  shows "slice (blit b (s * 512) src) (t * 512) 512 = slice src ((t - s) * 512) 512"
proof -
  have "t * 512 = s * 512 + (t - s) * 512" using assms(3) by (simp add: algebra_simps)
  then show ?thesis using assms
    by (intro nth_equalityI) (auto simp: slice_def nth_blit)
qed

lemma ram_offsets:
  assumes "unat s + unat n \<le> imd_cap d" and "0 < n"
  shows "read_offset s = unat s * 512" "write_offset s = unat s * 512"
    "unat s * 512 + unat n * 512 < unat (drive_size d)"
proof -
  have n: "0 < unat n" using assms(2) by (simp add: word_less_nat_alt)
  then have "unat s < 2 ^ 23" using assms(1) imd_cap_less [of "unat s" d] by simp
  then show "read_offset s = unat s * 512" "write_offset s = unat s * 512"
    using sector_offsets [of "unat s"] by simp_all
  have "unat s + unat n - 1 < imd_cap d" using assms(1) n by simp
  then have "(unat s + unat n - 1) * 512 + 512 < unat (drive_size d)" using imd_cap_less by blast
  moreover have "(unat s + unat n - 1) * 512 + 512 = unat s * 512 + unat n * 512" using n by (simp add: algebra_simps)
  ultimately show "unat s * 512 + unat n * 512 < unat (drive_size d)" by simp
qed

interpretation ramio: sector_device "registry_io E" drv "ram_drive_ok drv n" n "ram_sectors drv n"
proof (unfold_locales, goal_cases)
  case (1 d t)
  then show ?case using imd_cap_less [of t "ram_drive drv d"]
    by (auto simp: ram_sectors_def ram_drive_ok_def imd_ok_bytes)
next
  case (2 d m s)
  let ?r = "ram_drive drv d"
  have r: "imd_ok ?r" "unat s + unat m \<le> imd_cap ?r" "drv < FF_VOLUMES" using 2 by (auto simp: ram_drive_ok_def)
  note o = ram_offsets [OF r(2) 2(2)]
  have "sector_run (ram_sectors drv n d) (unat s) (unat m) = slice (ram_bytes ?r) (unat s * 512) (unat m * 512)"
    using 2(3) by (intro sector_run_slices) (simp add: ram_sectors_def)
  then show ?case using o r ram_drive_at [OF 2(1)] 2(1)
    by (simp add: registry_io_def disk_read_def imd_diskRead_eq [OF r(1)])
next
  case (3 d m s b)
  let ?r = "ram_drive drv d" and ?p = "disks d ! unat drv"
  have r: "imd_ok ?r" "unat s + unat m \<le> imd_cap ?r" "drv < FF_VOLUMES" using 3 by (auto simp: ram_drive_ok_def)
  note o = ram_offsets [OF r(2) 3(2)]
  let ?b = "blit (ram_bytes ?r) (unat s * 512) b"
  let ?r' = "?r\<lparr>ram_buffer := Some (ram_first ?r, ?b)\<rparr>"
  let ?d = "d\<lparr>objects := (objects d)(?p \<mapsto> InMemory ?r')\<rparr>"
  have l: "length (ram_bytes ?r) = unat (drive_size ?r)" using imd_ok_bytes [OF r(1)] .
  have w: "dio_write (registry_io E) drv b s m d = Ret (RES_OK, ?d)"
    using o r ram_drive_at [OF 3(1)] 3(4) by (simp add: registry_io_def disk_write_def imd_diskWrite_eq [OF r(1)])
  have r': "ram_drive drv ?d = ?r'" by (simp add: ram_drive_def [of _ ?d])
  have "imd_ok ?r'" using r(1) o(3) 3(4) l by (intro imd_ok_update) auto
  then have g: "ram_drive_ok drv n ?d" using 3(1) r' by (simp add: ram_drive_ok_def imd_cap_def)
  have "ram_sectors drv n ?d = (\<lambda>t. if unat s \<le> t \<and> t < unat s + unat m then slice b ((t - unat s) * 512) 512 else ram_sectors drv n d t)"
  proof
    fix t
    have bb: "ram_bytes ?r' = ?b" by (simp add: ram_bytes_def [of ?r'])
    show "ram_sectors drv n ?d t = (if unat s \<le> t \<and> t < unat s + unat m then slice b ((t - unat s) * 512) 512 else ram_sectors drv n d t)"
    proof (cases "unat s \<le> t \<and> t < unat s + unat m")
      case True
      then have "Suc (t - unat s) * 512 \<le> unat m * 512" by (intro mult_right_mono) auto
      then have "(t - unat s) * 512 + 512 \<le> length b" using 3(4) by simp
      then show ?thesis using True 3(3,4) o(3) l
        by (simp add: ram_sectors_def r' bb slice_blit_sector)
    next
      case False
      then have "t * 512 + 512 \<le> unat s * 512 \<or> unat s * 512 + length b \<le> t * 512" using 3(4) by auto
      moreover have "t * 512 + 512 \<le> length (ram_bytes ?r)" if "t < n"
        using that l 3(1) imd_cap_less [of t ?r] by (simp add: ram_drive_ok_def)
      ultimately show ?thesis using False 3(4) o(3) l
        by (auto simp: ram_sectors_def r' bb slice_blit_other)
    qed
  qed
  with w g show ?case by blast
next
  case (4 d)
  then have "drv < FF_VOLUMES" by (simp add: ram_drive_ok_def)
  with 4 ram_drive_at [OF 4] show ?case
    by (simp add: registry_io_def disk_ioctl_def imd_diskIoCtl_def)
next
  case (5 d)
  then have "drv < FF_VOLUMES" by (simp add: ram_drive_ok_def)
  with ram_drive_at [OF 5] show ?case by (simp add: registry_io_def disk_status_def diskStatus_def dresult_code_def)
qed

end
