(* ===== verification/Fat_Table.thy ===== *)
theory Fat_Table
  imports Fat_Volume
begin

text \<open>
  The file allocation table of FatFs (\<open>cpp/fatfs/common/src/ff.cpp\<close>): the place of a cluster, reading
  and changing an entry. The table is a packed array of 12, 16 or 32 bit entries
  in the sectors from \<open>fatbase\<close>; every access goes through the window of \<open>Fat_Volume\<close>.

  The abstract table is the function \<open>fat_of\<close> from cluster numbers to entries. Over any drive that
  keeps the contract \<open>sector_device\<close>, \<open>get_fat\<close> reads it, and \<open>put_fat\<close> is an update of this function
  at one point that touches no sector outside the table.
\<close>

unbundle bit_operations_syntax

section \<open>Operations\<close>

definition clst2sect :: "'a FATFS_scheme \<Rightarrow> u32 \<Rightarrow> u32" where
  "clst2sect fs clst =
     (let clst = clst - 2 in
      if clst \<ge> n_fatent fs - 2 then 0 else database fs + ucast (csize fs) * clst)"

definition get_fat :: "'d diskio \<Rightarrow> u32 \<Rightarrow> 'd volume \<Rightarrow> (u32 \<times> 'd volume) cpp" where
  "get_fat io clst v =
     (if clst < 2 \<or> clst \<ge> n_fatent v then Ret (1, v)
      else if fs_type v = FS_FAT12 then
        let bc = clst + clst div 2 in
        cbind (move_window io (fatbase v + bc div 512) v) (\<lambda>(res, v1).
          if res \<noteq> FR_OK then Ret (0xFFFFFFFF, v1)
          else let wc = ucast (win v1 ! unat (bc mod 512)); bc = bc + 1 in
            cbind (move_window io (fatbase v1 + bc div 512) v1) (\<lambda>(res, v2).
              if res \<noteq> FR_OK then Ret (0xFFFFFFFF, v2)
              else let wc = wc OR push_bit 8 (ucast (win v2 ! unat (bc mod 512))) in
                Ret (if clst AND 1 \<noteq> 0 then drop_bit 4 wc else wc AND 0xFFF, v2)))
      else if fs_type v = FS_FAT16 then
        cbind (move_window io (fatbase v + clst div 256) v) (\<lambda>(res, v1).
          if res \<noteq> FR_OK then Ret (0xFFFFFFFF, v1)
          else Ret (ucast (ld_word (win v1) (unat (clst * 2 mod 512))), v1))
      else if fs_type v = FS_FAT32 then
        cbind (move_window io (fatbase v + clst div 128) v) (\<lambda>(res, v1).
          if res \<noteq> FR_OK then Ret (0xFFFFFFFF, v1)
          else Ret (ld_dword (win v1) (unat (clst * 4 mod 512)) AND 0x0FFFFFFF, v1))
      else Ret (1, v))"

text \<open>A byte of the window is changed and the window marked as changed.\<close>

definition set_win :: "'d volume \<Rightarrow> u32 \<Rightarrow> (u8 \<Rightarrow> u8) \<Rightarrow> 'd volume" where
  "set_win v i f = v\<lparr>win := (win v)[unat i := f (win v ! unat i)], wflag := 1\<rparr>"

definition put_fat :: "'d diskio \<Rightarrow> u32 \<Rightarrow> u32 \<Rightarrow> 'd volume \<Rightarrow> (FRESULT \<times> 'd volume) cpp" where
  "put_fat io clst val v =
     (if clst \<ge> 2 \<and> clst < n_fatent v then
        if fs_type v = FS_FAT12 then
          let bc = clst + clst div 2 in
          cbind (move_window io (fatbase v + bc div 512) v) (\<lambda>(res, v1).
            if res \<noteq> FR_OK then Ret (res, v1)
            else let v2 = set_win v1 (bc mod 512) (\<lambda>p.
                       if clst AND 1 \<noteq> 0 then (p AND 0x0F) OR push_bit 4 (ucast val) else ucast val);
                     bc = bc + 1 in
              cbind (move_window io (fatbase v2 + bc div 512) v2) (\<lambda>(res, v3).
                if res \<noteq> FR_OK then Ret (res, v3)
                else Ret (FR_OK, set_win v3 (bc mod 512) (\<lambda>p.
                       if clst AND 1 \<noteq> 0 then ucast (drop_bit 4 val)
                       else (p AND 0xF0) OR (ucast (drop_bit 8 val) AND 0x0F)))))
        else if fs_type v = FS_FAT16 then
          cbind (move_window io (fatbase v + clst div 256) v) (\<lambda>(res, v1).
            if res \<noteq> FR_OK then Ret (res, v1)
            else Ret (FR_OK, v1\<lparr>win := st_word (win v1) (unat (clst * 2 mod 512)) (ucast val), wflag := 1\<rparr>))
        else if fs_type v = FS_FAT32 then
          cbind (move_window io (fatbase v + clst div 128) v) (\<lambda>(res, v1).
            if res \<noteq> FR_OK then Ret (res, v1)
            else let i = unat (clst * 4 mod 512);
                     val = (val AND 0x0FFFFFFF) OR (ld_dword (win v1) i AND 0xF0000000) in
              Ret (FR_OK, v1\<lparr>win := st_dword (win v1) i val, wflag := 1\<rparr>))
        else Ret (FR_INT_ERR, v)
      else Ret (FR_INT_ERR, v))"

section \<open>The abstract table\<close>

text \<open>The bytes of the table, the bits of the table, and an entry as a group of bits.\<close>

definition fat_byte :: "(nat \<Rightarrow> bytes) \<Rightarrow> nat \<Rightarrow> nat \<Rightarrow> u8" where
  "fat_byte f base i = f (base + i div 512) ! (i mod 512)"

definition fat_bit :: "(nat \<Rightarrow> bytes) \<Rightarrow> nat \<Rightarrow> nat \<Rightarrow> bool" where
  "fat_bit f base k = bit (fat_byte f base (k div 8)) (k mod 8)"

definition entry_stride :: "u8 \<Rightarrow> nat" where
  "entry_stride ty = (if ty = FS_FAT12 then 12 else if ty = FS_FAT16 then 16 else 32)"

definition entry_width :: "u8 \<Rightarrow> nat" where
  "entry_width ty = (if ty = FS_FAT12 then 12 else if ty = FS_FAT16 then 16 else 28)"

definition fat_entry :: "(nat \<Rightarrow> bytes) \<Rightarrow> nat \<Rightarrow> u8 \<Rightarrow> nat \<Rightarrow> u32" where
  "fat_entry f base ty c =
     horner_sum of_bool 2 (map (\<lambda>n. fat_bit f base (entry_stride ty * c + n)) [0..<entry_width ty])"

definition fat_of :: "(nat \<Rightarrow> bytes) \<Rightarrow> 'a FATFS_scheme \<Rightarrow> u32 \<Rightarrow> u32" where
  "fat_of f v c = (if c < 2 \<or> c \<ge> n_fatent v then 1 else fat_entry f (unat (fatbase v)) (fs_type v) (unat c))"

text \<open>The value of the entry after \<open>put_fat\<close>.\<close>

definition entry_mask :: "u8 \<Rightarrow> u32" where
  "entry_mask ty = mask (entry_width ty)"

text \<open>The sectors of the (first) table.\<close>

definition in_fat :: "'a FATFS_scheme \<Rightarrow> nat \<Rightarrow> bool" where
  "in_fat v t \<longleftrightarrow> unat (fatbase v) \<le> t \<and> t < unat (fatbase v) + unat (fsize v)"

text \<open>
  Two states of a volume that differ in the window and the drive only, and the window has stayed or
  moved to the table.
\<close>

definition moved :: "'d volume \<Rightarrow> 'd volume \<Rightarrow> bool" where
  "moved v v' \<longleftrightarrow> (\<exists>f w s d. v' = v\<lparr>wflag := f, win := w, winsect := s, dev := d\<rparr> \<and> (s = winsect v \<or> in_fat v (unat s)))"

lemma moved_refl [simp]: "moved v v"
proof -
  have "v = v\<lparr>wflag := wflag v, win := win v, winsect := winsect v, dev := dev v\<rparr>" by simp
  then show ?thesis unfolding moved_def by blast
qed

lemma moved_trans [trans]: "moved u v \<Longrightarrow> moved v w \<Longrightarrow> moved u w"
  unfolding moved_def by (elim exE conjE) (simp add: in_fat_def, blast)

lemma movedI: "s = winsect v \<or> in_fat v (unat s) \<Longrightarrow> moved v (v\<lparr>wflag := f, win := w, winsect := s, dev := d\<rparr>)"
  unfolding moved_def by blast

lemma moved_winsect: "moved v v' \<Longrightarrow> winsect v' = winsect v \<or> in_fat v (unat (winsect v'))"
  by (auto simp: moved_def)

lemma moved_fields:
  assumes "moved v v'"
  shows "fs_type v' = fs_type v" "pdrv v' = pdrv v" "n_fats v' = n_fats v" "fsi_flag v' = fsi_flag v"
    "n_rootdir v' = n_rootdir v" "csize v' = csize v" "last_clst v' = last_clst v" "free_clst v' = free_clst v"
    "n_fatent v' = n_fatent v" "fsize v' = fsize v" "volbase v' = volbase v" "fatbase v' = fatbase v"
    "dirbase v' = dirbase v" "database v' = database v" "volume_id v' = volume_id v" "cdir v' = cdir v"
    "geometry_ok cap v' = geometry_ok cap v" "mirrored v' = mirrored v"
  using assms by (auto simp: moved_def)

lemma moved_fat_of:
  assumes "moved v v'"
  shows "fat_of f v' = fat_of f v"
  by (simp add: fat_of_def fun_eq_iff moved_fields [OF assms])

lemma bit_fat_entry:
  "bit (fat_entry f base ty c) n \<longleftrightarrow> n < entry_width ty \<and> fat_bit f base (entry_stride ty * c + n)"
proof -
  have "entry_width ty \<le> 32" by (simp add: entry_width_def)
  then show ?thesis by (auto simp: fat_entry_def bit_horner_sum_bit_word_iff)
qed

lemma fat_entry_mask: "fat_entry f base ty c AND entry_mask ty = fat_entry f base ty c"
  by (rule bit_word_eqI) (auto simp: bit_simps bit_fat_entry entry_mask_def entry_width_def)

text \<open>A byte store in the table.\<close>

definition put_byte :: "(nat \<Rightarrow> bytes) \<Rightarrow> nat \<Rightarrow> nat \<Rightarrow> u8 \<Rightarrow> nat \<Rightarrow> bytes" where
  "put_byte f base i x = f(base + i div 512 := (f (base + i div 512))[i mod 512 := x])"

lemma length_put_byte [simp]: "length (put_byte f base i x t) = length (f t)"
  by (simp add: put_byte_def)

lemma fat_byte_put_byte:
  assumes "length (f (base + i div 512)) = 512"
  shows "fat_byte (put_byte f base i x) base j = (if j = i then x else fat_byte f base j)"
proof (cases "j div 512 = i div 512 \<and> j mod 512 = i mod 512")
  case True
  then have "j = i" by (metis div_mult_mod_eq)
  then show ?thesis using assms by (simp add: fat_byte_def put_byte_def)
next
  case False
  then have "j \<noteq> i" by auto
  then show ?thesis using False by (auto simp: fat_byte_def put_byte_def)
qed

lemma fs_types: "FS_FAT12 \<noteq> FS_FAT16" "FS_FAT12 \<noteq> FS_FAT32" "FS_FAT16 \<noteq> FS_FAT32"
  "FS_FAT16 \<noteq> FS_FAT12" "FS_FAT32 \<noteq> FS_FAT12" "FS_FAT32 \<noteq> FS_FAT16"
  by (simp_all add: FS_FAT12_def FS_FAT16_def FS_FAT32_def)

text \<open>An entry lies inside the table, and the bits of two entries are apart.\<close>

lemma entry_in_fat:
  assumes "geometry_ok cap v" and "c < unat (n_fatent v)"
  shows "fs_type v = FS_FAT12 \<Longrightarrow> c + c div 2 + 1 < fat_bytes v"
    and "fs_type v = FS_FAT16 \<Longrightarrow> c * 2 + 1 < fat_bytes v"
    and "fs_type v = FS_FAT32 \<Longrightarrow> c * 4 + 3 < fat_bytes v"
  using assms by (auto simp: fat_bytes_def FS_FAT12_def FS_FAT16_def FS_FAT32_def)

lemma entries_apart:
  assumes "m < entry_width ty" and "c \<noteq> c'" and "n < entry_width ty"
  shows "entry_stride ty * c + m \<noteq> entry_stride ty * c' + n"
proof
  assume e: "entry_stride ty * c + m = entry_stride ty * c' + n"
  have "entry_width ty \<le> entry_stride ty" by (simp add: entry_width_def entry_stride_def)
  then have "m < entry_stride ty" "n < entry_stride ty" using assms by auto
  then have "(entry_stride ty * c + m) div entry_stride ty = c" "(entry_stride ty * c' + n) div entry_stride ty = c'"
    by simp_all
  then show False using e assms(2) by simp
qed

text \<open>
  The bytes of a stored entry, for each type of table: in terms of bits, a store replaces the bits of
  the entry and no others.
\<close>

definition stored_bits :: "(nat \<Rightarrow> bytes) \<Rightarrow> nat \<Rightarrow> u8 \<Rightarrow> nat \<Rightarrow> u32 \<Rightarrow> nat \<Rightarrow> bool" where
  "stored_bits f base ty c val k =
     (if entry_stride ty * c \<le> k \<and> k < entry_stride ty * c + entry_width ty
      then bit val (k - entry_stride ty * c) else fat_bit f base k)"

lemma stored_entry:
  assumes "\<And>k. fat_bit f' base k = stored_bits f base ty c val k"
  shows "fat_entry f' base ty c' = (if c' = c then val AND entry_mask ty else fat_entry f base ty c')"
proof (cases "c' = c")
  case True
  then show ?thesis
    by (simp, intro bit_word_eqI) (auto simp: bit_fat_entry assms stored_bits_def bit_simps entry_mask_def)
next
  case False
  have "\<not> (entry_stride ty * c \<le> entry_stride ty * c' + n \<and> entry_stride ty * c' + n < entry_stride ty * c + entry_width ty)"
    if "n < entry_width ty" for n
    using entries_apart [of "entry_stride ty * c' + n - entry_stride ty * c" ty c c' n] False that
    by (auto simp: less_diff_conv2 add.commute)
  then show ?thesis using False
    by (intro bit_word_eqI) (auto simp: bit_fat_entry assms stored_bits_def)
qed

lemma stored_bitsI:
  assumes "\<And>q r. r < 8 \<Longrightarrow> bit (fat_byte f' base q) r \<longleftrightarrow>
      (if entry_stride ty * c \<le> 8 * q + r \<and> 8 * q + r < entry_stride ty * c + entry_width ty
       then bit val (8 * q + r - entry_stride ty * c) else bit (fat_byte f base q) r)"
  shows "fat_bit f' base k = stored_bits f base ty c val k"
  using assms [of "k mod 8" "k div 8"] by (simp add: fat_bit_def stored_bits_def)

lemma nibbles: "(0x0F :: u8) = mask 4" "(0xF0 :: u8) = push_bit 4 (mask 4)" "(0xFFF :: u32) = mask 12"
  "(0x0FFFFFFF :: u32) = mask 28" "(0xF0000000 :: u32) = push_bit 28 (mask 4)"
  by (simp_all add: mask_eq_decr_exp push_bit_eq_mult)

lemma stored_fat12:
  assumes "\<And>j. fat_byte f' base j = (if j = c + c div 2 then (if odd c then (fat_byte f base j AND 0x0F) OR push_bit 4 (ucast val) else ucast val)
      else if j = c + c div 2 + 1 then (if odd c then ucast (drop_bit 4 val) else (fat_byte f base j AND 0xF0) OR (ucast (drop_bit 8 val) AND 0x0F))
      else fat_byte f base j)"
  shows "fat_bit f' base k = stored_bits f base FS_FAT12 c val k"
proof (rule stored_bitsI)
  fix q r :: nat assume r: "r < 8"
  have w: "entry_stride FS_FAT12 = 12" "entry_width FS_FAT12 = 12" by (simp_all add: entry_stride_def entry_width_def)
  show "bit (fat_byte f' base q) r \<longleftrightarrow>
      (if entry_stride FS_FAT12 * c \<le> 8 * q + r \<and> 8 * q + r < entry_stride FS_FAT12 * c + entry_width FS_FAT12
       then bit val (8 * q + r - entry_stride FS_FAT12 * c) else bit (fat_byte f base q) r)"
  proof (cases "odd c")
    case True
    then obtain m where m: "c = 2 * m + 1" by (elim oddE)
    consider "q = 3 * m + 1" "r < 4" | "q = 3 * m + 1" "4 \<le> r" | "q = 3 * m + 2" | "q < 3 * m + 1" | "3 * m + 2 < q" by linarith
    then show ?thesis
      using r by cases (auto simp: assms m w nibbles bit_simps ac_simps)
  next
    case False
    then obtain m where m: "c = 2 * m" by (auto elim: evenE)
    consider "q = 3 * m" | "q = 3 * m + 1" "r < 4" | "q = 3 * m + 1" "4 \<le> r" | "q < 3 * m" | "3 * m + 1 < q" by linarith
    then show ?thesis
      using r by cases (auto simp: assms m w nibbles bit_simps ac_simps)
  qed
qed

lemma stored_fat16:
  assumes "\<And>j. fat_byte f' base j = (if j = c * 2 then ucast val else if j = c * 2 + 1 then ucast (drop_bit 8 val)
      else fat_byte f base j)"
  shows "fat_bit f' base k = stored_bits f base FS_FAT16 c val k"
proof (rule stored_bitsI)
  fix q r :: nat assume r: "r < 8"
  have w: "entry_stride FS_FAT16 = 16" "entry_width FS_FAT16 = 16"
    by (simp_all add: entry_stride_def entry_width_def FS_FAT12_def FS_FAT16_def)
  consider "q = 2 * c" | "q = 2 * c + 1" | "q < 2 * c" | "2 * c + 1 < q" by linarith
  then show "bit (fat_byte f' base q) r \<longleftrightarrow>
      (if entry_stride FS_FAT16 * c \<le> 8 * q + r \<and> 8 * q + r < entry_stride FS_FAT16 * c + entry_width FS_FAT16
       then bit val (8 * q + r - entry_stride FS_FAT16 * c) else bit (fat_byte f base q) r)"
    using r by cases (auto simp: assms w bit_simps ac_simps)
qed

lemma stored_fat32:
  assumes "\<And>j. fat_byte f' base j = (if j = c * 4 then ucast val else if j = c * 4 + 1 then ucast (drop_bit 8 val)
      else if j = c * 4 + 2 then ucast (drop_bit 16 val)
      else if j = c * 4 + 3 then (fat_byte f base j AND 0xF0) OR (ucast (drop_bit 24 val) AND 0x0F)
      else fat_byte f base j)"
  shows "fat_bit f' base k = stored_bits f base FS_FAT32 c val k"
proof (rule stored_bitsI)
  fix q r :: nat assume r: "r < 8"
  have w: "entry_stride FS_FAT32 = 32" "entry_width FS_FAT32 = 28"
    by (simp_all add: entry_stride_def entry_width_def FS_FAT12_def FS_FAT16_def FS_FAT32_def)
  consider "q = 4 * c" | "q = 4 * c + 1" | "q = 4 * c + 2" | "q = 4 * c + 3" "r < 4" | "q = 4 * c + 3" "4 \<le> r"
    | "q < 4 * c" | "4 * c + 3 < q" by linarith
  then show "bit (fat_byte f' base q) r \<longleftrightarrow>
      (if entry_stride FS_FAT32 * c \<le> 8 * q + r \<and> 8 * q + r < entry_stride FS_FAT32 * c + entry_width FS_FAT32
       then bit val (8 * q + r - entry_stride FS_FAT32 * c) else bit (fat_byte f base q) r)"
    using r by cases (auto simp: assms w nibbles bit_simps ac_simps)
qed

text \<open>The bytes read from the table make up the entry.\<close>

lemma div_mod_eqI: "(x :: nat) = d * q + r \<Longrightarrow> r < d \<Longrightarrow> x div d = q \<and> x mod d = r"
  by auto

lemma bit_entry_byte:
  "bit (fat_entry f base ty c) n \<longleftrightarrow>
    n < entry_width ty \<and> bit (fat_byte f base ((entry_stride ty * c + n) div 8)) ((entry_stride ty * c + n) mod 8)"
  by (simp add: bit_fat_entry fat_bit_def)

lemma entry_fat12:
  "fat_entry f base FS_FAT12 c =
    (let wc = ucast (fat_byte f base (c + c div 2)) OR push_bit 8 (ucast (fat_byte f base (c + c div 2 + 1))) in
     if odd c then drop_bit 4 wc else wc AND 0xFFF)"
proof (cases "odd c")
  case True
  then obtain m where m: "c = 2 * m + 1" by (elim oddE)
  have "bit (fat_entry f base FS_FAT12 c) n = bit (drop_bit 4 (ucast (fat_byte f base (3 * m + 1)) OR push_bit 8 (ucast (fat_byte f base (3 * m + 2)))) :: u32) n" for n
  proof -
    consider "n < 4" | "4 \<le> n" "n < 12" | "12 \<le> n" by linarith
    then show ?thesis
    proof cases
      case 1
      then have e: "(12 * c + n) div 8 = 3 * m + 1 \<and> (12 * c + n) mod 8 = n + 4" using m by (intro div_mod_eqI) simp_all
      with 1 show ?thesis by (auto simp: bit_entry_byte entry_stride_def entry_width_def bit_simps ac_simps)
    next
      case 2
      then have e: "(12 * c + n) div 8 = 3 * m + 2 \<and> (12 * c + n) mod 8 = n - 4" using m by (intro div_mod_eqI) simp_all
      with 2 show ?thesis
        by (auto simp: bit_entry_byte entry_stride_def entry_width_def bit_simps ac_simps dest: bit_imp_le_length)
    qed (auto simp: bit_entry_byte entry_width_def bit_simps dest: bit_imp_le_length)
  qed
  then have "fat_entry f base FS_FAT12 c = drop_bit 4 (ucast (fat_byte f base (3 * m + 1)) OR push_bit 8 (ucast (fat_byte f base (3 * m + 2))))"
    by (rule bit_eqI)
  then show ?thesis by (simp add: m)
next
  case False
  then obtain m where m: "c = 2 * m" by (auto elim: evenE)
  have "bit (fat_entry f base FS_FAT12 c) n = bit ((ucast (fat_byte f base (3 * m)) OR push_bit 8 (ucast (fat_byte f base (3 * m + 1)))) AND 0xFFF :: u32) n" for n
  proof -
    consider "n < 8" | "8 \<le> n" "n < 12" | "12 \<le> n" by linarith
    then show ?thesis
    proof cases
      case 1
      then have e: "(12 * c + n) div 8 = 3 * m \<and> (12 * c + n) mod 8 = n" using m by (intro div_mod_eqI) simp_all
      with 1 show ?thesis by (auto simp: bit_entry_byte entry_stride_def entry_width_def nibbles bit_simps)
    next
      case 2
      then have e: "(12 * c + n) div 8 = 3 * m + 1 \<and> (12 * c + n) mod 8 = n - 8" using m by (intro div_mod_eqI) simp_all
      with 2 show ?thesis
        by (auto simp: bit_entry_byte entry_stride_def entry_width_def nibbles bit_simps dest: bit_imp_le_length)
    qed (auto simp: bit_entry_byte entry_width_def nibbles bit_simps dest: bit_imp_le_length)
  qed
  then have "fat_entry f base FS_FAT12 c = (ucast (fat_byte f base (3 * m)) OR push_bit 8 (ucast (fat_byte f base (3 * m + 1)))) AND 0xFFF"
    by (rule bit_eqI)
  then show ?thesis by (simp add: m)
qed

text \<open>The fields of a sector are bytes of the table.\<close>

lemma field_in_sector:
  fixes m p k c :: nat
  assumes "m * p = 512" and "k < m"
  shows "(c * m + k) div 512 = c div p \<and> (c * m + k) mod 512 = c mod p * m + k"
proof -
  have "0 < p" using assms(1) by (cases p) simp_all
  then have "Suc (c mod p) * m \<le> p * m" by (intro mult_right_mono) (simp_all add: Suc_leI)
  then have "c mod p * m + k < 512" using assms by (simp add: mult.commute)
  moreover have "c * m = p * (c div p) * m + c mod p * m" by (simp flip: distrib_right)
  then have "c * m + k = 512 * (c div p) + (c mod p * m + k)"
    by (metis assms(1) mult.assoc mult.commute add.assoc)
  ultimately show ?thesis by (intro div_mod_eqI)
qed

lemma fat_byte_field:
  fixes m p k c :: nat
  assumes "m * p = 512" and "k < m"
  shows "fat_byte f base (c * m + k) = f (base + c div p) ! (c * m mod 512 + k)"
  using field_in_sector [OF assms, of c] field_in_sector [OF assms(1), of 0 c] assms(2)
  by (simp add: fat_byte_def)

lemmas fat16_byte = fat_byte_field [of 2 256, simplified]
lemmas fat32_byte = fat_byte_field [of 4 128, simplified]

lemma entry_fat16: "fat_entry f base FS_FAT16 c = ucast (ld_word (f (base + c div 256)) (c * 2 mod 512))"
proof (rule bit_word_eqI)
  fix n assume "n < LENGTH(32)"
  have w: "entry_stride FS_FAT16 = 16" "entry_width FS_FAT16 = 16"
    by (simp_all add: entry_stride_def entry_width_def FS_FAT12_def FS_FAT16_def)
  have b: "f (base + c div 256) ! (c * 2 mod 512) = fat_byte f base (c * 2)"
    "f (base + c div 256) ! Suc (c * 2 mod 512) = fat_byte f base (Suc (c * 2))"
    using fat16_byte [of 0 f base c] fat16_byte [of 1 f base c] by simp_all
  consider "n < 8" | "8 \<le> n" "n < 16" | "16 \<le> n" by linarith
  then show "bit (fat_entry f base FS_FAT16 c) n = bit (ucast (ld_word (f (base + c div 256)) (c * 2 mod 512)) :: u32) n"
  proof cases
    case 1
    then have "(16 * c + n) div 8 = c * 2 \<and> (16 * c + n) mod 8 = n" by (intro div_mod_eqI) simp_all
    with 1 show ?thesis by (auto simp: bit_entry_byte w ld_word_def b bit_simps)
  next
    case 2
    then have "(16 * c + n) div 8 = Suc (c * 2) \<and> (16 * c + n) mod 8 = n - 8" by (intro div_mod_eqI) simp_all
    with 2 show ?thesis by (auto simp: bit_entry_byte w ld_word_def b bit_simps dest: bit_imp_le_length)
  qed (auto simp: bit_entry_byte w bit_simps dest: bit_imp_le_length)
qed

lemma bit_ld_dword:
  assumes "q < 4" and "r < 8"
  shows "bit (ld_dword w i) (8 * q + r) = bit (w ! (i + q)) r"
proof -
  consider "q = 0" | "q = 1" | "q = 2" | "q = 3" using assms(1) by linarith
  then show ?thesis
    using assms(2) by cases (auto simp: ld_dword_def bit_simps dest: bit_imp_le_length)
qed

lemma entry_fat32: "fat_entry f base FS_FAT32 c = ld_dword (f (base + c div 128)) (c * 4 mod 512) AND 0x0FFFFFFF"
proof (rule bit_word_eqI)
  fix n assume n: "n < LENGTH(32)"
  have w: "entry_stride FS_FAT32 = 32" "entry_width FS_FAT32 = 28"
    by (simp_all add: entry_stride_def entry_width_def FS_FAT12_def FS_FAT16_def FS_FAT32_def)
  have qr: "n div 8 < 4" "n mod 8 < 8" using n by auto
  have e: "(32 * c + n) div 8 = c * 4 + n div 8 \<and> (32 * c + n) mod 8 = n mod 8" by (intro div_mod_eqI) simp_all
  show "bit (fat_entry f base FS_FAT32 c) n = bit (ld_dword (f (base + c div 128)) (c * 4 mod 512) AND 0x0FFFFFFF) n"
    using n e bit_ld_dword [OF qr] fat32_byte [OF qr(1), of f base c] by (auto simp: bit_entry_byte w nibbles bit_simps)
qed

lemma fat_byte_st_word:
  assumes "length (f (base + c div 256)) = 512"
  shows "fat_byte (f(base + c div 256 := st_word (f (base + c div 256)) (c * 2 mod 512) val)) base j =
    (if j = c * 2 then ucast val else if j = c * 2 + 1 then ucast (drop_bit 8 val) else fat_byte f base j)"
proof -
  note e = field_in_sector [of 2 256 0 c, simplified] field_in_sector [of 2 256 1 c, simplified]
  have "f(base + c div 256 := st_word (f (base + c div 256)) (c * 2 mod 512) val)
      = put_byte (put_byte f base (c * 2) (ucast val)) base (c * 2 + 1) (ucast (drop_bit 8 val))"
    using assms e by (simp add: put_byte_def st_word_def)
  then show ?thesis using assms e by (simp add: fat_byte_put_byte)
qed

lemma fat_byte_st_dword:
  assumes "length (f (base + c div 128)) = 512"
  shows "fat_byte (f(base + c div 128 := st_dword (f (base + c div 128)) (c * 4 mod 512) val)) base j =
    (if j = c * 4 then ucast val else if j = c * 4 + 1 then ucast (drop_bit 8 val)
     else if j = c * 4 + 2 then ucast (drop_bit 8 (drop_bit 8 val))
     else if j = c * 4 + 3 then ucast (drop_bit 8 (drop_bit 8 (drop_bit 8 val))) else fat_byte f base j)"
proof -
  note e = field_in_sector [of 4 128 0 c, simplified] field_in_sector [of 4 128 1 c, simplified]
    field_in_sector [of 4 128 2 c, simplified] field_in_sector [of 4 128 3 c, simplified]
  have "f(base + c div 128 := st_dword (f (base + c div 128)) (c * 4 mod 512) val)
      = put_byte (put_byte (put_byte (put_byte f base (c * 4) (ucast val)) base (c * 4 + 1) (ucast (drop_bit 8 val)))
          base (c * 4 + 2) (ucast (drop_bit 8 (drop_bit 8 val)))) base (c * 4 + 3) (ucast (drop_bit 8 (drop_bit 8 (drop_bit 8 val))))"
    using assms e by (simp add: put_byte_def st_dword_def)
  then show ?thesis using assms e by (simp add: fat_byte_put_byte)
qed

text \<open>The top four bits of a 32-bit entry are kept.\<close>

lemma fat32_bytes:
  fixes f base c val
  defines "x \<equiv> (val AND 0x0FFFFFFF) OR (ld_dword (f (base + c div 128)) (c * 4 mod 512) AND 0xF0000000)"
  shows "(if j = c * 4 then ucast x else if j = c * 4 + 1 then ucast (drop_bit 8 x)
     else if j = c * 4 + 2 then ucast (drop_bit 8 (drop_bit 8 x))
     else if j = c * 4 + 3 then ucast (drop_bit 8 (drop_bit 8 (drop_bit 8 x))) else fat_byte f base j)
    = (if j = c * 4 then ucast val else if j = c * 4 + 1 then ucast (drop_bit 8 val)
      else if j = c * 4 + 2 then ucast (drop_bit 16 val)
      else if j = c * 4 + 3 then (fat_byte f base j AND 0xF0) OR (ucast (drop_bit 24 val) AND 0x0F)
      else fat_byte f base j)"
proof -
  have x: "bit x n = (if n < 28 then bit val n else bit (ld_dword (f (base + c div 128)) (c * 4 mod 512)) n)" if "n < 32" for n
    using that by (auto simp: x_def nibbles bit_simps)
  have "bit (ld_dword (f (base + c div 128)) (c * 4 mod 512)) (24 + r) = bit (fat_byte f base (c * 4 + 3)) r" if "r < 8" for r
    using bit_ld_dword [of 3 r "f (base + c div 128)" "c * 4 mod 512"] fat32_byte [of 3 f base c] that by simp
  then have "(ucast (drop_bit 24 x) :: u8) = (fat_byte f base (c * 4 + 3) AND 0xF0) OR (ucast (drop_bit 24 val) AND 0x0F)"
    by (intro bit_word_eqI) (auto simp: bit_simps x nibbles)
  moreover have "(ucast x :: u8) = ucast val" "(ucast (drop_bit 8 x) :: u8) = ucast (drop_bit 8 val)"
    "(ucast (drop_bit 16 x) :: u8) = ucast (drop_bit 16 val)"
    by (intro bit_word_eqI; simp add: bit_simps x)+
  ultimately show ?thesis by simp
qed

section \<open>Reading and changing entries\<close>

text \<open>The arithmetic of the operations does not wrap for the clusters of a volume.\<close>

lemma cluster_bounds:
  assumes "geometry_ok cap v" and "c < n_fatent v"
  shows "unat c < unat (n_fatent v)" "unat c < 0xFFFFFF7" "fs_type v = FS_FAT12 \<Longrightarrow> unat c < 0xFF7"
  using assms
  by (auto simp: word_less_nat_alt geometry_ok_def max_fatent_def FS_FAT12_def FS_FAT16_def FS_FAT32_def split: if_splits)

lemma fat_offsets:
  assumes "geometry_ok cap v" and "c < n_fatent v"
  shows "unat (c * 2 mod 512) = unat c * 2 mod 512" "unat (c * 4 mod 512) = unat c * 4 mod 512"
    "unat (c div 256) = unat c div 256" "unat (c div 128) = unat c div 128"
    "fs_type v = FS_FAT12 \<Longrightarrow> unat (c + c div 2) = unat c + unat c div 2"
    "fs_type v = FS_FAT12 \<Longrightarrow> unat (c + c div 2 + 1) = unat c + unat c div 2 + 1"
proof -
  note c = cluster_bounds [OF assms]
  show "unat (c * 2 mod 512) = unat c * 2 mod 512" "unat (c * 4 mod 512) = unat c * 4 mod 512"
    using c by (simp_all add: unat_mod unat_mult_no_wrap)
  show "unat (c div 256) = unat c div 256" "unat (c div 128) = unat c div 128" by (simp_all add: unat_div)
  assume ty: "fs_type v = FS_FAT12"
  then show "unat (c + c div 2) = unat c + unat c div 2"
    using c by (subst unat_add_no_wrap) (simp_all add: unat_div)
  then show "unat (c + c div 2 + 1) = unat c + unat c div 2 + 1"
    using c(3) ty by (subst unat_add_no_wrap) simp_all
qed

lemma odd_cluster: "c AND 1 \<noteq> 0 \<longleftrightarrow> odd (unat c)" for c :: u32
  by (simp add: and_one_eq odd_iff_mod_2_eq_one unat_arith_simps(3) unat_mod)

lemma in_fat_byte: "geometry_ok cap v \<Longrightarrow> i < fat_bytes v \<Longrightarrow> in_fat v (unat (fatbase v) + i div 512)"
  by (simp add: in_fat_def geometry_ok_def less_mult_imp_div_less)

context sector_device
begin

lemma sector_in_fat:
  assumes "geometry_ok cap v" and "i < fat_bytes v" and "unat w = i div 512"
  shows "unat (fatbase v + w) = unat (fatbase v) + i div 512" "unat (fatbase v) + i div 512 < cap"
    "\<not> mirrored v (unat (fatbase v) + i div 512)"
proof -
  have "i div 512 < unat (fsize v)" using assms(1,2) by (simp add: geometry_ok_def less_mult_imp_div_less)
  moreover have "unat (fsize v) \<le> unat (n_fats v) * unat (fsize v)" using assms(1) by (auto simp: geometry_ok_def)
  moreover have "unat (fatbase v) + unat (n_fats v) * unat (fsize v) \<le> cap" "cap < 2 ^ 32"
    using assms(1) by (auto simp: geometry_ok_def)
  ultimately have l: "unat (fatbase v) + i div 512 < cap" and m: "i div 512 < unat (fsize v)" by linarith+
  then show "unat (fatbase v + w) = unat (fatbase v) + i div 512"
    using assms(3) \<open>cap < 2 ^ 32\<close> by (subst unat_add_no_wrap) simp_all
  show "unat (fatbase v) + i div 512 < cap" using l .
  show "\<not> mirrored v (unat (fatbase v) + i div 512)" using m by (simp add: mirrored_def)
qed

text \<open>A move to the sector of a byte of the table.\<close>

lemma fat_window:
  assumes "vok v" and "i < fat_bytes v" and "unat w = i div 512"
  obtains v' where "move_window io (fatbase v + w) v = Ret (FR_OK, v')" "vok v'" "vview v' = vview v" "moved v v'"
    "unat (winsect v') = unat (fatbase v) + i div 512" "win v' = vview v (unat (fatbase v) + i div 512)"
    "length (vview v (unat (fatbase v) + i div 512)) = 512"
proof -
  have g: "geometry_ok cap v" using assms(1) by (simp add: vol_ok_def)
  note s = sector_in_fat [OF g assms(2,3)]
  obtain f d where d: "move_window io (fatbase v + w) v
      = Ret (FR_OK, v\<lparr>wflag := f, win := vview v (unat (fatbase v + w)), winsect := fatbase v + w, dev := d\<rparr>)"
    and ok: "vok (v\<lparr>wflag := f, win := vview v (unat (fatbase v + w)), winsect := fatbase v + w, dev := d\<rparr>)"
    and vw: "vview (v\<lparr>wflag := f, win := vview v (unat (fatbase v + w)), winsect := fatbase v + w, dev := d\<rparr>) = vview v"
    using move_window_ok [OF assms(1), of "fatbase v + w"] s by (auto simp: Let_def)
  show ?thesis
    by (rule that [OF d ok vw]) (use s ok in_fat_byte [OF g assms(2)] in \<open>auto simp: vol_ok_def intro!: movedI\<close>)
qed

text \<open>\<open>get_fat\<close> reads the abstract table and changes the window only.\<close>

lemma get_fat_ok:
  assumes "vok v"
  obtains v' where "get_fat io c v = Ret (fat_of (vview v) v c, v')" "vok v'" "vview v' = vview v" "moved v v'"
proof (cases "c < 2 \<or> c \<ge> n_fatent v")
  case True
  then show ?thesis using that [of v] assms by (simp add: get_fat_def fat_of_def)
next
  case False
  then have c: "\<not> c < 2" "\<not> n_fatent v \<le> c" "c < n_fatent v" by auto
  have g: "geometry_ok cap v" using assms by (simp add: vol_ok_def)
  note b = cluster_bounds(1) [OF g c(3)] and o = fat_offsets [OF g c(3)]
  note in_fat = entry_in_fat [OF g b]
  consider "fs_type v = FS_FAT12" | "fs_type v = FS_FAT16" | "fs_type v = FS_FAT32" using g by (auto simp: geometry_ok_def)
  then show ?thesis
  proof cases
    case 1
    let ?i = "unat c + unat c div 2"
    obtain v1 where v1: "move_window io (fatbase v + (c + c div 2) div 512) v = Ret (FR_OK, v1)" "vok v1"
      "vview v1 = vview v" "moved v v1" "win v1 = vview v (unat (fatbase v) + ?i div 512)"
      using fat_window [OF assms, of ?i "(c + c div 2) div 512"] in_fat(1) [OF 1] o(5) [OF 1] by (auto simp: unat_div)
    have "fat_bytes v1 = fat_bytes v" using v1(4) by (simp add: fat_bytes_def moved_fields)
    then obtain v2 where v2: "move_window io (fatbase v1 + (c + c div 2 + 1) div 512) v1 = Ret (FR_OK, v2)" "vok v2"
      "vview v2 = vview v" "moved v1 v2" "win v2 = vview v (unat (fatbase v) + (?i + 1) div 512)"
      using fat_window [OF v1(2), of "?i + 1" "(c + c div 2 + 1) div 512"] in_fat(1) [OF 1] o(6) [OF 1] v1(3)
        moved_fields(12) [OF v1(4)] by (auto simp: unat_div)
    have "get_fat io c v = Ret (fat_of (vview v) v c, v2)"
      using 1 c v1 v2 o(5,6) [OF 1] by (simp add: get_fat_def Let_def fat_of_def entry_fat12 fat_byte_def odd_cluster unat_mod)
    then show ?thesis using that v2 moved_trans [OF v1(4) v2(4)] by blast
  next
    case 2
    obtain v1 where v1: "move_window io (fatbase v + c div 256) v = Ret (FR_OK, v1)" "vok v1"
      "vview v1 = vview v" "moved v v1" "win v1 = vview v (unat (fatbase v) + unat c div 256)"
      using fat_window [OF assms, of "unat c * 2" "c div 256"] in_fat(2) [OF 2] o(3) field_in_sector [of 2 256 0 "unat c"] by auto
    have "get_fat io c v = Ret (fat_of (vview v) v c, v1)"
      using 2 c v1 o(1) by (simp add: get_fat_def fat_of_def entry_fat16 fs_types)
    then show ?thesis using that v1 by blast
  next
    case 3
    obtain v1 where v1: "move_window io (fatbase v + c div 128) v = Ret (FR_OK, v1)" "vok v1"
      "vview v1 = vview v" "moved v v1" "win v1 = vview v (unat (fatbase v) + unat c div 128)"
      using fat_window [OF assms, of "unat c * 4" "c div 128"] in_fat(3) [OF 3] o(4) field_in_sector [of 4 128 0 "unat c"] by auto
    have "get_fat io c v = Ret (fat_of (vview v) v c, v1)"
      using 3 c v1 o(2) by (simp add: get_fat_def fat_of_def entry_fat32 fs_types)
    then show ?thesis using that v1 by blast
  qed
qed

text \<open>The window after a store in it.\<close>

lemma moved_store: "moved v v' \<Longrightarrow> moved v (v'\<lparr>win := w, wflag := 1\<rparr>)"
proof -
  have "v'\<lparr>win := w, wflag := 1\<rparr> = v'\<lparr>wflag := 1, win := w, winsect := winsect v', dev := dev v'\<rparr>" by simp
  then have "moved v' (v'\<lparr>win := w, wflag := 1\<rparr>)" unfolding moved_def by blast
  then show "moved v v' \<Longrightarrow> moved v (v'\<lparr>win := w, wflag := 1\<rparr>)" by (rule moved_trans [rotated])
qed

lemma store_byte:
  assumes "vok v" and "unat (winsect v) = base + i div 512" and "unat k = i mod 512"
  shows "vok (set_win v k h)" "moved v (set_win v k h)"
    "vview (set_win v k h) = put_byte (vview v) base i (h (fat_byte (vview v) base i))"
proof -
  have w: "length (win v) = 512" "vview v (unat (winsect v)) = win v" using assms(1) by (auto simp: vol_ok_def vol_view_def)
  show "vok (set_win v k h)" unfolding set_win_def using w by (intro window_write(1) [OF assms(1)]) simp
  show "moved v (set_win v k h)" unfolding set_win_def by (rule moved_store) simp
  show "vview (set_win v k h) = put_byte (vview v) base i (h (fat_byte (vview v) base i))"
    unfolding set_win_def using w window_write(2) [OF assms(1), of "(win v)[unat k := h (win v ! unat k)]"] assms(2,3)
    by (simp add: put_byte_def fat_byte_def)
qed

text \<open>
  \<open>put_fat\<close> replaces the bits of one entry: the abstract table changes at that cluster, and no sector
  outside the table changes.
\<close>

definition entry_stored :: "'d volume \<Rightarrow> u32 \<Rightarrow> u32 \<Rightarrow> 'd volume \<Rightarrow> bool" where
  "entry_stored v c val v' \<longleftrightarrow> vok v' \<and> moved v v'
     \<and> (\<forall>k. fat_bit (vview v') (unat (fatbase v)) k = stored_bits (vview v) (unat (fatbase v)) (fs_type v) (unat c) val k)
     \<and> (\<forall>t. \<not> in_fat v t \<longrightarrow> vview v' t = vview v t)"

lemma put_fat12:
  assumes "vok v" and "2 \<le> c" and "c < n_fatent v" and "fs_type v = FS_FAT12"
  shows "\<exists>v'. put_fat io c val v = Ret (FR_OK, v') \<and> entry_stored v c val v'"
proof -
  have g: "geometry_ok cap v" using assms by (simp add: vol_ok_def)
  note b = cluster_bounds(1) [OF g assms(3)] and o = fat_offsets [OF g assms(3)]
  note e = entry_in_fat [OF g b]
  let ?b = "unat (fatbase v)"
  let ?i = "unat c + unat c div 2"
  let ?x = "\<lambda>p. if c AND 1 \<noteq> 0 then (p AND 0x0F) OR push_bit 4 (ucast val) else ucast val"
  let ?y = "\<lambda>p. if c AND 1 \<noteq> 0 then ucast (drop_bit 4 val) else (p AND 0xF0) OR (ucast (drop_bit 8 val) AND 0x0F)"
  obtain v1 where v1: "move_window io (fatbase v + (c + c div 2) div 512) v = Ret (FR_OK, v1)" "vok v1"
    "vview v1 = vview v" "moved v v1" "unat (winsect v1) = ?b + ?i div 512" "length (vview v (?b + ?i div 512)) = 512"
    using fat_window [OF assms(1), of ?i "(c + c div 2) div 512"] e(1) [OF assms(4)] o(5) [OF assms(4)] by (auto simp: unat_div)
  let ?v2 = "set_win v1 ((c + c div 2) mod 512) ?x"
  have k: "unat ((c + c div 2) mod 512) = ?i mod 512" using o(5) [OF assms(4)] by (simp add: unat_mod)
  note v2 = store_byte [OF v1(2,5) k, of ?x]
  have m2: "moved v ?v2" using v1(4) v2(2) by (rule moved_trans)
  have "fat_bytes ?v2 = fat_bytes v" using m2 by (simp add: fat_bytes_def moved_fields)
  then obtain v3 where v3: "move_window io (fatbase ?v2 + (c + c div 2 + 1) div 512) ?v2 = Ret (FR_OK, v3)" "vok v3"
    "vview v3 = vview ?v2" "moved ?v2 v3" "unat (winsect v3) = ?b + (?i + 1) div 512"
    "length (vview ?v2 (?b + (?i + 1) div 512)) = 512"
    using fat_window [OF v2(1), of "?i + 1" "(c + c div 2 + 1) div 512"] e(1) [OF assms(4)] o(6) [OF assms(4)]
      moved_fields(12) [OF m2] by (auto simp: unat_div)
  let ?v4 = "set_win v3 ((c + c div 2 + 1) mod 512) ?y"
  have k': "unat ((c + c div 2 + 1) mod 512) = (?i + 1) mod 512" using o(6) [OF assms(4)] by (simp add: unat_mod)
  note v4 = store_byte [OF v3(2,5) k', of ?y]
  have m4: "moved v ?v4" using m2 v3(4) v4(2) by (blast intro: moved_trans)
  have "put_fat io c val v = Ret (FR_OK, ?v4)" using assms(4) assms(2,3) v1(1) v3(1) by (simp add: put_fat_def Let_def)
  moreover have vw: "vview ?v4 = put_byte (put_byte (vview v) ?b ?i (?x (fat_byte (vview v) ?b ?i))) ?b (?i + 1) (?y (fat_byte (vview v) ?b (?i + 1)))"
    using v4(3) v3(3) v2(3) v1(3,6) by (simp add: fat_byte_put_byte)
  moreover have l: "length (vview v (?b + (?i + 1) div 512)) = 512" using v3(6) v2(3) v1(3) by simp
  moreover have "fat_bit (vview ?v4) ?b n = stored_bits (vview v) ?b FS_FAT12 (unat c) val n" for n
    unfolding vw using v1(6) l by (intro stored_fat12) (simp add: fat_byte_put_byte odd_cluster)
  moreover have "vview ?v4 t = vview v t" if "\<not> in_fat v t" for t
    using that in_fat_byte [OF g, of ?i] in_fat_byte [OF g, of "?i + 1"] e(1) [OF assms(4)] by (auto simp: vw put_byte_def)
  ultimately show ?thesis unfolding entry_stored_def using v4(1) m4 assms(4) by (intro exI [of _ ?v4]) simp
qed

lemma put_fat16:
  assumes "vok v" and "2 \<le> c" and "c < n_fatent v" and "fs_type v = FS_FAT16"
  shows "\<exists>v'. put_fat io c val v = Ret (FR_OK, v') \<and> entry_stored v c val v'"
proof -
  have g: "geometry_ok cap v" using assms by (simp add: vol_ok_def)
  note b = cluster_bounds(1) [OF g assms(3)] and o = fat_offsets [OF g assms(3)]
  note e = entry_in_fat [OF g b]
  let ?b = "unat (fatbase v)"
  obtain v1 where v1: "move_window io (fatbase v + c div 256) v = Ret (FR_OK, v1)" "vok v1"
    "vview v1 = vview v" "moved v v1" "unat (winsect v1) = ?b + unat c div 256" "win v1 = vview v (?b + unat c div 256)"
    "length (vview v (?b + unat c div 256)) = 512"
    using fat_window [OF assms(1), of "unat c * 2" "c div 256"] e(2) [OF assms(4)] o(3) field_in_sector [of 2 256 0 "unat c"] by auto
  let ?w = "st_word (win v1) (unat (c * 2 mod 512)) (ucast val)"
  have w: "vok (v1\<lparr>win := ?w, wflag := 1\<rparr>)" "vview (v1\<lparr>win := ?w, wflag := 1\<rparr>) = (vview v)(?b + unat c div 256 := ?w)"
    using window_write [OF v1(2), of ?w] v1 by auto
  have "put_fat io c val v = Ret (FR_OK, v1\<lparr>win := ?w, wflag := 1\<rparr>)"
    using assms(4) assms(2,3) v1(1) by (simp add: put_fat_def fs_types)
  moreover have "fat_bit (vview (v1\<lparr>win := ?w, wflag := 1\<rparr>)) ?b n = stored_bits (vview v) ?b FS_FAT16 (unat c) val n" for n
    unfolding w(2) unfolding v1(6) o(1)
    by (intro stored_fat16, subst fat_byte_st_word [of "vview v" ?b "unat c", OF v1(7)]) (auto intro!: bit_word_eqI simp: bit_simps)
  moreover have "vview (v1\<lparr>win := ?w, wflag := 1\<rparr>) t = vview v t" if "\<not> in_fat v t" for t
    using that in_fat_byte [OF g, of "unat c * 2"] e(2) [OF assms(4)] field_in_sector [of 2 256 0 "unat c"] by (auto simp: w(2))
  ultimately show ?thesis unfolding entry_stored_def using w(1) moved_store [OF v1(4)] assms(4) by (intro exI [of _ "v1\<lparr>win := ?w, wflag := 1\<rparr>"]) simp
qed

lemma put_fat32:
  assumes "vok v" and "2 \<le> c" and "c < n_fatent v" and "fs_type v = FS_FAT32"
  shows "\<exists>v'. put_fat io c val v = Ret (FR_OK, v') \<and> entry_stored v c val v'"
proof -
  have g: "geometry_ok cap v" using assms by (simp add: vol_ok_def)
  note b = cluster_bounds(1) [OF g assms(3)] and o = fat_offsets [OF g assms(3)]
  note e = entry_in_fat [OF g b]
  let ?b = "unat (fatbase v)"
  obtain v1 where v1: "move_window io (fatbase v + c div 128) v = Ret (FR_OK, v1)" "vok v1"
    "vview v1 = vview v" "moved v v1" "unat (winsect v1) = ?b + unat c div 128" "win v1 = vview v (?b + unat c div 128)"
    "length (vview v (?b + unat c div 128)) = 512"
    using fat_window [OF assms(1), of "unat c * 4" "c div 128"] e(3) [OF assms(4)] o(4) field_in_sector [of 4 128 0 "unat c"] by auto
  let ?x = "(val AND 0x0FFFFFFF) OR (ld_dword (win v1) (unat (c * 4 mod 512)) AND 0xF0000000)"
  let ?w = "st_dword (win v1) (unat (c * 4 mod 512)) ?x"
  have w: "vok (v1\<lparr>win := ?w, wflag := 1\<rparr>)" "vview (v1\<lparr>win := ?w, wflag := 1\<rparr>) = (vview v)(?b + unat c div 128 := ?w)"
    using window_write [OF v1(2), of ?w] v1 by auto
  have "put_fat io c val v = Ret (FR_OK, v1\<lparr>win := ?w, wflag := 1\<rparr>)"
    using assms(4) assms(2,3) v1(1) by (simp add: put_fat_def fs_types Let_def)
  moreover have "fat_bit (vview (v1\<lparr>win := ?w, wflag := 1\<rparr>)) ?b n = stored_bits (vview v) ?b FS_FAT32 (unat c) val n" for n
    unfolding w(2) unfolding v1(6) o(2)
    by (intro stored_fat32, subst fat_byte_st_dword [of "vview v" ?b "unat c", OF v1(7)]) (rule fat32_bytes)
  moreover have "vview (v1\<lparr>win := ?w, wflag := 1\<rparr>) t = vview v t" if "\<not> in_fat v t" for t
    using that in_fat_byte [OF g, of "unat c * 4"] e(3) [OF assms(4)] field_in_sector [of 4 128 0 "unat c"] by (auto simp: w(2))
  ultimately show ?thesis unfolding entry_stored_def using w(1) moved_store [OF v1(4)] assms(4) by (intro exI [of _ "v1\<lparr>win := ?w, wflag := 1\<rparr>"]) simp
qed

lemma put_fat_ok:
  assumes "vok v" and "2 \<le> c" and "c < n_fatent v"
  obtains v' where "put_fat io c val v = Ret (FR_OK, v')" "vok v'" "moved v v'"
    "fat_of (vview v') v' = (fat_of (vview v) v)(c := val AND entry_mask (fs_type v))"
    "\<And>t. \<not> in_fat v t \<Longrightarrow> vview v' t = vview v t"
proof -
  have "fs_type v = FS_FAT12 \<or> fs_type v = FS_FAT16 \<or> fs_type v = FS_FAT32"
    using assms(1) by (auto simp: vol_ok_def geometry_ok_def)
  then obtain v' where v': "put_fat io c val v = Ret (FR_OK, v')" "entry_stored v c val v'"
    using put_fat12 [OF assms] put_fat16 [OF assms] put_fat32 [OF assms] by blast
  have "fat_of (vview v') v = (fat_of (vview v) v)(c := val AND entry_mask (fs_type v))"
    using v'(2) assms(2,3) stored_entry [of "vview v'" "unat (fatbase v)" "vview v" "fs_type v" "unat c" val]
    by (auto simp: fun_eq_iff fat_of_def entry_stored_def simp flip: word_unat_eq_iff)
  moreover have "fat_of (vview v') v' = fat_of (vview v') v"
    using v'(2) by (intro moved_fat_of) (simp add: entry_stored_def)
  ultimately show ?thesis using that [OF v'(1)] v'(2) by (simp add: entry_stored_def)
qed

lemma put_fat_range: "\<not> (2 \<le> c \<and> c < n_fatent v) \<Longrightarrow> put_fat io c val v = Ret (FR_INT_ERR, v)"
  by (auto simp: put_fat_def)

end

end
