(* ===== verification/Fat_Chain.thy ===== *)
theory Fat_Chain
  imports Fat_Table
begin

text \<open>
  The chains of clusters of FatFs (\<open>cpp/fatfs/common/src/ff.cpp\<close>): \<open>remove_chain\<close> and \<open>create_chain\<close>,
  the allocator. A file is a list of clusters linked by the entries of the table; the number of free
  clusters is cached in the filesystem object.
\<close>

unbundle bit_operations_syntax

section \<open>Operations\<close>

text \<open>
  The loop of \<open>remove_chain\<close>. The first argument bounds the number of rounds, and \<open>Deadlock\<close> stands
  for a loop that is still running after them.
\<close>

fun remove_loop :: "nat \<Rightarrow> 'd diskio \<Rightarrow> u32 \<Rightarrow> 'd volume \<Rightarrow> (FRESULT \<times> 'd volume) cpp" where
  "remove_loop 0 io clst v = Deadlock"
| "remove_loop (Suc k) io clst v =
     cbind (get_fat io clst v) (\<lambda>(nxt, v1).
       if nxt = 0 then Ret (FR_OK, v1)
       else if nxt = 1 then Ret (FR_INT_ERR, v1)
       else if nxt = 0xFFFFFFFF then Ret (FR_DISK_ERR, v1)
       else cbind (put_fat io clst 0 v1) (\<lambda>(res, v2).
         if res \<noteq> FR_OK then Ret (res, v2)
         else let v3 = (if free_clst v2 < n_fatent v2 - 2
                        then v2\<lparr>free_clst := free_clst v2 + 1, fsi_flag := fsi_flag v2 OR 1\<rparr> else v2) in
           if nxt < n_fatent v3 then remove_loop k io nxt v3 else Ret (FR_OK, v3)))"

definition remove_chain :: "'d diskio \<Rightarrow> u32 \<Rightarrow> u32 \<Rightarrow> 'd volume \<Rightarrow> (FRESULT \<times> 'd volume) cpp" where
  "remove_chain io clst pclst v =
     (if clst < 2 \<or> clst \<ge> n_fatent v then Ret (FR_INT_ERR, v)
      else cbind (if pclst \<noteq> 0 then put_fat io pclst 0xFFFFFFFF v else Ret (FR_OK, v)) (\<lambda>(res, v1).
        if res \<noteq> FR_OK then Ret (res, v1)
        else remove_loop (unat (n_fatent v1)) io clst v1))"

text \<open>
  The search of \<open>create_chain\<close>, bounded in the same way: it ends with a value to return (\<open>Inl\<close>) or
  with a free cluster (\<open>Inr\<close>).
\<close>

fun find_cluster :: "nat \<Rightarrow> 'd diskio \<Rightarrow> u32 \<Rightarrow> u32 \<Rightarrow> 'd volume \<Rightarrow> ((u32 + u32) \<times> 'd volume) cpp" where
  "find_cluster 0 io scl ncl v = Deadlock"
| "find_cluster (Suc k) io scl ncl v =
     (let ncl = ncl + 1 in
      if ncl \<ge> n_fatent v \<and> 2 > scl then Ret (Inl 0, v)
      else let ncl = (if ncl \<ge> n_fatent v then 2 else ncl) in
        cbind (get_fat io ncl v) (\<lambda>(cs, v1).
          if cs = 0 then Ret (Inr ncl, v1)
          else if cs = 1 \<or> cs = 0xFFFFFFFF then Ret (Inl cs, v1)
          else if ncl = scl then Ret (Inl 0, v1)
          else find_cluster k io scl ncl v1))"

text \<open>The cluster to allocate: the next one if a chain is stretched and it is free, and a search otherwise.\<close>

definition pick_cluster :: "'d diskio \<Rightarrow> u32 \<Rightarrow> u32 \<Rightarrow> 'd volume \<Rightarrow> ((u32 + u32) \<times> 'd volume) cpp" where
  "pick_cluster io clst scl v =
     (if scl = clst then
        let ncl = (if scl + 1 \<ge> n_fatent v then 2 else scl + 1) in
        cbind (get_fat io ncl v) (\<lambda>(cs, v1).
          if cs = 1 \<or> cs = 0xFFFFFFFF then Ret (Inl cs, v1)
          else if cs \<noteq> 0 then
            let cs = last_clst v1; scl = (if cs \<ge> 2 \<and> cs < n_fatent v1 then cs else scl) in
            find_cluster (unat (n_fatent v1)) io scl scl v1
          else Ret (Inr ncl, v1))
      else find_cluster (unat (n_fatent v)) io scl scl v)"

text \<open>Where the search starts: a value to return (\<open>Inl\<close>), or a cluster.\<close>

definition chain_start :: "'d diskio \<Rightarrow> u32 \<Rightarrow> 'd volume \<Rightarrow> ((u32 + u32) \<times> 'd volume) cpp" where
  "chain_start io clst v =
     (if clst = 0 then
        let scl = last_clst v in Ret (Inr (if scl = 0 \<or> scl \<ge> n_fatent v then 1 else scl), v)
      else cbind (get_fat io clst v) (\<lambda>(cs, v1).
        if cs < 2 then Ret (Inl 1, v1)
        else if cs = 0xFFFFFFFF then Ret (Inl cs, v1)
        else if cs < n_fatent v1 then Ret (Inl cs, v1)
        else Ret (Inr clst, v1)))"

text \<open>The new cluster becomes the end of the chain, and the allocation data are updated.\<close>

definition link_cluster :: "'d diskio \<Rightarrow> u32 \<Rightarrow> u32 \<Rightarrow> 'd volume \<Rightarrow> (u32 \<times> 'd volume) cpp" where
  "link_cluster io clst ncl v =
     cbind (put_fat io ncl 0xFFFFFFFF v) (\<lambda>(res, v1).
     cbind (if res = FR_OK \<and> clst \<noteq> 0 then put_fat io clst ncl v1 else Ret (res, v1)) (\<lambda>(res, v2).
       if res = FR_OK then
         Ret (ncl, v2\<lparr>last_clst := ncl,
           free_clst := (if free_clst v2 \<le> n_fatent v2 - 2 then free_clst v2 - 1 else free_clst v2),
           fsi_flag := fsi_flag v2 OR 1\<rparr>)
       else Ret (if res = FR_DISK_ERR then 0xFFFFFFFF else 1, v2)))"

definition create_chain :: "'d diskio \<Rightarrow> u32 \<Rightarrow> 'd volume \<Rightarrow> (u32 \<times> 'd volume) cpp" where
  "create_chain io clst v =
     cbind (chain_start io clst v) (\<lambda>(start, v1).
       case start of
         Inl r \<Rightarrow> Ret (r, v1)
       | Inr scl \<Rightarrow>
           if free_clst v1 = 0 then Ret (0, v1)
           else cbind (pick_cluster io clst scl v1) (\<lambda>(pick, v2).
             case pick of Inl r \<Rightarrow> Ret (r, v2) | Inr ncl \<Rightarrow> link_cluster io clst ncl v2))"

section \<open>Chains\<close>

text \<open>The list of clusters that starts at a cluster and ends at an entry past the last cluster.\<close>

fun is_chain :: "(u32 \<Rightarrow> u32) \<Rightarrow> u32 \<Rightarrow> u32 \<Rightarrow> u32 list \<Rightarrow> bool" where
  "is_chain F n c [] \<longleftrightarrow> n \<le> c"
| "is_chain F n c (x # xs) \<longleftrightarrow> c = x \<and> 2 \<le> c \<and> c < n \<and> is_chain F n (F c) xs"

lemma is_chain_unique: "is_chain F n c xs \<Longrightarrow> is_chain F n c ys \<Longrightarrow> xs = ys"
  by (induction xs arbitrary: c ys) (case_tac ys; force)+

lemma is_chain_append:
  "is_chain F n c (xs @ y # ys) \<Longrightarrow> is_chain F n y (y # ys)"
  by (induction xs arbitrary: c) auto

lemma is_chain_distinct: "is_chain F n c xs \<Longrightarrow> distinct xs"
proof (induction xs arbitrary: c)
  case (Cons x xs)
  have "x \<notin> set xs"
  proof
    assume "x \<in> set xs"
    then obtain ys zs where xs: "xs = ys @ x # zs" by (auto simp: in_set_conv_decomp)
    then have "is_chain F n x (x # zs)" using Cons.prems is_chain_append [of F n c "x # ys" x zs] by auto
    moreover have "is_chain F n x (x # xs)" using Cons.prems by auto
    ultimately have "x # zs = x # xs" by (rule is_chain_unique)
    then show False using xs by (metis append_Cons list.distinct(1) self_append_conv2)
  qed
  then show ?case using Cons by auto
qed simp

lemma is_chain_cong: "(\<And>x. x \<in> set xs \<Longrightarrow> F' x = F x) \<Longrightarrow> is_chain F' n c xs = is_chain F n c xs"
  by (induction xs arbitrary: c) auto

lemma is_chain_set: "is_chain F n c xs \<Longrightarrow> x \<in> set xs \<Longrightarrow> 2 \<le> x \<and> x < n \<and> 2 \<le> F x"
proof (induction xs arbitrary: c)
  case (Cons y xs)
  show ?case
  proof (cases "x = y")
    case True
    moreover have "2 \<le> F y" using Cons.prems(1) by (cases xs) auto
    ultimately show ?thesis using Cons.prems by auto
  qed (use Cons in auto)
qed simp

text \<open>Stretching a chain at its end.\<close>

lemma is_chain_snoc:
  assumes "is_chain F n c (xs @ [x])" and "F y = 0" and "2 \<le> y" and "y < n" and "n \<le> e"
  shows "is_chain (F(y := e, x := y)) n c (xs @ [x, y])"
  using assms
proof (induction xs arbitrary: c)
  case Nil
  then show ?case by auto
next
  case (Cons z xs)
  have "z \<noteq> x" using is_chain_distinct [OF Cons.prems(1)] by auto
  moreover have "z \<noteq> y" using is_chain_set [OF Cons.prems(1), of z] Cons.prems(2) by auto
  ultimately show ?case using Cons by auto
qed

text \<open>Cutting a chain after one of its clusters.\<close>

lemma is_chain_cut:
  assumes "is_chain F n c (xs @ ys)" and "xs \<noteq> []" and "n \<le> e" and "G (last xs) = e"
    and "\<And>x. x \<in> set (butlast xs) \<Longrightarrow> G x = F x"
  shows "is_chain G n c xs"
  using assms
proof (induction xs arbitrary: c)
  case (Cons x xs)
  then show ?case by (cases "xs = []") auto
qed simp

section \<open>Free clusters\<close>

definition free_clusters :: "(u32 \<Rightarrow> u32) \<Rightarrow> u32 \<Rightarrow> u32 set" where
  "free_clusters F n = {c. 2 \<le> c \<and> c < n \<and> F c = 0}"

text \<open>The cached number of free clusters is exact, or unknown.\<close>

definition free_count_ok :: "(u32 \<Rightarrow> u32) \<Rightarrow> 'a FATFS_scheme \<Rightarrow> bool" where
  "free_count_ok F v \<longleftrightarrow>
     (free_clst v \<le> n_fatent v - 2 \<longrightarrow> unat (free_clst v) = card (free_clusters F (n_fatent v)))"

lemma card_clusters:
  fixes n :: u32
  assumes "2 \<le> n"
  shows "card {c. 2 \<le> c \<and> c < n} = unat (n - 2)"
proof -
  have "unat ` {c. 2 \<le> c \<and> c < n} = {2..<unat n}"
  proof
    show "{2..<unat n} \<subseteq> unat ` {c. 2 \<le> c \<and> c < n}"
    proof
      fix k assume k: "k \<in> {2..<unat n}"
      then have "unat (of_nat k :: u32) = k" using u32_lt [of n] by (simp add: unat_of_nat)
      then show "k \<in> unat ` {c. 2 \<le> c \<and> c < n}"
        using k by (intro image_eqI [of _ _ "of_nat k"]) (simp_all add: word_le_nat_alt word_less_nat_alt)
    qed
  qed (auto simp: word_le_nat_alt word_less_nat_alt)
  moreover have "inj_on unat {c. 2 \<le> c \<and> c < n}" by (auto intro: inj_onI simp flip: word_unat_eq_iff)
  ultimately have "card {c. 2 \<le> c \<and> c < n} = card {2..<unat n}" using card_image by fastforce
  then show ?thesis using assms by (simp add: unat_sub)
qed

lemma finite_free [simp]: "finite (free_clusters F n)"
  by simp

lemma card_free_less:
  assumes "2 \<le> c" and "c < n" and "F c \<noteq> 0"
  shows "card (free_clusters F n) < unat (n - 2)"
proof -
  have "2 \<le> n" using assms(1,2) by auto
  have "free_clusters F n \<subset> {c. 2 \<le> c \<and> c < n}" using assms by (auto simp: free_clusters_def)
  then have "card (free_clusters F n) < card {c. 2 \<le> c \<and> c < n}" by (intro psubset_card_mono) simp_all
  then show ?thesis using card_clusters [OF \<open>2 \<le> n\<close>] by simp
qed

lemma free_clusters_release:
  assumes "2 \<le> c" and "c < n" and "F c \<noteq> 0"
  shows "card (free_clusters (F(c := 0)) n) = Suc (card (free_clusters F n))"
proof -
  have "free_clusters (F(c := 0)) n = insert c (free_clusters F n)" "c \<notin> free_clusters F n"
    using assms by (auto simp: free_clusters_def)
  then show ?thesis by simp
qed

lemma free_clusters_take:
  assumes "c \<in> free_clusters F n" and "e \<noteq> 0"
  shows "card (free_clusters (F(c := e)) n) = card (free_clusters F n) - 1"
proof -
  have "free_clusters (F(c := e)) n = free_clusters F n - {c}"
    using assms by (auto simp: free_clusters_def)
  then show ?thesis using assms(1) by simp
qed

lemma free_clusters_relink:
  assumes "F c \<noteq> 0" and "e \<noteq> 0"
  shows "free_clusters (F(c := e)) n = free_clusters F n"
  using assms by (auto simp: free_clusters_def)

section \<open>What the operations change\<close>

text \<open>Two states of a volume that differ in the window, the drive and the allocation data.\<close>

definition realloc :: "'d volume \<Rightarrow> 'd volume \<Rightarrow> bool" where
  "realloc v v' \<longleftrightarrow> (\<exists>f w s d a b c.
     v' = v\<lparr>wflag := f, last_clst := a, free_clst := b, fsi_flag := c, win := w, winsect := s, dev := d\<rparr>
     \<and> (s = winsect v \<or> in_fat v (unat s)))"

lemma moved_realloc: "moved v v' \<Longrightarrow> realloc v v'"
proof -
  assume "moved v v'"
  then obtain f w s d where v': "v' = v\<lparr>wflag := f, win := w, winsect := s, dev := d\<rparr>" "s = winsect v \<or> in_fat v (unat s)"
    unfolding moved_def by blast
  have "v' = v\<lparr>wflag := f, last_clst := last_clst v, free_clst := free_clst v, fsi_flag := fsi_flag v, win := w, winsect := s, dev := d\<rparr>"
    unfolding v' by simp
  then show ?thesis using v'(2) unfolding realloc_def by blast
qed

lemma realloc_meta: "realloc v (v\<lparr>last_clst := a, free_clst := b, fsi_flag := c\<rparr>)"
proof -
  have "v\<lparr>last_clst := a, free_clst := b, fsi_flag := c\<rparr>
     = v\<lparr>wflag := wflag v, last_clst := a, free_clst := b, fsi_flag := c, win := win v, winsect := winsect v, dev := dev v\<rparr>" by simp
  then show ?thesis unfolding realloc_def by blast
qed

lemma realloc_refl [simp]: "realloc v v"
  by (rule moved_realloc) simp

lemma realloc_trans [trans]: "realloc u v \<Longrightarrow> realloc v w \<Longrightarrow> realloc u w"
  unfolding realloc_def by (elim exE conjE) (simp add: in_fat_def, blast)

lemma realloc_winsect: "realloc v v' \<Longrightarrow> winsect v' = winsect v \<or> in_fat v (unat (winsect v'))"
  by (auto simp: realloc_def)

lemma realloc_fields:
  assumes "realloc v v'"
  shows "fs_type v' = fs_type v" "pdrv v' = pdrv v" "n_fats v' = n_fats v"
    "n_rootdir v' = n_rootdir v" "csize v' = csize v"
    "n_fatent v' = n_fatent v" "fsize v' = fsize v" "volbase v' = volbase v" "fatbase v' = fatbase v"
    "dirbase v' = dirbase v" "database v' = database v" "volume_id v' = volume_id v" "cdir v' = cdir v"
    "geometry_ok cap v' = geometry_ok cap v" "mirrored v' = mirrored v" "in_fat v' = in_fat v"
    "fat_of g v' = fat_of g v"
  using assms by (auto simp: realloc_def fat_of_def in_fat_def fun_eq_iff)

lemma meta_simps [simp]:
  "vol_view sec (v\<lparr>free_clst := b\<rparr>) = vol_view sec v" "vol_view sec (v\<lparr>last_clst := a\<rparr>) = vol_view sec v"
  "vol_view sec (v\<lparr>fsi_flag := c\<rparr>) = vol_view sec v"
  "vol_ok good cap sec drv (v\<lparr>free_clst := b\<rparr>) = vol_ok good cap sec drv v"
  "vol_ok good cap sec drv (v\<lparr>last_clst := a\<rparr>) = vol_ok good cap sec drv v"
  "vol_ok good cap sec drv (v\<lparr>fsi_flag := c\<rparr>) = vol_ok good cap sec drv v"
  by (simp_all add: vol_view_def vol_ok_def copies_agree_def fun_eq_iff)

lemma fat_of_meta [simp]:
  "fat_of g (v\<lparr>free_clst := b\<rparr>) = fat_of g v" "fat_of g (v\<lparr>last_clst := a\<rparr>) = fat_of g v"
  "fat_of g (v\<lparr>fsi_flag := c\<rparr>) = fat_of g v"
  by (simp_all add: fat_of_def fun_eq_iff)

text \<open>The values of entries: links are kept by the mask, and the end mark is past the last cluster.\<close>

lemma fat_of_not_err [simp]: "fat_of f v c \<noteq> 0xFFFFFFFF"
proof
  assume a: "fat_of f v c = 0xFFFFFFFF"
  have "\<not> bit (fat_of f v c) 31" by (auto simp: fat_of_def bit_fat_entry entry_width_def)
  then show False by (simp add: a)
qed

lemma entry_mask_bound:
  assumes "geometry_ok cap v"
  shows "n_fatent v \<le> entry_mask (fs_type v)" "2 \<le> entry_mask (fs_type v)"
proof -
  have "unat (n_fatent v) \<le> unat (entry_mask (fs_type v)) \<and> 2 \<le> unat (n_fatent v)"
    using assms by (auto simp: geometry_ok_def max_fatent_def entry_mask_def entry_width_def fs_types mask_eq_decr_exp)
  then show "n_fatent v \<le> entry_mask (fs_type v)" "2 \<le> entry_mask (fs_type v)" by (simp_all add: word_le_nat_alt)
qed

lemma link_kept:
  assumes "geometry_ok cap v" and "c < n_fatent v"
  shows "c AND entry_mask (fs_type v) = c"
proof -
  have "unat c < 2 ^ entry_width (fs_type v)"
    using assms by (auto simp: geometry_ok_def max_fatent_def entry_width_def fs_types word_less_nat_alt)
  then have "take_bit (entry_width (fs_type v)) c = c"
    by (simp add: word_unat_eq_iff unsigned_take_bit_eq take_bit_nat_eq_self)
  then show ?thesis by (simp add: entry_mask_def take_bit_eq_mask)
qed

lemma end_mark [simp]: "0xFFFFFFFF AND entry_mask ty = entry_mask ty"
  by (simp add: entry_mask_def entry_width_def mask_eq_decr_exp)

lemma cluster_ge2: "2 \<le> x \<longleftrightarrow> x \<noteq> 0 \<and> x \<noteq> 1" for x :: u32
  by (simp add: word_le_nat_alt word_unat_eq_iff) linarith

declare remove_loop.simps(2) [simp del] find_cluster.simps(2) [simp del]

section \<open>Removing a chain\<close>

text \<open>Releasing a cluster keeps the cached number exact.\<close>

definition count_released :: "'d volume \<Rightarrow> 'd volume" where
  "count_released v = (if free_clst v < n_fatent v - 2
     then v\<lparr>free_clst := free_clst v + 1, fsi_flag := fsi_flag v OR 1\<rparr> else v)"

lemma count_released:
  "realloc v (count_released v)" "vol_view sec (count_released v) = vol_view sec v"
  "vol_ok good cap sec drv (count_released v) = vol_ok good cap sec drv v" "fat_of g (count_released v) = fat_of g v"
proof -
  have "v\<lparr>free_clst := b, fsi_flag := c\<rparr> = v\<lparr>last_clst := last_clst v, free_clst := b, fsi_flag := c\<rparr>" for b c by simp
  then show "realloc v (count_released v)" by (metis count_released_def realloc_meta realloc_refl)
qed (simp_all add: count_released_def)

lemma count_released_ok:
  assumes "free_count_ok F v" and "2 \<le> c" and "c < n_fatent v" and "F c \<noteq> 0"
  shows "free_count_ok (F(c := 0)) (count_released v)"
proof (cases "free_clst v \<le> n_fatent v - 2")
  case True
  then have n: "unat (free_clst v) = card (free_clusters F (n_fatent v))" using assms(1) by (simp add: free_count_ok_def)
  then have l: "free_clst v < n_fatent v - 2" using card_free_less [of c "n_fatent v" F] assms by (simp add: word_less_nat_alt)
  then have "unat (free_clst v + 1) = Suc (unat (free_clst v))"
    using u32_lt [of "n_fatent v - 2"] by (subst unat_add_no_wrap) (simp_all add: word_less_nat_alt)
  then show ?thesis using l n free_clusters_release [of c "n_fatent v" F] assms by (simp add: free_count_ok_def count_released_def)
next
  case False
  then show ?thesis by (auto simp: free_count_ok_def count_released_def)
qed

context sector_device
begin

abbreviation vfat :: "'d volume \<Rightarrow> u32 \<Rightarrow> u32" where "vfat v \<equiv> fat_of (vview v) v"

lemma moved_chain_fields:
  assumes "moved v v'"
  shows "n_fatent v' = n_fatent v" "free_clst v' = free_clst v" "last_clst v' = last_clst v" "fsi_flag v' = fsi_flag v"
    "in_fat v' = in_fat v" "fs_type v' = fs_type v"
  using moved_fields [OF assms] by (simp_all add: in_fat_def fun_eq_iff)

lemma read_entry:
  assumes "vok v"
  obtains v' where "get_fat io c v = Ret (vfat v c, v')" "vok v'" "vview v' = vview v" "moved v v'" "vfat v' = vfat v"
proof -
  obtain v' where v': "get_fat io c v = Ret (vfat v c, v')" "vok v'" "vview v' = vview v" "moved v v'"
    using get_fat_ok [OF assms] .
  moreover have "vfat v' = vfat v" using moved_fat_of [OF v'(4)] v'(3) by simp
  ultimately show ?thesis by (rule that)
qed

text \<open>One round.\<close>

lemma remove_step:
  assumes "vok v" and "2 \<le> c" and "c < n_fatent v" and "vfat v c \<noteq> 0" and "vfat v c \<noteq> 1"
  obtains v' where "remove_loop (Suc k) io c v = (if vfat v c < n_fatent v then remove_loop k io (vfat v c) v' else Ret (FR_OK, v'))"
    "vok v'" "realloc v v'" "vfat v' = (vfat v)(c := 0)" "free_count_ok (vfat v) v \<Longrightarrow> free_count_ok (vfat v') v'"
    "\<And>t. \<not> in_fat v t \<Longrightarrow> vview v' t = vview v t"
proof -
  obtain v1 where v1: "get_fat io c v = Ret (vfat v c, v1)" "vok v1" "vview v1 = vview v" "moved v v1" "vfat v1 = vfat v"
    using read_entry [OF assms(1)] by blast
  note f1 = moved_chain_fields [OF v1(4)]
  obtain v2 where v2: "put_fat io c 0 v1 = Ret (FR_OK, v2)" "vok v2" "moved v1 v2"
    "vfat v2 = (vfat v)(c := 0)" "\<And>t. \<not> in_fat v t \<Longrightarrow> vview v2 t = vview v t"
    using put_fat_ok [OF v1(2), of c 0] assms(2,3) f1 v1(3,5) by auto
  have m: "moved v v2" using v1(4) v2(3) by (rule moved_trans)
  let ?v = "count_released v2"
  have n: "n_fatent ?v = n_fatent v" using moved_fields(9) [OF m] by (simp add: count_released_def)
  have "free_count_ok (vfat v) v2" if "free_count_ok (vfat v) v" using that moved_fields [OF m] by (simp add: free_count_ok_def)
  then have cnt: "free_count_ok (vfat ?v) ?v" if "free_count_ok (vfat v) v"
    using that count_released_ok [of "vfat v" v2 c] assms(2-4) v2(4) moved_fields(9) [OF m] by (simp add: count_released)
  have "remove_loop (Suc k) io c v = (if vfat v c < n_fatent v then remove_loop k io (vfat v c) ?v else Ret (FR_OK, ?v))"
    using v1(1) v2(1) assms(4,5) n by (simp add: remove_loop.simps(2) Let_def count_released_def [symmetric])
  then show ?thesis
    by (rule that) (use v2 cnt realloc_trans [OF moved_realloc [OF m] count_released(1)] in \<open>auto simp: count_released\<close>)
qed

text \<open>
  On a chain the loop releases its clusters and nothing else. On any table it ends, even when the
  links form a cycle: every round releases a cluster that was in use.
\<close>

lemma remove_loop_chain:
  assumes "vok v" and "is_chain (vfat v) (n_fatent v) c (c # xs)" and "length xs < k"
  shows "\<exists>v'. remove_loop k io c v = Ret (FR_OK, v') \<and> vok v' \<and> realloc v v'
    \<and> vfat v' = (\<lambda>x. if x \<in> set (c # xs) then 0 else vfat v x)
    \<and> (free_count_ok (vfat v) v \<longrightarrow> free_count_ok (vfat v') v') \<and> (\<forall>t. \<not> in_fat v t \<longrightarrow> vview v' t = vview v t)"
  using assms
proof (induction xs arbitrary: v c k)
  case Nil
  then obtain j where k: "k = Suc j" by (cases k) auto
  have c: "2 \<le> c" "c < n_fatent v" "n_fatent v \<le> vfat v c" using Nil.prems(2) by auto
  then have "vfat v c \<noteq> 0" "vfat v c \<noteq> 1" using cluster_ge2 [of "vfat v c"] by auto
  then obtain v' where v': "remove_loop (Suc j) io c v = Ret (FR_OK, v')"
    "vok v'" "realloc v v'" "vfat v' = (vfat v)(c := 0)" "free_count_ok (vfat v) v \<Longrightarrow> free_count_ok (vfat v') v'"
    "\<And>t. \<not> in_fat v t \<Longrightarrow> vview v' t = vview v t"
    using remove_step [OF Nil.prems(1) c(1,2), of j] c(3) by (metis leD)
  then show ?case using k by auto
next
  case (Cons y ys)
  then obtain j where k: "k = Suc j" "length ys < j" by (cases k) auto
  have c: "2 \<le> c" "c < n_fatent v" "vfat v c = y" "2 \<le> y" "y < n_fatent v"
    and ch: "is_chain (vfat v) (n_fatent v) y (y # ys)" using Cons.prems(2) by auto
  have d: "c \<notin> set (y # ys)" using is_chain_distinct [OF Cons.prems(2)] by simp
  have ne: "vfat v c \<noteq> 0" "vfat v c \<noteq> 1" using c cluster_ge2 [of "vfat v c"] by auto
  obtain v1 where v1: "remove_loop (Suc j) io c v = remove_loop j io y v1"
    "vok v1" "realloc v v1" "vfat v1 = (vfat v)(c := 0)" "free_count_ok (vfat v) v \<Longrightarrow> free_count_ok (vfat v1) v1"
    "\<And>t. \<not> in_fat v t \<Longrightarrow> vview v1 t = vview v t"
    using remove_step [OF Cons.prems(1) c(1,2) ne, of j] c(3,5) by (metis)
  have n: "n_fatent v1 = n_fatent v" "in_fat v1 = in_fat v" using realloc_fields [OF v1(3)] by simp_all
  have "is_chain (vfat v1) (n_fatent v) y (y # ys) = is_chain (vfat v) (n_fatent v) y (y # ys)"
    by (rule is_chain_cong) (use d v1(4) in auto)
  then have "is_chain (vfat v1) (n_fatent v1) y (y # ys)" using ch n(1) by simp
  from Cons.IH [OF v1(2) this k(2)] obtain v' where v': "remove_loop j io y v1 = Ret (FR_OK, v')" "vok v'" "realloc v1 v'"
    "vfat v' = (\<lambda>x. if x \<in> set (y # ys) then 0 else vfat v1 x)"
    "free_count_ok (vfat v1) v1 \<Longrightarrow> free_count_ok (vfat v') v'" "\<And>t. \<not> in_fat v1 t \<Longrightarrow> vview v' t = vview v1 t" by blast
  have "vfat v' = (\<lambda>x. if x \<in> set (c # y # ys) then 0 else vfat v x)" using v'(4) v1(4) by auto
  then show ?case using v' v1 k(1) n realloc_trans [OF v1(3) v'(3)] by auto
qed

lemma remove_loop_ends:
  assumes "vok v" and "2 \<le> c" and "c < n_fatent v" and "card {x. 2 \<le> x \<and> x < n_fatent v \<and> vfat v x \<noteq> 0} < k"
  shows "\<exists>r v'. remove_loop k io c v = Ret (r, v') \<and> vok v'"
  using assms
proof (induction k arbitrary: v c)
  case (Suc k)
  obtain v1 where v1: "get_fat io c v = Ret (vfat v c, v1)" "vok v1" using read_entry [OF Suc.prems(1)] by blast
  show ?case
  proof (cases "vfat v c = 0 \<or> vfat v c = 1")
    case True
    then show ?thesis using v1 by (auto simp: remove_loop.simps(2))
  next
    case False
    obtain v2 where v2: "remove_loop (Suc k) io c v = (if vfat v c < n_fatent v then remove_loop k io (vfat v c) v2 else Ret (FR_OK, v2))"
      "vok v2" "realloc v v2" "vfat v2 = (vfat v)(c := 0)"
      using remove_step [OF Suc.prems(1-3), of k] False by (metis (no_types, lifting))
    have n: "n_fatent v2 = n_fatent v" using realloc_fields [OF v2(3)] by simp
    have "{x. 2 \<le> x \<and> x < n_fatent v2 \<and> vfat v2 x \<noteq> 0} \<subset> {x. 2 \<le> x \<and> x < n_fatent v \<and> vfat v x \<noteq> 0}"
      using n v2(4) Suc.prems(2,3) False by auto
    from psubset_card_mono [OF finite this] have "card {x. 2 \<le> x \<and> x < n_fatent v2 \<and> vfat v2 x \<noteq> 0} < k"
      using Suc.prems(4) by simp
    then have "\<exists>r v'. remove_loop k io (vfat v c) v2 = Ret (r, v') \<and> vok v'" if "vfat v c < n_fatent v"
      using Suc.IH [OF v2(2)] False that n cluster_ge2 [of "vfat v c"] by simp
    then show ?thesis using v2(1,2) by auto
  qed
qed simp

text \<open>\<open>remove_chain\<close> on a chain, entire or after the cluster \<open>pclst\<close>, which becomes the last one.\<close>

lemma chain_length:
  assumes "is_chain F n c xs" and "2 \<le> n"
  shows "length xs \<le> unat (n - 2)"
proof -
  have "length xs = card (set xs)" using distinct_card [OF is_chain_distinct [OF assms(1)]] by simp
  also have "\<dots> \<le> card {c. 2 \<le> c \<and> c < n}" using is_chain_set [OF assms(1)] by (intro card_mono) auto
  finally show ?thesis using card_clusters [OF assms(2)] by simp
qed

lemma chain_fuel:
  assumes "is_chain F n c (x # xs)"
  shows "length xs < unat n"
proof -
  have "2 \<le> n" using assms by auto
  then show ?thesis using chain_length [OF assms] by (simp add: unat_sub word_le_nat_alt)
qed

lemma remove_chain_ok:
  assumes "vok v" and "is_chain (vfat v) (n_fatent v) c (c # xs)"
    and "p \<noteq> 0 \<Longrightarrow> 2 \<le> p \<and> p < n_fatent v \<and> vfat v p \<noteq> 0 \<and> p \<notin> set (c # xs)"
  shows "\<exists>v'. remove_chain io c p v = Ret (FR_OK, v') \<and> vok v' \<and> realloc v v'
    \<and> vfat v' = (\<lambda>x. if x \<in> set (c # xs) then 0 else if p \<noteq> 0 \<and> x = p then entry_mask (fs_type v) else vfat v x)
    \<and> (free_count_ok (vfat v) v \<longrightarrow> free_count_ok (vfat v') v') \<and> (\<forall>t. \<not> in_fat v t \<longrightarrow> vview v' t = vview v t)"
proof -
  have c: "2 \<le> c" "c < n_fatent v" using assms(2) by auto
  have g: "geometry_ok cap v" using assms(1) by (simp add: vol_ok_def)
  obtain v1 where v1: "(if p \<noteq> 0 then put_fat io p 0xFFFFFFFF v else Ret (FR_OK, v)) = Ret (FR_OK, v1)" "vok v1" "moved v v1"
    "vfat v1 = (if p \<noteq> 0 then (vfat v)(p := entry_mask (fs_type v)) else vfat v)"
    "\<And>t. \<not> in_fat v t \<Longrightarrow> vview v1 t = vview v t"
  proof (cases "p = 0")
    case True
    then show ?thesis using that [of v] assms(1) by simp
  next
    case False
    then show ?thesis using put_fat_ok [OF assms(1), of p "0xFFFFFFFF"] assms(3) that by (metis end_mark)
  qed
  note f1 = moved_chain_fields [OF v1(3)]
  have "is_chain (vfat v1) (n_fatent v) c (c # xs) = is_chain (vfat v) (n_fatent v) c (c # xs)"
    by (rule is_chain_cong) (use assms(3) v1(4) in auto)
  then have ch: "is_chain (vfat v1) (n_fatent v1) c (c # xs)" using assms(2) f1(1) by simp
  have "free_clusters (vfat v1) n = free_clusters (vfat v) n" for n
    using v1(4) assms(3) entry_mask_bound(2) [OF g] cluster_ge2 [of "entry_mask (fs_type v)"] by (simp add: free_clusters_relink)
  then have cnt: "free_count_ok (vfat v1) v1 = free_count_ok (vfat v) v" using f1 by (simp add: free_count_ok_def)
  obtain v' where v': "remove_loop (unat (n_fatent v1)) io c v1 = Ret (FR_OK, v')" "vok v'" "realloc v1 v'"
    "vfat v' = (\<lambda>x. if x \<in> set (c # xs) then 0 else vfat v1 x)"
    "free_count_ok (vfat v1) v1 \<longrightarrow> free_count_ok (vfat v') v'" "\<forall>t. \<not> in_fat v1 t \<longrightarrow> vview v' t = vview v1 t"
    using remove_loop_chain [OF v1(2) ch chain_fuel [OF ch]] by blast
  have "remove_chain io c p v = Ret (FR_OK, v')" using v1(1) v'(1) c by (auto simp: remove_chain_def not_le)
  moreover have "vfat v' = (\<lambda>x. if x \<in> set (c # xs) then 0 else if p \<noteq> 0 \<and> x = p then entry_mask (fs_type v) else vfat v x)"
    using v'(4) v1(4) by auto
  ultimately show ?thesis using v'(2,5,6) f1(5) cnt v1(5) realloc_trans [OF moved_realloc [OF v1(3)] v'(3)] by auto
qed

end

context sector_device
begin

lemma remove_chain_ends:
  assumes "vok v"
  shows "\<exists>r v'. remove_chain io c p v = Ret (r, v') \<and> vok v'"
proof (cases "c < 2 \<or> n_fatent v \<le> c")
  case True
  then show ?thesis using assms by (simp add: remove_chain_def)
next
  case False
  obtain r v1 where v1: "(if p \<noteq> 0 then put_fat io p 0xFFFFFFFF v else Ret (FR_OK, v)) = Ret (r, v1)" "vok v1" "n_fatent v1 = n_fatent v"
    using put_fat_ok [OF assms, of p "0xFFFFFFFF"] put_fat_range [of p v] assms moved_fields(9) by (metis (no_types))
  have "2 \<le> n_fatent v" using False by auto
  have "card {x. 2 \<le> x \<and> x < n_fatent v1 \<and> vfat v1 x \<noteq> 0} \<le> card {x. 2 \<le> x \<and> x < n_fatent v}"
    using v1(3) by (intro card_mono) auto
  also have "\<dots> < unat (n_fatent v1)"
    using card_clusters [OF \<open>2 \<le> n_fatent v\<close>] \<open>2 \<le> n_fatent v\<close> v1(3) by (simp add: unat_sub word_le_nat_alt)
  finally have "\<exists>r v'. remove_loop (unat (n_fatent v1)) io c v1 = Ret (r, v') \<and> vok v'"
    using remove_loop_ends [OF v1(2), of c] False v1(3) by (simp add: not_less not_le)
  then show ?thesis using False v1 by (auto simp: remove_chain_def)
qed

end

section \<open>Finding a free cluster\<close>

text \<open>The clusters the search still looks at, in this order, after it has looked at \<open>ncl\<close>.\<close>

definition scan_rest :: "nat \<Rightarrow> nat \<Rightarrow> nat \<Rightarrow> nat list" where
  "scan_rest n scl ncl = (if ncl < scl then [ncl + 1..<scl + 1] else [ncl + 1..<n] @ [2..<scl + 1])"

lemma scan_rest_end: "n \<le> ncl + 1 \<Longrightarrow> scl < 2 \<Longrightarrow> 1 \<le> ncl \<Longrightarrow> scan_rest n scl ncl = []"
  by (auto simp: scan_rest_def)

lemma scan_rest_step:
  assumes "1 \<le> scl" and "scl < n" and "1 \<le> ncl" and "ncl < n" and "\<not> (n \<le> ncl + 1 \<and> scl < 2)"
    and "i = (if n \<le> ncl + 1 then 2 else ncl + 1)"
  shows "2 \<le> i" "i < n" "\<exists>rest. scan_rest n scl ncl = i # rest \<and> (if i = scl then rest = [] else scan_rest n scl i = rest)"
proof -
  show "2 \<le> i" "i < n" using assms by auto
  consider "n \<le> ncl + 1" "2 \<le> scl" "scl \<le> ncl" | "ncl + 1 < n" "ncl < scl" | "ncl + 1 < n" "scl \<le> ncl"
    using assms by linarith
  then show "\<exists>rest. scan_rest n scl ncl = i # rest \<and> (if i = scl then rest = [] else scan_rest n scl i = rest)"
    by cases (use assms(6) in \<open>auto simp: scan_rest_def upt_conv_Cons\<close>)
qed

lemma scan_all:
  assumes "1 \<le> scl" and "scl < n"
  shows "set (scan_rest n scl scl) = {2..<n}" "length (scan_rest n scl scl) < n"
  using assms by (auto simp: scan_rest_def)

lemma unat_succ: "c < n \<Longrightarrow> unat (c + 1) = unat c + 1" for c n :: u32
  using u32_lt [of n] by (subst unat_add_no_wrap) (simp_all add: word_less_nat_alt)

context sector_device
begin

lemma find_cluster_ok:
  assumes "vok v" and "\<And>c. 2 \<le> c \<Longrightarrow> c < n_fatent v \<Longrightarrow> vfat v c \<noteq> 1"
    and "1 \<le> scl" and "scl < n_fatent v" and "1 \<le> ncl" and "ncl < n_fatent v"
    and "length (scan_rest (unat (n_fatent v)) (unat scl) (unat ncl)) < k"
  shows "\<exists>v'. find_cluster k io scl ncl v =
      Ret (case List.find (\<lambda>i. vfat v (of_nat i) = 0) (scan_rest (unat (n_fatent v)) (unat scl) (unat ncl)) of
             None \<Rightarrow> Inl 0 | Some i \<Rightarrow> Inr (of_nat i), v') \<and> vok v' \<and> moved v v' \<and> vview v' = vview v"
  using assms
proof (induction k arbitrary: v ncl)
  case (Suc k)
  let ?n = "unat (n_fatent v)"
  have nat: "1 \<le> unat scl" "unat scl < ?n" "1 \<le> unat ncl" "unat ncl < ?n" and succ: "unat (ncl + 1) = unat ncl + 1"
    using Suc.prems(3-6) unat_succ [of ncl "n_fatent v"] by (simp_all add: word_le_nat_alt word_less_nat_alt)
  have cmp: "n_fatent v \<le> ncl + 1 \<longleftrightarrow> ?n \<le> unat ncl + 1" "scl < 2 \<longleftrightarrow> unat scl < 2"
    using succ by (simp_all add: word_le_nat_alt word_less_nat_alt)
  show ?case
  proof (cases "?n \<le> unat ncl + 1 \<and> unat scl < 2")
    case True
    then show ?thesis using cmp scan_rest_end [of ?n "unat ncl" "unat scl"] nat Suc.prems(1)
      by (simp add: find_cluster.simps(2) Let_def)
  next
    case False
    define ncl2 where "ncl2 = (if n_fatent v \<le> ncl + 1 then 2 else ncl + 1)"
    have i: "unat ncl2 = (if ?n \<le> unat ncl + 1 then 2 else unat ncl + 1)" using cmp succ by (simp add: ncl2_def)
    note step = scan_rest_step [OF nat False i]
    obtain rest where rest: "scan_rest ?n (unat scl) (unat ncl) = unat ncl2 # rest"
      "if unat ncl2 = unat scl then rest = [] else scan_rest ?n (unat scl) (unat ncl2) = rest" using step(3) by blast
    have c2: "2 \<le> ncl2" "ncl2 < n_fatent v" using step(1,2) by (simp_all add: word_le_nat_alt word_less_nat_alt)
    obtain v1 where v1: "get_fat io ncl2 v = Ret (vfat v ncl2, v1)" "vok v1" "vview v1 = vview v" "moved v v1" "vfat v1 = vfat v"
      using read_entry [OF Suc.prems(1)] by blast
    have e: "find_cluster (Suc k) io scl ncl v =
       (if vfat v ncl2 = 0 then Ret (Inr ncl2, v1) else if ncl2 = scl then Ret (Inl 0, v1) else find_cluster k io scl ncl2 v1)"
    proof -
      have cond: "(n_fatent v \<le> ncl + 1 \<and> scl < 2) = False" using False cmp by blast
      show ?thesis unfolding find_cluster.simps(2) Let_def ncl2_def [symmetric] cond if_False
        using v1(1) Suc.prems(2) [OF c2] by simp
    qed
    consider "vfat v ncl2 = 0" | "vfat v ncl2 \<noteq> 0" "ncl2 = scl" | "vfat v ncl2 \<noteq> 0" "ncl2 \<noteq> scl" by blast
    then show ?thesis
    proof cases
      case 3
      then have r: "scan_rest ?n (unat scl) (unat ncl2) = rest" using rest(2) by (simp flip: word_unat_eq_iff)
      have n: "n_fatent v1 = n_fatent v" using moved_chain_fields(1) [OF v1(4)] .
      have "1 \<le> ncl2" using step(1) by (simp add: word_le_nat_alt)
      then obtain v' where "find_cluster k io scl ncl2 v1 =
          Ret (case List.find (\<lambda>i. vfat v (of_nat i) = 0) rest of None \<Rightarrow> Inl 0 | Some i \<Rightarrow> Inr (of_nat i), v')"
          "vok v'" "moved v1 v'" "vview v' = vview v1"
        using Suc.IH [OF v1(2), of ncl2] Suc.prems(2-4,7) c2 r rest(1) v1(5) n by auto
      then show ?thesis using e 3 rest(1) v1(3) moved_trans [OF v1(4)] by auto
    qed (use e rest v1 in auto)
  qed
qed simp

lemma find_any_cluster:
  assumes "vok v" and "\<And>c. 2 \<le> c \<Longrightarrow> c < n_fatent v \<Longrightarrow> vfat v c \<noteq> 1" and "1 \<le> s" and "s < n_fatent v"
  shows "\<exists>p v'. find_cluster (unat (n_fatent v)) io s s v = Ret (p, v') \<and> vok v' \<and> moved v v' \<and> vview v' = vview v \<and>
    (case p of Inl r \<Rightarrow> r = 0 \<and> free_clusters (vfat v) (n_fatent v) = {} | Inr c \<Rightarrow> c \<in> free_clusters (vfat v) (n_fatent v))"
proof -
  let ?l = "scan_rest (unat (n_fatent v)) (unat s) (unat s)"
  have l: "set ?l = {2..<unat (n_fatent v)}" "length ?l < unat (n_fatent v)"
    using scan_all [of "unat s" "unat (n_fatent v)"] assms(3,4) by (auto simp: word_le_nat_alt word_less_nat_alt)
  obtain v' where "find_cluster (unat (n_fatent v)) io s s v =
      Ret (case List.find (\<lambda>i. vfat v (of_nat i) = 0) ?l of None \<Rightarrow> Inl 0 | Some i \<Rightarrow> Inr (of_nat i), v')"
    "vok v'" "moved v v'" "vview v' = vview v"
    using find_cluster_ok [OF assms(1,2,3,4,3,4) l(2)] by auto
  moreover have "c \<notin> free_clusters (vfat v) (n_fatent v)" if "List.find (\<lambda>i. vfat v (of_nat i) = 0) ?l = None" for c
  proof
    assume "c \<in> free_clusters (vfat v) (n_fatent v)"
    then have "unat c \<in> set ?l" "vfat v (of_nat (unat c)) = 0"
      by (auto simp: free_clusters_def l(1) word_le_nat_alt word_less_nat_alt)
    then show False using that by (auto simp: find_None_iff)
  qed
  moreover have "of_nat i \<in> free_clusters (vfat v) (n_fatent v)" if i: "List.find (\<lambda>i. vfat v (of_nat i) = 0) ?l = Some i" for i
  proof -
    have "i \<in> set ?l" "vfat v (of_nat i) = 0" using i by (auto simp: find_Some_iff)
    moreover from this have "unat (of_nat i :: u32) = i" using l(1) u32_lt [of "n_fatent v"] by (simp add: unat_of_nat)
    ultimately show ?thesis using l(1) by (auto simp: free_clusters_def word_le_nat_alt word_less_nat_alt)
  qed
  ultimately show ?thesis by (auto split: option.splits)
qed

lemma pick_cluster_ok:
  assumes "vok v" and "\<And>c. 2 \<le> c \<Longrightarrow> c < n_fatent v \<Longrightarrow> vfat v c \<noteq> 1"
    and "1 \<le> scl" and "scl < n_fatent v" and "scl = clst \<Longrightarrow> 2 \<le> clst"
  shows "\<exists>p v'. pick_cluster io clst scl v = Ret (p, v') \<and> vok v' \<and> moved v v' \<and> vview v' = vview v \<and>
    (case p of Inl r \<Rightarrow> r = 0 \<and> free_clusters (vfat v) (n_fatent v) = {} | Inr c \<Rightarrow> c \<in> free_clusters (vfat v) (n_fatent v))"
proof (cases "scl = clst")
  case False
  then show ?thesis using find_any_cluster [OF assms(1-4)] by (simp add: pick_cluster_def)
next
  case eq: True
  define nc where "nc = (if n_fatent v \<le> clst + 1 then 2 else clst + 1)"
  have c: "2 \<le> nc" "nc < n_fatent v"
    using assms(4,5) eq unat_succ [of scl "n_fatent v"] by (auto simp: nc_def word_le_nat_alt word_less_nat_alt)
  obtain v1 where v1: "get_fat io nc v = Ret (vfat v nc, v1)" "vok v1" "vview v1 = vview v" "moved v v1" "vfat v1 = vfat v"
    using read_entry [OF assms(1)] by blast
  note f1 = moved_chain_fields [OF v1(4)]
  let ?s = "if last_clst v1 \<ge> 2 \<and> last_clst v1 < n_fatent v1 then last_clst v1 else scl"
  have s: "1 \<le> ?s" "?s < n_fatent v1" using assms(3,4) f1 by (auto simp: word_le_nat_alt)
  have p: "pick_cluster io clst scl v = (if vfat v nc = 0 then Ret (Inr nc, v1) else find_cluster (unat (n_fatent v1)) io ?s ?s v1)"
    using eq v1(1) assms(2) [OF c] by (simp add: pick_cluster_def Let_def nc_def [symmetric])
  have "vfat v1 x \<noteq> 1" if "2 \<le> x" "x < n_fatent v1" for x using assms(2) that v1(5) f1(1) by simp
  note any = find_any_cluster [OF v1(2) this s, unfolded v1(5) f1(1)]
  show ?thesis
  proof (cases "vfat v nc = 0")
    case True
    then show ?thesis using p v1(2-4) c by (simp add: free_clusters_def)
  next
    case False
    then show ?thesis using p any v1(3) f1(1) moved_trans [OF v1(4)] by auto
  qed
qed

text \<open>Stretching a chain whose last cluster is \<open>clst\<close>, or creating one (\<open>clst\<close> is 0).\<close>

lemma chain_start_ok:
  assumes "vok v" and "clst = 0 \<or> 2 \<le> clst \<and> clst < n_fatent v \<and> n_fatent v \<le> vfat v clst"
  shows "\<exists>scl v1. chain_start io clst v = Ret (Inr scl, v1) \<and> vok v1 \<and> moved v v1 \<and> vview v1 = vview v
    \<and> 1 \<le> scl \<and> scl < n_fatent v \<and> (scl = clst \<longrightarrow> 2 \<le> clst)"
proof -
  have n: "2 \<le> n_fatent v" using assms(1) by (simp add: vol_ok_def geometry_ok_def word_le_nat_alt)
  show ?thesis
  proof (cases "clst = 0")
    case True
    have "1 \<le> last_clst v" if "last_clst v \<noteq> 0" using that by (simp add: word_le_nat_alt word_unat_eq_iff)
    moreover have "(1 :: u32) < n_fatent v" using n by (simp add: word_le_nat_alt word_less_nat_alt)
    ultimately show ?thesis using True assms(1) by (auto simp: chain_start_def Let_def)
  next
    case False
    then have c: "2 \<le> clst" "clst < n_fatent v" "n_fatent v \<le> vfat v clst" using assms(2) by auto
    obtain v1 where v1: "get_fat io clst v = Ret (vfat v clst, v1)" "vok v1" "vview v1 = vview v" "moved v v1"
      using read_entry [OF assms(1)] by blast
    have "2 \<le> vfat v clst" using n c(3) by auto
    then have "chain_start io clst v = Ret (Inr clst, v1)"
      using False v1(1) c(3) moved_chain_fields(1) [OF v1(4)] by (auto simp: chain_start_def not_less [symmetric])
    then show ?thesis using v1(2-4) c(1,2) by (auto simp: word_le_nat_alt)
  qed
qed

lemma link_cluster_ok:
  assumes "vok v" and "nc \<in> free_clusters (vfat v) (n_fatent v)"
    and "clst \<noteq> 0 \<Longrightarrow> 2 \<le> clst \<and> clst < n_fatent v \<and> vfat v clst \<noteq> 0"
  shows "\<exists>v'. link_cluster io clst nc v = Ret (nc, v') \<and> vok v' \<and> realloc v v' \<and> last_clst v' = nc
    \<and> vfat v' = (if clst = 0 then (vfat v)(nc := entry_mask (fs_type v)) else (vfat v)(nc := entry_mask (fs_type v), clst := nc))
    \<and> (free_count_ok (vfat v) v \<longrightarrow> free_count_ok (vfat v') v') \<and> (\<forall>t. \<not> in_fat v t \<longrightarrow> vview v' t = vview v t)"
proof -
  let ?F = "vfat v" and ?n = "n_fatent v" and ?e = "entry_mask (fs_type v)"
  have g: "geometry_ok cap v" using assms(1) by (simp add: vol_ok_def)
  have nc: "2 \<le> nc" "nc < ?n" "?F nc = 0" using assms(2) by (auto simp: free_clusters_def)
  have e: "?e \<noteq> 0" and nz: "nc \<noteq> 0" using entry_mask_bound(2) [OF g] nc(1) cluster_ge2 by auto
  obtain v1 where v1: "put_fat io nc 0xFFFFFFFF v = Ret (FR_OK, v1)" "vok v1" "moved v v1"
    "vfat v1 = ?F(nc := ?e)" "\<And>t. \<not> in_fat v t \<Longrightarrow> vview v1 t = vview v t"
    using put_fat_ok [OF assms(1) nc(1,2), of "0xFFFFFFFF"] by auto
  note f1 = moved_chain_fields [OF v1(3)]
  let ?G = "if clst = 0 then ?F(nc := ?e) else ?F(nc := ?e, clst := nc)"
  obtain v2 where v2: "(if clst \<noteq> 0 then put_fat io clst nc v1 else Ret (FR_OK, v1)) = Ret (FR_OK, v2)" "vok v2" "moved v v2"
    "vfat v2 = ?G" "\<And>t. \<not> in_fat v t \<Longrightarrow> vview v2 t = vview v t"
  proof (cases "clst = 0")
    case True
    then show ?thesis using that [of v1] v1 by simp
  next
    case False
    then obtain w where w: "put_fat io clst nc v1 = Ret (FR_OK, w)" "vok w" "moved v1 w" "vfat w = ?F(nc := ?e, clst := nc)"
      "\<And>t. \<not> in_fat v t \<Longrightarrow> vview w t = vview v1 t"
      using put_fat_ok [OF v1(2), of clst nc] assms(3) f1 v1(4) link_kept [OF g nc(2)] by auto
    show ?thesis by (rule that [of w]) (use False w v1(5) moved_trans [OF v1(3) w(3)] in auto)
  qed
  note f2 = moved_chain_fields [OF v2(3)]
  let ?v = "v2\<lparr>last_clst := nc, free_clst := (if free_clst v2 \<le> n_fatent v2 - 2 then free_clst v2 - 1 else free_clst v2),
       fsi_flag := fsi_flag v2 OR 1\<rparr>"
  have l: "link_cluster io clst nc v = Ret (nc, ?v)" using v1(1) v2(1) by (auto simp: link_cluster_def split: if_splits)
  have "clst \<noteq> nc" if "clst \<noteq> 0" using assms(3) that nc(3) by auto
  then have c: "card (free_clusters ?G ?n) = card (free_clusters ?F ?n) - 1" "card (free_clusters ?F ?n) \<noteq> 0"
    using free_clusters_take [OF assms(2) e] free_clusters_relink [of "?F(nc := ?e)" clst nc ?n] nz assms(2,3) by auto
  have "free_count_ok ?G ?v" if cnt: "free_count_ok ?F v"
  proof (cases "free_clst v \<le> ?n - 2")
    case True
    then have u: "unat (free_clst v) = card (free_clusters ?F ?n)" using cnt by (simp add: free_count_ok_def)
    then have "free_clst v \<noteq> 0" using c(2) unat_0 by metis
    then show ?thesis using u f2 c(1) unat_minus_one [of "free_clst v"] by (simp add: free_count_ok_def)
  qed (use f2 in \<open>simp add: free_count_ok_def\<close>)
  moreover have "realloc v ?v" using realloc_trans [OF moved_realloc [OF v2(3)] realloc_meta] .
  ultimately show ?thesis using l v2(2,4,5) by (intro exI [of _ ?v]) auto
qed

lemma create_chain_ok:
  assumes "vok v" and "\<And>c. 2 \<le> c \<Longrightarrow> c < n_fatent v \<Longrightarrow> vfat v c \<noteq> 1" and "free_count_ok (vfat v) v"
    and "clst = 0 \<or> 2 \<le> clst \<and> clst < n_fatent v \<and> n_fatent v \<le> vfat v clst"
  shows "\<exists>r v'. create_chain io clst v = Ret (r, v') \<and> vok v' \<and> realloc v v' \<and> free_count_ok (vfat v') v'
    \<and> (\<forall>t. \<not> in_fat v t \<longrightarrow> vview v' t = vview v t)
    \<and> (if free_clusters (vfat v) (n_fatent v) = {} then r = 0 \<and> vview v' = vview v
       else r \<in> free_clusters (vfat v) (n_fatent v) \<and> last_clst v' = r
         \<and> vfat v' = (if clst = 0 then (vfat v)(r := entry_mask (fs_type v)) else (vfat v)(r := entry_mask (fs_type v), clst := r)))"
proof -
  obtain scl v1 where v1: "chain_start io clst v = Ret (Inr scl, v1)" "vok v1" "moved v v1" "vview v1 = vview v"
    "1 \<le> scl" "scl < n_fatent v" "scl = clst \<Longrightarrow> 2 \<le> clst" using chain_start_ok [OF assms(1,4)] by blast
  note f1 = moved_chain_fields [OF v1(3)]
  have F1: "vfat v1 = vfat v" using moved_fat_of [OF v1(3)] v1(4) by simp
  have cnt1: "free_count_ok (vfat v1) v1" using assms(3) F1 f1 by (simp add: free_count_ok_def)
  show ?thesis
  proof (cases "free_clst v1 = 0")
    case True
    then have "free_clusters (vfat v) (n_fatent v) = {}" using cnt1 F1 f1(1) by (simp add: free_count_ok_def)
    then show ?thesis using True v1 cnt1 moved_realloc [OF v1(3)] by (simp add: create_chain_def)
  next
    case False
    have "vfat v1 c \<noteq> 1" if "2 \<le> c" "c < n_fatent v1" for c using assms(2) that F1 f1(1) by simp
    then obtain p v2 where p: "pick_cluster io clst scl v1 = Ret (p, v2)" "vok v2" "moved v1 v2" "vview v2 = vview v1"
      "case p of Inl r \<Rightarrow> r = 0 \<and> free_clusters (vfat v) (n_fatent v) = {} | Inr c \<Rightarrow> c \<in> free_clusters (vfat v) (n_fatent v)"
      using pick_cluster_ok [OF v1(2) _ v1(5), of clst] v1(6,7) F1 f1(1) by metis
    note m2 = moved_trans [OF v1(3) p(3)] and f2 = moved_chain_fields [OF moved_trans [OF v1(3) p(3)]]
    have F2: "vfat v2 = vfat v" using moved_fat_of [OF m2] p(4) v1(4) by simp
    have cnt2: "free_count_ok (vfat v2) v2" using assms(3) F2 f2 by (simp add: free_count_ok_def)
    show ?thesis
    proof (cases p)
      case (Inl r)
      then show ?thesis using v1(1,4) p False cnt2 moved_realloc [OF m2] by (simp add: create_chain_def)
    next
      case (Inr nc)
      then have nc: "nc \<in> free_clusters (vfat v2) (n_fatent v2)" using p(5) F2 f2(1) by simp
      have "2 \<le> clst \<and> clst < n_fatent v2 \<and> vfat v2 clst \<noteq> 0" if "clst \<noteq> 0"
      proof -
        have "2 \<le> clst" "clst < n_fatent v" "n_fatent v \<le> vfat v clst" using assms(4) that by auto
        moreover from this have "2 \<le> vfat v clst" by auto
        ultimately show ?thesis using F2 f2(1) cluster_ge2 [of "vfat v clst"] by simp
      qed
      from link_cluster_ok [OF p(2) nc this, unfolded F2 f2] obtain v' where
        v': "link_cluster io clst nc v2 = Ret (nc, v')" "vok v'" "realloc v2 v'" "last_clst v' = nc"
        "vfat v' = (if clst = 0 then (vfat v)(nc := entry_mask (fs_type v)) else (vfat v)(nc := entry_mask (fs_type v), clst := nc))"
        "free_count_ok (vfat v') v'" "\<forall>t. \<not> in_fat v t \<longrightarrow> vview v' t = vview v t"
        using cnt2 [unfolded F2] p(4) v1(4) by metis
      moreover have "create_chain io clst v = Ret (nc, v')" using v1(1) p(1) False Inr v'(1) by (simp add: create_chain_def)
      moreover have "free_clusters (vfat v) (n_fatent v) \<noteq> {}" "nc \<in> free_clusters (vfat v) (n_fatent v)" using p(5) Inr by auto
      ultimately show ?thesis using realloc_trans [OF moved_realloc [OF m2] v'(3)] by auto
    qed
  qed
qed

text \<open>A cluster that has a successor is not stretched, and one that has none in the chain is an error.\<close>

lemma create_chain_linked:
  assumes "vok v" and "clst \<noteq> 0" and "vfat v clst < n_fatent v"
  shows "\<exists>v'. create_chain io clst v = Ret (if vfat v clst < 2 then 1 else vfat v clst, v') \<and> vok v' \<and> moved v v' \<and> vview v' = vview v"
proof -
  obtain v1 where v1: "get_fat io clst v = Ret (vfat v clst, v1)" "vok v1" "vview v1 = vview v" "moved v v1"
    using read_entry [OF assms(1)] by blast
  then have "chain_start io clst v = Ret (Inl (if vfat v clst < 2 then 1 else vfat v clst), v1)"
    using assms(2,3) moved_chain_fields(1) [OF v1(4)] by (simp add: chain_start_def)
  then show ?thesis using v1 by (simp add: create_chain_def)
qed

text \<open>The clusters behind a cluster of a chain, or all of it, are given back.\<close>

lemma remove_rest:
  assumes "vok v" and "is_chain (vfat v) (n_fatent v) c (xs @ y # ys)"
  shows "\<exists>v'. remove_chain io y (if xs = [] then 0 else last xs) v = Ret (FR_OK, v') \<and> vok v' \<and> realloc v v'
    \<and> (free_count_ok (vfat v) v \<longrightarrow> free_count_ok (vfat v') v')
    \<and> free_clusters (vfat v') (n_fatent v) = free_clusters (vfat v) (n_fatent v) \<union> set (y # ys)
    \<and> (\<forall>t. \<not> in_fat v t \<longrightarrow> vview v' t = vview v t) \<and> (xs \<noteq> [] \<longrightarrow> is_chain (vfat v') (n_fatent v) c xs)
    \<and> (\<forall>c. vfat v c \<noteq> 1 \<longrightarrow> vfat v' c \<noteq> 1)"
proof -
  let ?F = "vfat v" and ?n = "n_fatent v" and ?p = "if xs = [] then 0 else last xs"
  have g: "geometry_ok cap v" using assms(1) by (simp add: vol_ok_def)
  have d: "distinct (xs @ y # ys)" using is_chain_distinct [OF assms(2)] .
  have ne: "?F x \<noteq> 0" if "x \<in> set (xs @ y # ys)" for x using is_chain_set [OF assms(2) that] by auto
  have p: "2 \<le> ?p \<and> ?p < ?n \<and> ?F ?p \<noteq> 0 \<and> ?p \<notin> set (y # ys)" if "?p \<noteq> 0"
  proof -
    have l: "last xs \<in> set xs" "?p = last xs" using that by (auto split: if_splits)
    then show ?thesis using is_chain_set [OF assms(2), of "last xs"] ne [of "last xs"] d by auto
  qed
  have "is_chain ?F ?n y (y # ys)" using is_chain_append [OF assms(2)] .
  from remove_chain_ok [OF assms(1) this p] obtain v' where
    v': "remove_chain io y ?p v = Ret (FR_OK, v')" "vok v'" "realloc v v'" "free_count_ok ?F v \<longrightarrow> free_count_ok (vfat v') v'"
      "vfat v' = (\<lambda>x. if x \<in> set (y # ys) then 0 else if ?p \<noteq> 0 \<and> x = ?p then entry_mask (fs_type v) else ?F x)"
      "\<forall>t. \<not> in_fat v t \<longrightarrow> vview v' t = vview v t" by blast
  have m: "entry_mask (fs_type v) \<noteq> 0" "entry_mask (fs_type v) \<noteq> 1" using entry_mask_bound(2) [OF g] by (auto simp: word_le_nat_alt)
  have "free_clusters (vfat v') ?n = free_clusters ?F ?n \<union> set (y # ys)"
    using is_chain_set [OF assms(2)] p m(1) by (auto simp: free_clusters_def v'(5) split: if_splits)
  moreover have "is_chain (vfat v') ?n c xs" if "xs \<noteq> []"
  proof (rule is_chain_cut [OF assms(2) that entry_mask_bound(1) [OF g]])
    have l: "last xs \<in> set xs" using that by simp
    then show "vfat v' (last xs) = entry_mask (fs_type v)"
      using that p d is_chain_set [OF assms(2), of "last xs"] by (auto simp: v'(5))
    fix x assume x: "x \<in> set (butlast xs)"
    moreover have "distinct (butlast xs @ [last xs])" using d that by simp
    ultimately have "x \<noteq> last xs" "x \<in> set xs" by (auto dest: in_set_butlastD)
    then show "vfat v' x = ?F x" using d that by (auto simp: v'(5))
  qed
  moreover have "vfat v' x \<noteq> 1" if "?F x \<noteq> 1" for x using that m(2) by (simp add: v'(5))
  ultimately show ?thesis using v' by blast
qed

end

section \<open>Properties on the RAM drive\<close>

abbreviation ram_vok :: "u8 \<Rightarrow> nat \<Rightarrow> 'h disk_system volume \<Rightarrow> bool" where
  "ram_vok drv n \<equiv> vol_ok (ram_drive_ok drv n) n (ram_sectors drv n) drv"

abbreviation ram_view :: "u8 \<Rightarrow> nat \<Rightarrow> 'h disk_system volume \<Rightarrow> nat \<Rightarrow> bytes" where
  "ram_view drv n \<equiv> vol_view (ram_sectors drv n)"

abbreviation ram_fat :: "u8 \<Rightarrow> nat \<Rightarrow> 'h disk_system volume \<Rightarrow> u32 \<Rightarrow> u32" where
  "ram_fat drv n v \<equiv> fat_of (ram_view drv n v) v"

text \<open>A small FAT12 volume with two copies of an empty table on a RAM drive, for the witnesses.\<close>

definition example_fat :: "fs_host disk_system volume" where
  "example_fat = \<lparr>fs_type = FS_FAT12, pdrv = 0, n_fats = 2, wflag = 0, fsi_flag = 0, volume_id = 1, n_rootdir = 16,
     csize = 1, last_clst = 0xFFFFFFFF, free_clst = 0xFFFFFFFF, cdir = 0, n_fatent = 12, fsize = 1, volbase = 0,
     fatbase = 1, dirbase = 3, database = 4, winsect = 0, win = replicate 512 0, dev = example_system\<rparr>"

lemma example_ram: "ram_drive_ok 0 100 example_system" "ram_sectors 0 100 example_system t = (if t < 100 then replicate 512 0 else [])"
proof -
  have d: "ram_drive 0 example_system = example_disk 100000" by (simp add: ram_drive_def example_system_def)
  moreover have "imd_cap (example_disk 100000) = 195" by (simp add: imd_cap_def example_disk_def)
  ultimately show "ram_drive_ok 0 100 example_system"
    by (simp add: ram_drive_ok_def example_disk_ok) (simp add: example_system_def disk_consts)
  have "ram_bytes (example_disk 100000) = replicate 100000 0" by (simp add: ram_bytes_def example_disk_def)
  then show "ram_sectors 0 100 example_system t = (if t < 100 then replicate 512 0 else [])"
    using d by (auto simp: ram_sectors_def slice_def min_def)
qed

lemma example_fat_ok: "ram_vok 0 100 example_fat"
  by (simp add: vol_ok_def example_fat_def example_ram geometry_ok_def fat_bytes_def max_fatent_def mirrored_def copies_agree_def fs_types)

lemma example_fat_free: "2 \<le> c \<Longrightarrow> c < 12 \<Longrightarrow> ram_fat 0 100 example_fat c = 0"
proof -
  assume c: "2 \<le> c" "c < 12"
  have v: "ram_view 0 100 example_fat 1 = replicate 512 0"
    by (simp add: vol_view_def example_fat_def mirrored_def example_ram)
  have "fat_byte (ram_view 0 100 example_fat) 1 i = 0" if "i < 512" for i using that v by (simp add: fat_byte_def)
  moreover have "(12 * unat c + n) div 8 < 512" if "n < 12" for n using c that by (simp add: word_less_nat_alt)
  ultimately have "fat_entry (ram_view 0 100 example_fat) 1 FS_FAT12 (unat c) = 0"
    by (intro bit_word_eqI) (auto simp: bit_entry_byte entry_stride_def entry_width_def)
  then show "ram_fat 0 100 example_fat c = 0" using c by (auto simp: fat_of_def example_fat_def)
qed

text \<open>C8: the table of a volume on a RAM drive is an array of entries, whatever their packing:
  \<open>put_fat\<close> succeeds and sets exactly the entry of its cluster, to the value cut to the width of an
  entry, changes no sector outside the table and keeps both copies of the table in step, and
  \<open>get_fat\<close> afterwards returns every entry.\<close>

theorem put_fat_refines_update:
  assumes "ram_vok drv n v" and "2 \<le> c" and "c < n_fatent v"
  shows "\<exists>v'. put_fat (registry_io E) c val v = Ret (FR_OK, v') \<and> ram_vok drv n v'
    \<and> ram_fat drv n v' = (ram_fat drv n v)(c := val AND entry_mask (fs_type v))
    \<and> (\<forall>t. \<not> in_fat v t \<longrightarrow> ram_view drv n v' t = ram_view drv n v t)
    \<and> (\<forall>x. \<exists>v''. get_fat (registry_io E) x v' = Ret (ram_fat drv n v' x, v''))"
  using ramio.put_fat_ok [OF assms, of E val] ramio.get_fat_ok [of drv n _ E] by metis

theorem put_fat_refines_update_witness:
  "\<exists>v'. put_fat (registry_io example_env) 3 0xABCDE example_fat = Ret (FR_OK, v') \<and> ram_fat 0 100 v' 3 = 0xCDE \<and> ram_fat 0 100 v' 2 = 0"
proof -
  have "2 \<le> (3 :: u32)" "3 < n_fatent example_fat" by (simp_all add: example_fat_def)
  from put_fat_refines_update [OF example_fat_ok this, of example_env "0xABCDE"] obtain v' where
    "put_fat (registry_io example_env) 3 0xABCDE example_fat = Ret (FR_OK, v')"
    "ram_fat 0 100 v' = (ram_fat 0 100 example_fat)(3 := 0xABCDE AND entry_mask (fs_type example_fat))" by blast
  moreover have "fs_type example_fat = FS_FAT12" by (simp add: example_fat_def)
  ultimately show ?thesis using example_fat_free [of 2] by (simp add: entry_mask_def entry_width_def mask_eq_decr_exp)
qed

text \<open>C9: \<open>create_chain\<close> allocates one cluster for the chain that ends in \<open>x\<close>: it returns 0 and changes
  nothing when no cluster is free; otherwise it returns a cluster that was free, which becomes the new
  end of the chain, and every chain that does not go through \<open>x\<close> stays as it was. The cached number
  of free clusters stays exact.\<close>

theorem create_chain_extends:
  assumes "ram_vok drv n v" and "\<forall>c. 2 \<le> c \<and> c < n_fatent v \<longrightarrow> ram_fat drv n v c \<noteq> 1"
    and "free_count_ok (ram_fat drv n v) v" and "is_chain (ram_fat drv n v) (n_fatent v) c (xs @ [x])"
  shows "\<exists>r v'. create_chain (registry_io E) x v = Ret (r, v') \<and> ram_vok drv n v' \<and> free_count_ok (ram_fat drv n v') v'
    \<and> (if free_clusters (ram_fat drv n v) (n_fatent v) = {} then r = 0 \<and> ram_view drv n v' = ram_view drv n v
       else r \<in> free_clusters (ram_fat drv n v) (n_fatent v)
         \<and> is_chain (ram_fat drv n v') (n_fatent v) c (xs @ [x, r])
         \<and> (\<forall>d ys. is_chain (ram_fat drv n v) (n_fatent v) d ys \<and> x \<notin> set ys \<longrightarrow> is_chain (ram_fat drv n v') (n_fatent v) d ys))"
proof -
  let ?F = "ram_fat drv n v" and ?n = "n_fatent v"
  have x: "2 \<le> x" "x < ?n" "?n \<le> ?F x" using is_chain_append [OF assms(4)] by auto
  have g: "geometry_ok n v" using assms(1) by (simp add: vol_ok_def)
  from ramio.create_chain_ok [OF assms(1) _ assms(3), of x E] assms(2) x obtain r v' where
    r: "create_chain (registry_io E) x v = Ret (r, v')" "ram_vok drv n v'" "free_count_ok (ram_fat drv n v') v'"
      "if free_clusters ?F ?n = {} then r = 0 \<and> ram_view drv n v' = ram_view drv n v
       else r \<in> free_clusters ?F ?n \<and> last_clst v' = r
         \<and> ram_fat drv n v' = (if x = 0 then ?F(r := entry_mask (fs_type v)) else ?F(r := entry_mask (fs_type v), x := r))"
    by auto
  have "x \<noteq> 0" using x(1) by auto
  show ?thesis
  proof (cases "free_clusters ?F ?n = {}")
    case False
    then have in_free: "r \<in> free_clusters ?F ?n" and F': "ram_fat drv n v' = ?F(r := entry_mask (fs_type v), x := r)"
      using r(4) \<open>x \<noteq> 0\<close> by auto
    then have f: "?F r = 0" "2 \<le> r" "r < ?n" by (simp_all add: free_clusters_def)
    have "is_chain (ram_fat drv n v') ?n c (xs @ [x, r])"
      unfolding F' by (rule is_chain_snoc [OF assms(4) f entry_mask_bound(1) [OF g]])
    moreover have "is_chain (ram_fat drv n v') ?n d ys" if "is_chain ?F ?n d ys" "x \<notin> set ys" for d ys
    proof -
      have "r \<notin> set ys" using is_chain_set [OF that(1), of r] f(1) by auto
      then have "is_chain (ram_fat drv n v') ?n d ys = is_chain ?F ?n d ys"
        using that(2) unfolding F' by (intro is_chain_cong) auto
      then show ?thesis using that(1) by simp
    qed
    ultimately show ?thesis using False r in_free by auto
  qed (use r in auto)
qed

lemma example_chain:
  obtains v :: "fs_host disk_system volume" and c where "ram_vok 0 100 v" "\<forall>c. 2 \<le> c \<and> c < n_fatent v \<longrightarrow> ram_fat 0 100 v c \<noteq> 1"
    "free_count_ok (ram_fat 0 100 v) v" "n_fatent v = 12" "is_chain (ram_fat 0 100 v) 12 c [c]"
    "free_clusters (ram_fat 0 100 v) 12 \<noteq> {}"
proof -
  let ?F = "ram_fat 0 100 example_fat"
  have n: "n_fatent example_fat = 12" "fs_type example_fat = FS_FAT12" by (simp_all add: example_fat_def)
  have free: "free_clusters ?F 12 = {c. 2 \<le> c \<and> c < 12}" using example_fat_free by (auto simp: free_clusters_def)
  then have ne: "2 \<in> free_clusters ?F 12" "3 \<in> free_clusters ?F 12" by auto
  have "free_count_ok ?F example_fat" by (simp add: free_count_ok_def) (simp add: example_fat_def)
  moreover have "?F c \<noteq> 1" if "2 \<le> c" "c < n_fatent example_fat" for c using example_fat_free that n(1) by simp
  moreover have "free_clusters ?F (n_fatent example_fat) \<noteq> {}" using ne(1) n(1) by auto
  ultimately obtain c v where
    v: "ram_vok 0 100 v" "realloc example_fat v" "free_count_ok (ram_fat 0 100 v) v" "c \<in> free_clusters ?F 12"
      "ram_fat 0 100 v = ?F(c := entry_mask (fs_type example_fat))"
    using ramio.create_chain_ok [OF example_fat_ok, of 0 example_env] n(1) by (metis (full_types))
  have e: "entry_mask (fs_type example_fat) = 0xFFF" using n(2) by (simp add: entry_mask_def entry_width_def mask_eq_decr_exp)
  have nv: "n_fatent v = 12" using realloc_fields(6) [OF v(2)] n(1) by simp
  have "2 \<in> free_clusters (ram_fat 0 100 v) 12 \<or> 3 \<in> free_clusters (ram_fat 0 100 v) 12"
    using ne v(5) e by (auto simp: free_clusters_def)
  moreover have "is_chain (ram_fat 0 100 v) 12 c [c]" using v(4,5) e by (auto simp: free_clusters_def)
  moreover have "\<forall>x. 2 \<le> x \<and> x < n_fatent v \<longrightarrow> ram_fat 0 100 v x \<noteq> 1" using v(5) e nv example_fat_free by simp
  ultimately show ?thesis using that [of v c] v(1,3) nv by blast
qed

theorem create_chain_extends_witness:
  "\<exists>(v :: fs_host disk_system volume) c r v'. is_chain (ram_fat 0 100 v) 12 c [c] \<and> create_chain (registry_io example_env) c v = Ret (r, v')
    \<and> is_chain (ram_fat 0 100 v') 12 c [c, r]"
proof -
  obtain v :: "fs_host disk_system volume" and c where v: "ram_vok 0 100 v" "\<forall>c. 2 \<le> c \<and> c < n_fatent v \<longrightarrow> ram_fat 0 100 v c \<noteq> 1"
    "free_count_ok (ram_fat 0 100 v) v" "n_fatent v = 12" "is_chain (ram_fat 0 100 v) 12 c [c]"
    "free_clusters (ram_fat 0 100 v) 12 \<noteq> {}" by (rule example_chain)
  then have "is_chain (ram_fat 0 100 v) (n_fatent v) c ([] @ [c])" by simp
  from create_chain_extends [OF v(1-3) this, of example_env] v(4,5,6) show ?thesis by auto
qed

text \<open>C10: \<open>remove_chain\<close> gives back exactly the clusters of a chain: their entries become free, every
  other entry and every sector outside the table stays, and the cached number of free clusters
  stays exact. When the chain is the rest of a file after the cluster \<open>p\<close>, that cluster becomes
  the last one of the file.\<close>

theorem remove_chain_frees:
  assumes "ram_vok drv n v" and "free_count_ok (ram_fat drv n v) v" and "is_chain (ram_fat drv n v) (n_fatent v) c (xs @ y # ys)"
  shows "\<exists>v'. remove_chain (registry_io E) y (if xs = [] then 0 else last xs) v = Ret (FR_OK, v')
    \<and> ram_vok drv n v' \<and> free_count_ok (ram_fat drv n v') v'
    \<and> free_clusters (ram_fat drv n v') (n_fatent v) = free_clusters (ram_fat drv n v) (n_fatent v) \<union> set (y # ys)
    \<and> (\<forall>t. \<not> in_fat v t \<longrightarrow> ram_view drv n v' t = ram_view drv n v t)
    \<and> (xs \<noteq> [] \<longrightarrow> is_chain (ram_fat drv n v') (n_fatent v) c xs)"
  using ramio.remove_rest [OF assms(1,3), of E] assms(2) by blast

theorem remove_chain_frees_witness:
  "\<exists>(v :: fs_host disk_system volume) c v'. is_chain (ram_fat 0 100 v) 12 c [c]
    \<and> remove_chain (registry_io example_env) c 0 v = Ret (FR_OK, v') \<and> c \<in> free_clusters (ram_fat 0 100 v') 12"
proof -
  obtain v :: "fs_host disk_system volume" and c where v: "ram_vok 0 100 v" "\<forall>c. 2 \<le> c \<and> c < n_fatent v \<longrightarrow> ram_fat 0 100 v c \<noteq> 1"
    "free_count_ok (ram_fat 0 100 v) v" "n_fatent v = 12" "is_chain (ram_fat 0 100 v) 12 c [c]"
    "free_clusters (ram_fat 0 100 v) 12 \<noteq> {}" by (rule example_chain)
  then have "is_chain (ram_fat 0 100 v) (n_fatent v) c ([] @ c # [])" by simp
  from remove_chain_frees [OF v(1,3) this, of example_env] v(4,5) show ?thesis by auto
qed

text \<open>C11: removing a chain ends for every cluster number and every table, also when the links of a
  damaged table form a cycle or lead to a free cluster: \<open>remove_chain\<close> returns within one round per
  cluster of the volume and leaves the volume well formed.\<close>

theorem remove_chain_terminates:
  assumes "ram_vok drv n v"
  shows "\<exists>r v'. remove_chain (registry_io E) c p v = Ret (r, v') \<and> ram_vok drv n v'"
  using assms by (rule ramio.remove_chain_ends)

theorem remove_chain_terminates_witness:
  "\<exists>r v'. remove_chain (registry_io example_env) 5 3 example_fat = Ret (r, v')"
  using remove_chain_terminates [OF example_fat_ok, of example_env 5 3] by blast

end
