(* ===== verification/Fat_File.thy ===== *)
theory Fat_File
  imports Fat_Chain
begin

text \<open>
  Open files of FatFs (\<open>cpp/fatfs/common/src/ff.cpp\<close>): \<open>f_read\<close>, \<open>f_write\<close>, \<open>f_lseek\<close>, \<open>f_truncate\<close>,
  \<open>f_sync\<close> and \<open>f_close\<close> over the file object \<open>FIL\<close>, whose private buffer caches one sector of the
  file and is written back late. Whole sectors are transferred directly, a cluster at most at a time.

  The operations work on the file object and on the volume it belongs to (\<open>obj_fs\<close> is 0 after the
  file has been closed). The caller's buffer is the list of bytes a read has stored so far.
\<close>

unbundle bit_operations_syntax

section \<open>The file object\<close>

record FIL =
  obj_fs :: ptr
  obj_id :: u16
  obj_attr :: u8
  obj_stat :: u8
  sclust :: u32
  objsize :: u32
  flag :: u8
  err :: FRESULT
  fptr :: u32
  clust :: u32
  sect :: u32
  dir_sect :: u32
  dir_ptr :: nat
  buf :: bytes

definition FA_READ :: u8 where "FA_READ = 0x01"
definition FA_WRITE :: u8 where "FA_WRITE = 0x02"
definition FA_MODIFIED :: u8 where "FA_MODIFIED = 0x40"
definition FA_DIRTY :: u8 where "FA_DIRTY = 0x80"

definition is_dirty :: "FIL \<Rightarrow> bool" where "is_dirty fp \<longleftrightarrow> flag fp AND FA_DIRTY \<noteq> 0"
definition clean :: "FIL \<Rightarrow> FIL" where "clean fp = fp\<lparr>flag := flag fp AND NOT FA_DIRTY\<rparr>"

definition validate :: "'d diskio \<Rightarrow> FIL \<Rightarrow> 'd volume \<Rightarrow> FRESULT cpp" where
  "validate io fp v =
     (if obj_fs fp \<noteq> 0 \<and> fs_type v \<noteq> 0 \<and> obj_id fp = volume_id v then
        cbind (dio_status io (pdrv v) (dev v)) (\<lambda>stat.
          Ret (if stat AND STA_NOINIT = 0 then FR_OK else FR_INVALID_OBJECT))
      else Ret FR_INVALID_OBJECT)"

section \<open>Reading\<close>

text \<open>The sector offset of the file pointer in its cluster.\<close>

definition csect_of :: "FIL \<Rightarrow> 'd volume \<Rightarrow> u32" where
  "csect_of fp v = (fptr fp div 512) AND (ucast (csize v) - 1)"

text \<open>The next cluster, at the boundary of two clusters.\<close>

definition read_cluster :: "'d diskio \<Rightarrow> FIL \<Rightarrow> 'd volume \<Rightarrow> (FRESULT \<times> FIL \<times> 'd volume) cpp" where
  "read_cluster io fp v =
     (if csect_of fp v = 0 then
        cbind (if fptr fp = 0 then Ret (sclust fp, v) else get_fat io (clust fp) v) (\<lambda>(clst, v1).
          if clst < 2 then Ret (FR_INT_ERR, fp, v1)
          else if clst = 0xFFFFFFFF then Ret (FR_DISK_ERR, fp, v1)
          else Ret (FR_OK, fp\<lparr>clust := clst\<rparr>, v1))
      else Ret (FR_OK, fp, v))"

text \<open>The buffer is written back.\<close>

definition flush_buf :: "'d diskio \<Rightarrow> FIL \<Rightarrow> 'd volume \<Rightarrow> (FRESULT \<times> FIL \<times> 'd volume) cpp" where
  "flush_buf io fp v =
     (if is_dirty fp then
        cbind (dio_write io (pdrv v) (buf fp) (sect fp) 1 (dev v)) (\<lambda>(r, d).
          if r \<noteq> RES_OK then Ret (FR_DISK_ERR, fp, v\<lparr>dev := d\<rparr>)
          else Ret (FR_OK, clean fp, v\<lparr>dev := d\<rparr>))
      else Ret (FR_OK, fp, v))"

text \<open>The buffer is filled with a sector.\<close>

definition load_buf :: "'d diskio \<Rightarrow> u32 \<Rightarrow> FIL \<Rightarrow> 'd volume \<Rightarrow> (FRESULT \<times> FIL \<times> 'd volume) cpp" where
  "load_buf io s fp v =
     cbind (dio_read io (pdrv v) s 1 (dev v)) (\<lambda>(r, b, d).
       Ret (if r \<noteq> RES_OK then FR_DISK_ERR else FR_OK, fp\<lparr>buf := fill_buffer (buf fp) b\<rparr>, v\<lparr>dev := d\<rparr>))"

definition read_sector :: "'d diskio \<Rightarrow> u32 \<Rightarrow> FIL \<Rightarrow> 'd volume \<Rightarrow> (FRESULT \<times> FIL \<times> 'd volume) cpp" where
  "read_sector io s fp v =
     (if sect fp \<noteq> s then
        cbind (flush_buf io fp v) (\<lambda>(r, fp1, v1).
          if r \<noteq> FR_OK then Ret (r, fp1, v1)
          else cbind (load_buf io s fp1 v1) (\<lambda>(r, fp2, v2).
            if r \<noteq> FR_OK then Ret (r, fp2, v2) else Ret (FR_OK, fp2\<lparr>sect := s\<rparr>, v2)))
      else Ret (FR_OK, fp\<lparr>sect := s\<rparr>, v))"

text \<open>Whole sectors go to the caller's buffer, with the changed sector of the file's buffer in its place.\<close>

definition clip_cluster :: "u32 \<Rightarrow> u32 \<Rightarrow> 'd volume \<Rightarrow> u32" where
  "clip_cluster csect cc v = (if csect + cc > ucast (csize v) then ucast (csize v) - csect else cc)"

definition read_direct :: "'d diskio \<Rightarrow> u32 \<Rightarrow> u32 \<Rightarrow> FIL \<Rightarrow> 'd volume \<Rightarrow> (FRESULT \<times> bytes \<times> 'd volume) cpp" where
  "read_direct io s cc fp v =
     cbind (dio_read io (pdrv v) s (ucast cc) (dev v)) (\<lambda>(r, b, d).
       if r \<noteq> RES_OK then Ret (FR_DISK_ERR, [], v\<lparr>dev := d\<rparr>)
       else Ret (FR_OK, if is_dirty fp \<and> sect fp - s < cc then blit b (unat (sect fp - s) * 512) (buf fp) else b, v\<lparr>dev := d\<rparr>))"

text \<open>The number of bytes up to the end of the sector.\<close>

definition rest_of_sector :: "u32 \<Rightarrow> FIL \<Rightarrow> u32" where
  "rest_of_sector bt fp = (let cnt = 512 - fptr fp mod 512 in if cnt > bt then bt else cnt)"

text \<open>
  One round of the loop: the number \<open>rcnt\<close> of bytes read, the bytes and the states, or the error that
  aborts the read.
\<close>

definition copy_out :: "u32 \<Rightarrow> FIL \<Rightarrow> bytes" where
  "copy_out rcnt fp = slice (buf fp) (unat (fptr fp mod 512)) (unat rcnt)"

definition read_round :: "'d diskio \<Rightarrow> u32 \<Rightarrow> FIL \<Rightarrow> 'd volume \<Rightarrow> (FRESULT \<times> u32 \<times> bytes \<times> FIL \<times> 'd volume) cpp" where
  "read_round io btr fp v =
     (if fptr fp mod 512 = 0 then
        let csect = csect_of fp v in
        cbind (read_cluster io fp v) (\<lambda>(r, fp1, v1).
          if r \<noteq> FR_OK then Ret (r, 0, [], fp1, v1)
          else let s = clst2sect v1 (clust fp1) in
            if s = 0 then Ret (FR_INT_ERR, 0, [], fp1, v1)
            else let s = s + csect; cc = btr div 512 in
              if cc > 0 then
                let cc = clip_cluster csect cc v1 in
                cbind (read_direct io s cc fp1 v1) (\<lambda>(r, b, v2). Ret (r, 512 * cc, b, fp1, v2))
              else
                cbind (read_sector io s fp1 v1) (\<lambda>(r, fp2, v2).
                  if r \<noteq> FR_OK then Ret (r, 0, [], fp2, v2)
                  else let rcnt = rest_of_sector btr fp2 in Ret (FR_OK, rcnt, copy_out rcnt fp2, fp2, v2)))
      else let rcnt = rest_of_sector btr fp in Ret (FR_OK, rcnt, copy_out rcnt fp, fp, v))"

text \<open>The first argument of a loop bounds its rounds; a loop that has not ended after them is \<open>Deadlock\<close>.\<close>

fun read_loop :: "nat \<Rightarrow> 'd diskio \<Rightarrow> u32 \<Rightarrow> bytes \<Rightarrow> FIL \<Rightarrow> 'd volume \<Rightarrow> (FRESULT \<times> bytes \<times> FIL \<times> 'd volume) cpp" where
  "read_loop 0 io btr acc fp v = Deadlock"
| "read_loop (Suc k) io btr acc fp v =
     (if btr > 0 then
        cbind (read_round io btr fp v) (\<lambda>(r, rcnt, b, fp1, v1).
          if r \<noteq> FR_OK then Ret (r, acc, fp1\<lparr>err := r\<rparr>, v1)
          else read_loop k io (btr - rcnt) (acc @ b) (fp1\<lparr>fptr := fptr fp1 + rcnt\<rparr>) v1)
      else Ret (FR_OK, acc, fp, v))"

definition f_read :: "'d diskio \<Rightarrow> u32 \<Rightarrow> FIL \<Rightarrow> 'd volume \<Rightarrow> (FRESULT \<times> bytes \<times> FIL \<times> 'd volume) cpp" where
  "f_read io btr fp v =
     cbind (validate io fp v) (\<lambda>res.
      if res \<noteq> FR_OK then Ret (res, [], fp, v)
      else if err fp \<noteq> FR_OK then Ret (err fp, [], fp, v)
      else if flag fp AND FA_READ = 0 then Ret (FR_DENIED, [], fp, v)
      else let remain = objsize fp - fptr fp; btr = (if btr > remain then remain else btr) in
        read_loop (Suc (unat btr)) io btr [] fp v)"

section \<open>Writing\<close>

text \<open>The cluster to write to; the flag says that the volume is full.\<close>

definition write_cluster :: "'d diskio \<Rightarrow> FIL \<Rightarrow> 'd volume \<Rightarrow> (FRESULT \<times> bool \<times> FIL \<times> 'd volume) cpp" where
  "write_cluster io fp v =
     (if csect_of fp v = 0 then
        cbind (if fptr fp = 0 then (if sclust fp = 0 then create_chain io 0 v else Ret (sclust fp, v))
               else create_chain io (clust fp) v) (\<lambda>(clst, v1).
          if clst = 0 then Ret (FR_OK, True, fp, v1)
          else if clst = 1 then Ret (FR_INT_ERR, False, fp, v1)
          else if clst = 0xFFFFFFFF then Ret (FR_DISK_ERR, False, fp, v1)
          else let fp1 = fp\<lparr>clust := clst\<rparr> in
            Ret (FR_OK, False, if sclust fp1 = 0 then fp1\<lparr>sclust := clst\<rparr> else fp1, v1))
      else Ret (FR_OK, False, fp, v))"

definition write_direct :: "'d diskio \<Rightarrow> u32 \<Rightarrow> u32 \<Rightarrow> bytes \<Rightarrow> FIL \<Rightarrow> 'd volume \<Rightarrow> (FRESULT \<times> FIL \<times> 'd volume) cpp" where
  "write_direct io s cc wbuff fp v =
     cbind (dio_write io (pdrv v) (take (unat cc * 512) wbuff) s (ucast cc) (dev v)) (\<lambda>(r, d).
       if r \<noteq> RES_OK then Ret (FR_DISK_ERR, fp, v\<lparr>dev := d\<rparr>)
       else Ret (FR_OK, if sect fp - s < cc then clean (fp\<lparr>buf := slice wbuff (unat (sect fp - s) * 512) 512\<rparr>) else fp,
                 v\<lparr>dev := d\<rparr>))"

text \<open>The sector on which less than a sector is written: its old contents are loaded unless the file ends before it.\<close>

definition write_sector :: "'d diskio \<Rightarrow> u32 \<Rightarrow> FIL \<Rightarrow> 'd volume \<Rightarrow> (FRESULT \<times> FIL \<times> 'd volume) cpp" where
  "write_sector io s fp v =
     cbind (if sect fp \<noteq> s \<and> fptr fp < objsize fp then load_buf io s fp v else Ret (FR_OK, fp, v)) (\<lambda>(r, fp1, v1).
       if r \<noteq> FR_OK then Ret (r, fp1, v1) else Ret (FR_OK, fp1\<lparr>sect := s\<rparr>, v1))"

definition copy_in :: "u32 \<Rightarrow> bytes \<Rightarrow> FIL \<Rightarrow> FIL" where
  "copy_in wcnt wbuff fp =
     fp\<lparr>buf := blit (buf fp) (unat (fptr fp mod 512)) (take (unat wcnt) wbuff), flag := flag fp OR FA_DIRTY\<rparr>"

definition write_round ::
    "'d diskio \<Rightarrow> u32 \<Rightarrow> bytes \<Rightarrow> FIL \<Rightarrow> 'd volume \<Rightarrow> (FRESULT \<times> bool \<times> u32 \<times> FIL \<times> 'd volume) cpp" where
  "write_round io btw wbuff fp v =
     (if fptr fp mod 512 = 0 then
        let csect = csect_of fp v in
        cbind (write_cluster io fp v) (\<lambda>(r, full, fp1, v1).
          if r \<noteq> FR_OK \<or> full then Ret (r, full, 0, fp1, v1)
          else cbind (flush_buf io fp1 v1) (\<lambda>(r, fp2, v2).
            if r \<noteq> FR_OK then Ret (r, False, 0, fp2, v2)
            else let s = clst2sect v2 (clust fp2) in
              if s = 0 then Ret (FR_INT_ERR, False, 0, fp2, v2)
              else let s = s + csect; cc = btw div 512 in
                if cc > 0 then
                  let cc = clip_cluster csect cc v2 in
                  cbind (write_direct io s cc wbuff fp2 v2) (\<lambda>(r, fp3, v3). Ret (r, False, 512 * cc, fp3, v3))
                else
                  cbind (write_sector io s fp2 v2) (\<lambda>(r, fp3, v3).
                    if r \<noteq> FR_OK then Ret (r, False, 0, fp3, v3)
                    else let wcnt = rest_of_sector btw fp3 in Ret (FR_OK, False, wcnt, copy_in wcnt wbuff fp3, v3))))
      else let wcnt = rest_of_sector btw fp in Ret (FR_OK, False, wcnt, copy_in wcnt wbuff fp, v))"

text \<open>The end of a round moves the file pointer and the end of the file.\<close>

definition advance :: "u32 \<Rightarrow> FIL \<Rightarrow> FIL" where
  "advance wcnt fp =
     (let fp = fp\<lparr>fptr := fptr fp + wcnt\<rparr> in
      fp\<lparr>objsize := (if fptr fp > objsize fp then fptr fp else objsize fp)\<rparr>)"

fun write_loop ::
    "nat \<Rightarrow> 'd diskio \<Rightarrow> u32 \<Rightarrow> bytes \<Rightarrow> u32 \<Rightarrow> FIL \<Rightarrow> 'd volume \<Rightarrow> (FRESULT \<times> u32 \<times> FIL \<times> 'd volume) cpp" where
  "write_loop 0 io btw wbuff bw fp v = Deadlock"
| "write_loop (Suc k) io btw wbuff bw fp v =
     (if btw > 0 then
        cbind (write_round io btw wbuff fp v) (\<lambda>(r, full, wcnt, fp1, v1).
          if r \<noteq> FR_OK then Ret (r, bw, fp1\<lparr>err := r\<rparr>, v1)
          else if full then Ret (FR_OK, bw, fp1\<lparr>flag := flag fp1 OR FA_MODIFIED\<rparr>, v1)
          else write_loop k io (btw - wcnt) (drop (unat wcnt) wbuff) (bw + wcnt) (advance wcnt fp1) v1)
      else Ret (FR_OK, bw, fp\<lparr>flag := flag fp OR FA_MODIFIED\<rparr>, v))"

definition f_write :: "'d diskio \<Rightarrow> bytes \<Rightarrow> u32 \<Rightarrow> FIL \<Rightarrow> 'd volume \<Rightarrow> (FRESULT \<times> u32 \<times> FIL \<times> 'd volume) cpp" where
  "f_write io wbuff btw fp v =
     cbind (validate io fp v) (\<lambda>res.
      if res \<noteq> FR_OK then Ret (res, 0, fp, v)
      else if err fp \<noteq> FR_OK then Ret (err fp, 0, fp, v)
      else if flag fp AND FA_WRITE = 0 then Ret (FR_DENIED, 0, fp, v)
      else let btw = (if fptr fp + btw < fptr fp then 0xFFFFFFFF - fptr fp else btw) in
        write_loop (Suc (unat btw)) io btw wbuff 0 fp v)"

section \<open>Seeking\<close>

text \<open>The loop that follows the chain: the offset in the last cluster, the cluster and the file pointer.\<close>

fun seek_loop ::
    "nat \<Rightarrow> 'd diskio \<Rightarrow> u32 \<Rightarrow> u32 \<Rightarrow> u32 \<Rightarrow> FIL \<Rightarrow> 'd volume \<Rightarrow> (FRESULT \<times> u32 \<times> u32 \<times> FIL \<times> 'd volume) cpp" where
  "seek_loop 0 io bcs ofs clst fp v = Deadlock"
| "seek_loop (Suc k) io bcs ofs clst fp v =
     (if ofs > bcs then
        let ofs = ofs - bcs; fp = fp\<lparr>fptr := fptr fp + bcs\<rparr> in
        cbind (if flag fp AND FA_WRITE \<noteq> 0 then create_chain io clst v else get_fat io clst v) (\<lambda>(clst, v1).
          if flag fp AND FA_WRITE \<noteq> 0 \<and> clst = 0 then Ret (FR_OK, 0, clst, fp, v1)
          else if clst = 0xFFFFFFFF then Ret (FR_DISK_ERR, ofs, clst, fp, v1)
          else if clst \<le> 1 \<or> clst \<ge> n_fatent v1 then Ret (FR_INT_ERR, ofs, clst, fp, v1)
          else seek_loop k io bcs ofs clst (fp\<lparr>clust := clst\<rparr>) v1)
      else Ret (FR_OK, ofs, clst, fp, v))"

text \<open>Where the loop starts: the current cluster, or the first one of the file.\<close>

definition seek_start :: "'d diskio \<Rightarrow> u32 \<Rightarrow> u32 \<Rightarrow> FIL \<Rightarrow> 'd volume \<Rightarrow> (FRESULT \<times> u32 \<times> u32 \<times> FIL \<times> 'd volume) cpp" where
  "seek_start io ofs ifptr fp v =
     (let bcs = ucast (csize v) * 512 in
      if ifptr > 0 \<and> (ofs - 1) div bcs \<ge> (ifptr - 1) div bcs then
        let fp = fp\<lparr>fptr := (ifptr - 1) AND NOT (bcs - 1)\<rparr> in Ret (FR_OK, ofs - fptr fp, clust fp, fp, v)
      else if sclust fp = 0 then
        cbind (create_chain io 0 v) (\<lambda>(clst, v1).
          if clst = 1 then Ret (FR_INT_ERR, ofs, clst, fp, v1)
          else if clst = 0xFFFFFFFF then Ret (FR_DISK_ERR, ofs, clst, fp, v1)
          else Ret (FR_OK, ofs, clst, fp\<lparr>sclust := clst, clust := clst\<rparr>, v1))
      else Ret (FR_OK, ofs, sclust fp, fp\<lparr>clust := sclust fp\<rparr>, v))"

text \<open>The file pointer is moved; the result has the sector to load, or 0.\<close>

definition seek_move :: "'d diskio \<Rightarrow> u32 \<Rightarrow> u32 \<Rightarrow> FIL \<Rightarrow> 'd volume \<Rightarrow> (FRESULT \<times> u32 \<times> FIL \<times> 'd volume) cpp" where
  "seek_move io ofs ifptr fp v =
     (if ofs > 0 then
        cbind (seek_start io ofs ifptr fp v) (\<lambda>(r, ofs, clst, fp1, v1).
          if r \<noteq> FR_OK then Ret (r, 0, fp1, v1)
          else if clst \<noteq> 0 then
            cbind (seek_loop (Suc (unat ofs)) io (ucast (csize v1) * 512) ofs clst fp1 v1) (\<lambda>(r, ofs, clst, fp2, v2).
              if r \<noteq> FR_OK then Ret (r, 0, fp2, v2)
              else let fp3 = fp2\<lparr>fptr := fptr fp2 + ofs\<rparr> in
                if ofs mod 512 \<noteq> 0 then
                  let nsect = clst2sect v2 clst in
                  if nsect = 0 then Ret (FR_INT_ERR, 0, fp3, v2) else Ret (FR_OK, nsect + ofs div 512, fp3, v2)
                else Ret (FR_OK, 0, fp3, v2))
          else Ret (FR_OK, 0, fp1, v1))
      else Ret (FR_OK, 0, fp, v))"

definition f_lseek :: "'d diskio \<Rightarrow> u32 \<Rightarrow> FIL \<Rightarrow> 'd volume \<Rightarrow> (FRESULT \<times> FIL \<times> 'd volume) cpp" where
  "f_lseek io ofs fp v =
     cbind (validate io fp v) (\<lambda>res.
      if res \<noteq> FR_OK then Ret (res, fp, v)
      else if err fp \<noteq> FR_OK then Ret (err fp, fp, v)
      else
        let ofs = (if ofs > objsize fp \<and> flag fp AND FA_WRITE = 0 then objsize fp else ofs) in
        cbind (seek_move io ofs (fptr fp) (fp\<lparr>fptr := 0\<rparr>) v) (\<lambda>(r, nsect, fp1, v1).
          if r \<noteq> FR_OK then Ret (r, fp1\<lparr>err := r\<rparr>, v1)
          else let fp2 = (if fptr fp1 > objsize fp1
                          then fp1\<lparr>objsize := fptr fp1, flag := flag fp1 OR FA_MODIFIED\<rparr> else fp1) in
            if fptr fp2 mod 512 \<noteq> 0 \<and> nsect \<noteq> sect fp2 then
              cbind (flush_buf io fp2 v1) (\<lambda>(r, fp3, v2).
                if r \<noteq> FR_OK then Ret (r, fp3\<lparr>err := r\<rparr>, v2)
                else cbind (load_buf io nsect fp3 v2) (\<lambda>(r, fp4, v3).
                  if r \<noteq> FR_OK then Ret (r, fp4\<lparr>err := r\<rparr>, v3)
                  else Ret (FR_OK, fp4\<lparr>sect := nsect\<rparr>, v3)))
            else Ret (FR_OK, fp2, v1)))"

section \<open>Truncation\<close>

definition f_truncate :: "'d diskio \<Rightarrow> FIL \<Rightarrow> 'd volume \<Rightarrow> (FRESULT \<times> FIL \<times> 'd volume) cpp" where
  "f_truncate io fp v =
     cbind (validate io fp v) (\<lambda>res.
      if res \<noteq> FR_OK then Ret (res, fp, v)
      else if err fp \<noteq> FR_OK then Ret (err fp, fp, v)
      else if flag fp AND FA_WRITE = 0 then Ret (FR_DENIED, fp, v)
      else if fptr fp < objsize fp then
        cbind (if fptr fp = 0 then
                 cbind (remove_chain io (sclust fp) 0 v) (\<lambda>(r, v1). Ret (r, fp\<lparr>sclust := 0\<rparr>, v1))
               else
                 cbind (get_fat io (clust fp) v) (\<lambda>(ncl, v1).
                   let r = (if ncl = 1 then FR_INT_ERR else if ncl = 0xFFFFFFFF then FR_DISK_ERR else FR_OK) in
                   if r = FR_OK \<and> ncl < n_fatent v1
                   then cbind (remove_chain io ncl (clust fp) v1) (\<lambda>(r, v2). Ret (r, fp, v2))
                   else Ret (r, fp, v1))) (\<lambda>(r, fp1, v1).
          let fp2 = fp1\<lparr>objsize := fptr fp1, flag := flag fp1 OR FA_MODIFIED\<rparr> in
          cbind (if r = FR_OK then flush_buf io fp2 v1 else Ret (r, fp2, v1)) (\<lambda>(r, fp3, v2).
            if r \<noteq> FR_OK then Ret (r, fp3\<lparr>err := r\<rparr>, v2) else Ret (FR_OK, fp3, v2)))
      else Ret (FR_OK, fp, v))"

section \<open>Synchronisation and closing\<close>

definition DIR_Attr :: nat where "DIR_Attr = 11"
definition DIR_LstAccDate :: nat where "DIR_LstAccDate = 18"
definition DIR_FstClusHI :: nat where "DIR_FstClusHI = 20"
definition DIR_ModTime :: nat where "DIR_ModTime = 22"
definition DIR_FstClusLO :: nat where "DIR_FstClusLO = 26"
definition DIR_FileSize :: nat where "DIR_FileSize = 28"
definition AM_ARC :: u8 where "AM_ARC = 0x20"

text \<open>A directory entry is a position in the window.\<close>

definition ld_clust :: "'a FATFS_scheme \<Rightarrow> bytes \<Rightarrow> nat \<Rightarrow> u32" where
  "ld_clust fs w dir =
     (let cl = ucast (ld_word w (dir + DIR_FstClusLO)) in
      if fs_type fs = FS_FAT32 then cl OR push_bit 16 (ucast (ld_word w (dir + DIR_FstClusHI))) else cl)"

definition st_clust :: "'a FATFS_scheme \<Rightarrow> bytes \<Rightarrow> nat \<Rightarrow> u32 \<Rightarrow> bytes" where
  "st_clust fs w dir cl =
     (let w1 = st_word w (dir + DIR_FstClusLO) (ucast cl) in
      if fs_type fs = FS_FAT32 then st_word w1 (dir + DIR_FstClusHI) (ucast (drop_bit 16 cl)) else w1)"

text \<open>The entry of the file as \<open>f_sync\<close> writes it.\<close>

definition sync_entry :: "FIL \<Rightarrow> 'd volume \<Rightarrow> bytes" where
  "sync_entry fp v =
     (let dir = dir_ptr fp;
          w1 = (win v)[dir + DIR_Attr := (win v ! (dir + DIR_Attr)) OR AM_ARC];
          w2 = st_clust v w1 dir (sclust fp);
          w3 = st_dword w2 (dir + DIR_FileSize) (objsize fp);
          w4 = st_dword w3 (dir + DIR_ModTime) get_fattime in
      st_word w4 (dir + DIR_LstAccDate) 0)"

definition f_sync :: "'d diskio \<Rightarrow> FIL \<Rightarrow> 'd volume \<Rightarrow> (FRESULT \<times> FIL \<times> 'd volume) cpp" where
  "f_sync io fp v =
     cbind (validate io fp v) (\<lambda>res.
      if res \<noteq> FR_OK then Ret (res, fp, v)
      else if flag fp AND FA_MODIFIED \<noteq> 0 then
        cbind (flush_buf io fp v) (\<lambda>(r, fp1, v1).
          if r \<noteq> FR_OK then Ret (r, fp1, v1)
          else cbind (move_window io (dir_sect fp1) v1) (\<lambda>(r, v2).
            if r \<noteq> FR_OK then Ret (r, fp1, v2)
            else cbind (sync_fs io (v2\<lparr>win := sync_entry fp1 v2, wflag := 1\<rparr>)) (\<lambda>(r, v3).
              Ret (r, fp1\<lparr>flag := flag fp1 AND NOT FA_MODIFIED\<rparr>, v3))))
      else Ret (FR_OK, fp, v))"

definition f_close :: "'d diskio \<Rightarrow> FIL \<Rightarrow> 'd volume \<Rightarrow> (FRESULT \<times> FIL \<times> 'd volume) cpp" where
  "f_close io fp v =
     cbind (f_sync io fp v) (\<lambda>(r, fp1, v1).
       if r = FR_OK then
         cbind (validate io fp1 v1) (\<lambda>r2. Ret (r2, if r2 = FR_OK then fp1\<lparr>obj_fs := 0\<rparr> else fp1, v1))
       else Ret (r, fp1, v1))"

end
