(* ===== verification/Fat_File_Data.thy ===== *)
theory Fat_File_Data
  imports Fat_File
begin

text \<open>
  The data of an open file: the sectors of its clusters with the sector in the file's buffer in its
  place. This theory has the arithmetic of clusters and sectors, the invariant of an open file
  (\<open>file_ok\<close>), and the lemmas that the steps of reading and writing keep the data.
\<close>

unbundle bit_operations_syntax

section \<open>Sectors of a file\<close>

abbreviation csz :: "'a FATFS_scheme \<Rightarrow> nat" where "csz v \<equiv> unat (csize v)"

definition cluster_sector :: "'a FATFS_scheme \<Rightarrow> u32 \<Rightarrow> nat" where
  "cluster_sector v c = unat (database v) + csz v * (unat c - 2)"

definition file_sector :: "'a FATFS_scheme \<Rightarrow> u32 list \<Rightarrow> nat \<Rightarrow> nat" where
  "file_sector v xs k = cluster_sector v (xs ! (k div csz v)) + k mod csz v"

lemma csz_cases:
  assumes "geometry_ok cap v"
  obtains e where "e \<le> 7" "csz v = 2 ^ e"
proof -
  have "csz v \<in> {1, 2, 4, 8, 16, 32, 64, 128}" using assms unfolding geometry_ok_def by blast
  then show ?thesis
    using that [of 0] that [of 1] that [of 2] that [of 3] that [of 4] that [of 5] that [of 6] that [of 7] by auto
qed

lemma csz_bounds:
  assumes "geometry_ok cap v"
  shows "0 < csz v" "csz v \<le> 128"
proof -
  obtain e where e: "e \<le> 7" "csz v = 2 ^ e" by (rule csz_cases [OF assms])
  then show "0 < csz v" by simp
  have "(2 :: nat) ^ e \<le> 2 ^ 7" using e(1) by (rule power_increasing) simp
  then show "csz v \<le> 128" using e(2) by simp
qed

lemma unat_csize: "unat (ucast (csize v) :: u32) = csz v"
  by (rule unat_ucast_widen) simp

text \<open>Every cluster has its sectors on the drive, behind the tables.\<close>

lemma cluster_sector_bounds:
  assumes "geometry_ok cap v" and "2 \<le> c" and "c < n_fatent v"
  shows "unat (database v) \<le> cluster_sector v c" "cluster_sector v c + csz v \<le> cap" "cap < 2 ^ 32" "0 < unat (database v)"
proof -
  have c: "2 \<le> unat c" "unat c < unat (n_fatent v)" using assms(2,3) by (simp_all add: word_le_nat_alt word_less_nat_alt)
  then have "unat c - 1 = Suc (unat c - 2)" by simp
  then have "csz v * (unat c - 2) + csz v = csz v * (unat c - 1)" by simp
  also have "\<dots> \<le> csz v * (unat (n_fatent v) - 2)" using c by (intro mult_left_mono) auto
  finally show "cluster_sector v c + csz v \<le> cap" using assms(1) by (simp add: cluster_sector_def geometry_ok_def)
  show "unat (database v) \<le> cluster_sector v c" "cap < 2 ^ 32" "0 < unat (database v)"
    using assms(1) by (auto simp: cluster_sector_def geometry_ok_def)
qed

lemma clst2sect_eq:
  assumes "geometry_ok cap v" and "2 \<le> c" and "c < n_fatent v"
  shows "unat (clst2sect v c) = cluster_sector v c" "clst2sect v c \<noteq> 0"
proof -
  note b = cluster_sector_bounds [OF assms]
  have c: "unat (c - 2) = unat c - 2" "c - 2 < n_fatent v - 2"
    using assms(2,3) by (auto simp: unat_sub word_le_nat_alt word_less_nat_alt)
  have m: "unat (ucast (csize v) * (c - 2) :: u32) = csz v * (unat c - 2)"
    using b c(1) by (subst unat_mult_no_wrap) (auto simp: unat_csize cluster_sector_def)
  have "\<not> n_fatent v - 2 \<le> c - 2" using c(2) by (simp add: not_le)
  then have "clst2sect v c = database v + ucast (csize v) * (c - 2)" by (simp add: clst2sect_def Let_def)
  then show "unat (clst2sect v c) = cluster_sector v c"
    using b m by (simp add: unat_add_no_wrap cluster_sector_def)
  then show "clst2sect v c \<noteq> 0" using b(1,4) by (metis le_0_eq neq0_conv unat_0)
qed

lemma cluster_sector_apart:
  assumes "geometry_ok cap v" and "2 \<le> c" and "2 \<le> c'" and "c \<noteq> c'" and "i < csz v" and "j < csz v"
  shows "cluster_sector v c + i \<noteq> cluster_sector v c' + j"
proof
  assume "cluster_sector v c + i = cluster_sector v c' + j"
  then have "csz v * (unat c - 2) + i = csz v * (unat c' - 2) + j" by (simp add: cluster_sector_def)
  moreover have "(csz v * (unat c - 2) + i) div csz v = unat c - 2" "(csz v * (unat c' - 2) + j) div csz v = unat c' - 2"
    using assms(5,6) by simp_all
  ultimately have "unat c - 2 = unat c' - 2" by simp
  then show False using assms(2-4) by (simp add: word_le_nat_alt word_unat_eq_iff)
qed

text \<open>The clusters \<open>A\<close> contain the sector \<open>t\<close>.\<close>

definition in_clusters :: "'a FATFS_scheme \<Rightarrow> u32 set \<Rightarrow> nat \<Rightarrow> bool" where
  "in_clusters v A t \<longleftrightarrow> (\<exists>c\<in>A. cluster_sector v c \<le> t \<and> t < cluster_sector v c + csz v)"

definition valid_clusters :: "'a FATFS_scheme \<Rightarrow> u32 set \<Rightarrow> bool" where
  "valid_clusters v A \<longleftrightarrow> (\<forall>c\<in>A. 2 \<le> c \<and> c < n_fatent v)"

lemma in_clusters_data:
  assumes "geometry_ok cap v" and "valid_clusters v A" and "in_clusters v A t"
  shows "t < cap" "\<not> in_fat v t" "\<not> mirrored v t" "0 < t" "unat (fatbase v) + unat (n_fats v) * unat (fsize v) \<le> t"
proof -
  obtain c where c: "2 \<le> c" "c < n_fatent v" "cluster_sector v c \<le> t" "t < cluster_sector v c + csz v"
    using assms(2,3) by (auto simp: in_clusters_def valid_clusters_def)
  note b = cluster_sector_bounds [OF assms(1) c(1,2)]
  have "unat (fatbase v) + unat (n_fats v) * unat (fsize v) \<le> unat (database v)" "n_fats v \<in> {1, 2}"
    using assms(1) unfolding geometry_ok_def by blast+
  then show "t < cap" "\<not> in_fat v t" "\<not> mirrored v t" "0 < t" "unat (fatbase v) + unat (n_fats v) * unat (fsize v) \<le> t"
    using b c by (auto simp: in_fat_def mirrored_def)
qed

lemma file_sector_in:
  assumes "geometry_ok cap v" and "k < length xs * csz v"
  shows "in_clusters v (set xs) (file_sector v xs k)"
proof -
  have "0 < csz v" using csz_bounds(1) [OF assms(1)] .
  then have "k div csz v < length xs" "k mod csz v < csz v" using assms(2) by (simp_all add: less_mult_imp_div_less)
  then show ?thesis by (auto simp: in_clusters_def file_sector_def intro!: bexI [of _ "xs ! (k div csz v)"])
qed

lemma file_sector_inj:
  assumes "geometry_ok cap v" and "distinct xs" and "valid_clusters v (set xs)" and "k < length xs * csz v" and "k' < length xs * csz v"
    and "file_sector v xs k = file_sector v xs k'"
  shows "k = k'"
proof -
  have p: "0 < csz v" using csz_bounds(1) [OF assms(1)] .
  then have l: "k div csz v < length xs" "k' div csz v < length xs" "k mod csz v < csz v" "k' mod csz v < csz v"
    using assms(4,5) by (simp_all add: less_mult_imp_div_less)
  have "xs ! (k div csz v) = xs ! (k' div csz v)"
    using cluster_sector_apart [OF assms(1), of "xs ! (k div csz v)" "xs ! (k' div csz v)"] l assms(3,6)
    by (fastforce simp: valid_clusters_def file_sector_def)
  moreover from this have "k mod csz v = k' mod csz v" using assms(6) by (simp add: file_sector_def)
  ultimately have "k div csz v = k' div csz v" using l assms(2) by (simp add: nth_eq_iff_index_eq)
  then show ?thesis using \<open>k mod csz v = k' mod csz v\<close> by (metis div_mult_mod_eq)
qed

lemma file_sector_run:
  assumes "k mod csz v + j < csz v"
  shows "file_sector v xs (k + j) = file_sector v xs k + j"
proof -
  have "k + j = csz v * (k div csz v) + (k mod csz v + j)" by simp
  then have "(k + j) div csz v = k div csz v \<and> (k + j) mod csz v = k mod csz v + j" using assms by (intro div_mod_eqI)
  then show ?thesis by (simp add: file_sector_def)
qed

text \<open>The sector offset of the file pointer.\<close>

lemma csect_of_eq:
  assumes "geometry_ok cap v"
  shows "unat (csect_of fp v) = unat (fptr fp) div 512 mod csz v"
proof -
  obtain e where e: "e \<le> 7" "csz v = 2 ^ e" by (rule csz_cases [OF assms])
  have "ucast (csize v) = (of_nat (csz v) :: u32)" by simp
  also have "\<dots> = 2 ^ e" unfolding e(2) by simp
  finally have "ucast (csize v) = (2 ^ e :: u32)" .
  then have "ucast (csize v) - 1 = (mask e :: u32)" by (simp add: mask_eq_decr_exp)
  then have "csect_of fp v = take_bit e (fptr fp div 512)" by (simp add: csect_of_def take_bit_eq_mask)
  then have "unat (csect_of fp v) = take_bit e (unat (fptr fp) div 512)" by (simp add: unsigned_take_bit_eq unat_div)
  then show ?thesis using e(2) by (simp add: take_bit_eq_mod)
qed

text \<open>What a move of the window or a change of the drive keeps.\<close>

lemma file_sector_dev [simp]:
  "file_sector (v\<lparr>dev := d\<rparr>) = file_sector v" "in_clusters (v\<lparr>dev := d\<rparr>) = in_clusters v"
  "valid_clusters (v\<lparr>dev := d\<rparr>) = valid_clusters v" "csect_of fp (v\<lparr>dev := d\<rparr>) = csect_of fp v"
  "clst2sect (v\<lparr>dev := d\<rparr>) = clst2sect v"
  by (simp_all add: file_sector_def in_clusters_def valid_clusters_def cluster_sector_def csect_of_def clst2sect_def Let_def fun_eq_iff)

lemma realloc_file_fields:
  assumes "realloc v v'"
  shows "file_sector v' = file_sector v" "in_clusters v' = in_clusters v" "valid_clusters v' = valid_clusters v"
    "csect_of fp v' = csect_of fp v" "clst2sect v' = clst2sect v" "csize v' = csize v" "n_fatent v' = n_fatent v" "pdrv v' = pdrv v"
  using realloc_fields [OF assms]
  by (simp_all add: file_sector_def in_clusters_def valid_clusters_def cluster_sector_def csect_of_def clst2sect_def Let_def fun_eq_iff)

section \<open>The data and the invariant of an open file\<close>

definition file_block :: "('d \<Rightarrow> nat \<Rightarrow> bytes) \<Rightarrow> 'd volume \<Rightarrow> FIL \<Rightarrow> u32 list \<Rightarrow> nat \<Rightarrow> bytes" where
  "file_block sec v fp xs k =
     (if unat (sect fp) = file_sector v xs k then buf fp else sec (dev v) (file_sector v xs k))"

definition file_byte :: "('d \<Rightarrow> nat \<Rightarrow> bytes) \<Rightarrow> 'd volume \<Rightarrow> FIL \<Rightarrow> u32 list \<Rightarrow> nat \<Rightarrow> u8" where
  "file_byte sec v fp xs i = file_block sec v fp xs (i div 512) ! (i mod 512)"

text \<open>The buffer holds a sector of the file, and what the drive has in it unless it has been changed.\<close>

definition buf_ok :: "('d \<Rightarrow> nat \<Rightarrow> bytes) \<Rightarrow> 'd volume \<Rightarrow> FIL \<Rightarrow> u32 list \<Rightarrow> bool" where
  "buf_ok sec v fp xs \<longleftrightarrow> length (buf fp) = 512
     \<and> (sect fp = 0 \<or> (\<exists>k<length xs * csz v. unat (sect fp) = file_sector v xs k))
     \<and> (sect fp \<noteq> 0 \<and> \<not> is_dirty fp \<longrightarrow> buf fp = sec (dev v) (unat (sect fp)))
     \<and> (is_dirty fp \<longrightarrow> sect fp \<noteq> 0)"

text \<open>The clusters of a file, none for an empty file.\<close>

definition chain_of :: "(u32 \<Rightarrow> u32) \<Rightarrow> u32 \<Rightarrow> u32 \<Rightarrow> u32 list \<Rightarrow> bool" where
  "chain_of F n c xs \<longleftrightarrow> (if c = 0 then xs = [] else xs \<noteq> [] \<and> is_chain F n c xs)"

text \<open>The window is on no sector of the file, and on none that the file may grow into.\<close>

definition window_off :: "('d \<Rightarrow> nat \<Rightarrow> bytes) \<Rightarrow> 'd volume \<Rightarrow> u32 list \<Rightarrow> bool" where
  "window_off sec v xs \<longleftrightarrow>
     \<not> in_clusters v (set xs \<union> free_clusters (fat_of (vol_view sec v) v) (n_fatent v)) (unat (winsect v))"

definition pos_ok :: "'d volume \<Rightarrow> FIL \<Rightarrow> u32 list \<Rightarrow> bool" where
  "pos_ok v fp xs \<longleftrightarrow> unat (fptr fp) \<le> unat (objsize fp) \<and> unat (objsize fp) \<le> length xs * csz v * 512
     \<and> (0 < unat (fptr fp) \<longrightarrow> clust fp = xs ! ((unat (fptr fp) - 1) div 512 div csz v))
     \<and> (unat (fptr fp) mod 512 \<noteq> 0 \<longrightarrow> unat (sect fp) = file_sector v xs (unat (fptr fp) div 512))"

text \<open>The part of the invariant that does not depend on the file pointer.\<close>

definition data_ok :: "('d \<Rightarrow> bool) \<Rightarrow> nat \<Rightarrow> ('d \<Rightarrow> nat \<Rightarrow> bytes) \<Rightarrow> u8 \<Rightarrow> 'd volume \<Rightarrow> FIL \<Rightarrow> u32 list \<Rightarrow> bool" where
  "data_ok good cap sec drv v fp xs \<longleftrightarrow> vol_ok good cap sec drv v
     \<and> chain_of (fat_of (vol_view sec v) v) (n_fatent v) (sclust fp) xs
     \<and> window_off sec v xs \<and> buf_ok sec v fp xs"

definition file_ok :: "('d \<Rightarrow> bool) \<Rightarrow> nat \<Rightarrow> ('d \<Rightarrow> nat \<Rightarrow> bytes) \<Rightarrow> u8 \<Rightarrow> 'd volume \<Rightarrow> FIL \<Rightarrow> u32 list \<Rightarrow> bool" where
  "file_ok good cap sec drv v fp xs \<longleftrightarrow> data_ok good cap sec drv v fp xs \<and> pos_ok v fp xs"

lemma data_ok_fields [simp]:
  "data_ok good cap sec drv v (fp\<lparr>clust := c\<rparr>) xs = data_ok good cap sec drv v fp xs"
  "data_ok good cap sec drv v (fp\<lparr>fptr := p\<rparr>) xs = data_ok good cap sec drv v fp xs"
  "data_ok good cap sec drv v (fp\<lparr>objsize := n\<rparr>) xs = data_ok good cap sec drv v fp xs"
  "file_block sec v (fp\<lparr>clust := c\<rparr>) = file_block sec v fp" "file_block sec v (fp\<lparr>fptr := p\<rparr>) = file_block sec v fp"
  "file_block sec v (fp\<lparr>objsize := n\<rparr>) = file_block sec v fp" "file_block sec v (fp\<lparr>sclust := c\<rparr>) = file_block sec v fp"
  by (simp_all add: data_ok_def buf_ok_def is_dirty_def file_block_def fun_eq_iff)

lemma clean_simps [simp]: "\<not> is_dirty (clean fp)" "buf (clean fp) = buf fp" "sect (clean fp) = sect fp" "fptr (clean fp) = fptr fp"
  "clust (clean fp) = clust fp" "sclust (clean fp) = sclust fp" "objsize (clean fp) = objsize fp"
  by (simp_all add: clean_def is_dirty_def and.assoc)

lemma clean_id: "\<not> is_dirty fp \<Longrightarrow> clean fp = fp"
proof -
  assume "\<not> is_dirty fp"
  then have "\<not> bit (flag fp AND FA_DIRTY) n" for n by (simp add: is_dirty_def)
  then have "flag fp AND NOT FA_DIRTY = flag fp" by (intro bit_word_eqI) (auto simp: bit_simps)
  then show ?thesis by (simp add: clean_def)
qed

lemma chain_of_facts:
  assumes "chain_of F n c xs"
  shows "distinct xs" "x \<in> set xs \<Longrightarrow> 2 \<le> x \<and> x < n"
  using assms is_chain_distinct [of F n c xs] is_chain_set [of F n c xs x] by (auto simp: chain_of_def split: if_splits)

lemma is_chain_nth: "is_chain F n c xs \<Longrightarrow> Suc i < length xs \<Longrightarrow> F (xs ! i) = xs ! Suc i"
proof (induction xs arbitrary: c i)
  case (Cons x xs)
  then show ?case by (cases i; cases xs) auto
qed simp

lemma is_chain_hd: "is_chain F n c xs \<Longrightarrow> xs \<noteq> [] \<Longrightarrow> xs ! 0 = c"
  by (cases xs) auto

lemma is_chain_last: "is_chain F n c xs \<Longrightarrow> xs \<noteq> [] \<Longrightarrow> n \<le> F (last xs)"
  by (induction xs arbitrary: c) auto

text \<open>Bytes of a run of sectors.\<close>

lemma sector_run_bytes:
  assumes "\<And>t. s \<le> t \<Longrightarrow> t < s + n \<Longrightarrow> length (f t) = 512"
  shows "sector_run f s n = map (\<lambda>i. f (s + i div 512) ! (i mod 512)) [0..<n * 512]"
  using assms
proof (induction n)
  case (Suc n)
  have l: "length (f (s + n)) = 512" using Suc.prems [of "s + n"] by simp
  have "map (\<lambda>i. f (s + i div 512) ! (i mod 512)) [n * 512..<n * 512 + 512] = f (s + n)"
  proof (rule nth_equalityI)
    fix i assume "i < length (map (\<lambda>i. f (s + i div 512) ! (i mod 512)) [n * 512..<n * 512 + 512])"
    then have "i < 512" by simp
    then have "(n * 512 + i) div 512 = n \<and> (n * 512 + i) mod 512 = i" by (intro div_mod_eqI) simp_all
    then show "map (\<lambda>i. f (s + i div 512) ! (i mod 512)) [n * 512..<n * 512 + 512] ! i = f (s + n) ! i"
      using \<open>i < 512\<close> by simp
  qed (simp add: l)
  moreover have "[0..<Suc n * 512] = [0..<n * 512] @ [n * 512..<n * 512 + 512]"
    using upt_add_eq_append [of 0 "n * 512" 512] by (simp add: add.commute)
  ultimately show ?case using Suc by (simp add: sector_run_def)
qed (simp add: sector_run_def)

lemma sector_run_cong: "(\<And>t. s \<le> t \<Longrightarrow> t < s + n \<Longrightarrow> f t = g t) \<Longrightarrow> sector_run f s n = sector_run g s n"
  by (auto simp: sector_run_def intro!: arg_cong [of _ _ concat])

lemma sector_run_blit:
  assumes "\<And>t. s \<le> t \<Longrightarrow> t < s + n \<Longrightarrow> length (f t) = 512" and "j < n" and "length b = 512"
  shows "blit (sector_run f s n) (j * 512) b = sector_run (f(s + j := b)) s n"
proof (rule nth_equalityI)
  have "Suc j * 512 \<le> n * 512" using assms(2) by (intro mult_right_mono) auto
  then have j: "j * 512 + length b \<le> n * 512" using assms(3) by simp
  have f: "sector_run f s n = map (\<lambda>i. f (s + i div 512) ! (i mod 512)) [0..<n * 512]"
    by (rule sector_run_bytes) (rule assms(1))
  have g: "sector_run (f(s + j := b)) s n = map (\<lambda>i. (f(s + j := b)) (s + i div 512) ! (i mod 512)) [0..<n * 512]"
    by (rule sector_run_bytes) (use assms in auto)
  show "length (blit (sector_run f s n) (j * 512) b) = length (sector_run (f(s + j := b)) s n)" using j f g by simp
  fix i assume "i < length (blit (sector_run f s n) (j * 512) b)"
  then have i: "i < n * 512" using j f by simp
  have "i div 512 = j \<and> i mod 512 = i - j * 512" if "j * 512 \<le> i" "i < j * 512 + 512"
    using that by (intro div_mod_eqI) auto
  moreover have "i div 512 \<noteq> j" if "\<not> (j * 512 \<le> i \<and> i < j * 512 + 512)" using that by auto
  ultimately show "blit (sector_run f s n) (j * 512) b ! i = sector_run (f(s + j := b)) s n ! i"
    using i j assms(3) by (auto simp: f g nth_blit)
qed

text \<open>The table depends on its sectors only.\<close>

lemma fat_of_cong:
  assumes "geometry_ok cap v" and "\<And>t. in_fat v t \<Longrightarrow> f t = g t"
  shows "fat_of f v = fat_of g v"
proof
  fix c
  show "fat_of f v c = fat_of g v c"
  proof (cases "c < 2 \<or> n_fatent v \<le> c")
    case False
    then have c: "unat c < unat (n_fatent v)" by (simp add: word_le_nat_alt)
    have ty: "fs_type v \<in> {FS_FAT12, FS_FAT16, FS_FAT32}" using assms(1) by (simp add: geometry_ok_def)
    have "(entry_stride (fs_type v) * unat c + n) div 8 < fat_bytes v" if "n < entry_width (fs_type v)" for n
      using ty that c by (auto simp: entry_stride_def entry_width_def fat_bytes_def fs_types)
    then have "fat_byte f (unat (fatbase v)) ((entry_stride (fs_type v) * unat c + n) div 8)
        = fat_byte g (unat (fatbase v)) ((entry_stride (fs_type v) * unat c + n) div 8)" if "n < entry_width (fs_type v)" for n
      using that in_fat_byte [OF assms(1)] assms(2) by (simp add: fat_byte_def)
    then have "fat_entry f (unat (fatbase v)) (fs_type v) (unat c) = fat_entry g (unat (fatbase v)) (fs_type v) (unat c)"
      by (intro bit_word_eqI) (auto simp: bit_entry_byte)
    then show ?thesis by (simp add: fat_of_def)
  qed (auto simp: fat_of_def)
qed

section \<open>Steps that keep the data\<close>

context sector_device
begin

abbreviation dok :: "'d volume \<Rightarrow> FIL \<Rightarrow> u32 list \<Rightarrow> bool" where "dok \<equiv> data_ok good cap sec drv"
abbreviation fok :: "'d volume \<Rightarrow> FIL \<Rightarrow> u32 list \<Rightarrow> bool" where "fok \<equiv> file_ok good cap sec drv"
abbreviation fblock :: "'d volume \<Rightarrow> FIL \<Rightarrow> u32 list \<Rightarrow> nat \<Rightarrow> bytes" where "fblock \<equiv> file_block sec"

lemma dok_facts:
  assumes "dok v fp xs"
  shows "vok v" "geometry_ok cap v" "good (dev v)" "pdrv v = drv" "distinct xs" "valid_clusters v (set xs)"
    "\<not> in_clusters v (set xs) (unat (winsect v))" "length (buf fp) = 512"
  using assms chain_of_facts [of "vfat v" "n_fatent v" "sclust fp" xs]
  by (auto simp: data_ok_def vol_ok_def valid_clusters_def window_off_def in_clusters_def buf_ok_def)

lemma dok_block_length:
  assumes "dok v fp xs" and "k < length xs * csz v"
  shows "length (fblock v fp xs k) = 512" "length (sec (dev v) (file_sector v xs k)) = 512" "file_sector v xs k < cap"
proof -
  note d = dok_facts [OF assms(1)]
  show c: "file_sector v xs k < cap" using in_clusters_data(1) [OF d(2,6) file_sector_in [OF d(2) assms(2)]] .
  then show "length (sec (dev v) (file_sector v xs k)) = 512" using length_sec [OF d(3)] by simp
  then show "length (fblock v fp xs k) = 512" using d(8) by (simp add: file_block_def)
qed

text \<open>Writing sectors of clusters that the window is not on.\<close>

lemma data_write:
  assumes "vok v" and "good d" and "sec d = (\<lambda>t. if T t then g t else sec (dev v) t)"
    and "\<And>t. T t \<Longrightarrow> \<not> in_fat v t \<and> \<not> mirrored v t \<and> t \<noteq> unat (winsect v)"
  shows "vok (v\<lparr>dev := d\<rparr>)" "vview (v\<lparr>dev := d\<rparr>) = (\<lambda>t. if T t then g t else vview v t)" "vfat (v\<lparr>dev := d\<rparr>) = vfat v"
proof -
  have g: "geometry_ok cap v" using assms(1) by (simp add: vol_ok_def)
  have "\<not> T (unat (fatbase v) + i)" "n_fats v = 2 \<Longrightarrow> \<not> T (unat (fatbase v) + unat (fsize v) + i)" if "i < unat (fsize v)" for i
    using assms(4) [of "unat (fatbase v) + i"] assms(4) [of "unat (fatbase v) + unat (fsize v) + i"] that
    by (auto simp: in_fat_def mirrored_def)
  then have "copies_agree sec (v\<lparr>dev := d\<rparr>)" using assms(1) by (simp add: vol_ok_def copies_agree_def assms(3))
  moreover have "\<not> T (unat (winsect v))" using assms(4) by blast
  ultimately show "vok (v\<lparr>dev := d\<rparr>)" using assms(1,2) by (simp add: vol_ok_def assms(3))
  show view: "vview (v\<lparr>dev := d\<rparr>) = (\<lambda>t. if T t then g t else vview v t)"
    using assms(4) by (auto simp: vol_view_def fun_eq_iff assms(3))
  have "fat_of (vview (v\<lparr>dev := d\<rparr>)) v = vfat v" by (rule fat_of_cong [OF g]) (use view assms(4) in auto)
  moreover have "fat_of f (v\<lparr>dev := d\<rparr>) = fat_of f v" for f by (simp add: fat_of_def fun_eq_iff)
  ultimately show "vfat (v\<lparr>dev := d\<rparr>) = vfat v" by simp
qed

text \<open>Following or changing the chain keeps the sectors of the file.\<close>

lemma data_kept:
  assumes "dok v fp xs" and "realloc v v'" and "vok v'" and "\<And>t. \<not> in_fat v t \<Longrightarrow> vview v' t = vview v t" and "in_clusters v (set xs) t"
  shows "sec (dev v') t = sec (dev v) t"
proof -
  note d = dok_facts [OF assms(1)]
  note t = in_clusters_data [OF d(2,6) assms(5)]
  have "t \<noteq> unat (winsect v)" using d(7) assms(5) by auto
  moreover have "t \<noteq> unat (winsect v')" using realloc_winsect [OF assms(2)] t(2) \<open>t \<noteq> unat (winsect v)\<close> by auto
  ultimately have "sec (dev v') t = vview v' t" "sec (dev v) t = vview v t"
    using t(3) realloc_fields(15) [OF assms(2)] by (simp_all add: vol_view_def)
  then show ?thesis using assms(4) [OF t(2)] by simp
qed

lemma dok_realloc:
  assumes "dok v fp xs" and "realloc v v'" and "vok v'" and "\<And>t. \<not> in_fat v t \<Longrightarrow> vview v' t = vview v t"
    and "chain_of (vfat v') (n_fatent v) (sclust fp) xs" and "window_off sec v' xs"
  shows "dok v' fp xs" "k < length xs * csz v \<Longrightarrow> fblock v' fp xs k = fblock v fp xs k"
proof -
  note d = dok_facts [OF assms(1)] and f = realloc_file_fields [OF assms(2)]
  have s: "sec (dev v') (file_sector v xs k) = sec (dev v) (file_sector v xs k)" if "k < length xs * csz v" for k
    using data_kept [OF assms(1-4) file_sector_in [OF d(2) that]] .
  then have "buf_ok sec v' fp xs" using assms(1) by (auto simp: data_ok_def buf_ok_def f(1,6))
  then show "dok v' fp xs" using assms(3,5,6) f(7) by (simp add: data_ok_def)
  show "fblock v' fp xs k = fblock v fp xs k" if "k < length xs * csz v"
    using s [OF that] by (simp add: file_block_def f(1))
qed

lemma dok_moved:
  assumes "dok v fp xs" and "moved v v'" and "vok v'" and "vview v' = vview v"
  shows "dok v' fp xs" "k < length xs * csz v \<Longrightarrow> fblock v' fp xs k = fblock v fp xs k"
proof -
  have F: "vfat v' = vfat v" using moved_fat_of [OF assms(2)] assms(4) by simp
  note f = realloc_file_fields [OF moved_realloc [OF assms(2)]]
  have g: "geometry_ok cap v" using dok_facts(2) [OF assms(1)] .
  have "valid_clusters v (set xs \<union> free_clusters (vfat v) (n_fatent v))"
    using dok_facts(6) [OF assms(1)] by (auto simp: valid_clusters_def free_clusters_def)
  then have "\<not> in_clusters v (set xs \<union> free_clusters (vfat v) (n_fatent v)) (unat (winsect v'))"
    using moved_winsect [OF assms(2)] in_clusters_data(2) [OF g] assms(1) by (auto simp: data_ok_def window_off_def)
  then have "window_off sec v' xs" unfolding window_off_def f(2,7) F .
  moreover have "chain_of (vfat v') (n_fatent v) (sclust fp) xs" using assms(1) F by (simp add: data_ok_def)
  ultimately show "dok v' fp xs" "k < length xs * csz v \<Longrightarrow> fblock v' fp xs k = fblock v fp xs k"
    using dok_realloc [OF assms(1) moved_realloc [OF assms(2)] assms(3)] assms(4) by auto
qed

text \<open>The buffer is written back: the drive then has the data of the file.\<close>

lemma flush_buf_ok:
  assumes "dok v fp xs"
  obtains d where "flush_buf io fp v = Ret (FR_OK, clean fp, v\<lparr>dev := d\<rparr>)" "dok (v\<lparr>dev := d\<rparr>) (clean fp) xs"
    "\<And>k. k < length xs * csz v \<Longrightarrow> fblock (v\<lparr>dev := d\<rparr>) (clean fp) xs k = fblock v fp xs k"
    "\<And>k. k < length xs * csz v \<Longrightarrow> sec d (file_sector v xs k) = fblock v fp xs k"
    "\<And>t. \<not> in_clusters v (set xs) t \<Longrightarrow> sec d t = sec (dev v) t" "vfat (v\<lparr>dev := d\<rparr>) = vfat v"
proof (cases "is_dirty fp")
  case False
  have e: "v\<lparr>dev := dev v\<rparr> = v" by simp
  have b: "fblock v fp xs k = sec (dev v) (file_sector v xs k)" if "k < length xs * csz v" for k
    using assms False in_clusters_data(4) [OF dok_facts(2,6) [OF assms] file_sector_in [OF dok_facts(2) [OF assms] that]]
    by (auto simp: file_block_def data_ok_def buf_ok_def)
  show ?thesis
    by (rule that [of "dev v"]) (simp_all add: flush_buf_def False e clean_id [OF False] assms b)
next
  case True
  note d = dok_facts [OF assms]
  obtain k where k: "k < length xs * csz v" "unat (sect fp) = file_sector v xs k" and ne: "sect fp \<noteq> 0"
    using assms True by (auto simp: data_ok_def buf_ok_def)
  note in_file = file_sector_in [OF d(2) k(1)]
  obtain d' where d': "dio_write io drv (buf fp) (sect fp) 1 (dev v) = Ret (RES_OK, d')" "good d'"
    "sec d' = (sec (dev v))(unat (sect fp) := buf fp)"
    using write_one [OF d(3), of "sect fp" "buf fp"] k(2) d(8) dok_block_length(3) [OF assms k(1)] by auto
  have s: "sec d' = (\<lambda>t. if t = unat (sect fp) then buf fp else sec (dev v) t)" using d'(3) by (simp add: fun_eq_iff)
  note t = in_clusters_data [OF d(2,6) in_file] and w = d(7)
  have off: "\<not> in_fat v t \<and> \<not> mirrored v t \<and> t \<noteq> unat (winsect v)" if "t = unat (sect fp)" for t
    using that k(2) t w in_file by auto
  note dw = data_write [OF d(1) d'(2) s off]
  have "dok (v\<lparr>dev := d'\<rparr>) (clean fp) xs"
    using assms dw(1,3) k ne d'(3) by (auto simp: data_ok_def buf_ok_def window_off_def)
  moreover have "flush_buf io fp v = Ret (FR_OK, clean fp, v\<lparr>dev := d'\<rparr>)" using True d'(1) d(4) by (simp add: flush_buf_def)
  ultimately show ?thesis by (intro that [of d']) (use dw(3) in_file k(2) in \<open>auto simp: file_block_def d'(3)\<close>)
qed

text \<open>The buffer is loaded with a sector of the file.\<close>

lemma load_buf_ok:
  assumes "dok v fp xs" and "k < length xs * csz v" and "unat s = file_sector v xs k"
  obtains d where "load_buf io s fp v = Ret (FR_OK, fp\<lparr>buf := sec (dev v) (unat s)\<rparr>, v\<lparr>dev := d\<rparr>)" "good d" "sec d = sec (dev v)"
proof -
  note d = dok_facts [OF assms(1)] and l = dok_block_length [OF assms(1,2)]
  obtain d' where d': "dio_read io drv s 1 (dev v) = Ret (RES_OK, sec (dev v) (unat s), d')" "good d'" "sec d' = sec (dev v)"
    using read_one [OF d(3), of s] assms(3) l(3) by auto
  moreover have "fill_buffer (buf fp) (sec (dev v) (unat s)) = sec (dev v) (unat s)"
    using l(2) d(8) assms(3) by (simp add: fill_buffer_def)
  ultimately show ?thesis using that d(4) by (simp add: load_buf_def)
qed

lemma dok_same_sectors:
  assumes "dok v fp xs" and "good d" and "sec d = sec (dev v)"
  shows "dok (v\<lparr>dev := d\<rparr>) fp xs" "fblock (v\<lparr>dev := d\<rparr>) fp xs = fblock v fp xs" "vfat (v\<lparr>dev := d\<rparr>) = vfat v"
proof -
  have s: "sec d = (\<lambda>t. if False then [] else sec (dev v) t)" using assms(3) by simp
  note w = data_write [OF dok_facts(1) [OF assms(1)] assms(2) s]
  show F: "vfat (v\<lparr>dev := d\<rparr>) = vfat v" by (rule w(3)) simp
  have "vok (v\<lparr>dev := d\<rparr>)" by (rule w(1)) simp
  then show "dok (v\<lparr>dev := d\<rparr>) fp xs" using assms(1,3) F by (simp add: data_ok_def buf_ok_def window_off_def)
  show "fblock (v\<lparr>dev := d\<rparr>) fp xs = fblock v fp xs" using assms(3) by (simp add: file_block_def fun_eq_iff)
qed

text \<open>The buffer of a clean file is replaced by another sector of the file.\<close>

lemma dok_loaded:
  assumes "dok v fp xs" and "\<not> is_dirty fp" and "k < length xs * csz v" and "unat s = file_sector v xs k"
  shows "dok v (fp\<lparr>buf := sec (dev v) (unat s), sect := s\<rparr>) xs"
    "j < length xs * csz v \<Longrightarrow> fblock v (fp\<lparr>buf := sec (dev v) (unat s), sect := s\<rparr>) xs j = fblock v fp xs j"
proof -
  have "\<not> is_dirty (fp\<lparr>buf := sec (dev v) (unat s), sect := s\<rparr>)" using assms(2) by (simp add: is_dirty_def)
  then show "dok v (fp\<lparr>buf := sec (dev v) (unat s), sect := s\<rparr>) xs"
    using assms dok_block_length(2) [OF assms(1,3)] by (auto simp: data_ok_def buf_ok_def)
  have "fblock v fp xs j = sec (dev v) (file_sector v xs j)" if "j < length xs * csz v" for j
    using assms in_clusters_data(4) [OF dok_facts(2,6) [OF assms(1)] file_sector_in [OF dok_facts(2) [OF assms(1)] that]]
    by (auto simp: file_block_def data_ok_def buf_ok_def)
  then show "j < length xs * csz v \<Longrightarrow> fblock v (fp\<lparr>buf := sec (dev v) (unat s), sect := s\<rparr>) xs j = fblock v fp xs j"
    by (simp add: file_block_def)
qed

end

end
