(* ===== verification/Fat_File_Read.thy ===== *)
theory Fat_File_Read
  imports Fat_File_Data
begin

text \<open>
  Reading an open file of FatFs: \<open>f_read\<close> returns the bytes at the file pointer, whether they come
  from the buffer, are loaded into it, or are transferred directly, and it changes no data.
\<close>

unbundle bit_operations_syntax

section \<open>Positions\<close>

lemma pred_div_inside: "q mod c \<noteq> 0 \<Longrightarrow> (q - 1) div c = q div c" for q c :: nat
proof -
  assume "q mod c \<noteq> 0"
  then have "q - 1 = c * (q div c) + (q mod c - 1)" by (simp add: mult.commute)
  moreover have "c > 0 \<Longrightarrow> q mod c - 1 < c" by (simp add: less_imp_diff_less)
  ultimately show ?thesis using div_mod_eqI [of "q - 1" c "q div c" "q mod c - 1"] by (cases "c = 0") simp_all
qed

lemma pred_div_boundary: "q mod c = 0 \<Longrightarrow> 0 < q \<Longrightarrow> 0 < c \<Longrightarrow> (q - 1) div c = q div c - 1" for q c :: nat
proof -
  assume a: "q mod c = 0" "0 < q" "0 < c"
  then obtain m where m: "q = c * m" "0 < m" by (auto simp: mod_eq_0_iff_dvd)
  then have "q - 1 = c * (m - 1) + (c - 1)" using a(3) by (cases m) simp_all
  then have "(q - 1) div c = m - 1" using div_mod_eqI [of "q - 1" c "m - 1" "c - 1"] a(3) by simp
  then show ?thesis using m a(3) by simp
qed

lemma sector_before: "p mod 512 = 0 \<Longrightarrow> 0 < p \<Longrightarrow> (p - 1) div 512 = p div 512 - 1 \<and> 0 < p div 512" for p :: nat
proof -
  assume p: "p mod 512 = 0" "0 < p"
  have "0 < p div 512" using p by (cases "p div 512 = 0") simp_all
  then show ?thesis using pred_div_boundary [of p 512] p by simp
qed

lemma sub_less_iff:
  fixes a s c :: u32
  assumes "unat s + unat c \<le> 2 ^ 32"
  shows "a - s < c \<longleftrightarrow> unat s \<le> unat a \<and> unat a < unat s + unat c" "unat s \<le> unat a \<Longrightarrow> unat (a - s) = unat a - unat s"
proof -
  show e: "unat s \<le> unat a \<Longrightarrow> unat (a - s) = unat a - unat s" by (simp add: unat_sub word_le_nat_alt)
  show "a - s < c \<longleftrightarrow> unat s \<le> unat a \<and> unat a < unat s + unat c"
    using assms u32_lt [of a] by (auto simp: word_less_nat_alt unat_sub_if' word_le_nat_alt split: if_splits)
qed

lemma map_upt_shift: "map f [p..<p + n] = map (\<lambda>i. f (p + i)) [0..<n]"
  by (rule nth_equalityI) simp_all

context sector_device
begin

abbreviation fbyte :: "'d volume \<Rightarrow> FIL \<Rightarrow> u32 list \<Rightarrow> nat \<Rightarrow> u8" where "fbyte \<equiv> file_byte sec"

lemma fok_facts:
  assumes "fok v fp xs"
  shows "dok v fp xs" "geometry_ok cap v" "vok v" "0 < csz v" "csz v \<le> 128"
    "unat (fptr fp) \<le> unat (objsize fp)" "unat (objsize fp) \<le> length xs * csz v * 512"
proof -
  show d: "dok v fp xs" "unat (fptr fp) \<le> unat (objsize fp)" "unat (objsize fp) \<le> length xs * csz v * 512"
    using assms by (simp_all add: file_ok_def pos_ok_def)
  show g: "geometry_ok cap v" "vok v" using dok_facts [OF d(1)] by simp_all
  show "0 < csz v" "csz v \<le> 128" using csz_bounds [OF g(1)] .
qed

text \<open>A byte of the file lies in a sector and a cluster of the file.\<close>

lemma byte_position:
  assumes "0 < csz v" and "p < length xs * csz v * 512"
  shows "p div 512 < length xs * csz v" "p div 512 div csz v < length xs"
  using assms by (simp_all add: less_mult_imp_div_less)

lemma cluster_of_position:
  assumes "dok v fp xs" and "m < length xs"
  shows "2 \<le> xs ! m" "xs ! m < n_fatent v" "xs ! m \<noteq> 0xFFFFFFFF" "\<not> xs ! m < 2"
proof -
  show c: "2 \<le> xs ! m" "xs ! m < n_fatent v" using dok_facts(6) [OF assms(1)] assms(2) by (auto simp: valid_clusters_def)
  then show "\<not> xs ! m < 2" by simp
  show "xs ! m \<noteq> 0xFFFFFFFF" using cluster_bounds(2) [OF dok_facts(2) [OF assms(1)] c(2)] by auto
qed

lemma next_cluster:
  assumes "dok v fp xs" and "Suc m < length xs"
  shows "vfat v (xs ! m) = xs ! Suc m"
proof -
  have "is_chain (vfat v) (n_fatent v) (sclust fp) xs" using assms by (auto simp: data_ok_def chain_of_def split: if_splits)
  then show ?thesis using is_chain_nth assms(2) by blast
qed

text \<open>The cluster of the file pointer, at the start of a sector.\<close>

lemma current_cluster:
  assumes "fok v fp xs" and "unat (fptr fp) mod 512 = 0" and "unat (fptr fp) div 512 mod csz v \<noteq> 0"
  shows "clust fp = xs ! (unat (fptr fp) div 512 div csz v)"
proof -
  have p: "0 < unat (fptr fp)" using assms(3) by (cases "unat (fptr fp) = 0") simp_all
  show ?thesis using p sector_before [OF assms(2) p] assms(1,3) pred_div_inside [of "unat (fptr fp) div 512" "csz v"] by (simp add: file_ok_def pos_ok_def)
qed

lemma previous_cluster:
  assumes "fok v fp xs" and "unat (fptr fp) mod 512 = 0" and "unat (fptr fp) div 512 mod csz v = 0" and "0 < unat (fptr fp)"
  shows "clust fp = xs ! (unat (fptr fp) div 512 div csz v - 1)" "0 < unat (fptr fp) div 512 div csz v"
proof -
  let ?q = "unat (fptr fp) div 512"
  have q: "0 < ?q" "(unat (fptr fp) - 1) div 512 = ?q - 1" using sector_before [OF assms(2,4)] by simp_all
  then have "(unat (fptr fp) - 1) div 512 div csz v = ?q div csz v - 1"
    using pred_div_boundary [OF assms(3) q(1) fok_facts(4) [OF assms(1)]] by simp
  then show "clust fp = xs ! (?q div csz v - 1)" using assms(1,4) by (simp add: file_ok_def pos_ok_def)
  show "0 < ?q div csz v" using q(1) assms(3) by (cases "?q div csz v = 0") auto
qed

lemma read_cluster_ok:
  assumes "fok v fp xs" and "unat (fptr fp) mod 512 = 0" and "unat (fptr fp) < unat (objsize fp)"
  obtains v' where "read_cluster io fp v = Ret (FR_OK, fp\<lparr>clust := xs ! (unat (fptr fp) div 512 div csz v)\<rparr>, v')"
    "moved v v'" "vok v'" "vview v' = vview v"
proof -
  let ?q = "unat (fptr fp) div 512"
  note f = fok_facts [OF assms(1)]
  have cs: "csect_of fp v = 0 \<longleftrightarrow> ?q mod csz v = 0"
    using csect_of_eq [OF f(2), of fp] by (metis unat_0 unat_eq_zero)
  have m: "?q div csz v < length xs" using byte_position(2) [OF f(4), of "unat (fptr fp)" xs] assms(3) f(7) by linarith
  note c = cluster_of_position [OF f(1) m]
  consider "?q mod csz v \<noteq> 0" | "?q mod csz v = 0" "fptr fp = 0" | "?q mod csz v = 0" "fptr fp \<noteq> 0" by blast
  then show ?thesis
  proof cases
    case 1
    then have "fp\<lparr>clust := xs ! (?q div csz v)\<rparr> = fp" using current_cluster [OF assms(1,2)] by simp
    then show ?thesis using that [of v] 1 cs f(3) by (simp add: read_cluster_def)
  next
    case 2
    have "sclust fp = xs ! 0" using f(1) m is_chain_hd [of "vfat v" "n_fatent v" "sclust fp" xs]
      by (auto simp: data_ok_def chain_of_def split: if_splits)
    then show ?thesis using that [of v] 2 cs f(3) c by (simp add: read_cluster_def)
  next
    case 3
    then have p: "0 < unat (fptr fp)" by (simp add: unat_gt_0)
    note pc = previous_cluster [OF assms(1,2) 3(1) p]
    obtain v' where v': "get_fat io (clust fp) v = Ret (vfat v (clust fp), v')" "vok v'" "vview v' = vview v" "moved v v'"
      using read_entry [OF f(3)] by blast
    have "vfat v (clust fp) = xs ! (?q div csz v)" using next_cluster [OF f(1), of "?q div csz v - 1"] pc m by simp
    then show ?thesis using that [of v'] v' 3 cs c by (simp add: read_cluster_def)
  qed
qed

end

text \<open>What reading keeps of the file object: all but the buffer, its flag and the current cluster.\<close>

definition fil_kept :: "FIL \<Rightarrow> FIL \<Rightarrow> bool" where
  "fil_kept fp fp' \<longleftrightarrow> (\<exists>c f s b. fp' = fp\<lparr>flag := f, clust := c, sect := s, buf := b\<rparr>
     \<and> f AND NOT FA_DIRTY = flag fp AND NOT FA_DIRTY)"

lemma fil_keptI: "f AND NOT FA_DIRTY = flag fp AND NOT FA_DIRTY \<Longrightarrow> fil_kept fp (fp\<lparr>flag := f, clust := c, sect := s, buf := b\<rparr>)"
  unfolding fil_kept_def by blast

lemma fil_kept_refl [simp]: "fil_kept fp fp"
proof -
  have "fp = fp\<lparr>flag := flag fp, clust := clust fp, sect := sect fp, buf := buf fp\<rparr>" by simp
  then show ?thesis unfolding fil_kept_def by blast
qed

lemma fil_kept_trans: "fil_kept fp fp' \<Longrightarrow> fil_kept fp' fp'' \<Longrightarrow> fil_kept fp fp''"
  unfolding fil_kept_def by (elim exE conjE) (simp, blast)

lemma fil_kept_fields:
  assumes "fil_kept fp fp'"
  shows "fptr fp' = fptr fp" "objsize fp' = objsize fp" "sclust fp' = sclust fp" "err fp' = err fp" "obj_fs fp' = obj_fs fp"
    "obj_id fp' = obj_id fp" "dir_sect fp' = dir_sect fp" "dir_ptr fp' = dir_ptr fp"
    "flag fp' AND NOT FA_DIRTY = flag fp AND NOT FA_DIRTY"
  using assms by (auto simp: fil_kept_def)

lemma fil_kept_fptr:
  assumes "fil_kept fp fp1" and "fil_kept (fp1\<lparr>fptr := q\<rparr>) fp'"
  shows "fil_kept fp (fp'\<lparr>fptr := fptr fp\<rparr>)"
  using assms unfolding fil_kept_def by (elim exE conjE) (simp, blast)

lemma fil_kept_clean: "fil_kept fp (clean fp)"
proof -
  have e: "clean fp = fp\<lparr>flag := flag fp AND NOT FA_DIRTY, clust := clust fp, sect := sect fp, buf := buf fp\<rparr>" by (simp add: clean_def)
  show ?thesis unfolding e by (rule fil_keptI) (simp add: and.assoc)
qed

lemma fil_kept_clust: "fil_kept fp (fp\<lparr>clust := c\<rparr>)"
proof -
  have "fp\<lparr>clust := c\<rparr> = fp\<lparr>flag := flag fp, clust := c, sect := sect fp, buf := buf fp\<rparr>" by simp
  then show ?thesis unfolding fil_kept_def by blast
qed

lemma fil_kept_load: "fil_kept fp (fp\<lparr>buf := b, sect := s\<rparr>)"
proof -
  have "fp\<lparr>buf := b, sect := s\<rparr> = fp\<lparr>flag := flag fp, clust := clust fp, sect := s, buf := b\<rparr>" by simp
  then show ?thesis unfolding fil_kept_def by blast
qed

text \<open>The position after a step inside a sector, and after whole sectors of a cluster.\<close>

lemma pos_partial:
  assumes "0 < r" and "unat (fptr fp) mod 512 + unat r \<le> 512" and "unat (fptr fp) + unat r \<le> unat (objsize fp)"
    and "unat (objsize fp) \<le> length xs * csz v * 512" and "clust fp = xs ! (unat (fptr fp) div 512 div csz v)"
    and "unat (sect fp) = file_sector v xs (unat (fptr fp) div 512)"
  shows "pos_ok v (fp\<lparr>fptr := fptr fp + r\<rparr>) xs"
proof -
  let ?p = "unat (fptr fp)" and ?r = "unat r"
  have r: "0 < ?r" using assms(1) by (simp add: word_less_nat_alt)
  have u: "unat (fptr fp + r) = ?p + ?r" using assms(3) u32_lt [of "objsize fp"] by (intro unat_add_no_wrap) simp
  have e: "?p + ?r - 1 = 512 * (?p div 512) + (?p mod 512 + ?r - 1)" using r mult_div_mod_eq [of 512 ?p] by linarith
  have "(?p + ?r - 1) div 512 = ?p div 512"
    by (rule div_mod_eqI [OF e, THEN conjunct1]) (use assms(2) r in linarith)
  moreover have "(?p + ?r) div 512 = ?p div 512" if "(?p + ?r) mod 512 \<noteq> 0"
  proof -
    have "?p mod 512 + ?r \<noteq> 512" using that by (metis mod_add_left_eq mod_self)
    moreover have "?p + ?r = 512 * (?p div 512) + (?p mod 512 + ?r)" by simp
    ultimately show ?thesis using assms(2) div_mod_eqI [of "?p + ?r" 512 "?p div 512" "?p mod 512 + ?r"] by simp
  qed
  ultimately show ?thesis using assms u by (simp add: pos_ok_def)
qed

lemma pos_direct:
  assumes "0 < unat cc" and "unat (fptr fp) mod 512 = 0" and "unat r = 512 * unat cc"
    and "unat (fptr fp) div 512 mod csz v + unat cc \<le> csz v" and "unat (fptr fp) + unat r \<le> unat (objsize fp)"
    and "unat (objsize fp) \<le> length xs * csz v * 512" and "clust fp = xs ! (unat (fptr fp) div 512 div csz v)"
  shows "pos_ok v (fp\<lparr>fptr := fptr fp + r\<rparr>) xs"
proof -
  let ?p = "unat (fptr fp)" and ?q = "unat (fptr fp) div 512"
  have u: "unat (fptr fp + r) = ?p + 512 * unat cc"
    using assms(3,5) u32_lt [of "objsize fp"] by (subst unat_add_no_wrap) simp_all
  have p: "?p = 512 * ?q" using assms(2) mult_div_mod_eq [of 512 ?p] by linarith
  have m: "(?p + 512 * unat cc) mod 512 = 0" using assms(2) by simp
  have "(?p + 512 * unat cc - 1) div 512 = ?q + unat cc - 1"
    using p assms(1) div_mod_eqI [of "?p + 512 * unat cc - 1" 512 "?q + unat cc - 1" 511] by simp
  moreover have "(?q + unat cc - 1) div csz v = ?q div csz v"
  proof -
    have "?q + unat cc - 1 = csz v * (?q div csz v) + (?q mod csz v + unat cc - 1)" using assms(1) mult_div_mod_eq [of "csz v" ?q] by linarith
    then show ?thesis using assms(1,4) div_mod_eqI [of "?q + unat cc - 1" "csz v" "?q div csz v" "?q mod csz v + unat cc - 1"] by simp
  qed
  ultimately show ?thesis using assms(3,5-7) u m by (simp add: pos_ok_def)
qed

lemma rest_of_sector_eq: "unat (rest_of_sector bt fp) = min (unat bt) (512 - unat (fptr fp) mod 512)"
proof -
  have m: "unat (fptr fp mod 512) = unat (fptr fp) mod 512" by (simp add: unat_mod)
  then have "fptr fp mod 512 \<le> 512" by (simp add: word_le_nat_alt)
  then have "unat (512 - fptr fp mod 512) = 512 - unat (fptr fp) mod 512" using m by (simp add: unat_sub)
  then show ?thesis by (simp add: rest_of_sector_def Let_def word_less_nat_alt min_def)
qed

lemma moved_dev: "moved v (v\<lparr>dev := d\<rparr>)"
proof -
  have "v\<lparr>dev := d\<rparr> = v\<lparr>wflag := wflag v, win := win v, winsect := winsect v, dev := d\<rparr>" by simp
  then show ?thesis unfolding moved_def by blast
qed

section \<open>Reading\<close>

context sector_device
begin

lemma read_sector_ok:
  assumes "dok v fp xs" and "k < length xs * csz v" and "unat s = file_sector v xs k"
  obtains fp' d where "read_sector io s fp v = Ret (FR_OK, fp', v\<lparr>dev := d\<rparr>)" "dok (v\<lparr>dev := d\<rparr>) fp' xs"
    "\<And>j. j < length xs * csz v \<Longrightarrow> fblock (v\<lparr>dev := d\<rparr>) fp' xs j = fblock v fp xs j" "sect fp' = s" "clust fp' = clust fp"
    "fil_kept fp fp'" "vfat (v\<lparr>dev := d\<rparr>) = vfat v"
proof (cases "sect fp = s")
  case True
  have e: "v\<lparr>dev := dev v\<rparr> = v" "fp\<lparr>sect := s\<rparr> = fp" using True by simp_all
  show ?thesis by (rule that [of fp "dev v"]) (use True assms(1) in \<open>simp_all add: read_sector_def e\<close>)
next
  case False
  obtain d1 where d1: "flush_buf io fp v = Ret (FR_OK, clean fp, v\<lparr>dev := d1\<rparr>)" "dok (v\<lparr>dev := d1\<rparr>) (clean fp) xs"
    "\<And>k. k < length xs * csz v \<Longrightarrow> fblock (v\<lparr>dev := d1\<rparr>) (clean fp) xs k = fblock v fp xs k" "vfat (v\<lparr>dev := d1\<rparr>) = vfat v"
    using flush_buf_ok [OF assms(1)] by metis
  let ?v = "v\<lparr>dev := d1\<rparr>" and ?fp = "(clean fp)\<lparr>buf := sec d1 (unat s), sect := s\<rparr>"
  obtain d2 where d2: "load_buf io s (clean fp) ?v = Ret (FR_OK, (clean fp)\<lparr>buf := sec d1 (unat s)\<rparr>, v\<lparr>dev := d2\<rparr>)" "good d2" "sec d2 = sec d1"
    using load_buf_ok [OF d1(2), of k s] assms(2,3) by auto
  have l: "dok ?v ?fp xs" "\<And>j. j < length xs * csz v \<Longrightarrow> fblock ?v ?fp xs j = fblock v fp xs j"
    using dok_loaded [OF d1(2), of k s] assms(2,3) d1(3) by auto
  note s = dok_same_sectors [OF l(1) d2(2)]
  have "read_sector io s fp v = Ret (FR_OK, ?fp, v\<lparr>dev := d2\<rparr>)" using False d1(1) d2(1) by (simp add: read_sector_def)
  moreover have "fil_kept fp ?fp" using fil_kept_trans [OF fil_kept_clean fil_kept_load] .
  ultimately show ?thesis by (intro that [of ?fp d2]) (use s l(2) d1(4) d2(3) in auto)
qed

text \<open>A run of sectors inside a cluster of the file.\<close>

lemma file_run:
  assumes "dok v fp xs" and "unat s = file_sector v xs k" and "0 < unat cc" and "k mod csz v + unat cc \<le> csz v" and "k < length xs * csz v"
  shows "\<And>j. j < unat cc \<Longrightarrow> k + j < length xs * csz v" "\<And>j. j < unat cc \<Longrightarrow> file_sector v xs (k + j) = unat s + j"
    "unat (ucast cc :: u8) = unat cc" "unat s + unat cc \<le> cap" "unat s + unat cc \<le> 2 ^ 32"
proof -
  note d = dok_facts [OF assms(1)] and b = csz_bounds [OF dok_facts(2) [OF assms(1)]]
  have kj: "k + j < length xs * csz v" "file_sector v xs (k + j) = unat s + j" if "j < unat cc" for j
  proof -
    have "k + j = csz v * (k div csz v) + (k mod csz v + j)" by simp
    then have "(k + j) div csz v = k div csz v" using that assms(4) div_mod_eqI [of "k + j" "csz v" "k div csz v" "k mod csz v + j"] by simp
    then have "(k + j) div csz v < length xs" using assms(5) b(1) by (simp add: less_mult_imp_div_less)
    then show "k + j < length xs * csz v" using b(1) by (simp add: div_less_iff_less_mult)
    show "file_sector v xs (k + j) = unat s + j" using file_sector_run [of k v j xs] that assms(2,4) by simp
  qed
  then show "\<And>j. j < unat cc \<Longrightarrow> k + j < length xs * csz v" "\<And>j. j < unat cc \<Longrightarrow> file_sector v xs (k + j) = unat s + j" by simp_all
  show "unat (ucast cc :: u8) = unat cc" using assms(4) b(2) by (simp add: unsigned_ucast_eq take_bit_nat_eq_self)
  have "unat cc - 1 < unat cc" using assms(3) by simp
  from dok_block_length(3) [OF assms(1) kj(1) [OF this]] kj(2) [OF this] show "unat s + unat cc \<le> cap" using assms(3) by simp
  moreover have "cap < 2 ^ 32" using d(2) by (simp add: geometry_ok_def)
  ultimately show "unat s + unat cc \<le> 2 ^ 32" by simp
qed

text \<open>The bytes of such a run are bytes of the file.\<close>

lemma run_bytes:
  assumes "dok v fp xs" and "\<And>j. j < n \<Longrightarrow> k + j < length xs * csz v" and "\<And>j. j < n \<Longrightarrow> g (s + j) = fblock v fp xs (k + j)"
  shows "sector_run g s n = map (fbyte v fp xs) [512 * k..<512 * k + n * 512]"
proof -
  have "length (g t) = 512" if t: "s \<le> t" "t < s + n" for t
    using assms(3) [of "t - s"] t dok_block_length(1) [OF assms(1) assms(2), of "t - s"] by simp
  then have "sector_run g s n = map (\<lambda>i. g (s + i div 512) ! (i mod 512)) [0..<n * 512]" by (rule sector_run_bytes)
  also have "\<dots> = map (\<lambda>i. fbyte v fp xs (512 * k + i)) [0..<n * 512]"
    by (rule map_cong) (auto simp: assms(3) file_byte_def less_mult_imp_div_less)
  finally show ?thesis by (simp only: map_upt_shift)
qed

text \<open>Whole sectors, with the changed sector of the buffer in its place.\<close>

lemma read_direct_ok:
  assumes "dok v fp xs" and "unat s = file_sector v xs k" and "0 < unat cc" and "k mod csz v + unat cc \<le> csz v" and "k < length xs * csz v"
  obtains d where "read_direct io s cc fp v = Ret (FR_OK, map (fbyte v fp xs) [512 * k..<512 * k + unat cc * 512], v\<lparr>dev := d\<rparr>)"
    "good d" "sec d = sec (dev v)"
proof -
  note d = dok_facts [OF assms(1)] and r = file_run [OF assms] and run = run_bytes [OF assms(1) file_run(1) [OF assms]]
  have blk: "fblock v fp xs (k + j) = (if unat (sect fp) = unat s + j then buf fp else sec (dev v) (unat s + j))" if "j < unat cc" for j
    using r(2) [OF that] by (simp add: file_block_def)
  obtain d' where d': "dio_read io drv s (ucast cc) (dev v) = Ret (RES_OK, sector_run (sec (dev v)) (unat s) (unat cc), d')" "good d'" "sec d' = sec (dev v)"
    using read_run [OF d(3), of "ucast cc" s] r(3,4) assms(3) by (auto simp: word_less_nat_alt)
  let ?f = "sec (dev v)"
  have len: "length (?f t) = 512" if "unat s \<le> t" "t < unat s + unat cc" for t using that r(4) length_sec [OF d(3)] by simp
  note sub = sub_less_iff [OF r(5), of "sect fp"]
  have "(if is_dirty fp \<and> sect fp - s < cc then blit (sector_run ?f (unat s) (unat cc)) (unat (sect fp - s) * 512) (buf fp) else sector_run ?f (unat s) (unat cc))
      = map (fbyte v fp xs) [512 * k..<512 * k + unat cc * 512]"
  proof (cases "is_dirty fp \<and> sect fp - s < cc")
    case True
    then have q: "unat s \<le> unat (sect fp)" "unat (sect fp) < unat s + unat cc" using sub(1) by auto
    have "blit (sector_run ?f (unat s) (unat cc)) (unat (sect fp - s) * 512) (buf fp) = sector_run (?f(unat (sect fp) := buf fp)) (unat s) (unat cc)"
      using sector_run_blit [of "unat s" "unat cc" ?f "unat (sect fp) - unat s" "buf fp", OF len] q d(8) sub(2) by simp
    then show ?thesis using True run [of "unat cc" "?f(unat (sect fp) := buf fp)" "unat s"] blk by simp
  next
    case False
    have "?f (unat s + j) = fblock v fp xs (k + j)" if "j < unat cc" for j
      using blk [OF that] False sub(1) that assms(1) in_clusters_data(4) [OF d(2,6) file_sector_in [OF d(2) r(1) [OF that]]] r(2) [OF that]
      by (auto simp: data_ok_def buf_ok_def)
    then show ?thesis using False run [of "unat cc" ?f "unat s"] by auto
  qed
  then show ?thesis using that [of d'] d' d(4) by (simp add: read_direct_def)
qed

text \<open>The number of sectors of a direct transfer, cut at the end of the cluster.\<close>

lemma clip_cluster_ok:
  assumes "geometry_ok cap v" and "unat csect < csz v" and "0 < bt div 512"
  shows "0 < unat (clip_cluster csect (bt div 512) v)" "unat csect + unat (clip_cluster csect (bt div 512) v) \<le> csz v"
    "unat (512 * clip_cluster csect (bt div 512) v) = 512 * unat (clip_cluster csect (bt div 512) v)"
    "512 * unat (clip_cluster csect (bt div 512) v) \<le> unat bt"
proof -
  let ?cc = "bt div 512"
  have b: "csz v \<le> 128" using csz_bounds [OF assms(1)] by simp
  have cc: "unat ?cc = unat bt div 512" "0 < unat ?cc" using assms(3) by (simp_all add: unat_div word_less_nat_alt)
  have "unat ?cc < 2 ^ 23" using u32_lt [of bt] by (simp add: cc(1) less_mult_imp_div_less)
  then have s: "unat (csect + ?cc) = unat csect + unat ?cc" using assms(2) b by (intro unat_add_no_wrap) simp
  have e: "unat (clip_cluster csect ?cc v) = min (unat ?cc) (csz v - unat csect)"
    using s assms(2) by (auto simp: clip_cluster_def word_less_nat_alt unat_csize unat_sub word_le_nat_alt)
  then show "0 < unat (clip_cluster csect ?cc v)" "unat csect + unat (clip_cluster csect ?cc v) \<le> csz v"
    using cc(2) assms(2) by auto
  then show "unat (512 * clip_cluster csect ?cc v) = 512 * unat (clip_cluster csect ?cc v)"
    using b by (subst unat_mult_no_wrap) simp_all
  show "512 * unat (clip_cluster csect ?cc v) \<le> unat bt" using e cc(1) by simp
qed

lemma copy_out_ok:
  assumes "dok v fp xs" and "unat (fptr fp) mod 512 + unat r \<le> 512" and "unat (sect fp) = file_sector v xs (unat (fptr fp) div 512)"
  shows "copy_out r fp = map (fbyte v fp xs) [unat (fptr fp)..<unat (fptr fp) + unat r]"
proof (rule nth_equalityI)
  let ?p = "unat (fptr fp)"
  have b: "length (buf fp) = 512" using dok_facts(8) [OF assms(1)] .
  have m: "unat (fptr fp mod 512) = ?p mod 512" by (simp add: unat_mod)
  show l: "length (copy_out r fp) = length (map (fbyte v fp xs) [?p..<?p + unat r])" using b assms(2) m by (simp add: copy_out_def)
  fix i assume "i < length (copy_out r fp)"
  then have i: "i < unat r" using l by simp
  have "?p + i = 512 * (?p div 512) + (?p mod 512 + i)" by simp
  then have "(?p + i) div 512 = ?p div 512 \<and> (?p + i) mod 512 = ?p mod 512 + i" using i assms(2) by (intro div_mod_eqI) linarith+
  then show "copy_out r fp ! i = map (fbyte v fp xs) [?p..<?p + unat r] ! i"
    using i b assms(2,3) m by (simp add: copy_out_def slice_def file_byte_def file_block_def)
qed

text \<open>One round: the bytes read are bytes of the file, and nothing but the buffer changes.\<close>

definition read_step :: "u32 \<Rightarrow> 'd volume \<Rightarrow> FIL \<Rightarrow> u32 list \<Rightarrow> u32 \<Rightarrow> bytes \<Rightarrow> FIL \<Rightarrow> 'd volume \<Rightarrow> bool" where
  "read_step btr v fp xs rcnt b fp' v' \<longleftrightarrow> 0 < unat rcnt \<and> unat rcnt \<le> unat btr
     \<and> b = map (fbyte v fp xs) [unat (fptr fp)..<unat (fptr fp) + unat rcnt] \<and> dok v' fp' xs \<and> fil_kept fp fp'
     \<and> pos_ok v (fp'\<lparr>fptr := fptr fp + rcnt\<rparr>) xs \<and> moved v v' \<and> vfat v' = vfat v
     \<and> (\<forall>k<length xs * csz v. fblock v' fp' xs k = fblock v fp xs k)"

lemma read_round_partial:
  assumes "dok v fp xs" and "0 < btr" and "unat (fptr fp) + unat btr \<le> unat (objsize fp)" and "unat (objsize fp) \<le> length xs * csz v * 512"
    and "clust fp = xs ! (unat (fptr fp) div 512 div csz v)" and "unat (sect fp) = file_sector v xs (unat (fptr fp) div 512)"
  shows "read_step btr v fp xs (rest_of_sector btr fp) (copy_out (rest_of_sector btr fp) fp) fp v"
proof -
  let ?r = "rest_of_sector btr fp"
  have r: "0 < ?r" "unat (fptr fp) mod 512 + unat ?r \<le> 512" "unat ?r \<le> unat btr"
    using assms(2) by (simp_all add: word_less_nat_alt rest_of_sector_eq)
  have "pos_ok v (fp\<lparr>fptr := fptr fp + ?r\<rparr>) xs" using assms r by (intro pos_partial) auto
  moreover have "copy_out ?r fp = map (fbyte v fp xs) [unat (fptr fp)..<unat (fptr fp) + unat ?r]"
    using copy_out_ok [OF assms(1) r(2) assms(6)] .
  ultimately show ?thesis using r assms(1) by (simp add: read_step_def word_less_nat_alt)
qed

lemma fbyte_cong: "fblock v' fp' xs (i div 512) = fblock v fp xs (i div 512) \<Longrightarrow> fbyte v' fp' xs i = fbyte v fp xs i"
  by (simp add: file_byte_def)

lemma read_step_after:
  assumes "read_step btr v1 fp1 xs r b fp' v'" and "moved v v1" and "vfat v1 = vfat v" and "fil_kept fp fp1"
    and "\<And>k. k < length xs * csz v \<Longrightarrow> fblock v1 fp1 xs k = fblock v fp xs k" and "0 < csz v"
    and "unat (fptr fp) + unat btr \<le> length xs * csz v * 512"
  shows "read_step btr v fp xs r b fp' v'"
proof -
  note f = realloc_file_fields [OF moved_realloc [OF assms(2)]] and k = fil_kept_fields [OF assms(4)]
  have "map (fbyte v1 fp1 xs) [unat (fptr fp)..<unat (fptr fp) + unat r] = map (fbyte v fp xs) [unat (fptr fp)..<unat (fptr fp) + unat r]"
  proof (rule map_cong)
    fix i assume "i \<in> set [unat (fptr fp)..<unat (fptr fp) + unat r]"
    then have "i < length xs * csz v * 512" using assms(1,7) by (simp add: read_step_def)
    then show "fbyte v1 fp1 xs i = fbyte v fp xs i" by (intro fbyte_cong assms(5) byte_position(1) [OF assms(6)])
  qed simp
  moreover have "pos_ok v1 = (pos_ok v :: FIL \<Rightarrow> u32 list \<Rightarrow> bool)" using f(1,6) by (simp add: pos_ok_def fun_eq_iff)
  ultimately show ?thesis
    using assms(1-5) k(1) f(6) moved_trans [OF assms(2)] fil_kept_trans [OF assms(4)] by (auto simp: read_step_def)
qed

lemma read_round_ok:
  assumes "fok v fp xs" and "0 < btr" and "unat (fptr fp) + unat btr \<le> unat (objsize fp)"
  shows "\<exists>r b fp' v'. read_round io btr fp v = Ret (FR_OK, r, b, fp', v') \<and> read_step btr v fp xs r b fp' v'"
proof (cases "unat (fptr fp) mod 512 = 0")
  case False
  have "fptr fp mod 512 \<noteq> 0" using False by (simp add: word_unat_eq_iff unat_mod)
  moreover have "clust fp = xs ! (unat (fptr fp) div 512 div csz v)" "unat (sect fp) = file_sector v xs (unat (fptr fp) div 512)"
    using assms(1) False pred_div_inside [OF False] by (auto simp: file_ok_def pos_ok_def)
  ultimately show ?thesis
    using read_round_partial [OF fok_facts(1) [OF assms(1)] assms(2,3) fok_facts(7) [OF assms(1)]] by (auto simp: read_round_def Let_def)
next
  case True
  let ?p = "unat (fptr fp)" and ?q = "unat (fptr fp) div 512"
  note f = fok_facts [OF assms(1)]
  have b0: "0 < unat btr" using assms(2) by (simp add: word_less_nat_alt)
  have m0: "fptr fp mod 512 = 0" using True by (simp add: word_unat_eq_iff unat_mod)
  have q: "?q < length xs * csz v" "?q div csz v < length xs"
    using byte_position [OF f(4), of ?p xs] assms(3) b0 f(7) by linarith+
  obtain v1 where v1: "read_cluster io fp v = Ret (FR_OK, fp\<lparr>clust := xs ! (?q div csz v)\<rparr>, v1)" "moved v v1" "vok v1" "vview v1 = vview v"
    using read_cluster_ok [OF assms(1) True] assms(3) b0 by auto
  let ?fp = "fp\<lparr>clust := xs ! (?q div csz v)\<rparr>"
  note re = v1(2) and ff = realloc_file_fields [OF moved_realloc [OF v1(2)]]
  have F: "vfat v1 = vfat v" using moved_fat_of [OF v1(2)] v1(4) by simp
  have d1: "dok v1 ?fp xs" "\<And>k. k < length xs * csz v \<Longrightarrow> fblock v1 ?fp xs k = fblock v fp xs k"
    using dok_moved [OF f(1) v1(2-4)] by simp_all
  note c = cluster_of_position [OF f(1) q(2)]
  let ?c = "csect_of fp v" and ?s = "clst2sect v (xs ! (?q div csz v)) + csect_of fp v"
  have cs: "unat ?c = ?q mod csz v" "?q mod csz v < csz v" using csect_of_eq [OF f(2)] f(4) by simp_all
  have s: "unat ?s = file_sector v1 xs ?q" and s0: "clst2sect v (xs ! (?q div csz v)) \<noteq> 0"
    using clst2sect_eq [OF f(2) c(1,2)] cluster_sector_bounds [OF f(2) c(1,2)] cs
    by (auto simp: unat_add_no_wrap file_sector_def ff(1))
  have le: "?p + unat btr \<le> length xs * csz v * 512" using assms(3) f(7) by simp
  note lift = read_step_after [OF _ re F fil_kept_clust d1(2) f(4) le]
  show ?thesis
  proof (cases "0 < btr div 512")
    case True
    let ?cc = "clip_cluster ?c (btr div 512) v1"
    have clip: "?cc = clip_cluster ?c (btr div 512) v" using ff(6) by (simp add: clip_cluster_def)
    have cc: "0 < unat ?cc" "?q mod csz v1 + unat ?cc \<le> csz v1" "unat (512 * ?cc) = 512 * unat ?cc" "512 * unat ?cc \<le> unat btr"
      using clip_cluster_ok [OF f(2), of ?c btr] True cs ff(6) unfolding clip by simp_all
    have q1: "?q < length xs * csz v1" using q(1) ff(6) by simp
    obtain d where d: "read_direct io ?s ?cc ?fp v1 = Ret (FR_OK, map (fbyte v1 ?fp xs) [512 * ?q..<512 * ?q + unat ?cc * 512], v1\<lparr>dev := d\<rparr>)"
      "good d" "sec d = sec (dev v1)" using read_direct_ok [OF d1(1) s cc(1,2) q1] by blast
    have p: "512 * ?q = ?p" using \<open>?p mod 512 = 0\<close> mult_div_mod_eq [of 512 ?p] by linarith
    have "pos_ok v (?fp\<lparr>fptr := fptr ?fp + 512 * ?cc\<rparr>) xs"
      using pos_direct [of ?cc ?fp "512 * ?cc" v xs] \<open>?p mod 512 = 0\<close> cc assms(3) f(7) ff(6) by auto
    moreover have "moved v1 (v1\<lparr>dev := d\<rparr>)" by (rule moved_dev)
    moreover note same = dok_same_sectors [OF d1(1) d(2,3)]
    ultimately have "read_step btr v1 ?fp xs (512 * ?cc) (map (fbyte v1 ?fp xs) [512 * ?q..<512 * ?q + unat ?cc * 512]) ?fp (v1\<lparr>dev := d\<rparr>)"
      using cc p ff(1,6) by (simp add: read_step_def pos_ok_def mult.commute)
    moreover have "read_round io btr fp v = Ret (FR_OK, 512 * ?cc, map (fbyte v1 ?fp xs) [512 * ?q..<512 * ?q + unat ?cc * 512], ?fp, v1\<lparr>dev := d\<rparr>)"
      using m0 v1(1) s0 True d(1) ff(5) by (simp add: read_round_def Let_def)
    ultimately show ?thesis using lift by blast
  next
    case False
    have q1: "?q < length xs * csz v1" using q(1) ff(6) by simp
    obtain fp2 d where d: "read_sector io ?s ?fp v1 = Ret (FR_OK, fp2, v1\<lparr>dev := d\<rparr>)" "dok (v1\<lparr>dev := d\<rparr>) fp2 xs"
      "\<And>j. j < length xs * csz v1 \<Longrightarrow> fblock (v1\<lparr>dev := d\<rparr>) fp2 xs j = fblock v1 ?fp xs j" "sect fp2 = ?s" "clust fp2 = clust ?fp"
      "fil_kept ?fp fp2" "vfat (v1\<lparr>dev := d\<rparr>) = vfat v1"
      using read_sector_ok [OF d1(1) q1 s] by blast
    let ?v = "v1\<lparr>dev := d\<rparr>"
    have k: "fptr fp2 = fptr fp" "objsize fp2 = objsize fp" using fil_kept_fields [OF d(6)] by simp_all
    have "read_step btr ?v fp2 xs (rest_of_sector btr fp2) (copy_out (rest_of_sector btr fp2) fp2) fp2 ?v"
      using read_round_partial [OF d(2) assms(2)] assms(3) f(7) k d(4,5) s ff(6) by simp
    moreover have "moved v ?v" using moved_trans [OF re moved_dev] .
    moreover have "fil_kept fp fp2" using fil_kept_trans [OF fil_kept_clust d(6)] .
    ultimately have "read_step btr v fp xs (rest_of_sector btr fp2) (copy_out (rest_of_sector btr fp2) fp2) fp2 ?v"
      using read_step_after [of btr ?v fp2 xs _ _ fp2 ?v v fp] d(3,7) d1(2) F f(4) le ff(6) by simp
    moreover have "read_round io btr fp v = Ret (FR_OK, rest_of_sector btr fp2, copy_out (rest_of_sector btr fp2) fp2, fp2, ?v)"
      using m0 v1(1) s0 False d(1) ff(5) by (simp add: read_round_def Let_def)
    ultimately show ?thesis by blast
  qed
qed

lemma read_loop_ok:
  assumes "fok v fp xs" and "unat (fptr fp) + unat btr \<le> unat (objsize fp)" and "unat btr < k"
  shows "\<exists>fp' v'. read_loop k io btr acc fp v =
      Ret (FR_OK, acc @ map (fbyte v fp xs) [unat (fptr fp)..<unat (fptr fp) + unat btr], fp'\<lparr>fptr := fptr fp + btr\<rparr>, v')
    \<and> fok v' (fp'\<lparr>fptr := fptr fp + btr\<rparr>) xs \<and> fil_kept fp fp' \<and> moved v v' \<and> vfat v' = vfat v
    \<and> (\<forall>k<length xs * csz v. fblock v' fp' xs k = fblock v fp xs k)"
  using assms
proof (induction k arbitrary: btr acc fp v)
  case (Suc k)
  show ?case
  proof (cases "btr = 0")
    case True
    have "fp\<lparr>fptr := fptr fp + btr\<rparr> = fp" using True by simp
    then show ?thesis using True Suc.prems(1) by (intro exI [of _ fp] exI [of _ v]) simp
  next
    case False
    then have b0: "0 < btr" by (simp add: word_gt_0)
    obtain r b fp1 v1 where r: "read_round io btr fp v = Ret (FR_OK, r, b, fp1, v1)" and st: "read_step btr v fp xs r b fp1 v1"
      using read_round_ok [OF Suc.prems(1) b0 Suc.prems(2)] by blast
    have rr: "0 < unat r" "unat r \<le> unat btr" "b = map (fbyte v fp xs) [unat (fptr fp)..<unat (fptr fp) + unat r]" "dok v1 fp1 xs"
      "fil_kept fp fp1" "pos_ok v (fp1\<lparr>fptr := fptr fp + r\<rparr>) xs" "moved v v1" "vfat v1 = vfat v"
      "\<And>k. k < length xs * csz v \<Longrightarrow> fblock v1 fp1 xs k = fblock v fp xs k" using st by (auto simp: read_step_def)
    note ff = realloc_file_fields [OF moved_realloc [OF rr(7)]] and kf = fil_kept_fields [OF rr(5)]
    let ?fp = "fp1\<lparr>fptr := fptr fp1 + r\<rparr>"
    have u: "unat (btr - r) = unat btr - unat r" using rr(2) by (simp add: unat_sub word_le_nat_alt)
    have p: "unat (fptr fp + r) = unat (fptr fp) + unat r"
      using Suc.prems(2) rr(2) u32_lt [of "objsize fp"] by (intro unat_add_no_wrap) simp
    have fk: "fok v1 ?fp xs" using rr(4,6) ff(1,6) kf(1) by (simp add: file_ok_def pos_ok_def)
    have "unat (fptr ?fp) + unat (btr - r) \<le> unat (objsize ?fp)" "unat (btr - r) < k"
      using u p kf(1,2) Suc.prems(2,3) rr(1,2) by auto
    from Suc.IH [OF fk this, of "acc @ b"] obtain fp' v' where
      ih: "read_loop k io (btr - r) (acc @ b) ?fp v1 =
        Ret (FR_OK, (acc @ b) @ map (fbyte v1 ?fp xs) [unat (fptr ?fp)..<unat (fptr ?fp) + unat (btr - r)], fp'\<lparr>fptr := fptr ?fp + (btr - r)\<rparr>, v')"
      "fok v' (fp'\<lparr>fptr := fptr ?fp + (btr - r)\<rparr>) xs" "fil_kept ?fp fp'" "moved v1 v'" "vfat v' = vfat v1"
      "\<forall>k<length xs * csz v1. fblock v' fp' xs k = fblock v1 ?fp xs k" by blast
    have e: "fptr ?fp + (btr - r) = fptr fp + btr" using kf(1) by simp
    have le: "unat (fptr fp) + unat btr \<le> length xs * csz v * 512" using Suc.prems(2) fok_facts(7) [OF Suc.prems(1)] by simp
    have "map (fbyte v1 ?fp xs) [unat (fptr ?fp)..<unat (fptr ?fp) + unat (btr - r)]
        = map (fbyte v fp xs) [unat (fptr fp) + unat r..<unat (fptr fp) + unat btr]"
    proof (rule map_cong)
      show "[unat (fptr ?fp)..<unat (fptr ?fp) + unat (btr - r)] = [unat (fptr fp) + unat r..<unat (fptr fp) + unat btr]"
        using p u kf(1) rr(2) by simp
      fix i assume "i \<in> set [unat (fptr fp) + unat r..<unat (fptr fp) + unat btr]"
      then have "i div 512 < length xs * csz v" using byte_position(1) [OF fok_facts(4) [OF Suc.prems(1)], of i xs] le by auto
      then show "fbyte v1 ?fp xs i = fbyte v fp xs i" using rr(9) by (intro fbyte_cong) simp
    qed
    then have bytes: "(acc @ b) @ map (fbyte v1 ?fp xs) [unat (fptr ?fp)..<unat (fptr ?fp) + unat (btr - r)]
        = acc @ map (fbyte v fp xs) [unat (fptr fp)..<unat (fptr fp) + unat btr]"
      using rr(2,3) upt_add_eq_append [of "unat (fptr fp)" "unat (fptr fp) + unat r" "unat btr - unat r"] by simp
    have k': "fil_kept fp (fp'\<lparr>fptr := fptr fp\<rparr>)" using fil_kept_fptr [OF rr(5) ih(3)] .
    have blk: "\<forall>k<length xs * csz v. fblock v' fp' xs k = fblock v fp xs k" using ih(6) rr(9) ff(6) by simp
    have "read_loop (Suc k) io btr acc fp v = Ret (FR_OK, acc @ map (fbyte v fp xs) [unat (fptr fp)..<unat (fptr fp) + unat btr], fp'\<lparr>fptr := fptr fp + btr\<rparr>, v')"
      using b0 r ih(1) [unfolded bytes e] by simp
    then show ?thesis using ih(2) [unfolded e] k' blk ih(5) rr(8) moved_trans [OF rr(7) ih(4)]
      by (intro exI [of _ "fp'\<lparr>fptr := fptr fp\<rparr>"] exI [of _ v']) simp
  qed
qed simp

lemma f_read_ok:
  fixes btr :: u32
  assumes "fok v fp xs" and "obj_fs fp \<noteq> 0" and "obj_id fp = volume_id v" and "err fp = FR_OK" and "flag fp AND FA_READ \<noteq> 0"
  defines "n \<equiv> min (unat btr) (unat (objsize fp) - unat (fptr fp))"
  shows "\<exists>fp' v'. f_read io btr fp v =
      Ret (FR_OK, map (fbyte v fp xs) [unat (fptr fp)..<unat (fptr fp) + n], fp'\<lparr>fptr := fptr fp + of_nat n\<rparr>, v')
    \<and> fok v' (fp'\<lparr>fptr := fptr fp + of_nat n\<rparr>) xs \<and> fil_kept fp fp' \<and> moved v v' \<and> vfat v' = vfat v
    \<and> (\<forall>k<length xs * csz v. fblock v' fp' xs k = fblock v fp xs k)"
proof -
  note f = fok_facts [OF assms(1)]
  have ty: "fs_type v \<noteq> 0" using f(2) by (auto simp: geometry_ok_def FS_FAT12_def FS_FAT16_def FS_FAT32_def)
  have "dio_status io (pdrv v) (dev v) = Ret 0" using status_run dok_facts(3,4) [OF f(1)] by simp
  then have val: "validate io fp v = Ret FR_OK" using ty assms(2,3) by (simp add: validate_def)
  let ?r = "objsize fp - fptr fp"
  let ?b = "if btr > ?r then ?r else btr"
  have r: "unat ?r = unat (objsize fp) - unat (fptr fp)" using f(6) by (simp add: unat_sub word_le_nat_alt)
  have b: "unat ?b = n" using r by (auto simp: n_def word_less_nat_alt)
  have e: "?b = of_nat n" unfolding b [symmetric] by simp
  have le: "unat (fptr fp) + unat ?b \<le> unat (objsize fp)" using b f(6) by (simp add: n_def)
  have "f_read io btr fp v = read_loop (Suc (unat ?b)) io ?b [] fp v"
    using val assms(4,5) by (simp add: f_read_def Let_def)
  moreover note read_loop_ok [OF assms(1) le, of "Suc (unat ?b)" "[]"]
  ultimately show ?thesis unfolding b unfolding e by simp
qed

end

end
