(* ===== verification/Fat_File_Write.thy ===== *)
theory Fat_File_Write
  imports Fat_File_Read
begin

text \<open>
  Writing an open file of FatFs: \<open>f_write\<close> stores the bytes at the file pointer and extends the file
  by free clusters as far as it has to. It changes no other byte of the file, no other file, and
  writes less than it is asked to only when the volume is full.
\<close>

unbundle bit_operations_syntax

section \<open>The cluster to write to\<close>

text \<open>The table has no reserved links and the number of free clusters is exact or unknown.\<close>

definition alloc_ok :: "(u32 \<Rightarrow> u32) \<Rightarrow> 'd volume \<Rightarrow> bool" where
  "alloc_ok F v \<longleftrightarrow> (\<forall>c. 2 \<le> c \<and> c < n_fatent v \<longrightarrow> F c \<noteq> 1) \<and> free_count_ok F v"

text \<open>What writing keeps of the file object.\<close>

definition fil_written :: "FIL \<Rightarrow> FIL \<Rightarrow> bool" where
  "fil_written fp fp' \<longleftrightarrow> fptr fp' = fptr fp \<and> objsize fp' = objsize fp \<and> err fp' = err fp \<and> obj_fs fp' = obj_fs fp
     \<and> obj_id fp' = obj_id fp \<and> dir_sect fp' = dir_sect fp \<and> dir_ptr fp' = dir_ptr fp
     \<and> flag fp' AND NOT FA_DIRTY = flag fp AND NOT FA_DIRTY"

lemma fil_kept_written: "fil_kept fp fp' \<Longrightarrow> fil_written fp fp'"
  using fil_kept_fields [of fp fp'] by (simp add: fil_written_def)

lemma fil_written_trans: "fil_written fp fp' \<Longrightarrow> fil_written fp' fp'' \<Longrightarrow> fil_written fp fp''"
  by (simp add: fil_written_def)

context sector_device
begin

abbreviation aok :: "'d volume \<Rightarrow> bool" where "aok v \<equiv> alloc_ok (vfat v) v"

abbreviation vfree :: "'d volume \<Rightarrow> u32 set" where "vfree v \<equiv> free_clusters (vfat v) (n_fatent v)"

lemma aok_moved:
  assumes "aok v" and "moved v v'" and "vfat v' = vfat v"
  shows "aok v'" "vfree v' = vfree v"
  using assms moved_chain_fields [OF assms(2)] by (simp_all add: alloc_ok_def free_count_ok_def)

text \<open>The list of clusters of a file after it has been stretched; the entries of other clusters stay.\<close>

definition stretched :: "'d volume \<Rightarrow> u32 list \<Rightarrow> 'd volume \<Rightarrow> u32 list \<Rightarrow> bool" where
  "stretched v xs v' xs' \<longleftrightarrow> (\<exists>ys. xs' = xs @ ys \<and> set ys \<subseteq> vfree v \<and> vfree v' = vfree v - set ys \<and> distinct ys)
     \<and> (\<forall>c. c \<notin> set xs' \<longrightarrow> vfat v' c = vfat v c)"

lemma stretched_refl: "vfat v' = vfat v \<Longrightarrow> n_fatent v' = n_fatent v \<Longrightarrow> stretched v xs v' xs"
  by (simp add: stretched_def)

lemma stretched_trans: "stretched v xs v' xs' \<Longrightarrow> stretched v' xs' v'' xs'' \<Longrightarrow> stretched v xs v'' xs''"
proof -
  assume "stretched v xs v' xs'" "stretched v' xs' v'' xs''"
  then obtain ys zs where y: "xs' = xs @ ys" "set ys \<subseteq> vfree v" "vfree v' = vfree v - set ys" "distinct ys"
    and z: "xs'' = xs' @ zs" "set zs \<subseteq> vfree v'" "vfree v'' = vfree v' - set zs" "distinct zs"
    and o: "\<And>c. c \<notin> set xs' \<Longrightarrow> vfat v' c = vfat v c" "\<And>c. c \<notin> set xs'' \<Longrightarrow> vfat v'' c = vfat v' c" unfolding stretched_def by blast
  have "set (ys @ zs) \<subseteq> vfree v" "vfree v'' = vfree v - set (ys @ zs)" "distinct (ys @ zs)" using y z by auto
  moreover have "vfat v'' c = vfat v c" if "c \<notin> set xs''" for c using o that z(1) by simp
  ultimately show "stretched v xs v'' xs''" using y(1) z(1) unfolding stretched_def by (metis append.assoc)
qed

lemma file_sector_append: "0 < csz v \<Longrightarrow> k < length xs * csz v \<Longrightarrow> file_sector v (xs @ ys) k = file_sector v xs k"
  by (simp add: file_sector_def nth_append less_mult_imp_div_less)

lemma fblock_append: "0 < csz v \<Longrightarrow> k < length xs * csz v \<Longrightarrow> fblock v fp (xs @ ys) k = fblock v fp xs k"
  by (simp add: file_block_def file_sector_append)

text \<open>A cluster that follows in the chain.\<close>

lemma write_cluster_inside:
  assumes "fok v fp xs" and "aok v" and "unat (fptr fp) mod 512 = 0" and "unat (fptr fp) < length xs * csz v * 512"
  obtains v' where "write_cluster io fp v = Ret (FR_OK, False, fp\<lparr>clust := xs ! (unat (fptr fp) div 512 div csz v)\<rparr>, v')"
    "moved v v'" "vok v'" "vview v' = vview v"
proof -
  let ?q = "unat (fptr fp) div 512"
  note f = fok_facts [OF assms(1)]
  have cs: "csect_of fp v = 0 \<longleftrightarrow> ?q mod csz v = 0"
    using csect_of_eq [OF f(2), of fp] by (metis unat_0 unat_eq_zero)
  have m: "?q div csz v < length xs" using byte_position(2) [OF f(4) assms(4)] .
  note c = cluster_of_position [OF f(1) m]
  have c01: "xs ! (?q div csz v) \<noteq> 0" "xs ! (?q div csz v) \<noteq> 1" using c(1) cluster_ge2 by auto
  have sc: "sclust fp \<noteq> 0" using f(1) m by (auto simp: data_ok_def chain_of_def)
  consider "?q mod csz v \<noteq> 0" | "?q mod csz v = 0" "fptr fp = 0" | "?q mod csz v = 0" "fptr fp \<noteq> 0" by blast
  then show ?thesis
  proof cases
    case 1
    then have "fp\<lparr>clust := xs ! (?q div csz v)\<rparr> = fp" using current_cluster [OF assms(1,3)] by simp
    then show ?thesis using that [of v] 1 cs f(3) by (simp add: write_cluster_def)
  next
    case 2
    have "sclust fp = xs ! 0" using f(1) m is_chain_hd [of "vfat v" "n_fatent v" "sclust fp" xs]
      by (auto simp: data_ok_def chain_of_def split: if_splits)
    then show ?thesis using that [of v] 2 cs f(3) c c01 sc by (simp add: write_cluster_def Let_def)
  next
    case 3
    then have p: "0 < unat (fptr fp)" by (simp add: unat_gt_0)
    note pc = previous_cluster [OF assms(1,3) 3(1) p]
    have n: "vfat v (clust fp) = xs ! (?q div csz v)" using next_cluster [OF f(1), of "?q div csz v - 1"] pc m by simp
    have "clust fp \<noteq> 0" using cluster_of_position(1) [OF f(1), of "?q div csz v - 1"] pc m cluster_ge2 by auto
    from create_chain_linked [OF f(3) this] n c obtain v' where
      v': "create_chain io (clust fp) v = Ret (xs ! (?q div csz v), v')" "vok v'" "moved v v'" "vview v' = vview v" by auto
    then show ?thesis using that [of v'] 3 cs c c01 sc by (simp add: write_cluster_def Let_def)
  qed
qed

text \<open>A new cluster at the end of the file.\<close>

lemma chain_of_grow:
  assumes "geometry_ok cap v" and "chain_of F (n_fatent v) sc xs" and "c \<in> free_clusters F (n_fatent v)" and "n_fatent v \<le> e"
    and "F' = (if xs = [] then F(c := e) else F(c := e, last xs := c))"
  shows "chain_of F' (n_fatent v) (if sc = 0 then c else sc) (xs @ [c])"
    "free_clusters F' (n_fatent v) = free_clusters F (n_fatent v) - {c}"
proof -
  have c: "2 \<le> c" "c < n_fatent v" "F c = 0" using assms(3) by (auto simp: free_clusters_def)
  have c0: "c \<noteq> 0" using c(1) cluster_ge2 by auto
  have e0: "e \<noteq> 0" using assms(4) c by auto
  show "chain_of F' (n_fatent v) (if sc = 0 then c else sc) (xs @ [c])"
  proof (cases "xs = []")
    case True
    then have "sc = 0" using assms(2) by (auto simp: chain_of_def split: if_splits)
    then show ?thesis using True c c0 assms(4,5) by (simp add: chain_of_def)
  next
    case False
    then have sc: "sc \<noteq> 0" "is_chain F (n_fatent v) sc xs" using assms(2) by (auto simp: chain_of_def split: if_splits)
    then have "is_chain F (n_fatent v) sc (butlast xs @ [last xs])" using False by simp
    from is_chain_snoc [OF this c(3,1,2) assms(4)] have "is_chain (F(c := e, last xs := c)) (n_fatent v) sc ((butlast xs @ [last xs]) @ [c])" by simp
    then show ?thesis using False sc(1) assms(5) by (simp add: chain_of_def)
  qed
  have "last xs \<noteq> c" "F (last xs) \<noteq> 0" if "xs \<noteq> []"
    using that assms(2) is_chain_set [of F "n_fatent v" sc xs "last xs"] c(3) by (auto simp: chain_of_def split: if_splits)
  then show "free_clusters F' (n_fatent v) = free_clusters F (n_fatent v) - {c}"
    using assms(5) c0 e0 by (auto simp: free_clusters_def split: if_splits)
qed

text \<open>The stretched file has the data of the old one in its old sectors.\<close>

lemma dok_grow:
  assumes "dok v fp xs" and "realloc v v'" and "vok v'" and "\<And>t. \<not> in_fat v t \<Longrightarrow> vview v' t = vview v t"
    and "chain_of (vfat v') (n_fatent v) sc (xs @ [c])" and "vfree v' \<subseteq> vfree v" and "c \<in> vfree v"
  shows "dok v' (fp\<lparr>sclust := sc\<rparr>) (xs @ [c])" "k < length xs * csz v \<Longrightarrow> fblock v' fp (xs @ [c]) k = fblock v fp xs k"
proof -
  note d = dok_facts [OF assms(1)] and f = realloc_file_fields [OF assms(2)] and p = csz_bounds(1) [OF dok_facts(2) [OF assms(1)]]
  have s: "sec (dev v') (file_sector v xs k) = sec (dev v) (file_sector v xs k)" if "k < length xs * csz v" for k
    using data_kept [OF assms(1-4) file_sector_in [OF d(2) that]] .
  note app = file_sector_append [OF p, of _ xs "[c]"]
  have "is_dirty (fp\<lparr>sclust := sc\<rparr>) = is_dirty fp" by (simp add: is_dirty_def)
  moreover have "\<exists>k<length (xs @ [c]) * csz v. unat (sect fp) = file_sector v (xs @ [c]) k" if k: "\<exists>k<length xs * csz v. unat (sect fp) = file_sector v xs k"
    using k app by (metis length_append_singleton mult_Suc trans_less_add2)
  ultimately have "buf_ok sec v' (fp\<lparr>sclust := sc\<rparr>) (xs @ [c])"
    using assms(1) s by (auto simp: data_ok_def buf_ok_def f(1,6))
  moreover have "window_off sec v' (xs @ [c])"
  proof -
    have "valid_clusters v (set xs \<union> vfree v)" using d(6) by (auto simp: valid_clusters_def free_clusters_def)
    then have "\<not> in_clusters v (set xs \<union> vfree v) (unat (winsect v'))"
      using realloc_winsect [OF assms(2)] in_clusters_data(2) [OF d(2)] assms(1) by (auto simp: data_ok_def window_off_def)
    moreover have "set (xs @ [c]) \<union> vfree v' \<subseteq> set xs \<union> vfree v" using assms(6,7) by auto
    ultimately show ?thesis unfolding window_off_def f(2) by (auto simp: in_clusters_def)
  qed
  ultimately show "dok v' (fp\<lparr>sclust := sc\<rparr>) (xs @ [c])" using assms(3,5) f(7) by (simp add: data_ok_def)
  show "fblock v' fp (xs @ [c]) k = fblock v fp xs k" if "k < length xs * csz v"
    using s [OF that] app [OF that] by (simp add: file_block_def f(1))
qed

lemma create_at_end:
  assumes "fok v fp xs" and "aok v" and "unat (fptr fp) = length xs * csz v * 512"
  defines "e \<equiv> if fptr fp = 0 then 0 else clust fp"
  shows "e = (if xs = [] then 0 else last xs)"
    "\<exists>r v'. create_chain io e v = Ret (r, v') \<and> vok v' \<and> realloc v v' \<and> aok v' \<and> (\<forall>t. \<not> in_fat v t \<longrightarrow> vview v' t = vview v t)
      \<and> (if vfree v = {} then r = 0 \<and> vview v' = vview v
         else r \<in> vfree v \<and> vfat v' = (if xs = [] then (vfat v)(r := entry_mask (fs_type v)) else (vfat v)(r := entry_mask (fs_type v), last xs := r)))"
proof -
  note f = fok_facts [OF assms(1)]
  show e: "e = (if xs = [] then 0 else last xs)"
  proof (cases "xs = []")
    case False
    then have p: "0 < unat (fptr fp)" using assms(3) f(4) by simp
    have q: "unat (fptr fp) div 512 = length xs * csz v" "unat (fptr fp) mod 512 = 0" using assms(3) by simp_all
    have "clust fp = xs ! (length xs - 1)" using previous_cluster(1) [OF assms(1) q(2) _ p] q(1) f(4) by simp
    then show ?thesis using False p by (auto simp: e_def last_conv_nth)
  qed (use assms(3) in \<open>simp add: e_def unat_eq_zero\<close>)
  have end_of: "2 \<le> last xs \<and> last xs < n_fatent v \<and> n_fatent v \<le> vfat v (last xs)" if ne: "xs \<noteq> []"
  proof -
    have "is_chain (vfat v) (n_fatent v) (sclust fp) xs" using f(1) ne by (auto simp: data_ok_def chain_of_def split: if_splits)
    then show ?thesis using is_chain_last [of "vfat v" "n_fatent v" "sclust fp" xs] is_chain_set [of "vfat v" "n_fatent v" "sclust fp" xs "last xs"] ne by auto
  qed
  then have last0: "xs \<noteq> [] \<Longrightarrow> last xs \<noteq> 0" using cluster_ge2 by auto
  have "e = 0 \<or> 2 \<le> e \<and> e < n_fatent v \<and> n_fatent v \<le> vfat v e" using e end_of by auto
  moreover have "vfat v c \<noteq> 1" if "2 \<le> c" "c < n_fatent v" for c using assms(2) that by (simp add: alloc_ok_def)
  moreover have "free_count_ok (vfat v) v" using assms(2) by (simp add: alloc_ok_def)
  ultimately obtain r v' where r: "create_chain io e v = Ret (r, v')" "vok v'" "realloc v v'" "free_count_ok (vfat v') v'"
    "\<forall>t. \<not> in_fat v t \<longrightarrow> vview v' t = vview v t"
    "if vfree v = {} then r = 0 \<and> vview v' = vview v
     else r \<in> vfree v \<and> last_clst v' = r
       \<and> vfat v' = (if e = 0 then (vfat v)(r := entry_mask (fs_type v)) else (vfat v)(r := entry_mask (fs_type v), e := r))"
    using create_chain_ok [OF f(3), of e] by blast
  have n: "n_fatent v' = n_fatent v" using realloc_fields(6) [OF r(3)] .
  have "vfat v' c \<noteq> 1" if c: "2 \<le> c" "c < n_fatent v" for c
  proof (cases "vfree v = {}")
    case True
    then show ?thesis using r(6) c assms(2) realloc_fields(17) [OF r(3)] by (simp add: alloc_ok_def)
  next
    case False
    then have "r \<in> vfree v" using r(6) by simp
    then have "2 \<le> r" by (simp add: free_clusters_def)
    then show ?thesis using False r(6) c assms(2) entry_mask_bound(2) [OF f(2)] cluster_ge2 by (auto simp: alloc_ok_def)
  qed
  then have "aok v'" using r(4) n by (simp add: alloc_ok_def)
  then show "\<exists>r v'. create_chain io e v = Ret (r, v') \<and> vok v' \<and> realloc v v' \<and> aok v' \<and> (\<forall>t. \<not> in_fat v t \<longrightarrow> vview v' t = vview v t)
      \<and> (if vfree v = {} then r = 0 \<and> vview v' = vview v
         else r \<in> vfree v \<and> vfat v' = (if xs = [] then (vfat v)(r := entry_mask (fs_type v)) else (vfat v)(r := entry_mask (fs_type v), last xs := r)))"
    using r e last0 by (intro exI [of _ r] exI [of _ v']) (auto split: if_splits)
qed

text \<open>The states after the cluster has been chosen, unless the volume is full.\<close>

definition cluster_step :: "'d volume \<Rightarrow> FIL \<Rightarrow> u32 list \<Rightarrow> FIL \<Rightarrow> 'd volume \<Rightarrow> u32 list \<Rightarrow> bool" where
  "cluster_step v fp xs fp' v' xs' \<longleftrightarrow> dok v' fp' xs' \<and> aok v' \<and> realloc v v' \<and> stretched v xs v' xs' \<and> fil_written fp fp'
     \<and> unat (fptr fp) div 512 < length xs' * csz v \<and> clust fp' = xs' ! (unat (fptr fp) div 512 div csz v)
     \<and> (\<forall>k<length xs * csz v. fblock v' fp' xs' k = fblock v fp xs k)
     \<and> (\<forall>t. \<not> in_fat v t \<and> \<not> in_clusters v (set xs') t \<longrightarrow> vview v' t = vview v t)"

lemma write_cluster_ok:
  assumes "fok v fp xs" and "aok v" and "unat (fptr fp) mod 512 = 0"
  shows "(\<exists>fp' v' xs'. write_cluster io fp v = Ret (FR_OK, False, fp', v') \<and> cluster_step v fp xs fp' v' xs')
    \<or> (\<exists>v'. write_cluster io fp v = Ret (FR_OK, True, fp, v') \<and> vfree v = {} \<and> unat (fptr fp) = length xs * csz v * 512
         \<and> dok v' fp xs \<and> aok v' \<and> realloc v v' \<and> vview v' = vview v \<and> (\<forall>k<length xs * csz v. fblock v' fp xs k = fblock v fp xs k))"
proof (cases "unat (fptr fp) < length xs * csz v * 512")
  case True
  note f = fok_facts [OF assms(1)]
  obtain v' where v': "write_cluster io fp v = Ret (FR_OK, False, fp\<lparr>clust := xs ! (unat (fptr fp) div 512 div csz v)\<rparr>, v')"
    "moved v v'" "vok v'" "vview v' = vview v" using write_cluster_inside [OF assms True] by blast
  have F: "vfat v' = vfat v" using moved_fat_of [OF v'(2)] v'(4) by simp
  have "cluster_step v fp xs (fp\<lparr>clust := xs ! (unat (fptr fp) div 512 div csz v)\<rparr>) v' xs"
    using dok_moved [OF f(1) v'(2-4)] aok_moved [OF assms(2) v'(2) F] moved_realloc [OF v'(2)] stretched_refl [OF F moved_chain_fields(1) [OF v'(2)]]
      fil_kept_written [OF fil_kept_clust] byte_position(1) [OF f(4) True] v'(4) by (simp add: cluster_step_def)
  then show ?thesis using v'(1) by blast
next
  case False
  note f = fok_facts [OF assms(1)]
  have p: "unat (fptr fp) = length xs * csz v * 512" using False f(6,7) by simp
  let ?q = "unat (fptr fp) div 512"
  have q: "?q = length xs * csz v" using p by simp
  have cs: "csect_of fp v = 0" using csect_of_eq [OF f(2), of fp] q by (simp add: unat_eq_zero)
  define e where "e = (if fptr fp = 0 then 0 else clust fp)"
  note at_end = create_at_end [OF assms(1,2) p, folded e_def]
  have sc: "sclust fp = 0 \<longleftrightarrow> xs = []" using f(1) by (auto simp: data_ok_def chain_of_def split: if_splits)
  have p0: "fptr fp = 0 \<longleftrightarrow> xs = []" using p f(4) by (auto simp flip: unat_eq_zero)
  obtain r v' where r: "create_chain io e v = Ret (r, v')" "vok v'" "realloc v v'" "aok v'" "\<And>t. \<not> in_fat v t \<Longrightarrow> vview v' t = vview v t"
    "if vfree v = {} then r = 0 \<and> vview v' = vview v
     else r \<in> vfree v \<and> vfat v' = (if xs = [] then (vfat v)(r := entry_mask (fs_type v)) else (vfat v)(r := entry_mask (fs_type v), last xs := r))"
    using at_end(2) by blast
  have wc: "write_cluster io fp v = (if r = 0 then Ret (FR_OK, True, fp, v') else if r = 1 then Ret (FR_INT_ERR, False, fp, v')
      else if r = 0xFFFFFFFF then Ret (FR_DISK_ERR, False, fp, v')
      else let fp1 = fp\<lparr>clust := r\<rparr> in Ret (FR_OK, False, if sclust fp1 = 0 then fp1\<lparr>sclust := r\<rparr> else fp1, v'))"
    using cs r(1) sc p0 by (cases "xs = []") (simp_all add: write_cluster_def e_def)
  note n = realloc_fields(6) [OF r(3)]
  show ?thesis
  proof (cases "vfree v = {}")
    case True
    then have v0: "r = 0" "vview v' = vview v" using r(6) by auto
    have F: "vfat v' = vfat v" using realloc_fields(17) [OF r(3)] v0(2) by simp
    have "\<not> in_clusters v (set xs) (unat (winsect v'))"
      using realloc_winsect [OF r(3)] in_clusters_data(2) [OF f(2) dok_facts(6) [OF f(1)]] dok_facts(7) [OF f(1)] by auto
    then have "window_off sec v' xs" unfolding window_off_def realloc_file_fields(2) [OF r(3)] n F True by simp
    moreover have "chain_of (vfat v') (n_fatent v) (sclust fp) xs" using f(1) F by (simp add: data_ok_def)
    ultimately show ?thesis using dok_realloc [OF f(1) r(3,2,5)] wc v0 True p r(3,4) by auto
  next
    case False
    then have c: "r \<in> vfree v" and F': "vfat v' = (if xs = [] then (vfat v)(r := entry_mask (fs_type v)) else (vfat v)(r := entry_mask (fs_type v), last xs := r))"
      using r(6) by auto
    have cv: "2 \<le> r" "r < n_fatent v" using c by (auto simp: free_clusters_def)
    have r01: "r \<noteq> 0" "r \<noteq> 1" using cv(1) cluster_ge2 by auto
    have rf: "r \<noteq> 0xFFFFFFFF" using cluster_bounds(2) [OF f(2) cv(2)] by auto
    let ?sc = "if sclust fp = 0 then r else sclust fp" and ?fp = "fp\<lparr>clust := r\<rparr>"
    have ch: "chain_of (vfat v) (n_fatent v) (sclust fp) xs" using f(1) by (simp add: data_ok_def)
    note grow = chain_of_grow [OF f(2) ch c entry_mask_bound(1) [OF f(2)] F']
    have "vfree v' = vfree v - {r}" using grow(2) n by simp
    then have str: "stretched v xs v' (xs @ [r])" and sub: "vfree v' \<subseteq> vfree v"
      using c F' by (auto simp: stretched_def split: if_splits)
    have d: "dok v ?fp xs" using f(1) by simp
    note dg = dok_grow [OF d r(3,2,5) grow(1) sub c]
    have w: "write_cluster io fp v = Ret (FR_OK, False, ?fp\<lparr>sclust := ?sc\<rparr>, v')" using wc r01 rf by (simp add: Let_def)
    have "unat (fptr fp) div 512 div csz v = length xs" using q f(4) by simp
    then have "cluster_step v fp xs (?fp\<lparr>sclust := ?sc\<rparr>) v' (xs @ [r])"
      using dg r(3-5) str q f(4) by (simp add: cluster_step_def fil_written_def)
    then show ?thesis using w by blast
  qed
qed

section \<open>Storing bytes\<close>

text \<open>Whole sectors of a cluster; a clean buffer follows the drive.\<close>

lemma write_direct_ok:
  assumes "dok v fp xs" and "\<not> is_dirty fp" and "unat s = file_sector v xs k" and "0 < unat cc" and "k mod csz v + unat cc \<le> csz v"
    and "k < length xs * csz v" and "unat cc * 512 \<le> length w"
  obtains fp' d where "write_direct io s cc w fp v = Ret (FR_OK, fp', v\<lparr>dev := d\<rparr>)" "dok (v\<lparr>dev := d\<rparr>) fp' xs" "fil_kept fp fp'"
    "clust fp' = clust fp" "vfat (v\<lparr>dev := d\<rparr>) = vfat v" "\<And>t. \<not> in_clusters v (set xs) t \<Longrightarrow> vview (v\<lparr>dev := d\<rparr>) t = vview v t"
    "\<And>j. j < length xs * csz v \<Longrightarrow> fblock (v\<lparr>dev := d\<rparr>) fp' xs j = (if k \<le> j \<and> j < k + unat cc then slice w ((j - k) * 512) 512 else fblock v fp xs j)"
proof -
  note d = dok_facts [OF assms(1)] and r = file_run [OF assms(1,3-6)]
  let ?T = "\<lambda>t. unat s \<le> t \<and> t < unat s + unat cc" and ?b = "take (unat cc * 512) w"
  obtain d' where d': "dio_write io drv ?b s (ucast cc) (dev v) = Ret (RES_OK, d')" "good d'"
    "sec d' = (\<lambda>t. if ?T t then slice ?b ((t - unat s) * 512) 512 else sec (dev v) t)"
    using write_run [OF d(3), of "ucast cc" s ?b] r(3,4) assms(4,7) by (auto simp: word_less_nat_alt)
  have cut: "slice ?b (j * 512) 512 = slice w (j * 512) 512" "length (slice w (j * 512) 512) = 512" if "j < unat cc" for j
  proof -
    have "Suc j * 512 \<le> unat cc * 512" using that by (intro mult_right_mono) auto
    then have "j * 512 + 512 \<le> unat cc * 512" by simp
    then show "length (slice w (j * 512) 512) = 512" using assms(7) by (intro length_slice) linarith
    show "slice ?b (j * 512) 512 = slice w (j * 512) 512"
      using \<open>j * 512 + 512 \<le> unat cc * 512\<close> by (simp add: slice_def drop_take min_def)
  qed
  have in_file: "in_clusters v (set xs) t" if "?T t" for t
    using file_sector_in [OF d(2) r(1) [of "t - unat s"]] r(2) [of "t - unat s"] that by auto
  have off: "\<not> in_fat v t \<and> \<not> mirrored v t \<and> t \<noteq> unat (winsect v)" if "?T t" for t
    using in_clusters_data [OF d(2,6) in_file [OF that]] in_file [OF that] d(7) by auto
  note dw = data_write [OF d(1) d'(2,3) off]
  have where_k: "?T (file_sector v xs j) \<longleftrightarrow> k \<le> j \<and> j < k + unat cc" "k \<le> j \<Longrightarrow> j < k + unat cc \<Longrightarrow> file_sector v xs j - unat s = j - k"
    if "j < length xs * csz v" for j
  proof -
    show "?T (file_sector v xs j) \<longleftrightarrow> k \<le> j \<and> j < k + unat cc"
    proof
      assume t: "?T (file_sector v xs j)"
      define i where "i = file_sector v xs j - unat s"
      have i: "i < unat cc" "unat s + i = file_sector v xs j" using t by (auto simp: i_def)
      have "file_sector v xs (k + i) = file_sector v xs j" using r(2) [OF i(1)] i(2) by simp
      then have "k + i = j" using file_sector_inj [OF d(2,5,6) r(1) [OF i(1)] that] by simp
      then show "k \<le> j \<and> j < k + unat cc" using i(1) by auto
    qed (use r(2) [of "j - k"] in auto)
    show "k \<le> j \<Longrightarrow> j < k + unat cc \<Longrightarrow> file_sector v xs j - unat s = j - k" using r(2) [of "j - k"] by simp
  qed
  define fq where "fq = (if sect fp - s < cc then clean (fp\<lparr>buf := slice w (unat (sect fp - s) * 512) 512\<rparr>) else fp)"
  note sub = sub_less_iff [OF r(5), of "sect fp"]
  have "\<not> is_dirty fq" using assms(2) by (simp add: fq_def)
  have buf: "buf fq = sec d' (unat (sect fp))" if "sect fp \<noteq> 0"
    using sub cut(1) assms(1,2) that by (auto simp: fq_def d'(3) data_ok_def buf_ok_def)
  have fields: "sect fq = sect fp" "sclust fq = sclust fp" "clust fq = clust fp" "length (buf fq) = 512"
    using d(8) cut(2) sub by (auto simp: fq_def clean_def)
  have dok': "dok (v\<lparr>dev := d'\<rparr>) fq xs"
    using assms(1,2) dw(1,3) buf fields \<open>\<not> is_dirty fq\<close> by (simp add: data_ok_def buf_ok_def window_off_def)
  have blk: "fblock (v\<lparr>dev := d'\<rparr>) fq xs j = sec d' (file_sector v xs j)" "fblock v fp xs j = sec (dev v) (file_sector v xs j)"
    if "j < length xs * csz v" for j
  proof -
    have ne: "sect fp \<noteq> 0" if "unat (sect fp) = file_sector v xs j"
      using that in_clusters_data(4) [OF d(2,6) file_sector_in [OF d(2) \<open>j < length xs * csz v\<close>]] by auto
    show "fblock (v\<lparr>dev := d'\<rparr>) fq xs j = sec d' (file_sector v xs j)"
      using buf [OF ne] fields(1) by (simp add: file_block_def)
    show "fblock v fp xs j = sec (dev v) (file_sector v xs j)"
      using ne assms(1,2) by (auto simp: file_block_def data_ok_def buf_ok_def)
  qed
  show ?thesis
  proof (rule that [of fq d'])
    show "write_direct io s cc w fp v = Ret (FR_OK, fq, v\<lparr>dev := d'\<rparr>)" using d'(1) d(4) by (simp add: write_direct_def fq_def)
    have "fil_kept fp (fp\<lparr>buf := b\<rparr>)" for b using fil_kept_load [where fp = fp and b = b and s = "sect fp"] by simp
    then show "fil_kept fp fq" using fil_kept_trans [OF _ fil_kept_clean] by (simp add: fq_def)
    show "vview (v\<lparr>dev := d'\<rparr>) t = vview v t" if "\<not> in_clusters v (set xs) t" for t using dw(2) in_file that by auto
    show "fblock (v\<lparr>dev := d'\<rparr>) fq xs j = (if k \<le> j \<and> j < k + unat cc then slice w ((j - k) * 512) 512 else fblock v fp xs j)"
      if j: "j < length xs * csz v" for j
      unfolding blk(1) [OF j] blk(2) [OF j] d'(3) using where_k [OF j] cut(1) [of "j - k"] by auto
  qed (use dok' fields(3) dw(3) in auto)
qed

text \<open>Less than a sector goes through the buffer.\<close>

lemma write_sector_ok:
  assumes "dok v fp xs" and "k < length xs * csz v" and "unat s = file_sector v xs k"
  obtains fp' d where "write_sector io s fp v = Ret (FR_OK, fp', v\<lparr>dev := d\<rparr>)" "good d" "sec d = sec (dev v)" "fil_kept fp fp'"
    "clust fp' = clust fp" "sect fp' = s" "length (buf fp') = 512" "fptr fp < objsize fp \<Longrightarrow> buf fp' = fblock v fp xs k \<or> is_dirty fp"
proof (cases "sect fp \<noteq> s \<and> fptr fp < objsize fp")
  case True
  obtain d where d: "load_buf io s fp v = Ret (FR_OK, fp\<lparr>buf := sec (dev v) (unat s)\<rparr>, v\<lparr>dev := d\<rparr>)" "good d" "sec d = sec (dev v)"
    using load_buf_ok [OF assms] by blast
  have "unat (sect fp) \<noteq> unat s" using True by (simp add: word_unat_eq_iff)
  then have "fblock v fp xs k = sec (dev v) (unat s)" using assms(3) by (simp add: file_block_def)
  then show ?thesis
    by (intro that [of "fp\<lparr>buf := sec (dev v) (unat s), sect := s\<rparr>" d])
      (use True d dok_block_length(2) [OF assms(1,2)] assms(3) fil_kept_load in \<open>auto simp: write_sector_def\<close>)
next
  case False
  have e: "v\<lparr>dev := dev v\<rparr> = v" by simp
  have "fil_kept fp (fp\<lparr>sect := s\<rparr>)" using fil_kept_load [where fp = fp and b = "buf fp" and s = s] by simp
  moreover have "buf fp = fblock v fp xs k" if "fptr fp < objsize fp" using False that assms(3) by (simp add: file_block_def)
  ultimately show ?thesis
    by (intro that [of "fp\<lparr>sect := s\<rparr>" "dev v"]) (use False dok_facts(3,8) [OF assms(1)] in \<open>auto simp: write_sector_def e\<close>)
qed

lemma copy_in_ok:
  assumes "dok v fp0 xs" and "sclust fp = sclust fp0" and "length (buf fp) = 512" and "k < length xs * csz v" and "unat (sect fp) = file_sector v xs k"
    and "unat (fptr fp) mod 512 + unat w \<le> 512" and "unat w \<le> length b"
  shows "dok v (copy_in w b fp) xs" "fil_kept fp (copy_in w b fp)" "clust (copy_in w b fp) = clust fp" "sect (copy_in w b fp) = sect fp"
    "i < 512 \<Longrightarrow> fblock v (copy_in w b fp) xs k ! i = (if unat (fptr fp) mod 512 \<le> i \<and> i < unat (fptr fp) mod 512 + unat w
        then b ! (i - unat (fptr fp) mod 512) else buf fp ! i)"
    "unat (sect fp) \<noteq> file_sector v xs j \<Longrightarrow> fblock v (copy_in w b fp) xs j = sec (dev v) (file_sector v xs j)"
proof -
  note d = dok_facts [OF assms(1)]
  have m: "unat (fptr fp mod 512) = unat (fptr fp) mod 512" by (simp add: unat_mod)
  have dirty: "is_dirty (copy_in w b fp)"
  proof -
    have "bit ((flag fp OR FA_DIRTY) AND FA_DIRTY) 7" by (simp add: bit_simps FA_DIRTY_def)
    then show ?thesis by (auto simp: is_dirty_def copy_in_def)
  qed
  have l: "length (buf (copy_in w b fp)) = 512" using assms(3,6,7) m by (simp add: copy_in_def)
  have "0 < file_sector v xs k" using in_clusters_data(4) [OF d(2,6) file_sector_in [OF d(2) assms(4)]] .
  then have "sect fp \<noteq> 0" using assms(5) by auto
  then show "dok v (copy_in w b fp) xs"
    using assms(1,2,4,5) dirty l by (auto simp: data_ok_def buf_ok_def copy_in_def)
  have e: "copy_in w b fp = fp\<lparr>flag := flag fp OR FA_DIRTY, clust := clust fp, sect := sect fp, buf := blit (buf fp) (unat (fptr fp mod 512)) (take (unat w) b)\<rparr>"
    by (simp add: copy_in_def)
  show "fil_kept fp (copy_in w b fp)" unfolding e
    by (rule fil_keptI, rule bit_word_eqI) (auto simp: bit_simps)
  show "clust (copy_in w b fp) = clust fp" "sect (copy_in w b fp) = sect fp" by (simp_all add: copy_in_def)
  show "i < 512 \<Longrightarrow> fblock v (copy_in w b fp) xs k ! i = (if unat (fptr fp) mod 512 \<le> i \<and> i < unat (fptr fp) mod 512 + unat w
        then b ! (i - unat (fptr fp) mod 512) else buf fp ! i)"
    using assms(3,5-7) m by (auto simp: file_block_def copy_in_def nth_blit min_def)
  show "unat (sect fp) \<noteq> file_sector v xs j \<Longrightarrow> fblock v (copy_in w b fp) xs j = sec (dev v) (file_sector v xs j)"
    by (simp add: file_block_def copy_in_def)
qed

section \<open>Writing\<close>

lemma advance_fields:
  assumes "unat (fptr fp) + unat w < 2 ^ 32"
  shows "unat (fptr (advance w fp)) = unat (fptr fp) + unat w" "unat (objsize (advance w fp)) = max (unat (objsize fp)) (unat (fptr fp) + unat w)"
    "clust (advance w fp) = clust fp" "sect (advance w fp) = sect fp"
  using assms by (simp_all add: advance_def Let_def unat_add_no_wrap word_less_nat_alt max_def)

lemma advance_data [simp]:
  "dok v (advance w fp) xs = dok v fp xs" "fblock v (advance w fp) = fblock v fp" "file_byte sec v (advance w fp) = file_byte sec v fp"
  by (simp_all add: advance_def Let_def file_byte_def fun_eq_iff)

lemma pos_advance:
  assumes "pos_ok v (fp\<lparr>objsize := o', fptr := fptr fp + w\<rparr>) xs" and "unat (fptr fp) + unat w < 2 ^ 32"
    and "unat o' = max (unat (objsize fp)) (unat (fptr fp) + unat w)"
  shows "pos_ok v (advance w fp) xs"
proof -
  have "unat (fptr fp + w) = unat (fptr fp) + unat w" using assms(2) by (intro unat_add_no_wrap) simp
  then show ?thesis using assms(1,3) advance_fields [OF assms(2)] by (simp add: pos_ok_def)
qed

definition write_step ::
    "u32 \<Rightarrow> bytes \<Rightarrow> 'd volume \<Rightarrow> FIL \<Rightarrow> u32 list \<Rightarrow> u32 \<Rightarrow> FIL \<Rightarrow> 'd volume \<Rightarrow> u32 list \<Rightarrow> bool" where
  "write_step btw b v fp xs w fp' v' xs' \<longleftrightarrow> 0 < unat w \<and> unat w \<le> unat btw \<and> dok v' fp' xs' \<and> aok v' \<and> realloc v v'
     \<and> stretched v xs v' xs' \<and> fil_written fp fp' \<and> pos_ok v (advance w fp') xs'
     \<and> (\<forall>i. unat (fptr fp) \<le> i \<and> i < unat (fptr fp) + unat w \<longrightarrow> fbyte v' fp' xs' i = b ! (i - unat (fptr fp)))
     \<and> (\<forall>i<unat (objsize fp). \<not> (unat (fptr fp) \<le> i \<and> i < unat (fptr fp) + unat w) \<longrightarrow> fbyte v' fp' xs' i = fbyte v fp xs i)
     \<and> (\<forall>t. \<not> in_fat v t \<and> \<not> in_clusters v (set xs') t \<longrightarrow> vview v' t = vview v t)"

lemma sector_end_le: "p mod 512 + w \<le> 512 \<Longrightarrow> p = 512 * (p div 512) + p mod 512 \<Longrightarrow> p div 512 < n \<Longrightarrow> p + w \<le> n * 512" for p w n :: nat
  by linarith

text \<open>The end of a round that goes through the buffer.\<close>

lemma copy_in_bytes:
  assumes "dok v fp0 xs" and "sclust fp = sclust fp0" and "length (buf fp) = 512" and "unat (fptr fp) div 512 < length xs * csz v"
    and "unat (sect fp) = file_sector v xs (unat (fptr fp) div 512)" and "clust fp = xs ! (unat (fptr fp) div 512 div csz v)"
    and "unat (fptr fp) + unat btw < 2 ^ 32" and "0 < btw" and "unat btw \<le> length b" and "unat (objsize fp) \<le> length xs * csz v * 512"
    and "\<And>i. i < 512 \<Longrightarrow> 512 * (unat (fptr fp) div 512) + i < unat (objsize fp) \<Longrightarrow> buf fp ! i = fblock v fp0 xs (unat (fptr fp) div 512) ! i"
    and "\<And>j. j < length xs * csz v \<Longrightarrow> j \<noteq> unat (fptr fp) div 512 \<Longrightarrow> fblock v fp0 xs j = sec (dev v) (file_sector v xs j)"
  defines "w \<equiv> rest_of_sector btw fp"
  shows "0 < unat w" "unat w \<le> unat btw" "dok v (copy_in w b fp) xs" "fil_kept fp (copy_in w b fp)" "pos_ok v (advance w (copy_in w b fp)) xs"
    "\<And>i. unat (fptr fp) \<le> i \<Longrightarrow> i < unat (fptr fp) + unat w \<Longrightarrow> fbyte v (copy_in w b fp) xs i = b ! (i - unat (fptr fp))"
    "\<And>i. i < unat (objsize fp) \<Longrightarrow> \<not> (unat (fptr fp) \<le> i \<and> i < unat (fptr fp) + unat w) \<Longrightarrow> fbyte v (copy_in w b fp) xs i = fbyte v fp0 xs i"
proof -
  let ?p = "unat (fptr fp)" and ?k = "unat (fptr fp) div 512" and ?fp = "copy_in w b fp"
  note d = dok_facts [OF assms(1)]
  have r: "0 < unat w" "?p mod 512 + unat w \<le> 512" "unat w \<le> unat btw"
    using assms(8) by (simp_all add: w_def word_less_nat_alt rest_of_sector_eq)
  then show "0 < unat w" "unat w \<le> unat btw" by simp_all
  have wb: "unat w \<le> length b" using r(3) assms(9) by simp
  note ci = copy_in_ok [OF assms(1-5) r(2) wb]
  show "dok v ?fp xs" "fil_kept fp ?fp" using ci(1,2) .
  note kf = fil_kept_fields [OF ci(2)]
  have lt: "?p + unat w < 2 ^ 32" using assms(7) r(3) by simp
  define o' :: u32 where "o' = of_nat (max (unat (objsize fp)) (?p + unat w))"
  have o': "unat o' = max (unat (objsize fp)) (?p + unat w)"
    using lt u32_lt [of "objsize fp"] by (simp add: o'_def unat_of_nat)
  have pm: "?p = 512 * ?k + ?p mod 512" by simp
  have "?p + unat w \<le> length xs * csz v * 512" using r(2) pm assms(4) by (rule sector_end_le)
  then have o_le: "unat o' \<le> length xs * csz v * 512" using o' assms(10) by simp
  have "pos_ok v (?fp\<lparr>objsize := o', fptr := fptr ?fp + w\<rparr>) xs"
    using pos_partial [of w "?fp\<lparr>objsize := o'\<rparr>" xs v] r o' o_le kf(1) ci(3,4) assms(5,6) by (simp add: word_less_nat_alt)
  then show "pos_ok v (advance w ?fp) xs" by (rule pos_advance) (use kf(1,2) lt o' in simp_all)
  have sector: "i div 512 = ?k \<and> i mod 512 = i - 512 * ?k" if "512 * ?k \<le> i" "i < 512 * ?k + 512" for i
    using that by (intro div_mod_eqI) auto
  show "fbyte v ?fp xs i = b ! (i - ?p)" if i: "?p \<le> i" "i < ?p + unat w" for i
  proof -
    have "512 * ?k \<le> i" "i < 512 * ?k + 512" using i r(2) pm by linarith+
    note s = sector [OF this]
    have "i mod 512 < 512" "?p mod 512 \<le> i mod 512" "i mod 512 < ?p mod 512 + unat w" "i mod 512 - ?p mod 512 = i - ?p"
      using s i pm by linarith+
    then show ?thesis using s ci(5) [of "i mod 512"] by (simp add: file_byte_def)
  qed
  show "fbyte v ?fp xs i = fbyte v fp0 xs i" if i: "i < unat (objsize fp)" "\<not> (?p \<le> i \<and> i < ?p + unat w)" for i
  proof (cases "i div 512 = ?k")
    case True
    have e: "i = 512 * ?k + i mod 512" using True mult_div_mod_eq [of 512 i] by simp
    have n: "\<not> (?p mod 512 \<le> i mod 512 \<and> i mod 512 < ?p mod 512 + unat w)" using i(2) e pm by linarith
    have l: "i mod 512 < 512" "512 * ?k + i mod 512 < unat (objsize fp)" using i(1) e by simp_all
    have "fblock v ?fp xs ?k ! (i mod 512) = buf fp ! (i mod 512)" using ci(5) [OF l(1)] n by simp
    also have "\<dots> = fblock v fp0 xs ?k ! (i mod 512)" using assms(11) [OF l] .
    finally show ?thesis using True by (simp add: file_byte_def)
  next
    case False
    have l: "i div 512 < length xs * csz v"
      using byte_position(1) [OF csz_bounds(1) [OF d(2)], of i xs] i(1) assms(10) by simp
    have "unat (sect fp) \<noteq> file_sector v xs (i div 512)" using file_sector_inj [OF d(2,5,6) assms(4) l] assms(5) False by auto
    then show ?thesis using ci(6) assms(12) [OF l False] by (simp add: file_byte_def)
  qed
qed

text \<open>A round that starts at a sector: after the cluster is known, the buffer is written back.\<close>

lemma clean_block:
  assumes "dok v fp xs" and "\<not> is_dirty fp" and "k < length xs * csz v"
  shows "fblock v fp xs k = sec (dev v) (file_sector v xs k)"
proof -
  note d = dok_facts [OF assms(1)]
  have "0 < file_sector v xs k" using in_clusters_data(4) [OF d(2,6) file_sector_in [OF d(2) assms(3)]] .
  then show ?thesis using assms(1,2) by (auto simp: file_block_def data_ok_def buf_ok_def)
qed

lemma cluster_flush:
  assumes "cluster_step v fp xs fp1 v1 xs1" and "0 < csz v"
  obtains d where "flush_buf io fp1 v1 = Ret (FR_OK, clean fp1, v1\<lparr>dev := d\<rparr>)" "cluster_step v fp xs (clean fp1) (v1\<lparr>dev := d\<rparr>) xs1"
proof -
  have c: "dok v1 fp1 xs1" "aok v1" "realloc v v1" "stretched v xs v1 xs1" "fil_written fp fp1" "unat (fptr fp) div 512 < length xs1 * csz v"
    "clust fp1 = xs1 ! (unat (fptr fp) div 512 div csz v)" "\<forall>k<length xs * csz v. fblock v1 fp1 xs1 k = fblock v fp xs k"
    "\<forall>t. \<not> in_fat v t \<and> \<not> in_clusters v (set xs1) t \<longrightarrow> vview v1 t = vview v t" using assms(1) by (simp_all add: cluster_step_def)
  note ff = realloc_file_fields [OF c(3)]
  obtain d where d: "flush_buf io fp1 v1 = Ret (FR_OK, clean fp1, v1\<lparr>dev := d\<rparr>)" "dok (v1\<lparr>dev := d\<rparr>) (clean fp1) xs1"
    "\<And>k. k < length xs1 * csz v1 \<Longrightarrow> fblock (v1\<lparr>dev := d\<rparr>) (clean fp1) xs1 k = fblock v1 fp1 xs1 k"
    "\<And>t. \<not> in_clusters v1 (set xs1) t \<Longrightarrow> sec d t = sec (dev v1) t" "vfat (v1\<lparr>dev := d\<rparr>) = vfat v1"
    by (rule flush_buf_ok [OF c(1)]) (rule that, assumption+)
  let ?v = "v1\<lparr>dev := d\<rparr>"
  have le: "length xs * csz v \<le> length xs1 * csz v1" using c(4) ff(6) by (auto simp: stretched_def)
  have "vfree ?v = vfree v1" "aok ?v" using aok_moved [OF c(2) moved_dev d(5)] by simp_all
  moreover have "stretched v xs ?v xs1" using stretched_trans [OF c(4) stretched_refl [OF d(5)]] by simp
  moreover have "fil_written fp (clean fp1)" using fil_written_trans [OF c(5) fil_kept_written [OF fil_kept_clean]] .
  moreover have "vview ?v t = vview v1 t" if "\<not> in_clusters v (set xs1) t" for t using d(4) [of t] that ff(2) by (simp add: vol_view_def)
  moreover have "fblock ?v (clean fp1) xs1 k = fblock v fp xs k" if "k < length xs * csz v" for k using d(3) [of k] c(8) le that by simp
  moreover note realloc_trans [OF c(3) moved_realloc [OF moved_dev [where d = d]]]
  ultimately have "cluster_step v fp xs (clean fp1) ?v xs1"
    using c(6,7,9) d(2) unfolding cluster_step_def by simp
  then show ?thesis using that d(1) by blast
qed

lemma write_step_after:
  assumes "cluster_step v fp xs fp1 v1 xs1" and "write_step btw b v1 fp1 xs1 w fp' v' xs1" and "0 < csz v"
    and "unat (objsize fp) \<le> length xs * csz v * 512"
  shows "write_step btw b v fp xs w fp' v' xs1"
proof -
  have c: "realloc v v1" "stretched v xs v1 xs1" "fil_written fp fp1" "\<forall>k<length xs * csz v. fblock v1 fp1 xs1 k = fblock v fp xs k"
    "\<forall>t. \<not> in_fat v t \<and> \<not> in_clusters v (set xs1) t \<longrightarrow> vview v1 t = vview v t" using assms(1) by (simp_all add: cluster_step_def)
  note ff = realloc_file_fields [OF c(1)]
  have "fbyte v1 fp1 xs1 i = fbyte v fp xs i" if "i < unat (objsize fp)" for i
    using c(4) byte_position(1) [OF assms(3), of i xs] that assms(4) by (simp add: file_byte_def)
  moreover have "pos_ok v1 = (pos_ok v :: FIL \<Rightarrow> u32 list \<Rightarrow> bool)" using ff(1,6) by (simp add: pos_ok_def fun_eq_iff)
  moreover have "in_fat v1 = in_fat v" using realloc_fields [OF c(1)] by (simp add: in_fat_def fun_eq_iff)
  moreover have "fptr fp1 = fptr fp" "objsize fp1 = objsize fp" using c(3) by (simp_all add: fil_written_def)
  ultimately show ?thesis
    using assms(2) c(5) ff(2) realloc_trans [OF c(1)] stretched_trans [OF c(2)] fil_written_trans [OF c(3)] unfolding write_step_def by auto
qed

text \<open>The two ways to store bytes.\<close>

lemma store_partial:
  assumes "dok v fp0 xs" and "aok v" and "fil_kept fp0 fp" and "length (buf fp) = 512" and "unat (fptr fp) div 512 < length xs * csz v"
    and "unat (sect fp) = file_sector v xs (unat (fptr fp) div 512)" and "clust fp = xs ! (unat (fptr fp) div 512 div csz v)"
    and "unat (fptr fp) + unat btw < 2 ^ 32" and "0 < btw" and "unat btw \<le> length b" and "unat (objsize fp) \<le> length xs * csz v * 512"
    and "\<And>i. i < 512 \<Longrightarrow> 512 * (unat (fptr fp) div 512) + i < unat (objsize fp) \<Longrightarrow> buf fp ! i = fblock v fp0 xs (unat (fptr fp) div 512) ! i"
    and "\<And>j. j < length xs * csz v \<Longrightarrow> j \<noteq> unat (fptr fp) div 512 \<Longrightarrow> fblock v fp0 xs j = sec (dev v) (file_sector v xs j)"
  shows "write_step btw b v fp0 xs (rest_of_sector btw fp) (copy_in (rest_of_sector btw fp) b fp) v xs"
proof -
  note k = fil_kept_fields [OF assms(3)]
  note c = copy_in_bytes [OF assms(1) k(3) assms(4-13)]
  have "fil_written fp0 (copy_in (rest_of_sector btw fp) b fp)" using fil_kept_written [OF fil_kept_trans [OF assms(3) c(4)]] .
  moreover have "realloc v v" using moved_realloc [OF moved_dev [where v = v and d = "dev v"]] by simp
  ultimately show ?thesis using c assms(2) k(1,2) by (simp add: write_step_def stretched_refl)
qed

lemma store_direct:
  assumes "dok v fp xs" and "aok v" and "\<not> is_dirty fp" and "unat (fptr fp) mod 512 = 0" and "unat (fptr fp) div 512 < length xs * csz v"
    and "unat s = file_sector v xs (unat (fptr fp) div 512)" and "clust fp = xs ! (unat (fptr fp) div 512 div csz v)"
    and "unat (fptr fp) + unat btw < 2 ^ 32" and "0 < btw div 512" and "unat btw \<le> length b" and "unat (objsize fp) \<le> length xs * csz v * 512"
  defines "cc \<equiv> clip_cluster (csect_of fp v) (btw div 512) v"
  obtains fp' d where "write_direct io s cc b fp v = Ret (FR_OK, fp', v\<lparr>dev := d\<rparr>)" "write_step btw b v fp xs (512 * cc) fp' (v\<lparr>dev := d\<rparr>) xs"
proof -
  let ?p = "unat (fptr fp)" and ?q = "unat (fptr fp) div 512"
  note d = dok_facts [OF assms(1)]
  have p: "512 * ?q = ?p" using assms(4) mult_div_mod_eq [of 512 ?p] by linarith
  have cs: "unat (csect_of fp v) = ?q mod csz v" "?q mod csz v < csz v" using csect_of_eq [OF d(2)] csz_bounds(1) [OF d(2)] by simp_all
  have cc: "0 < unat cc" "?q mod csz v + unat cc \<le> csz v" "unat (512 * cc) = 512 * unat cc" "512 * unat cc \<le> unat btw"
    using clip_cluster_ok [OF d(2), of "csect_of fp v" btw] assms(9) cs unfolding cc_def by simp_all
  have len: "unat cc * 512 \<le> length b" using cc(4) assms(10) by simp
  obtain fp' d' where w: "write_direct io s cc b fp v = Ret (FR_OK, fp', v\<lparr>dev := d'\<rparr>)" "dok (v\<lparr>dev := d'\<rparr>) fp' xs" "fil_kept fp fp'"
    "clust fp' = clust fp" "vfat (v\<lparr>dev := d'\<rparr>) = vfat v" "\<And>t. \<not> in_clusters v (set xs) t \<Longrightarrow> vview (v\<lparr>dev := d'\<rparr>) t = vview v t"
    "\<And>j. j < length xs * csz v \<Longrightarrow> fblock (v\<lparr>dev := d'\<rparr>) fp' xs j = (if ?q \<le> j \<and> j < ?q + unat cc then slice b ((j - ?q) * 512) 512 else fblock v fp xs j)"
    by (rule write_direct_ok [OF assms(1,3,6) cc(1,2) assms(5) len]) (rule that, assumption+)
  let ?v = "v\<lparr>dev := d'\<rparr>"
  note kf = fil_kept_fields [OF w(3)]
  have "?q + unat cc \<le> length xs * csz v" using file_run(1) [OF assms(1,6) cc(1,2) assms(5), of "unat cc - 1"] cc(1) by simp
  then have end_le: "?p + 512 * unat cc \<le> length xs * csz v * 512" using p by linarith
  have lt: "?p + unat (512 * cc) < 2 ^ 32" using assms(8) cc(3,4) by simp
  define o' :: u32 where "o' = of_nat (max (unat (objsize fp)) (?p + unat (512 * cc)))"
  have o': "unat o' = max (unat (objsize fp)) (?p + unat (512 * cc))" using lt u32_lt [of "objsize fp"] by (simp add: o'_def unat_of_nat)
  have o_le: "unat o' \<le> length xs * csz v * 512" using o' end_le assms(11) cc(3) by simp
  have "pos_ok v (fp'\<lparr>objsize := o', fptr := fptr fp' + 512 * cc\<rparr>) xs"
    using pos_direct [of cc "fp'\<lparr>objsize := o'\<rparr>" "512 * cc" v xs] cc assms(4,7) w(4) kf(1) o' o_le by simp
  then have pos: "pos_ok v (advance (512 * cc) fp') xs" by (rule pos_advance) (use kf(1,2) lt o' in simp_all)
  have inside: "fbyte ?v fp' xs i = b ! (i - ?p)" if i: "?p \<le> i" "i < ?p + 512 * unat cc" for i
  proof -
    have j: "?q \<le> i div 512" "i div 512 < ?q + unat cc" "i div 512 < length xs * csz v"
      using i p \<open>?q + unat cc \<le> length xs * csz v\<close> by linarith+
    have "i - ?p = (i div 512 - ?q) * 512 + i mod 512" using p j(1) mult_div_mod_eq [of 512 i] by (simp add: diff_mult_distrib)
    moreover have "i - ?p < length b" using i len by linarith
    ultimately show ?thesis using w(7) [OF j(3)] j(1,2) by (simp add: file_byte_def slice_def)
  qed
  have outside: "fbyte ?v fp' xs i = fbyte v fp xs i" if i: "i < unat (objsize fp)" "\<not> (?p \<le> i \<and> i < ?p + 512 * unat cc)" for i
  proof -
    have "\<not> (?q \<le> i div 512 \<and> i div 512 < ?q + unat cc)" using i(2) p by linarith
    moreover have "i div 512 < length xs * csz v" using byte_position(1) [OF csz_bounds(1) [OF d(2)], of i xs] i(1) assms(11) by simp
    ultimately show ?thesis using w(7) by (auto simp: file_byte_def)
  qed
  have "write_step btw b v fp xs (512 * cc) fp' ?v xs"
    using cc(1,3,4) w(2,6) aok_moved [OF assms(2) moved_dev w(5)] moved_realloc [OF moved_dev] fil_kept_written [OF w(3)] pos inside outside w(5)
    by (simp add: write_step_def stretched_refl)
  then show ?thesis using that w(1) by blast
qed

lemma write_step_dev:
  assumes "write_step btw b (v\<lparr>dev := d\<rparr>) fp xs w fp' v' xs'" and "vview (v\<lparr>dev := d\<rparr>) = vview v" and "fblock (v\<lparr>dev := d\<rparr>) = fblock v"
  shows "write_step btw b v fp xs w fp' v' xs'"
proof -
  have "vfat (v\<lparr>dev := d\<rparr>) = vfat v" using moved_fat_of [OF moved_dev [where v = v and d = d]] assms(2) by simp
  moreover have "fbyte (v\<lparr>dev := d\<rparr>) = fbyte v" using assms(3) by (simp add: file_byte_def fun_eq_iff)
  moreover note realloc_trans [OF moved_realloc [OF moved_dev [where v = v and d = d]], of v']
  ultimately show ?thesis using assms by (simp add: write_step_def stretched_def pos_ok_def in_fat_def)
qed

lemma store_sector:
  assumes "dok v fp xs" and "aok v" and "\<not> is_dirty fp" and "unat (fptr fp) mod 512 = 0" and "unat (fptr fp) div 512 < length xs * csz v"
    and "unat s = file_sector v xs (unat (fptr fp) div 512)" and "clust fp = xs ! (unat (fptr fp) div 512 div csz v)"
    and "unat (fptr fp) + unat btw < 2 ^ 32" and "0 < btw" and "unat btw \<le> length b" and "unat (objsize fp) \<le> length xs * csz v * 512"
  obtains fp' d where "write_sector io s fp v = Ret (FR_OK, fp', v\<lparr>dev := d\<rparr>)"
    "write_step btw b v fp xs (rest_of_sector btw fp') (copy_in (rest_of_sector btw fp') b fp') (v\<lparr>dev := d\<rparr>) xs"
proof -
  let ?q = "unat (fptr fp) div 512"
  have p: "512 * ?q = unat (fptr fp)" using assms(4) mult_div_mod_eq [of 512 "unat (fptr fp)"] by linarith
  obtain fp' d where w: "write_sector io s fp v = Ret (FR_OK, fp', v\<lparr>dev := d\<rparr>)" "good d" "sec d = sec (dev v)" "fil_kept fp fp'"
    "clust fp' = clust fp" "sect fp' = s" "length (buf fp') = 512" "fptr fp < objsize fp \<Longrightarrow> buf fp' = fblock v fp xs ?q \<or> is_dirty fp"
    by (rule write_sector_ok [OF assms(1,5,6)]) (rule that, assumption+)
  note same = dok_same_sectors [OF assms(1) w(2,3)] and kf = fil_kept_fields [OF w(4)]
  have F: "vview (v\<lparr>dev := d\<rparr>) = vview v" "fblock (v\<lparr>dev := d\<rparr>) = fblock v" using w(3) by (simp_all add: vol_view_def file_block_def fun_eq_iff)
  have F1: "vfat (v\<lparr>dev := d\<rparr>) = vfat v" using moved_fat_of [OF moved_dev [where v = v and d = d]] F(1) by simp
  have "write_step btw b (v\<lparr>dev := d\<rparr>) fp xs (rest_of_sector btw fp') (copy_in (rest_of_sector btw fp') b fp') (v\<lparr>dev := d\<rparr>) xs"
  proof (rule store_partial)
    show "dok (v\<lparr>dev := d\<rparr>) fp xs" "aok (v\<lparr>dev := d\<rparr>)" using same aok_moved(1) [OF assms(2) moved_dev F1] by simp_all
    show "buf fp' ! i = fblock (v\<lparr>dev := d\<rparr>) fp xs (unat (fptr fp') div 512) ! i"
      if "512 * (unat (fptr fp') div 512) + i < unat (objsize fp')" for i
      using w(8) assms(3) that p kf(1,2) F(2) by (auto simp: word_less_nat_alt)
    show "fblock (v\<lparr>dev := d\<rparr>) fp xs j = sec (dev (v\<lparr>dev := d\<rparr>)) (file_sector (v\<lparr>dev := d\<rparr>) xs j)" if "j < length xs * csz (v\<lparr>dev := d\<rparr>)" for j
      using clean_block [OF assms(1,3)] that F(2) w(3) by simp
  qed (use w(4-7) kf(1,2) assms in simp_all)
  then show ?thesis using that w(1) write_step_dev F by blast
qed

lemma start_of_position:
  assumes "dok v fp xs" and "unat (fptr fp) div 512 div csz v < length xs"
  defines "c \<equiv> xs ! (unat (fptr fp) div 512 div csz v)"
  shows "unat (clst2sect v c + csect_of fp v) = file_sector v xs (unat (fptr fp) div 512)" "clst2sect v c \<noteq> 0"
proof -
  note g = dok_facts(2) [OF assms(1)] and c = cluster_of_position [OF assms(1,2), folded c_def]
  have "unat (csect_of fp v) = unat (fptr fp) div 512 mod csz v" "unat (fptr fp) div 512 mod csz v < csz v"
    using csect_of_eq [OF g] csz_bounds(1) [OF g] by simp_all
  then show "unat (clst2sect v c + csect_of fp v) = file_sector v xs (unat (fptr fp) div 512)"
    using clst2sect_eq [OF g c(1,2)] cluster_sector_bounds [OF g c(1,2)] by (simp add: unat_add_no_wrap file_sector_def c_def)
  show "clst2sect v c \<noteq> 0" using clst2sect_eq(2) [OF g c(1,2)] .
qed

lemma write_round_ok:
  assumes "fok v fp xs" and "aok v" and "0 < btw" and "unat (fptr fp) + unat btw < 2 ^ 32" and "unat btw \<le> length b"
  shows "(\<exists>w fp' v' xs'. write_round io btw b fp v = Ret (FR_OK, False, w, fp', v') \<and> write_step btw b v fp xs w fp' v' xs')
    \<or> (\<exists>v'. write_round io btw b fp v = Ret (FR_OK, True, 0, fp, v') \<and> vfree v = {} \<and> unat (fptr fp) = length xs * csz v * 512
         \<and> dok v' fp xs \<and> aok v' \<and> realloc v v' \<and> vview v' = vview v \<and> (\<forall>k<length xs * csz v. fblock v' fp xs k = fblock v fp xs k))"
proof (cases "unat (fptr fp) mod 512 = 0")
  case False
  let ?q = "unat (fptr fp) div 512"
  note f = fok_facts [OF assms(1)] and d = dok_facts [OF fok_facts(1) [OF assms(1)]]
  have "unat (fptr fp) \<noteq> length xs * csz v * 512" using False by auto
  then have q: "?q < length xs * csz v" using byte_position(1) [OF f(4), of "unat (fptr fp)" xs] f(6,7) by linarith
  have s: "unat (sect fp) = file_sector v xs ?q" "clust fp = xs ! (?q div csz v)"
    using assms(1) False pred_div_inside [OF False] by (auto simp: file_ok_def pos_ok_def)
  have other: "fblock v fp xs j = sec (dev v) (file_sector v xs j)" if "j < length xs * csz v" "j \<noteq> ?q" for j
    using file_sector_inj [OF d(2,5,6) q that(1)] that(2) s(1) by (auto simp: file_block_def)
  have "write_step btw b v fp xs (rest_of_sector btw fp) (copy_in (rest_of_sector btw fp) b fp) v xs"
    by (rule store_partial [OF f(1) assms(2) fil_kept_refl d(8) q s assms(4,3,5) f(7) _ other]) (simp_all add: file_block_def s(1))
  moreover have "fptr fp mod 512 \<noteq> 0" using False by (simp add: word_unat_eq_iff unat_mod)
  ultimately show ?thesis by (auto simp: write_round_def Let_def)
next
  case True
  let ?q = "unat (fptr fp) div 512"
  note f = fok_facts [OF assms(1)]
  have m0: "fptr fp mod 512 = 0" using True by (simp add: word_unat_eq_iff unat_mod)
  from write_cluster_ok [OF assms(1,2) True] show ?thesis
  proof (elim disjE exE conjE)
    fix v' assume "write_cluster io fp v = Ret (FR_OK, True, fp, v')" "vfree v = {}" "unat (fptr fp) = length xs * csz v * 512"
      "dok v' fp xs" "aok v'" "realloc v v'" "vview v' = vview v" "\<forall>k<length xs * csz v. fblock v' fp xs k = fblock v fp xs k"
    then show ?thesis using m0 by (intro disjI2) (simp add: write_round_def)
  next
    fix fp1 v1 xs1 assume w: "write_cluster io fp v = Ret (FR_OK, False, fp1, v1)" and c1: "cluster_step v fp xs fp1 v1 xs1"
    obtain d where d: "flush_buf io fp1 v1 = Ret (FR_OK, clean fp1, v1\<lparr>dev := d\<rparr>)" and c: "cluster_step v fp xs (clean fp1) (v1\<lparr>dev := d\<rparr>) xs1"
      by (rule cluster_flush [OF c1 f(4)])
    define fp2 v2 where "fp2 = clean fp1" and "v2 = v1\<lparr>dev := d\<rparr>"
    note cs = c [folded fp2_def v2_def, unfolded cluster_step_def] and fl = d [folded fp2_def v2_def]
    have c2: "dok v2 fp2 xs1" "aok v2" "realloc v v2" "stretched v xs v2 xs1" "fptr fp2 = fptr fp" "objsize fp2 = objsize fp"
      "?q < length xs1 * csz v" "clust fp2 = xs1 ! (?q div csz v)" "\<not> is_dirty fp2" using cs by (auto simp: fil_written_def fp2_def)
    note ff = realloc_file_fields [OF c2(3)]
    have o: "unat (objsize fp) \<le> length xs1 * csz v * 512"
    proof -
      have "length xs * (csz v * 512) \<le> length xs1 * (csz v * 512)" using c2(4) by (intro mult_right_mono) (auto simp: stretched_def)
      then show ?thesis using f(7) unfolding mult.assoc by (rule order_trans [rotated])
    qed
    define s where "s = clst2sect v2 (clust fp2) + csect_of fp v"
    have m: "?q div csz v < length xs1" using c2(7) f(4) by (simp add: less_mult_imp_div_less)
    have s: "unat s = file_sector v2 xs1 ?q" and s0: "clst2sect v2 (clust fp2) \<noteq> 0"
      using start_of_position [OF c2(1)] m c2(5,8) ff(4,6) by (simp_all add: s_def csect_of_def)
    note after = write_step_after [OF c [folded fp2_def v2_def] _ f(4,7)]
    show ?thesis
    proof (cases "0 < btw div 512")
      case True
      obtain fp3 d3 where "write_direct io s (clip_cluster (csect_of fp2 v2) (btw div 512) v2) b fp2 v2 = Ret (FR_OK, fp3, v2\<lparr>dev := d3\<rparr>)"
        "write_step btw b v2 fp2 xs1 (512 * clip_cluster (csect_of fp2 v2) (btw div 512) v2) fp3 (v2\<lparr>dev := d3\<rparr>) xs1"
        by (rule store_direct [OF c2(1,2,9), of s btw b]) (use \<open>unat (fptr fp) mod 512 = 0\<close> c2 s ff(6) assms(4,5) True o in simp_all)
      moreover have "csect_of fp2 v2 = csect_of fp v" using ff(4) c2(5) by (simp add: csect_of_def ff(6))
      ultimately show ?thesis using after m0 w fl s0 True by (intro disjI1) (auto simp: write_round_def Let_def s_def intro!: exI [of _ xs1])
    next
      case False
      obtain fp3 d3 where "write_sector io s fp2 v2 = Ret (FR_OK, fp3, v2\<lparr>dev := d3\<rparr>)"
        "write_step btw b v2 fp2 xs1 (rest_of_sector btw fp3) (copy_in (rest_of_sector btw fp3) b fp3) (v2\<lparr>dev := d3\<rparr>) xs1"
        by (rule store_sector [OF c2(1,2,9), of s btw b]) (use \<open>unat (fptr fp) mod 512 = 0\<close> c2 s ff(6) assms(3-5) o in simp_all)
      then show ?thesis using after m0 w fl s0 False by (intro disjI1) (auto simp: write_round_def Let_def s_def intro!: exI [of _ xs1])
    qed
  qed
qed

text \<open>A sequence of rounds that has stored the first \<open>n\<close> bytes of \<open>b\<close>.\<close>

definition write_run :: "bytes \<Rightarrow> nat \<Rightarrow> 'd volume \<Rightarrow> FIL \<Rightarrow> u32 list \<Rightarrow> FIL \<Rightarrow> 'd volume \<Rightarrow> u32 list \<Rightarrow> bool" where
  "write_run b n v fp xs fp' v' xs' \<longleftrightarrow> fok v' fp' xs' \<and> aok v' \<and> realloc v v' \<and> stretched v xs v' xs'
     \<and> unat (fptr fp') = unat (fptr fp) + n \<and> unat (objsize fp') = max (unat (objsize fp)) (unat (fptr fp) + n)
     \<and> fil_written fp (fp'\<lparr>fptr := fptr fp, objsize := objsize fp\<rparr>)
     \<and> (\<forall>i. unat (fptr fp) \<le> i \<and> i < unat (fptr fp) + n \<longrightarrow> fbyte v' fp' xs' i = b ! (i - unat (fptr fp)))
     \<and> (\<forall>i<unat (objsize fp). \<not> (unat (fptr fp) \<le> i \<and> i < unat (fptr fp) + n) \<longrightarrow> fbyte v' fp' xs' i = fbyte v fp xs i)
     \<and> (\<forall>t. \<not> in_fat v t \<and> \<not> in_clusters v (set xs') t \<longrightarrow> vview v' t = vview v t)"

lemma in_clusters_mono: "A \<subseteq> B \<Longrightarrow> in_clusters v A t \<Longrightarrow> in_clusters v B t"
  by (auto simp: in_clusters_def)

lemma write_run_step:
  assumes "write_step btw b v fp xs w fp1 v1 xs1" and "write_run (drop (unat w) b) n v1 (advance w fp1) xs1 fp' v' xs'"
    and "unat (fptr fp) + unat w + n < 2 ^ 32" and "unat w \<le> length b"
  shows "write_run b (unat w + n) v fp xs fp' v' xs'"
proof -
  let ?p = "unat (fptr fp)" and ?fp = "advance w fp1"
  have s: "realloc v v1" "stretched v xs v1 xs1" "fil_written fp fp1"
    "\<And>i. ?p \<le> i \<Longrightarrow> i < ?p + unat w \<Longrightarrow> fbyte v1 fp1 xs1 i = b ! (i - ?p)"
    "\<And>i. i < unat (objsize fp) \<Longrightarrow> \<not> (?p \<le> i \<and> i < ?p + unat w) \<Longrightarrow> fbyte v1 fp1 xs1 i = fbyte v fp xs i"
    "\<And>t. \<not> in_fat v t \<Longrightarrow> \<not> in_clusters v (set xs1) t \<Longrightarrow> vview v1 t = vview v t"
    using assms(1) by (simp_all add: write_step_def)
  have fw: "fptr fp1 = fptr fp" "objsize fp1 = objsize fp" using s(3) by (simp_all add: fil_written_def)
  have a: "unat (fptr ?fp) = ?p + unat w" "unat (objsize ?fp) = max (unat (objsize fp)) (?p + unat w)"
    using advance_fields [of fp1 w] assms(3) fw by simp_all
  have r: "fok v' fp' xs'" "aok v'" "realloc v1 v'" "stretched v1 xs1 v' xs'" "unat (fptr fp') = ?p + unat w + n"
    "unat (objsize fp') = max (max (unat (objsize fp)) (?p + unat w)) (?p + unat w + n)"
    "fil_written ?fp (fp'\<lparr>fptr := fptr ?fp, objsize := objsize ?fp\<rparr>)"
    "\<And>i. ?p + unat w \<le> i \<Longrightarrow> i < ?p + unat w + n \<Longrightarrow> fbyte v' fp' xs' i = drop (unat w) b ! (i - (?p + unat w))"
    "\<And>i. i < unat (objsize fp) \<or> i < ?p + unat w \<Longrightarrow> \<not> (?p + unat w \<le> i \<and> i < ?p + unat w + n) \<Longrightarrow> fbyte v' fp' xs' i = fbyte v1 fp1 xs1 i"
    "\<And>t. \<not> in_fat v1 t \<Longrightarrow> \<not> in_clusters v1 (set xs') t \<Longrightarrow> vview v' t = vview v1 t"
    using assms(2) unfolding write_run_def a by (auto simp: less_max_iff_disj)
  have inside: "fbyte v' fp' xs' i = b ! (i - ?p)" if i: "?p \<le> i" "i < ?p + (unat w + n)" for i
  proof (cases "i < ?p + unat w")
    case True
    then show ?thesis using r(9) [of i] s(4) i by simp
  next
    case False
    then have "unat w + (i - (?p + unat w)) = i - ?p" using i by simp
    then show ?thesis using r(8) [of i] False i assms(4) by simp
  qed
  have "fil_written fp (fp'\<lparr>fptr := fptr fp, objsize := objsize fp\<rparr>)"
    using r(7) s(3) by (simp add: fil_written_def advance_def Let_def)
  moreover have "vview v' t = vview v t" if "\<not> in_fat v t" "\<not> in_clusters v (set xs') t" for t
  proof -
    have "set xs1 \<subseteq> set xs'" using r(4) by (auto simp: stretched_def)
    then have "\<not> in_clusters v (set xs1) t" using that(2) in_clusters_mono by blast
    moreover have "in_fat v1 = in_fat v" using realloc_fields [OF s(1)] by (simp add: in_fat_def fun_eq_iff)
    ultimately show ?thesis using r(10) s(6) that realloc_file_fields(2) [OF s(1)] by simp
  qed
  moreover have "fbyte v' fp' xs' i = fbyte v fp xs i" if "i < unat (objsize fp)" "\<not> (?p \<le> i \<and> i < ?p + (unat w + n))" for i
    using r(9) [of i] s(5) [of i] that by auto
  ultimately show ?thesis
    using r(1,2,5,6) inside realloc_trans [OF s(1) r(3)] stretched_trans [OF s(2) r(4)] unfolding write_run_def by simp
qed

lemma write_loop_ok:
  assumes "fok v fp xs" and "aok v" and "unat (fptr fp) + unat btw < 2 ^ 32" and "unat btw \<le> length b" and "unat btw < k"
  shows "\<exists>n fp' v' xs'. write_loop k io btw b bw fp v = Ret (FR_OK, bw + of_nat n, fp'\<lparr>flag := flag fp' OR FA_MODIFIED\<rparr>, v')
    \<and> n \<le> unat btw \<and> write_run b n v fp xs fp' v' xs' \<and> (n < unat btw \<longrightarrow> vfree v' = {} \<and> unat (fptr fp') = length xs' * csz v * 512)"
  using assms
proof (induction k arbitrary: btw b bw fp v xs)
  case (Suc k)
  show ?case
  proof (cases "btw = 0")
    case True
    moreover have "realloc v v" using moved_realloc [OF moved_dev [where v = v and d = "dev v"]] by simp
    ultimately show ?thesis using Suc.prems(1,2) fok_facts(6) [OF Suc.prems(1)]
      by (intro exI [of _ 0] exI [of _ fp] exI [of _ v] exI [of _ xs]) (auto simp: write_run_def stretched_refl fil_written_def)
  next
    case False
    then have b0: "0 < btw" by (simp add: word_gt_0)
    from write_round_ok [OF Suc.prems(1,2) b0 Suc.prems(3,4)] show ?thesis
    proof (elim disjE exE conjE)
      fix v' assume r: "write_round io btw b fp v = Ret (FR_OK, True, 0, fp, v')" "vfree v = {}" "unat (fptr fp) = length xs * csz v * 512"
        "dok v' fp xs" "aok v'" "realloc v v'" "vview v' = vview v" "\<forall>k<length xs * csz v. fblock v' fp xs k = fblock v fp xs k"
      have "vfat v' = vfat v" "n_fatent v' = n_fatent v" using realloc_fields(6,17) [OF r(6)] r(7) by simp_all
      moreover have "fok v' fp xs" using Suc.prems(1) r(4) realloc_file_fields [OF r(6)] by (simp add: file_ok_def pos_ok_def)
      moreover have "fbyte v' fp xs i = fbyte v fp xs i" if "i < unat (objsize fp)" for i
        using r(8) byte_position(1) [OF fok_facts(4) [OF Suc.prems(1)], of i xs] that fok_facts(7) [OF Suc.prems(1)] by (simp add: file_byte_def)
      ultimately show ?thesis using b0 r fok_facts(6) [OF Suc.prems(1)]
        by (intro exI [of _ 0] exI [of _ fp] exI [of _ v'] exI [of _ xs]) (auto simp: write_run_def stretched_refl fil_written_def)
    next
      fix w fp1 v1 xs1 assume r: "write_round io btw b fp v = Ret (FR_OK, False, w, fp1, v1)" and st: "write_step btw b v fp xs w fp1 v1 xs1"
      have w: "0 < unat w" "unat w \<le> unat btw" "dok v1 fp1 xs1" "aok v1" "realloc v v1" "pos_ok v (advance w fp1) xs1" "fptr fp1 = fptr fp"
        using st by (simp_all add: write_step_def fil_written_def)
      note ff = realloc_file_fields [OF w(5)]
      have u: "unat (btw - w) = unat btw - unat w" using w(2) by (simp add: unat_sub word_le_nat_alt)
      have p: "unat (fptr (advance w fp1)) = unat (fptr fp) + unat w" using advance_fields(1) [of fp1 w] Suc.prems(3) w(2,7) by simp
      have fk: "fok v1 (advance w fp1) xs1" using w(3,6) ff(1,6) by (simp add: file_ok_def pos_ok_def)
      have pre: "unat (fptr (advance w fp1)) + unat (btw - w) < 2 ^ 32" "unat (btw - w) \<le> length (drop (unat w) b)" "unat (btw - w) < k"
        using u p w(1,2) Suc.prems(3-5) by simp_all
      from Suc.IH [OF fk w(4) pre, of "bw + w"] obtain n fp' v' xs' where
        ih: "write_loop k io (btw - w) (drop (unat w) b) (bw + w) (advance w fp1) v1 = Ret (FR_OK, bw + w + of_nat n, fp'\<lparr>flag := flag fp' OR FA_MODIFIED\<rparr>, v')"
        "n \<le> unat (btw - w)" "write_run (drop (unat w) b) n v1 (advance w fp1) xs1 fp' v' xs'"
        "n < unat (btw - w) \<Longrightarrow> vfree v' = {} \<and> unat (fptr fp') = length xs' * csz v1 * 512" by blast
      have "write_run b (unat w + n) v fp xs fp' v' xs'"
        using write_run_step [OF st ih(3)] Suc.prems(3,4) ih(2) u w(2) by simp
      moreover have "write_loop (Suc k) io btw b bw fp v = Ret (FR_OK, bw + of_nat (unat w + n), fp'\<lparr>flag := flag fp' OR FA_MODIFIED\<rparr>, v')"
        using b0 r ih(1) by (simp add: add.assoc)
      ultimately show ?thesis using ih(2,4) u w(2) ff(6)
        by (intro exI [of _ "unat w + n"] exI [of _ fp'] exI [of _ v'] exI [of _ xs']) simp
    qed
  qed
qed simp

text \<open>A write is short only at the end of the volume or of the largest file.\<close>

definition room :: "'d volume \<Rightarrow> FIL \<Rightarrow> u32 list \<Rightarrow> nat" where
  "room v fp xs = (length xs + card (vfree v)) * csz v * 512 - unat (fptr fp)"

lemma write_run_room:
  assumes "write_run b n v fp xs fp' v' xs'" and "n \<le> m" and "n < m \<Longrightarrow> vfree v' = {} \<and> unat (fptr fp') = length xs' * csz v * 512"
  shows "n = min m (room v fp xs)"
proof -
  obtain ys where ys: "xs' = xs @ ys" "set ys \<subseteq> vfree v" "vfree v' = vfree v - set ys" "distinct ys"
    using assms(1) unfolding write_run_def stretched_def by blast
  have r: "realloc v v'" "fok v' fp' xs'" "unat (fptr fp') = unat (fptr fp) + n" using assms(1) by (simp_all add: write_run_def)
  have le: "length ys \<le> card (vfree v)" using card_mono [OF _ ys(2)] distinct_card [OF ys(4)] by (simp add: free_clusters_def)
  have "length xs' * (csz v * 512) \<le> (length xs + card (vfree v)) * (csz v * 512)" using ys(1) le by (intro mult_right_mono) simp_all
  moreover have "unat (fptr fp) + n \<le> length xs' * (csz v * 512)"
    using fok_facts(6,7) [OF r(2)] r(3) realloc_file_fields(6) [OF r(1)] by (simp add: mult.assoc)
  ultimately have upper: "n \<le> room v fp xs" unfolding room_def mult.assoc by linarith
  show ?thesis
  proof (cases "n < m")
    case True
    then have e: "vfree v' = {}" "unat (fptr fp) + n = length xs' * csz v * 512" using assms(3) r(3) by simp_all
    then have "vfree v = set ys" using ys(2,3) by blast
    then have "length xs' = length xs + card (vfree v)" using ys(1) distinct_card [OF ys(4)] by simp
    then have "n = room v fp xs" using e(2) by (simp add: room_def)
    then show ?thesis using True by simp
  qed (use assms(2) upper in simp)
qed

lemma fok_modified:
  assumes "fok v fp xs"
  shows "fok v (fp\<lparr>flag := flag fp OR FA_MODIFIED\<rparr>) xs"
proof -
  have "(flag fp OR FA_MODIFIED) AND FA_DIRTY = flag fp AND FA_DIRTY" by (simp add: FA_MODIFIED_def FA_DIRTY_def word_ao_dist)
  then have "is_dirty (fp\<lparr>flag := flag fp OR FA_MODIFIED\<rparr>) = is_dirty fp" by (simp add: is_dirty_def)
  then show ?thesis using assms by (simp add: file_ok_def data_ok_def buf_ok_def pos_ok_def)
qed

lemma validate_ok:
  assumes "dok v fp xs" and "obj_fs fp \<noteq> 0" and "obj_id fp = volume_id v"
  shows "validate io fp v = Ret FR_OK"
proof -
  have "fs_type v \<noteq> 0" using dok_facts(2) [OF assms(1)] by (auto simp: geometry_ok_def FS_FAT12_def FS_FAT16_def FS_FAT32_def)
  moreover have "dio_status io (pdrv v) (dev v) = Ret 0" using status_run dok_facts(3,4) [OF assms(1)] by simp
  ultimately show ?thesis using assms(2,3) by (simp add: validate_def)
qed

lemma f_write_ok:
  fixes btw :: u32
  assumes "fok v fp xs" and "aok v" and "obj_fs fp \<noteq> 0" and "obj_id fp = volume_id v" and "err fp = FR_OK" and "flag fp AND FA_WRITE \<noteq> 0"
    and "unat btw \<le> length b"
  defines "n \<equiv> min (min (unat btw) (2 ^ 32 - 1 - unat (fptr fp))) (room v fp xs)"
  shows "\<exists>fp' v' xs'. f_write io b btw fp v = Ret (FR_OK, of_nat n, fp'\<lparr>flag := flag fp' OR FA_MODIFIED\<rparr>, v') \<and> write_run b n v fp xs fp' v' xs'"
proof -
  define w where "w = (if fptr fp + btw < fptr fp then 0xFFFFFFFF - fptr fp else btw)"
  have w: "unat w = min (unat btw) (2 ^ 32 - 1 - unat (fptr fp))"
    using u32_lt [of "fptr fp"] u32_lt [of btw] by (auto simp: w_def word_less_nat_alt unat_plus_if' unat_sub word_le_nat_alt min_def split: if_splits)
  have lt: "unat (fptr fp) + unat w < 2 ^ 32" and len: "unat w \<le> length b" using w u32_lt [of "fptr fp"] assms(7) by simp_all
  have val: "validate io fp v = Ret FR_OK" using validate_ok [OF fok_facts(1) [OF assms(1)] assms(3,4)] .
  have e: "f_write io b btw fp v = write_loop (Suc (unat w)) io w b 0 fp v"
    using val assms(5,6) by (simp add: f_write_def w_def Let_def)
  obtain m fp' v' xs' where l: "write_loop (Suc (unat w)) io w b 0 fp v = Ret (FR_OK, of_nat m, fp'\<lparr>flag := flag fp' OR FA_MODIFIED\<rparr>, v')"
    "m \<le> unat w" "write_run b m v fp xs fp' v' xs'" "m < unat w \<Longrightarrow> vfree v' = {} \<and> unat (fptr fp') = length xs' * csz v * 512"
    using write_loop_ok [OF assms(1,2) lt len, of "Suc (unat w)" 0] by auto
  have m: "m = n" using write_run_room [OF l(3,2,4)] w by (simp add: n_def)
  show ?thesis using e l(1,3) unfolding m by (intro exI [of _ fp'] exI [of _ v'] exI [of _ xs']) simp
qed

end

end
