(* ===== verification/Fat_File_Seek.thy ===== *)
theory Fat_File_Seek
  imports Fat_File_Write
begin

text \<open>
  Moving the file pointer of an open file: \<open>f_lseek\<close> to a position inside the file follows the chain
  from the current cluster or from the first one, loads the sector of the new position if it starts
  in the middle of one, and keeps the data of the file.
\<close>

unbundle bit_operations_syntax

section \<open>Following the chain\<close>

lemma div_cluster: "x div (c * 512) = x div 512 div c" for x c :: nat
  by (metis div_mult2_eq mult.commute)

context sector_device
begin

lemma cluster_bytes:
  assumes "geometry_ok cap v"
  shows "unat (ucast (csize v) * 512 :: u32) = csz v * 512" "0 < csz v * 512" "csz v * 512 \<le> 65536"
proof -
  note b = csz_bounds [OF assms]
  show "unat (ucast (csize v) * 512 :: u32) = csz v * 512"
    using b unat_csize [of v] by (simp add: unat_word_ariths)
  show "0 < csz v * 512" "csz v * 512 \<le> 65536" using b by simp_all
qed

lemma follow_chain:
  assumes "dok v fp xs" and "Suc m < length xs"
  obtains v' where "(if w then create_chain io (xs ! m) v else get_fat io (xs ! m) v) = Ret (xs ! Suc m, v')" "moved v v'" "vok v'" "vview v' = vview v"
proof -
  have m: "m < length xs" using assms(2) by simp
  note c = cluster_of_position [OF assms(1) m] and c' = cluster_of_position [OF assms(1,2)] and n = next_cluster [OF assms]
  have ok: "vok v" using dok_facts(1) [OF assms(1)] .
  show ?thesis
  proof (cases w)
    case True
    have "xs ! m \<noteq> 0" using c(1) cluster_ge2 by auto
    then show ?thesis using that True create_chain_linked [OF ok, of "xs ! m"] n c'(2,4) by auto
  next
    case False
    obtain v' where "get_fat io (xs ! m) v = Ret (vfat v (xs ! m), v')" "vok v'" "vview v' = vview v" "moved v v'"
      by (rule read_entry [OF ok])
    then show ?thesis using that False n by auto
  qed
qed

lemma seek_loop_ok:
  assumes "dok v fp xs" and "unat (fptr fp) = csz v * 512 * m" and "m < length xs" and "clust fp = xs ! m" and "0 < unat ofs"
    and "csz v * 512 * m + unat ofs \<le> length xs * (csz v * 512)" and "csz v * 512 * m + unat ofs < 2 ^ 32" and "unat ofs < k"
  shows "\<exists>r n p v'. seek_loop k io (ucast (csize v) * 512) ofs (xs ! m) fp v = Ret (FR_OK, r, xs ! n, fp\<lparr>fptr := p, clust := xs ! n\<rparr>, v')
    \<and> n < length xs \<and> 0 < unat r \<and> unat r \<le> csz v * 512 \<and> csz v * 512 * n + unat r = csz v * 512 * m + unat ofs
    \<and> unat p = csz v * 512 * n \<and> moved v v' \<and> vok v' \<and> vview v' = vview v"
  using assms
proof (induction k arbitrary: ofs m fp v)
  case (Suc k)
  let ?b = "ucast (csize v) * 512 :: u32"
  note g = dok_facts(1,2) [OF Suc.prems(1)] and b = cluster_bytes [OF dok_facts(2) [OF Suc.prems(1)]]
  show ?case
  proof (cases "?b < ofs")
    case False
    then have "unat ofs \<le> csz v * 512" using b(1) by (simp add: word_less_nat_alt)
    moreover have "fp\<lparr>fptr := fptr fp, clust := xs ! m\<rparr> = fp" using Suc.prems(4) by simp
    ultimately show ?thesis using False Suc.prems g(1) by (intro exI [of _ ofs] exI [of _ m] exI [of _ "fptr fp"] exI [of _ v]) simp
  next
    case True
    then have lt: "csz v * 512 < unat ofs" using b(1) by (simp add: word_less_nat_alt)
    have u: "unat (ofs - ?b) = unat ofs - csz v * 512" using lt b(1) by (simp add: unat_sub word_le_nat_alt)
    have "csz v * 512 * Suc m < csz v * 512 * length xs" using lt Suc.prems(6) by (simp add: mult.commute)
    then have m: "Suc m < length xs" by (simp only: mult_less_cancel1)
    have p: "unat (fptr fp + ?b) = csz v * 512 * Suc m"
    proof -
      have "unat (fptr fp) + unat ?b < 2 ^ 32" using Suc.prems(2,7) lt b(1) by linarith
      then have "unat (fptr fp + ?b) = unat (fptr fp) + unat ?b" by (intro unat_add_no_wrap) simp
      then show ?thesis unfolding Suc.prems(2) b(1) by simp
    qed
    obtain v1 where v1: "(if flag fp AND FA_WRITE \<noteq> 0 then create_chain io (xs ! m) v else get_fat io (xs ! m) v) = Ret (xs ! Suc m, v1)"
      "moved v v1" "vok v1" "vview v1 = vview v" by (rule follow_chain [OF Suc.prems(1) m, of "flag fp AND FA_WRITE \<noteq> 0"])
    let ?fp = "fp\<lparr>fptr := fptr fp + ?b, clust := xs ! Suc m\<rparr>"
    note ff = realloc_file_fields [OF moved_realloc [OF v1(2)]] and c = cluster_of_position [OF Suc.prems(1) m]
    have d1: "dok v1 ?fp xs" using dok_moved(1) [OF Suc.prems(1) v1(2-4)] by simp
    have c01: "xs ! Suc m \<noteq> 0" "\<not> xs ! Suc m \<le> 1" using c(1) by (simp_all add: word_le_nat_alt) (auto simp flip: unat_eq_zero)
    have sum: "csz v * 512 * Suc m + unat (ofs - ?b) = csz v * 512 * m + unat ofs" using u lt by simp
    have k: "unat ofs - csz v * 512 < k" using lt b(2) Suc.prems(8) by linarith
    have "\<exists>r n p v'. seek_loop k io ?b (ofs - ?b) (xs ! Suc m) ?fp v1 = Ret (FR_OK, r, xs ! n, ?fp\<lparr>fptr := p, clust := xs ! n\<rparr>, v')
      \<and> n < length xs \<and> 0 < unat r \<and> unat r \<le> csz v * 512 \<and> csz v * 512 * n + unat r = csz v * 512 * Suc m + unat (ofs - ?b)
      \<and> unat p = csz v * 512 * n \<and> moved v1 v' \<and> vok v' \<and> vview v' = vview v1"
      using Suc.IH [OF d1, of "Suc m" "ofs - ?b"] p m u k lt Suc.prems(6,7) unfolding ff(6) sum by simp
    then obtain r n p v' where ih: "seek_loop k io ?b (ofs - ?b) (xs ! Suc m) ?fp v1 = Ret (FR_OK, r, xs ! n, fp\<lparr>fptr := p, clust := xs ! n\<rparr>, v')"
      "n < length xs" "0 < unat r" "unat r \<le> csz v * 512" "csz v * 512 * n + unat r = csz v * 512 * Suc m + unat (ofs - ?b)"
      "unat p = csz v * 512 * n" "moved v1 v'" "vok v'" "vview v' = vview v1" by auto
    have "seek_loop (Suc k) io ?b ofs (xs ! m) fp v = Ret (FR_OK, r, xs ! n, fp\<lparr>fptr := p, clust := xs ! n\<rparr>, v')"
      using True v1(1) c c01 ih(1) ff(7) by (simp add: Let_def)
    then show ?thesis using ih(2-6,8,9) v1(4) moved_trans [OF v1(2) ih(7)] unfolding sum by auto
  qed
qed simp

section \<open>Where the loop starts\<close>

lemma cluster_mask:
  fixes x :: u32
  assumes "geometry_ok cap v"
  shows "unat (x AND NOT (ucast (csize v) * 512 - 1)) = csz v * 512 * (unat x div (csz v * 512))"
proof -
  obtain e where e: "e \<le> 7" "csz v = 2 ^ e" by (rule csz_cases [OF assms])
  have "ucast (csize v) = (of_nat (csz v) :: u32)" by simp
  also have "\<dots> = 2 ^ e" unfolding e(2) by simp
  finally have b: "ucast (csize v) * 512 = (2 ^ (e + 9) :: u32)" by (simp add: power_add)
  have "x AND NOT (mask (e + 9)) = push_bit (e + 9) (drop_bit (e + 9) x)"
    by (rule bit_word_eqI) (auto simp: bit_simps)
  then have "unat (x AND NOT (ucast (csize v) * 512 - 1)) = unat (push_bit (e + 9) (drop_bit (e + 9) x))"
    unfolding b by (simp add: mask_eq_decr_exp)
  also have "\<dots> = take_bit 32 (push_bit (e + 9) (drop_bit (e + 9) (unat x)))"
    using u32_lt [of x] by (simp add: unsigned_push_bit_eq unsigned_drop_bit_eq take_bit_nat_eq_self)
  also have "\<dots> = unat x div 2 ^ (e + 9) * 2 ^ (e + 9)"
    using le_less_trans [OF div_times_less_eq_dividend [of "unat x" "2 ^ (e + 9)"] u32_lt]
    by (simp add: push_bit_eq_mult drop_bit_eq_div take_bit_eq_mod)
  also have "\<dots> = csz v * 512 * (unat x div (csz v * 512))" using e(2) by (simp add: power_add)
  finally show ?thesis .
qed

lemma seek_start_ok:
  assumes "fok v fp xs" and "0 < unat ofs" and "unat ofs \<le> unat (objsize fp)"
  obtains m p r where "seek_start io ofs (fptr fp) (fp\<lparr>fptr := 0\<rparr>) v = Ret (FR_OK, r, xs ! m, fp\<lparr>fptr := p, clust := xs ! m\<rparr>, v)"
    "m < length xs" "unat p = csz v * 512 * m" "0 < unat r" "csz v * 512 * m + unat r = unat ofs"
proof -
  note f = fok_facts [OF assms(1)] and b = cluster_bytes [OF fok_facts(2) [OF assms(1)]]
  let ?b = "ucast (csize v) * 512 :: u32" and ?B = "csz v * 512"
  have xs: "xs \<noteq> []" "sclust fp \<noteq> 0" using assms(2,3) f(1,7) by (auto simp: data_ok_def chain_of_def split: if_splits)
  have pred: "unat (x - 1) = unat x - 1" if "0 < unat x" for x :: u32
    using that by (simp add: unat_sub word_le_nat_alt)
  show ?thesis
  proof (cases "0 < fptr fp \<and> (fptr fp - 1) div ?b \<le> (ofs - 1) div ?b")
    case True
    define m where "m = (unat (fptr fp) - 1) div ?B"
    have p0: "0 < unat (fptr fp)" using True by (simp add: word_less_nat_alt)
    have le: "m \<le> (unat ofs - 1) div ?B"
      using True pred [OF p0] pred [OF assms(2)] b(1) by (simp add: m_def word_le_nat_alt unat_div)
    have "?B * ((unat ofs - 1) div ?B) \<le> unat ofs - 1" by (rule times_div_less_eq_dividend)
    then have mB: "?B * m \<le> unat ofs - 1" using le mult_le_mono2 [OF le, of ?B] by linarith
    have "?B * m < length xs * ?B" using mB assms(2,3) f(7) [unfolded mult.assoc] by linarith
    then have m: "m < length xs" using b(2) by (metis mult.commute mult_less_cancel1)
    have cl: "clust fp = xs ! m"
      using assms(1) p0 by (simp add: file_ok_def pos_ok_def m_def div_cluster)
    define p where "p = (fptr fp - 1) AND NOT (?b - 1)"
    have p: "unat p = ?B * m" using cluster_mask [OF f(2)] pred [OF p0] by (simp add: p_def m_def)
    have r: "unat (ofs - p) = unat ofs - ?B * m" using p mB by (simp add: unat_sub word_le_nat_alt)
    have "seek_start io ofs (fptr fp) (fp\<lparr>fptr := 0\<rparr>) v = Ret (FR_OK, ofs - p, xs ! m, fp\<lparr>fptr := p, clust := xs ! m\<rparr>, v)"
      using True cl by (simp add: seek_start_def Let_def p_def)
    then show ?thesis using that m p r mB assms(2) by auto
  next
    case False
    have "sclust fp = xs ! 0" using f(1) xs is_chain_hd [of "vfat v" "n_fatent v" "sclust fp" xs]
      by (auto simp: data_ok_def chain_of_def split: if_splits)
    then have "seek_start io ofs (fptr fp) (fp\<lparr>fptr := 0\<rparr>) v = Ret (FR_OK, ofs, xs ! 0, fp\<lparr>fptr := 0, clust := xs ! 0\<rparr>, v)"
      using False xs(2) by (auto simp: seek_start_def Let_def)
    then show ?thesis using that [of ofs 0 0] xs(1) assms(2) by simp
  qed
qed

section \<open>Seeking\<close>

text \<open>The sector of a position, from the cluster and the offset in it.\<close>

lemma seek_position:
  assumes "dok v fp xs" and "n < length xs" and "0 < unat r" and "unat r \<le> csz v * 512" and "csz v * 512 * n + unat r = q"
  shows "(q - 1) div 512 div csz v = n" "q mod 512 = unat r mod 512"
    "unat r mod 512 \<noteq> 0 \<Longrightarrow> unat (clst2sect v (xs ! n) + r div 512) = file_sector v xs (q div 512) \<and> q div 512 < length xs * csz v \<and> clst2sect v (xs ! n) \<noteq> 0"
proof -
  note g = dok_facts(2) [OF assms(1)] and c = cluster_of_position [OF assms(1,2)]
  have e: "q - 1 = csz v * 512 * n + (unat r - 1)" "unat r - 1 < csz v * 512" using assms(3-5) by linarith+
  have "(q - 1) div (csz v * 512) = n" using div_mod_eqI [OF e] by simp
  then show "(q - 1) div 512 div csz v = n" by (simp only: div_cluster)
  have q: "q = 512 * (csz v * n) + unat r" using assms(5) by simp
  show "q mod 512 = unat r mod 512" unfolding q by simp
  assume r: "unat r mod 512 \<noteq> 0"
  then have lt: "unat r div 512 < csz v"
  proof -
    have "unat r \<noteq> csz v * 512" using r by auto
    then show ?thesis using assms(4) by (simp add: less_mult_imp_div_less)
  qed
  have d: "q div 512 = csz v * n + unat r div 512" unfolding q by simp
  then have s: "q div 512 div csz v = n \<and> q div 512 mod csz v = unat r div 512" using lt by (intro div_mod_eqI) simp_all
  have "unat (r div 512) = unat r div 512" by (simp add: unat_div)
  then have "unat (clst2sect v (xs ! n) + r div 512) = file_sector v xs (q div 512)"
    using clst2sect_eq(1) [OF g c(1,2)] cluster_sector_bounds [OF g c(1,2)] lt s by (simp add: unat_add_no_wrap file_sector_def)
  moreover have "q div 512 < length xs * csz v" using s assms(2) csz_bounds(1) [OF g] by (metis div_less_iff_less_mult)
  ultimately show "unat (clst2sect v (xs ! n) + r div 512) = file_sector v xs (q div 512) \<and> q div 512 < length xs * csz v \<and> clst2sect v (xs ! n) \<noteq> 0"
    using clst2sect_eq(2) [OF g c(1,2)] by simp
qed

lemma seek_move_ok:
  assumes "fok v fp xs" and "0 < unat ofs" and "unat ofs \<le> unat (objsize fp)"
  obtains s n v' where "seek_move io ofs (fptr fp) (fp\<lparr>fptr := 0\<rparr>) v = Ret (FR_OK, s, fp\<lparr>fptr := ofs, clust := xs ! n\<rparr>, v')"
    "(unat ofs - 1) div 512 div csz v = n" "moved v v'" "vok v'" "vview v' = vview v"
    "unat ofs mod 512 \<noteq> 0 \<Longrightarrow> unat s = file_sector v xs (unat ofs div 512) \<and> unat ofs div 512 < length xs * csz v"
proof -
  note f = fok_facts [OF assms(1)]
  obtain m p r where s: "seek_start io ofs (fptr fp) (fp\<lparr>fptr := 0\<rparr>) v = Ret (FR_OK, r, xs ! m, fp\<lparr>fptr := p, clust := xs ! m\<rparr>, v)"
    "m < length xs" "unat p = csz v * 512 * m" "0 < unat r" "csz v * 512 * m + unat r = unat ofs" by (rule seek_start_ok [OF assms])
  let ?fp = "fp\<lparr>fptr := p, clust := xs ! m\<rparr>"
  have le: "csz v * 512 * m + unat r \<le> length xs * (csz v * 512)" using s(5) assms(3) f(7) [unfolded mult.assoc] by linarith
  have lt: "csz v * 512 * m + unat r < 2 ^ 32" using s(5) u32_lt [of ofs] by simp
  obtain r' n p' v' where l: "seek_loop (Suc (unat r)) io (ucast (csize v) * 512) r (xs ! m) ?fp v = Ret (FR_OK, r', xs ! n, ?fp\<lparr>fptr := p', clust := xs ! n\<rparr>, v')"
    "n < length xs" "0 < unat r'" "unat r' \<le> csz v * 512" "csz v * 512 * n + unat r' = csz v * 512 * m + unat r"
    "unat p' = csz v * 512 * n" "moved v v'" "vok v'" "vview v' = vview v"
    using seek_loop_ok [of v ?fp xs m r "Suc (unat r)"] f(1) s(2-4) le lt by auto
  note pos = seek_position [OF f(1) l(2-4) l(5) [unfolded s(5)]] and ff = realloc_file_fields [OF moved_realloc [OF l(7)]]
  have "unat (p' + r') = unat ofs" using l(5,6) s(5) u32_lt [of ofs] by (subst unat_add_no_wrap) simp_all
  then have p: "p' + r' = ofs" by (simp add: word_unat_eq_iff)
  have c0: "xs ! m \<noteq> 0" using cluster_of_position(4) [OF f(1) s(2)] by auto
  have r0: "r' mod 512 = 0 \<longleftrightarrow> unat r' mod 512 = 0" by (simp add: word_unat_eq_iff unat_mod)
  have fp: "?fp\<lparr>fptr := p', clust := xs ! n\<rparr>\<lparr>fptr := p' + r'\<rparr> = fp\<lparr>fptr := ofs, clust := xs ! n\<rparr>" using p by simp
  have "0 < ofs" using assms(2) by (simp add: word_less_nat_alt)
  then have "seek_move io ofs (fptr fp) (fp\<lparr>fptr := 0\<rparr>) v =
      Ret (FR_OK, if r' mod 512 \<noteq> 0 then clst2sect v (xs ! n) + r' div 512 else 0, fp\<lparr>fptr := ofs, clust := xs ! n\<rparr>, v')"
    using s(1) c0 l(1) fp r0 pos(3) ff(5) by (simp add: seek_move_def Let_def)
  from that [OF this pos(1) l(7-9)] show ?thesis using pos(2,3) r0 by simp
qed

lemma f_lseek_ok:
  assumes "fok v fp xs" and "obj_fs fp \<noteq> 0" and "obj_id fp = volume_id v" and "err fp = FR_OK" and "unat ofs \<le> unat (objsize fp)"
  shows "\<exists>fp' v'. f_lseek io ofs fp v = Ret (FR_OK, fp'\<lparr>fptr := ofs\<rparr>, v') \<and> fok v' (fp'\<lparr>fptr := ofs\<rparr>) xs \<and> fil_kept fp fp'
    \<and> realloc v v' \<and> vfat v' = vfat v \<and> (\<forall>k<length xs * csz v. fblock v' fp' xs k = fblock v fp xs k)
    \<and> (aok v \<longrightarrow> aok v' \<and> vfree v' = vfree v)"
proof -
  note f = fok_facts [OF assms(1)]
  have val: "validate io fp v = Ret FR_OK" using validate_ok [OF f(1) assms(2,3)] .
  have clip: "\<not> objsize fp < ofs" using assms(5) by (simp add: word_less_nat_alt)
  show ?thesis
  proof (cases "ofs = 0")
    case True
    have "f_lseek io ofs fp v = Ret (FR_OK, fp\<lparr>fptr := ofs\<rparr>, v)"
      using val assms(4) True clip by (simp add: f_lseek_def seek_move_def Let_def)
    moreover have "pos_ok v (fp\<lparr>fptr := 0\<rparr>) xs" using f(7) by (simp add: pos_ok_def)
    ultimately show ?thesis using True f(1) by (intro exI [of _ fp] exI [of _ v]) (simp add: file_ok_def)
  next
    case False
    then have o: "0 < unat ofs" by (simp add: unat_gt_0)
    obtain s n v1 where s: "seek_move io ofs (fptr fp) (fp\<lparr>fptr := 0\<rparr>) v = Ret (FR_OK, s, fp\<lparr>fptr := ofs, clust := xs ! n\<rparr>, v1)"
      "(unat ofs - 1) div 512 div csz v = n" "moved v v1" "vok v1" "vview v1 = vview v"
      "unat ofs mod 512 \<noteq> 0 \<Longrightarrow> unat s = file_sector v xs (unat ofs div 512) \<and> unat ofs div 512 < length xs * csz v"
      by (rule seek_move_ok [OF assms(1) o assms(5)]) blast
    let ?fp = "fp\<lparr>clust := xs ! n\<rparr>"
    have e: "fp\<lparr>fptr := ofs, clust := xs ! n\<rparr> = ?fp\<lparr>fptr := ofs\<rparr>" by simp
    note ff = realloc_file_fields [OF moved_realloc [OF s(3)]]
    have F1: "vfat v1 = vfat v" using moved_fat_of [OF s(3)] s(5) by simp
    have d1: "dok v1 ?fp xs" "\<And>k. k < length xs * csz v \<Longrightarrow> fblock v1 ?fp xs k = fblock v fp xs k" using dok_moved [OF f(1) s(3-5)] by simp_all
    have o0: "ofs mod 512 = 0 \<longleftrightarrow> unat ofs mod 512 = 0" by (simp add: word_unat_eq_iff unat_mod)
    show ?thesis
    proof (cases "unat ofs mod 512 \<noteq> 0 \<and> s \<noteq> sect fp")
      case False
      then have "f_lseek io ofs fp v = Ret (FR_OK, ?fp\<lparr>fptr := ofs\<rparr>, v1)"
        using val assms(4) clip s(1) o0 by (auto simp: f_lseek_def Let_def)
      moreover have "pos_ok v1 (?fp\<lparr>fptr := ofs\<rparr>) xs" using False assms(5) f(7) s(2,6) ff(1,6) by (auto simp: pos_ok_def)
      ultimately show ?thesis using d1 fil_kept_clust moved_realloc [OF s(3)] F1 aok_moved [OF _ s(3) F1]
        by (intro exI [of _ ?fp] exI [of _ v1]) (simp add: file_ok_def)
    next
      case True
      then have t: "unat s = file_sector v1 xs (unat ofs div 512)" "unat ofs div 512 < length xs * csz v1" using s(6) ff(1,6) by simp_all
      let ?fq = "?fp\<lparr>fptr := ofs\<rparr>"
      have dq: "dok v1 ?fq xs" using d1(1) by simp
      obtain d where d: "flush_buf io ?fq v1 = Ret (FR_OK, clean ?fq, v1\<lparr>dev := d\<rparr>)" "dok (v1\<lparr>dev := d\<rparr>) (clean ?fq) xs"
        "\<And>k. k < length xs * csz v1 \<Longrightarrow> fblock (v1\<lparr>dev := d\<rparr>) (clean ?fq) xs k = fblock v1 ?fq xs k" "vfat (v1\<lparr>dev := d\<rparr>) = vfat v1"
        by (rule flush_buf_ok [OF dq]) (rule that, assumption+)
      let ?v2 = "v1\<lparr>dev := d\<rparr>"
      have t2: "unat ofs div 512 < length xs * csz ?v2" "unat s = file_sector ?v2 xs (unat ofs div 512)" using t by simp_all
      obtain d' where d': "load_buf io s (clean ?fq) ?v2 = Ret (FR_OK, (clean ?fq)\<lparr>buf := sec (dev ?v2) (unat s)\<rparr>, ?v2\<lparr>dev := d'\<rparr>)" "good d'" "sec d' = sec (dev ?v2)"
        using load_buf_ok [OF d(2) t2] by blast
      let ?fr = "(clean ?fq)\<lparr>buf := sec (dev ?v2) (unat s), sect := s\<rparr>" and ?v3 = "?v2\<lparr>dev := d'\<rparr>"
      note ld = dok_loaded [OF d(2) clean_simps(1) t2]
      note sm = dok_same_sectors [OF ld(1) d'(2,3)]
      have fr: "?fr\<lparr>fptr := ofs\<rparr> = ?fr" by (simp add: clean_def)
      have run: "f_lseek io ofs fp v = Ret (FR_OK, ?fr\<lparr>fptr := ofs\<rparr>, ?v3)"
        using val assms(4) clip s(1) o0 True d(1) d'(1) by (simp add: f_lseek_def Let_def e clean_def)
      have pos: "pos_ok ?v3 (?fr\<lparr>fptr := ofs\<rparr>) xs" using assms(5) f(7) s(2) t ff(1,6) by (simp add: pos_ok_def clean_def)
      have kept: "fil_kept fp (?fr\<lparr>fptr := fptr fp\<rparr>)"
        using fil_kept_fptr [OF fil_kept_clust fil_kept_trans [OF fil_kept_clean fil_kept_load]] by simp
      have F3: "vfat ?v3 = vfat v" using sm(3) d(4) F1 by simp
      have mv: "moved v ?v3" using moved_trans [OF s(3) moved_trans [OF moved_dev moved_dev]] .
      have blk: "fblock ?v3 (?fr\<lparr>fptr := fptr fp\<rparr>) xs k = fblock v fp xs k" if "k < length xs * csz v" for k
        using that sm(2) ld(2) [of k] d(3) [of k] d1(2) ff(6) by (simp add: fun_eq_iff)
      show ?thesis using run sm(1) pos kept F3 moved_realloc [OF mv] blk aok_moved [OF _ mv F3]
        by (intro exI [of _ "?fr\<lparr>fptr := fptr fp\<rparr>"] exI [of _ ?v3]) (simp add: file_ok_def)
    qed
  qed
qed

end

end
