(* ===== verification/Fat_File_Sync.thy ===== *)
theory Fat_File_Sync
  imports Fat_File_Seek
begin

text \<open>
  Synchronisation and truncation of an open file. After \<open>f_sync\<close> the drive itself holds the file: its
  data, its clusters, and the directory entry with its first cluster and its size. \<open>f_truncate\<close> gives
  back the clusters behind the file pointer and keeps the bytes in front of it.
\<close>

unbundle bit_operations_syntax

section \<open>The directory entry\<close>

lemma ld_word_cong: "b ! i = c ! i \<Longrightarrow> b ! j = c ! j \<Longrightarrow> j = i + 1 \<Longrightarrow> ld_word b i = ld_word c i"
  by (simp add: ld_word_def)

lemma ld_dword_cong: "(\<And>k. k < 4 \<Longrightarrow> b ! (i + k) = c ! (i + k)) \<Longrightarrow> ld_dword b i = ld_dword c i"
proof -
  assume e: "\<And>k. k < 4 \<Longrightarrow> b ! (i + k) = c ! (i + k)"
  show ?thesis using e [of 0] e [of 1] e [of 2] e [of 3] by (simp add: ld_dword_def)
qed

lemma ld_st_clust:
  assumes "length w = 512" and "dir + 32 \<le> 512" and "fs_type v \<noteq> FS_FAT32 \<longrightarrow> unat cl < 2 ^ 16"
  shows "ld_clust v (st_clust v w dir cl) dir = cl"
proof (cases "fs_type v = FS_FAT32")
  case True
  let ?w = "st_word w (dir + 26) (ucast cl)"
  have "ld_word (st_word ?w (dir + 20) (ucast (drop_bit 16 cl))) (dir + 26) = ld_word ?w (dir + 26)"
    by (rule ld_word_cong [where j = "dir + 27"]) (simp_all add: st_word_other)
  then have "ld_clust v (st_clust v w dir cl) dir = ucast (ucast cl :: u16) OR push_bit 16 (ucast (ucast (drop_bit 16 cl) :: u16))"
    using assms(1,2) True by (simp add: ld_clust_def st_clust_def Let_def ld_st_word DIR_FstClusLO_def DIR_FstClusHI_def)
  also have "\<dots> = cl" by (rule bit_word_eqI) (auto simp: bit_simps)
  finally show ?thesis .
next
  case False
  then have "take_bit 16 (unat cl) = unat cl" using assms(3) by (simp add: take_bit_nat_eq_self)
  then have "take_bit 16 cl = cl" by (simp add: word_unat_eq_iff unsigned_take_bit_eq)
  moreover have "ucast (ucast cl :: u16) = take_bit 16 cl" by (rule bit_word_eqI) (auto simp: bit_simps)
  ultimately have "ucast (ucast cl :: u16) = cl" by simp
  then show ?thesis using False assms(1,2) by (simp add: ld_clust_def st_clust_def Let_def ld_st_word DIR_FstClusLO_def)
qed

text \<open>The entry after \<open>f_sync\<close>: first cluster, size, and the rest of its sector.\<close>

lemma sync_entry_fields:
  assumes "length (win v) = 512" and "dir_ptr fp + 32 \<le> 512" and "fs_type v \<noteq> FS_FAT32 \<longrightarrow> unat (sclust fp) < 2 ^ 16"
  shows "length (sync_entry fp v) = 512" "ld_clust v (sync_entry fp v) (dir_ptr fp) = sclust fp"
    "ld_dword (sync_entry fp v) (dir_ptr fp + DIR_FileSize) = objsize fp"
    "i < dir_ptr fp \<or> dir_ptr fp + 32 \<le> i \<Longrightarrow> sync_entry fp v ! i = win v ! i"
proof -
  let ?d = "dir_ptr fp"
  define w1 where "w1 = (win v)[?d + DIR_Attr := (win v ! (?d + DIR_Attr)) OR AM_ARC]"
  define w2 where "w2 = st_clust v w1 ?d (sclust fp)"
  define w3 where "w3 = st_dword w2 (?d + 28) (objsize fp)"
  have e: "sync_entry fp v = st_word (st_dword w3 (?d + 22) get_fattime) (?d + 18) 0"
    by (simp add: sync_entry_def Let_def w1_def w2_def w3_def DIR_FileSize_def DIR_ModTime_def DIR_LstAccDate_def)
  have l: "length w1 = 512" "length w2 = 512" "length w3 = 512" using assms(1) by (simp_all add: w1_def w2_def w3_def st_clust_def Let_def)
  then show "length (sync_entry fp v) = 512" by (simp add: e)
  have o: "sync_entry fp v ! (?d + k) = w3 ! (?d + k)" if "k = 20 \<or> k = 21 \<or> 26 \<le> k" for k
    using that by (auto simp: e st_word_other st_dword_other)
  then have "ld_dword (sync_entry fp v) (?d + 28) = ld_dword w3 (?d + 28)"
    by (intro ld_dword_cong) (simp add: add.assoc)
  then show "ld_dword (sync_entry fp v) (?d + DIR_FileSize) = objsize fp"
    using l(2) assms(2) by (simp add: w3_def DIR_FileSize_def ld_st_dword)
  have "ld_word (sync_entry fp v) (?d + 26) = ld_word w2 (?d + 26)" "ld_word (sync_entry fp v) (?d + 20) = ld_word w2 (?d + 20)"
    by (rule ld_word_cong [where j = "?d + 27"], simp_all add: o w3_def st_dword_other)
      (rule ld_word_cong [where j = "?d + 21"], simp_all add: o w3_def st_dword_other)
  then have "ld_clust v (sync_entry fp v) ?d = ld_clust v w2 ?d"
    by (simp add: ld_clust_def Let_def DIR_FstClusLO_def DIR_FstClusHI_def)
  then show "ld_clust v (sync_entry fp v) ?d = sclust fp" using ld_st_clust [OF l(1) assms(2,3)] by (simp add: w2_def)
  show "sync_entry fp v ! i = win v ! i" if "i < ?d \<or> ?d + 32 \<le> i"
    using that by (auto simp: e w3_def w2_def w1_def st_clust_def Let_def st_word_other st_dword_other
        DIR_FstClusLO_def DIR_FstClusHI_def DIR_Attr_def)
qed

section \<open>Synchronisation\<close>

text \<open>
  The entry of an open file lies in a sector of a directory, behind the tables and outside the
  clusters of the file and the free ones.
\<close>

definition entry_ok :: "nat \<Rightarrow> 'd volume \<Rightarrow> FIL \<Rightarrow> u32 set \<Rightarrow> bool" where
  "entry_ok cap v fp A \<longleftrightarrow> unat (fatbase v) + unat (n_fats v) * unat (fsize v) \<le> unat (dir_sect fp) \<and> unat (dir_sect fp) < cap
     \<and> \<not> in_clusters v A (unat (dir_sect fp)) \<and> dir_ptr fp + 32 \<le> 512"

text \<open>What the window, the drive and the FSInfo flag do not change.\<close>

lemma window_fields:
  assumes "v' = v\<lparr>wflag := a, win := w, winsect := s, fsi_flag := f, dev := d\<rparr>"
  shows "file_sector v' = file_sector v" "in_clusters v' = in_clusters v" "n_fatent v' = n_fatent v" "csize v' = csize v"
    "fat_of g v' = fat_of g v" "mirrored v' = mirrored v" "pos_ok v' = pos_ok v" "winsect v' = s" "dev v' = d"
  by (simp_all add: assms file_sector_def in_clusters_def cluster_sector_def fat_of_def mirrored_def pos_ok_def fun_eq_iff)

context sector_device
begin

lemma sclust_bound:
  assumes "dok v fp xs"
  shows "fs_type v \<noteq> FS_FAT32 \<longrightarrow> unat (sclust fp) < 2 ^ 16"
proof
  assume ty: "fs_type v \<noteq> FS_FAT32"
  have "unat (n_fatent v) \<le> 0xFFF7" using dok_facts(2) [OF assms] ty by (auto simp: geometry_ok_def max_fatent_def split: if_splits)
  moreover have "sclust fp = 0 \<or> sclust fp < n_fatent v"
    using assms is_chain_set [of "vfat v" "n_fatent v" "sclust fp" xs "sclust fp"] is_chain_hd [of "vfat v" "n_fatent v" "sclust fp" xs]
    by (auto simp: data_ok_def chain_of_def split: if_splits) (metis nth_mem length_greater_0_conv)
  ultimately show "unat (sclust fp) < 2 ^ 16" by (auto simp: word_less_nat_alt)
qed

text \<open>The entry is written: the window moves to its sector and everything reaches the drive.\<close>

lemma write_entry:
  assumes "dok v fp xs" and "entry_ok cap v fp (set xs \<union> vfree v)"
  obtains v2 v' where "move_window io (dir_sect fp) v = Ret (FR_OK, v2)" "sync_fs io (v2\<lparr>win := sync_entry fp v2, wflag := 1\<rparr>) = Ret (FR_OK, v')"
    "vok v'" "wflag v' = 0" "on_drive v'" "\<exists>a w s f d. v' = v\<lparr>wflag := a, win := w, winsect := s, fsi_flag := f, dev := d\<rparr> \<and> (s = dir_sect fp \<or> unat s < unat (fatbase v))"
    "win v2 = vview v (unat (dir_sect fp))" "fs_type v2 = fs_type v"
    "\<And>t. unat (fatbase v) \<le> t \<Longrightarrow> vview v' t = (if t = unat (dir_sect fp) then sync_entry fp v2 else vview v t)"
proof -
  note d = dok_facts [OF assms(1)]
  let ?s = "dir_sect fp"
  have s: "unat ?s < cap" "\<not> mirrored v (unat ?s)" "unat (fatbase v) \<le> unat ?s" using assms(2) by (auto simp: entry_ok_def mirrored_def)
  obtain f d2 where m: "move_window io ?s v = Ret (FR_OK, v\<lparr>wflag := f, win := vview v (unat ?s), winsect := ?s, dev := d2\<rparr>)"
    "vok (v\<lparr>wflag := f, win := vview v (unat ?s), winsect := ?s, dev := d2\<rparr>)"
    "vview (v\<lparr>wflag := f, win := vview v (unat ?s), winsect := ?s, dev := d2\<rparr>) = vview v"
    using move_window_ok [OF d(1) s(1,2)] by (auto simp: Let_def)
  define v2 where "v2 = v\<lparr>wflag := f, win := vview v (unat ?s), winsect := ?s, dev := d2\<rparr>"
  note m' = m [folded v2_def]
  have v2: "win v2 = vview v (unat ?s)" "winsect v2 = ?s" "fs_type v2 = fs_type v" "fatbase v2 = fatbase v" by (simp_all add: v2_def)
  have "length (win v2) = 512" using m'(2) by (simp add: vol_ok_def)
  then have len: "length (sync_entry fp v2) = 512"
    using sync_entry_fields(1) [of v2 fp] assms(2) sclust_bound [OF assms(1)] v2(3) by (simp add: entry_ok_def)
  let ?v = "v2\<lparr>win := sync_entry fp v2, wflag := 1\<rparr>"
  note ww = window_write [OF m'(2) len]
  obtain v' where v': "sync_fs io ?v = Ret (FR_OK, v')" "vok v'" "wflag v' = 0" "on_drive v'"
    "vview v' = (if fs_type ?v = FS_FAT32 \<and> fsi_flag ?v = 1
       then (vview ?v)(unat (volbase ?v) + 1 := fsinfo_sector (free_clst ?v) (last_clst ?v)) else vview ?v)"
    "\<exists>w s f. v' = ?v\<lparr>wflag := 0, win := w, winsect := s, fsi_flag := f, dev := dev v'\<rparr> \<and> (s = winsect ?v \<or> unat s < unat (fatbase ?v))"
    using sync_fs_ok [OF ww(1)] by blast
  have form: "\<exists>a w s f d. v' = v\<lparr>wflag := a, win := w, winsect := s, fsi_flag := f, dev := d\<rparr> \<and> (s = ?s \<or> unat s < unat (fatbase v))"
  proof -
    obtain w s f where e: "v' = ?v\<lparr>wflag := 0, win := w, winsect := s, fsi_flag := f, dev := dev v'\<rparr>" "s = winsect ?v \<or> unat s < unat (fatbase ?v)"
      using v'(6) by blast
    have "v' = v\<lparr>wflag := 0, win := w, winsect := s, fsi_flag := f, dev := dev v'\<rparr>" by (subst e(1)) (simp add: v2_def)
    moreover have "s = ?s \<or> unat s < unat (fatbase v)" using e(2) v2(2,4) by simp
    ultimately show ?thesis by blast
  qed
  have view: "vview v' t = (if t = unat ?s then sync_entry fp v2 else vview v t)" if t: "unat (fatbase v) \<le> t" for t
  proof -
    have "t \<noteq> unat (volbase ?v) + 1" if "fs_type ?v = FS_FAT32" using d(2) t that by (auto simp: geometry_ok_def v2_def)
    then have "vview v' t = vview ?v t" unfolding v'(5) by auto
    then show ?thesis unfolding ww(2) v2(2) m'(3) by simp
  qed
  show ?thesis by (rule that [OF m'(1) v'(1-4) form v2(1,3) view])
qed

definition unmodified :: "FIL \<Rightarrow> FIL" where
  "unmodified fp = (clean fp)\<lparr>flag := flag (clean fp) AND NOT FA_MODIFIED\<rparr>"

lemma unmodified_simps:
  "\<not> is_dirty (unmodified fp)" "buf (unmodified fp) = buf fp" "sect (unmodified fp) = sect fp" "fptr (unmodified fp) = fptr fp"
  "clust (unmodified fp) = clust fp" "sclust (unmodified fp) = sclust fp" "objsize (unmodified fp) = objsize fp"
proof -
  have "\<not> bit ((flag fp AND NOT FA_DIRTY) AND NOT FA_MODIFIED AND FA_DIRTY) n" for n by (auto simp: bit_simps)
  then have "(flag fp AND NOT FA_DIRTY) AND NOT FA_MODIFIED AND FA_DIRTY = 0" by (intro bit_word_eqI) (simp add: and.assoc)
  then show "\<not> is_dirty (unmodified fp)" by (simp add: unmodified_def clean_def is_dirty_def and.assoc)
qed (simp_all add: unmodified_def)

lemma f_sync_ok:
  assumes "fok v fp xs" and "obj_fs fp \<noteq> 0" and "obj_id fp = volume_id v" and "flag fp AND FA_MODIFIED \<noteq> 0"
    and "entry_ok cap v fp (set xs \<union> vfree v)"
  shows "\<exists>v'. f_sync io fp v = Ret (FR_OK, unmodified fp, v') \<and> fok v' (unmodified fp) xs \<and> wflag v' = 0 \<and> vfat v' = vfat v
    \<and> (\<forall>k<length xs * csz v. sec (dev v') (file_sector v xs k) = fblock v fp xs k)
    \<and> ld_clust v (sec (dev v') (unat (dir_sect fp))) (dir_ptr fp) = sclust fp
    \<and> ld_dword (sec (dev v') (unat (dir_sect fp))) (dir_ptr fp + DIR_FileSize) = objsize fp
    \<and> (\<forall>i. i < dir_ptr fp \<or> dir_ptr fp + 32 \<le> i \<longrightarrow> sec (dev v') (unat (dir_sect fp)) ! i = vview v (unat (dir_sect fp)) ! i)
    \<and> (\<forall>t. unat (fatbase v) \<le> t \<and> t \<noteq> unat (dir_sect fp) \<and> \<not> in_clusters v (set xs) t \<longrightarrow> vview v' t = vview v t)"
proof -
  note f = fok_facts [OF assms(1)] and dk = dok_facts [OF fok_facts(1) [OF assms(1)]]
  let ?s = "unat (dir_sect fp)" and ?fp = "clean fp"
  have val: "validate io fp v = Ret FR_OK" using validate_ok [OF f(1) assms(2,3)] .
  obtain d where d: "flush_buf io fp v = Ret (FR_OK, ?fp, v\<lparr>dev := d\<rparr>)" "dok (v\<lparr>dev := d\<rparr>) ?fp xs"
    "\<And>k. k < length xs * csz v \<Longrightarrow> sec d (file_sector v xs k) = fblock v fp xs k"
    "\<And>t. \<not> in_clusters v (set xs) t \<Longrightarrow> sec d t = sec (dev v) t" "vfat (v\<lparr>dev := d\<rparr>) = vfat v"
    by (rule flush_buf_ok [OF f(1)]) (rule that, assumption+)
  define v1 where "v1 = v\<lparr>dev := d\<rparr>"
  note d' = d [folded v1_def]
  have fields: "dir_sect ?fp = dir_sect fp" "dir_ptr ?fp = dir_ptr fp" by (simp_all add: clean_def)
  have en: "entry_ok cap v1 ?fp (set xs \<union> vfree v1)" using assms(5) d'(5) fields by (simp add: entry_ok_def v1_def)
  have same: "fatbase v1 = fatbase v" "fs_type v1 = fs_type v" "dev v1 = d" "csize v1 = csize v" by (simp_all add: v1_def)
  obtain v2 v' where w: "move_window io (dir_sect ?fp) v1 = Ret (FR_OK, v2)" "sync_fs io (v2\<lparr>win := sync_entry ?fp v2, wflag := 1\<rparr>) = Ret (FR_OK, v')"
    "vok v'" "wflag v' = 0" "on_drive v'" "\<exists>a w s f d. v' = v1\<lparr>wflag := a, win := w, winsect := s, fsi_flag := f, dev := d\<rparr> \<and> (s = dir_sect ?fp \<or> unat s < unat (fatbase v1))"
    "win v2 = vview v1 (unat (dir_sect ?fp))" "fs_type v2 = fs_type v1"
    "\<And>t. unat (fatbase v1) \<le> t \<Longrightarrow> vview v' t = (if t = unat (dir_sect ?fp) then sync_entry ?fp v2 else vview v1 t)"
    by (rule write_entry [OF d'(2) en]) (rule that, assumption+)
  note w' = w [unfolded fields same]
  obtain a w s g d2 where form: "v' = v1\<lparr>wflag := a, win := w, winsect := s, fsi_flag := g, dev := d2\<rparr>" "s = dir_sect fp \<or> unat s < unat (fatbase v)"
    using w'(6) by blast
  note wf = window_fields [OF form(1)]
  have wf': "file_sector v' = file_sector v" "in_clusters v' = in_clusters v" "n_fatent v' = n_fatent v" "mirrored v' = mirrored v" "csize v' = csize v"
    unfolding wf(1-4,6) by (simp_all add: v1_def)
  have run: "f_sync io fp v = Ret (FR_OK, unmodified fp, v')"
    using val assms(4) d'(1) w'(1,2) fields by (simp add: f_sync_def unmodified_def)
  have drive: "sec (dev v') t = vview v' t" if "\<not> mirrored v t" for t using w(5) that wf'(4) by (simp add: on_drive_def)
  have s: "unat (fatbase v) \<le> ?s" "\<not> mirrored v ?s" "\<not> in_clusters v (set xs \<union> vfree v) ?s" using assms(5) by (auto simp: entry_ok_def mirrored_def)
  have ns: "\<not> in_clusters v (set xs) ?s" using s(3) by (auto simp: in_clusters_def)
  have view1: "vview v1 t = vview v t" if "\<not> in_clusters v (set xs) t" for t using d(4) [OF that] by (simp add: vol_view_def v1_def)
  have data: "sec (dev v') (file_sector v xs k) = fblock v fp xs k" if k: "k < length xs * csz v" for k
  proof -
    note inc = file_sector_in [OF dk(2) k]
    note t = in_clusters_data [OF dk(2,6) inc]
    have "file_sector v xs k \<noteq> ?s" using ns inc by auto
    then have "vview v' (file_sector v xs k) = vview v1 (file_sector v xs k)" using w'(9) t(5) by simp
    also have "\<dots> = sec d (file_sector v xs k)" using t(3) dk(7) inc by (auto simp: vol_view_def v1_def)
    finally show ?thesis using drive [OF t(3)] d(3) [OF k] by simp
  qed
  have entry: "sec (dev v') ?s = sync_entry ?fp v2" using drive [OF s(2)] w'(9) [OF s(1)] by simp
  have lw: "length (win v2) = 512" using w'(7) length_sec [OF dk(3)] s(2) assms(5) view1 [OF ns] dk(1)
    by (auto simp: vol_view_def entry_ok_def vol_ok_def)
  have ef: "ld_clust v2 (sync_entry ?fp v2) (dir_ptr fp) = sclust fp" "ld_dword (sync_entry ?fp v2) (dir_ptr fp + DIR_FileSize) = objsize fp"
    "\<And>i. i < dir_ptr fp \<or> dir_ptr fp + 32 \<le> i \<Longrightarrow> sync_entry ?fp v2 ! i = win v2 ! i"
    using sync_entry_fields [of v2 ?fp] lw assms(5) sclust_bound [OF f(1)] w'(8) fields by (auto simp: entry_ok_def)
  have lc: "ld_clust v = ld_clust v2" using w'(8) by (simp add: ld_clust_def fun_eq_iff)
  have F: "vfat v' = vfat v"
  proof -
    have "n_fats v \<in> {1, 2}" using dk(2) by (simp add: geometry_ok_def)
    then have "\<not> in_fat v ?s" using assms(5) by (auto simp: in_fat_def entry_ok_def)
    then have "vview v' t = vview v1 t" if "in_fat v1 t" for t
      using w'(9) [of t] that by (auto simp: in_fat_def v1_def)
    then have "fat_of (vview v') v1 = fat_of (vview v1) v1" using fat_of_cong [OF dok_facts(2) [OF d'(2)]] by blast
    then show ?thesis using wf(5) d'(5) by simp
  qed
  have off: "window_off sec v' xs"
  proof -
    have "\<not> in_clusters v (set xs \<union> vfree v) (unat s)"
    proof (cases "s = dir_sect fp")
      case False
      have "valid_clusters v (set xs \<union> vfree v)" using dk(6) by (auto simp: valid_clusters_def free_clusters_def)
      then show ?thesis using in_clusters_data(5) [OF dk(2), of "set xs \<union> vfree v" "unat s"] form(2) False by fastforce
    qed (use s(3) in simp)
    then show ?thesis unfolding window_off_def F wf'(2,3) wf(8) .
  qed
  have "buf_ok sec v' (unmodified fp) xs"
    using f(1) data unfolding data_ok_def buf_ok_def unmodified_simps wf' by (auto simp: file_block_def unmodified_simps)
  then have "fok v' (unmodified fp) xs"
    using f(1) w(3) F off assms(1) wf'(1,3,5) by (simp add: file_ok_def data_ok_def pos_ok_def unmodified_simps)
  then show ?thesis using run w(4) F data entry ef lc w'(7,9) view1 [OF ns] view1
    by (intro exI [of _ v']) auto
qed

section \<open>Truncation\<close>

text \<open>The clusters a file of \<open>p\<close> bytes needs.\<close>

definition clusters_for :: "'d volume \<Rightarrow> nat \<Rightarrow> nat" where
  "clusters_for v p = (if p = 0 then 0 else Suc ((p - 1) div 512 div csz v))"

text \<open>The buffer is written back to a sector that the file has just given back.\<close>

lemma flush_freed:
  assumes "vok v" and "length (buf fp) = 512" and "is_dirty fp \<longrightarrow> in_clusters v A (unat (sect fp))" and "valid_clusters v A"
    and "\<not> in_clusters v A (unat (winsect v))"
  obtains d where "flush_buf io fp v = Ret (FR_OK, clean fp, v\<lparr>dev := d\<rparr>)" "vok (v\<lparr>dev := d\<rparr>)" "vfat (v\<lparr>dev := d\<rparr>) = vfat v"
    "\<And>t. t \<noteq> unat (sect fp) \<Longrightarrow> sec d t = sec (dev v) t" "\<And>t. \<not> in_clusters v A t \<Longrightarrow> vview (v\<lparr>dev := d\<rparr>) t = vview v t"
proof (cases "is_dirty fp")
  case False
  show ?thesis by (rule that [of "dev v"]) (simp_all add: flush_buf_def False clean_id [OF False] assms(1))
next
  case True
  have g: "good (dev v)" "pdrv v = drv" "geometry_ok cap v" using assms(1) by (simp_all add: vol_ok_def)
  have inA: "in_clusters v A (unat (sect fp))" using assms(3) True by simp
  note t = in_clusters_data [OF g(3) assms(4) inA]
  obtain d where d: "dio_write io drv (buf fp) (sect fp) 1 (dev v) = Ret (RES_OK, d)" "good d" "sec d = (sec (dev v))(unat (sect fp) := buf fp)"
    using write_one [OF g(1) t(1) assms(2)] by blast
  have s: "sec d = (\<lambda>t. if t = unat (sect fp) then buf fp else sec (dev v) t)" using d(3) by (simp add: fun_eq_iff)
  have off: "\<not> in_fat v t \<and> \<not> mirrored v t \<and> t \<noteq> unat (winsect v)" if "t = unat (sect fp)" for t
    using that t inA assms(5) by auto
  note dw = data_write [OF assms(1) d(2) s off]
  show ?thesis
  proof (rule that [of d])
    show "flush_buf io fp v = Ret (FR_OK, clean fp, v\<lparr>dev := d\<rparr>)" using True d(1) g(2) by (simp add: flush_buf_def)
    show "vview (v\<lparr>dev := d\<rparr>) t = vview v t" if "\<not> in_clusters v A t" for t using dw(2) that inA by auto
  qed (use dw d(3) in auto)
qed

text \<open>The first step: the chain is cut.\<close>

definition cut_chain :: "FIL \<Rightarrow> 'd volume \<Rightarrow> (FRESULT \<times> FIL \<times> 'd volume) cpp" where
  "cut_chain fp v =
     (if fptr fp = 0 then cbind (remove_chain io (sclust fp) 0 v) (\<lambda>(r, v1). Ret (r, fp\<lparr>sclust := 0\<rparr>, v1))
      else cbind (get_fat io (clust fp) v) (\<lambda>(ncl, v1).
        let r = (if ncl = 1 then FR_INT_ERR else if ncl = 0xFFFFFFFF then FR_DISK_ERR else FR_OK) in
        if r = FR_OK \<and> ncl < n_fatent v1
        then cbind (remove_chain io ncl (clust fp) v1) (\<lambda>(r, v2). Ret (r, fp, v2)) else Ret (r, fp, v1)))"

lemma cut_chain_ok:
  assumes "fok v fp xs" and "aok v" and "fptr fp < objsize fp"
  defines "m \<equiv> clusters_for v (unat (fptr fp))"
  obtains v' where "cut_chain fp v = Ret (FR_OK, fp\<lparr>sclust := if fptr fp = 0 then 0 else sclust fp\<rparr>, v')" "vok v'" "realloc v v'" "aok v'"
    "chain_of (vfat v') (n_fatent v) (if fptr fp = 0 then 0 else sclust fp) (take m xs)" "vfree v' = vfree v \<union> set (drop m xs)"
    "\<And>t. \<not> in_fat v t \<Longrightarrow> vview v' t = vview v t"
proof -
  note f = fok_facts [OF assms(1)]
  have xs: "xs \<noteq> []" "is_chain (vfat v) (n_fatent v) (sclust fp) xs" "sclust fp \<noteq> 0"
    using f(1,7) assms(3) by (auto simp: data_ok_def chain_of_def word_less_nat_alt split: if_splits)
  have al: "\<forall>c. 2 \<le> c \<and> c < n_fatent v \<longrightarrow> vfat v c \<noteq> 1" "free_count_ok (vfat v) v" using assms(2) by (simp_all add: alloc_ok_def)
  show ?thesis
  proof (cases "fptr fp = 0")
    case True
    obtain ys where ys: "xs = sclust fp # ys" using xs is_chain_hd [OF xs(2)] by (cases xs) auto
    then have "is_chain (vfat v) (n_fatent v) (sclust fp) ([] @ sclust fp # ys)" using xs(2) by simp
    from remove_rest [OF f(3) this] obtain v' where v': "remove_chain io (sclust fp) 0 v = Ret (FR_OK, v')" "vok v'" "realloc v v'"
      "free_count_ok (vfat v') v'" "free_clusters (vfat v') (n_fatent v) = vfree v \<union> set xs" "\<forall>t. \<not> in_fat v t \<longrightarrow> vview v' t = vview v t"
      "\<forall>c. vfat v c \<noteq> 1 \<longrightarrow> vfat v' c \<noteq> 1" using al(2) unfolding ys by auto
    show ?thesis
      by (rule that [of v']) (use v' al realloc_fields(6) [OF v'(3)] True in \<open>auto simp: cut_chain_def m_def clusters_for_def chain_of_def alloc_ok_def\<close>)
  next
    case False
    then have p: "0 < unat (fptr fp)" by (simp add: unat_gt_0)
    define j where "j = (unat (fptr fp) - 1) div 512 div csz v"
    have m: "m = Suc j" using p by (simp add: m_def clusters_for_def j_def)
    have j: "j < length xs" "clust fp = xs ! j"
      using byte_position(2) [OF f(4), of "unat (fptr fp) - 1" xs] f(6,7) p assms(1) by (simp_all add: j_def file_ok_def pos_ok_def)
    obtain v1 where v1: "get_fat io (clust fp) v = Ret (vfat v (clust fp), v1)" "vok v1" "vview v1 = vview v" "moved v v1" "vfat v1 = vfat v"
      by (rule read_entry [OF f(3)])
    note n1 = moved_chain_fields [OF v1(4)] and re = moved_realloc [OF v1(4)]
    have c1: "vfat v (clust fp) \<noteq> 1" using al(1) cluster_of_position [OF f(1) j(1)] j(2) by simp
    show ?thesis
    proof (cases "Suc j < length xs")
      case True
      have nx: "vfat v (clust fp) = xs ! m" "xs ! m < n_fatent v" using next_cluster [OF f(1) True] cluster_of_position(2) [OF f(1) True] j(2) m by simp_all
      have sp: "xs = take m xs @ xs ! m # drop (Suc m) xs" using True m by (simp add: id_take_nth_drop)
      have l: "take m xs \<noteq> []" "last (take m xs) = clust fp" using j m by (auto simp: take_Suc_conv_app_nth)
      have "is_chain (vfat v1) (n_fatent v1) (sclust fp) (take m xs @ xs ! m # drop (Suc m) xs)" using xs(2) sp v1(5) n1(1) by simp
      from remove_rest [OF v1(2) this] obtain v' where v': "remove_chain io (xs ! m) (clust fp) v1 = Ret (FR_OK, v')" "vok v'" "realloc v1 v'"
        "free_count_ok (vfat v1) v1 \<longrightarrow> free_count_ok (vfat v') v'" "free_clusters (vfat v') (n_fatent v1) = free_clusters (vfat v1) (n_fatent v1) \<union> set (xs ! m # drop (Suc m) xs)"
        "\<forall>t. \<not> in_fat v1 t \<longrightarrow> vview v' t = vview v1 t" "is_chain (vfat v') (n_fatent v1) (sclust fp) (take m xs)" "\<forall>c. vfat v1 c \<noteq> 1 \<longrightarrow> vfat v' c \<noteq> 1"
        using l by auto
      have "drop m xs = xs ! m # drop (Suc m) xs" using True m by (simp add: Cons_nth_drop_Suc)
      then have free: "vfree v' = vfree v \<union> set (drop m xs)" using v'(5) realloc_fields(6) [OF v'(3)] v1(5) n1(1) by simp
      have "free_count_ok (vfat v1) v1" using al(2) v1(5) n1 by (simp add: free_count_ok_def)
      then have ao: "aok v'" using v'(4,8) al(1) v1(5) n1(1) realloc_fields(6) [OF v'(3)] by (simp add: alloc_ok_def)
      show ?thesis
        by (rule that [of v', OF _ v'(2) realloc_trans [OF re v'(3)] ao _ free])
          (use False v1(1,3) nx c1 v'(1,6,7) n1(1,5) l(1) xs(3) in \<open>auto simp: cut_chain_def chain_of_def Let_def\<close>)
    next
      case False
      then have "j = length xs - 1" using j(1) by simp
      then have "clust fp = last xs" using j xs(1) by (simp add: last_conv_nth)
      then have ge: "\<not> vfat v (clust fp) < n_fatent v" using is_chain_last [OF xs(2,1)] by simp
      have all: "take m xs = xs" "drop m xs = []" using False m by simp_all
      note ao = aok_moved [OF assms(2) v1(4,5)]
      show ?thesis
        by (rule that [of v1, OF _ v1(2) re ao(1)])
          (use \<open>fptr fp \<noteq> 0\<close> v1(1,3,5) ge c1 n1(1) all ao(2) xs in \<open>auto simp: cut_chain_def chain_of_def Let_def\<close>)
    qed
  qed
qed

lemma f_truncate_ok:
  assumes "fok v fp xs" and "aok v" and "obj_fs fp \<noteq> 0" and "obj_id fp = volume_id v" and "err fp = FR_OK" and "flag fp AND FA_WRITE \<noteq> 0"
    and "fptr fp < objsize fp"
  defines "m \<equiv> clusters_for v (unat (fptr fp))"
  shows "\<exists>fp' v'. f_truncate io fp v = Ret (FR_OK, fp', v') \<and> vok v' \<and> aok v' \<and> chain_of (vfat v') (n_fatent v) (sclust fp') (take m xs)
    \<and> vfree v' = vfree v \<union> set (drop m xs) \<and> objsize fp' = fptr fp \<and> fptr fp' = fptr fp \<and> \<not> is_dirty fp'
    \<and> (\<forall>i<unat (fptr fp). fbyte v' fp' (take m xs) i = fbyte v fp xs i)
    \<and> (\<forall>t. \<not> in_fat v t \<and> \<not> in_clusters v (set xs) t \<longrightarrow> vview v' t = vview v t)"
proof -
  note f = fok_facts [OF assms(1)] and dk = dok_facts [OF fok_facts(1) [OF assms(1)]]
  let ?sc = "if fptr fp = 0 then 0 else sclust fp" and ?p = "unat (fptr fp)"
  obtain v1 where c: "cut_chain fp v = Ret (FR_OK, fp\<lparr>sclust := ?sc\<rparr>, v1)" "vok v1" "realloc v v1" "aok v1"
    "chain_of (vfat v1) (n_fatent v) ?sc (take m xs)" "vfree v1 = vfree v \<union> set (drop m xs)" "\<And>t. \<not> in_fat v t \<Longrightarrow> vview v1 t = vview v t"
    by (rule cut_chain_ok [OF assms(1,2,7), folded m_def]) (rule that, assumption+)
  define fp1 where "fp1 = fp\<lparr>sclust := ?sc, objsize := fptr fp, flag := flag fp OR FA_MODIFIED\<rparr>"
  have f1: "buf fp1 = buf fp" "sect fp1 = sect fp" "fptr fp1 = fptr fp" "objsize fp1 = fptr fp" "sclust fp1 = ?sc" by (simp_all add: fp1_def)
  have "(flag fp OR FA_MODIFIED) AND FA_DIRTY = flag fp AND FA_DIRTY" by (simp add: FA_MODIFIED_def FA_DIRTY_def word_ao_dist)
  then have dirty: "is_dirty fp1 = is_dirty fp" by (simp add: is_dirty_def fp1_def)
  note ff = realloc_file_fields [OF c(3)]
  have "is_dirty fp \<longrightarrow> in_clusters v (set xs) (unat (sect fp))" using f(1) file_sector_in [OF dk(2)] by (auto simp: data_ok_def buf_ok_def)
  then have a: "is_dirty fp1 \<longrightarrow> in_clusters v1 (set xs) (unat (sect fp1))" "valid_clusters v1 (set xs)" using dirty f1(2) ff(2,3) dk(6) by simp_all
  have w: "\<not> in_clusters v1 (set xs) (unat (winsect v1))" using realloc_winsect [OF c(3)] dk(7) in_clusters_data(2) [OF dk(2,6)] ff(2) by auto
  have "length (buf fp1) = 512" using dk(8) f1(1) by simp
  then obtain d where d: "flush_buf io fp1 v1 = Ret (FR_OK, clean fp1, v1\<lparr>dev := d\<rparr>)" "vok (v1\<lparr>dev := d\<rparr>)" "vfat (v1\<lparr>dev := d\<rparr>) = vfat v1"
    "\<And>t. t \<noteq> unat (sect fp1) \<Longrightarrow> sec d t = sec (dev v1) t" "\<And>t. \<not> in_clusters v1 (set xs) t \<Longrightarrow> vview (v1\<lparr>dev := d\<rparr>) t = vview v1 t"
    using flush_freed [OF c(2) _ a w] by blast
  let ?v = "v1\<lparr>dev := d\<rparr>"
  have val: "validate io fp v = Ret FR_OK" using validate_ok [OF f(1) assms(3,4)] .
  have run: "f_truncate io fp v = Ret (FR_OK, clean fp1, ?v)"
    using val assms(5-7) c(1) d(1) by (simp add: f_truncate_def cut_chain_def [symmetric] fp1_def)
  have bytes: "fbyte ?v (clean fp1) (take m xs) i = fbyte v fp xs i" if i: "i < ?p" for i
  proof -
    have k: "i div 512 < length xs * csz v" using byte_position(1) [OF f(4), of i xs] i f(6,7) by simp
    have "i div 512 div csz v \<le> (?p - 1) div 512 div csz v" using i by (intro div_le_mono) simp
    then have "i div 512 div csz v < m" using i by (simp add: m_def clusters_for_def)
    then have fs: "file_sector v (take m xs) (i div 512) = file_sector v xs (i div 512)" by (simp add: file_sector_def)
    have "sec (dev v1) (file_sector v xs (i div 512)) = sec (dev v) (file_sector v xs (i div 512))"
      using data_kept [OF f(1) c(3,2,7) file_sector_in [OF dk(2) k]] .
    then show ?thesis using d(4) [of "file_sector v xs (i div 512)"] fs f1 ff(1) by (simp add: file_byte_def file_block_def)
  qed
  have ao: "aok ?v" "vfree ?v = vfree v1" using aok_moved [OF c(4) moved_dev d(3)] by simp_all
  have "vview ?v t = vview v t" if "\<not> in_fat v t" "\<not> in_clusters v (set xs) t" for t using d(5) [of t] c(7) [of t] that ff(2) by simp
  then show ?thesis using run d(2,3) ao c(5,6) f1 bytes by (intro exI [of _ "clean fp1"] exI [of _ ?v]) simp
qed

end

end
