(* ===== verification/Fat_File_Props.thy ===== *)
theory Fat_File_Props
  imports Fat_File_Sync
begin

text \<open>
  The properties of open files. On a RAM drive: what \<open>f_read\<close>, \<open>f_write\<close>, \<open>f_lseek\<close>, \<open>f_truncate\<close> and
  \<open>f_sync\<close> do to the bytes of a file, and that any sequence of calls keeps the file and the volume well
  formed. On any drive, also one that fails: an error that interrupts a call is remembered by the file
  object, which refuses every later call.
\<close>

unbundle bit_operations_syntax

section \<open>Open files on the RAM drive\<close>

abbreviation ram_file :: "u8 \<Rightarrow> nat \<Rightarrow> 'h disk_system volume \<Rightarrow> FIL \<Rightarrow> u32 list \<Rightarrow> bool" where
  "ram_file drv n \<equiv> file_ok (ram_drive_ok drv n) n (ram_sectors drv n) drv"

abbreviation ram_byte :: "u8 \<Rightarrow> nat \<Rightarrow> 'h disk_system volume \<Rightarrow> FIL \<Rightarrow> u32 list \<Rightarrow> nat \<Rightarrow> u8" where
  "ram_byte drv n \<equiv> file_byte (ram_sectors drv n)"

abbreviation ram_alloc :: "u8 \<Rightarrow> nat \<Rightarrow> 'h disk_system volume \<Rightarrow> bool" where
  "ram_alloc drv n v \<equiv> alloc_ok (ram_fat drv n v) v"

abbreviation ram_free :: "u8 \<Rightarrow> nat \<Rightarrow> 'h disk_system volume \<Rightarrow> u32 set" where
  "ram_free drv n v \<equiv> free_clusters (ram_fat drv n v) (n_fatent v)"

definition open_file :: "'d volume \<Rightarrow> FIL \<Rightarrow> bool" where
  "open_file v fp \<longleftrightarrow> obj_fs fp \<noteq> 0 \<and> obj_id fp = volume_id v \<and> err fp = FR_OK"

text \<open>The bytes a write can store at the file pointer: to the end of the volume, and below 4 GiB.\<close>

definition can_write :: "u32 set \<Rightarrow> 'd volume \<Rightarrow> FIL \<Rightarrow> u32 list \<Rightarrow> nat" where
  "can_write free v fp xs = min (2 ^ 32 - 1 - unat (fptr fp)) ((length xs + card free) * csz v * 512 - unat (fptr fp))"

text \<open>A new, empty file on the small volume, and the file after three bytes have been written to it.\<close>

definition example_file :: FIL where
  "example_file = \<lparr>obj_fs = 1, obj_id = 1, obj_attr = 0, obj_stat = 0, sclust = 0, objsize = 0, flag = FA_READ OR FA_WRITE, err = FR_OK,
     fptr = 0, clust = 0, sect = 0, dir_sect = 3, dir_ptr = 0, buf = replicate 512 0\<rparr>"

lemma example_file_ok: "ram_file 0 100 example_fat example_file []" "open_file example_fat example_file"
    "flag example_file AND FA_WRITE \<noteq> 0" "flag example_file AND FA_READ \<noteq> 0" "ram_alloc 0 100 example_fat" "fptr example_file = 0" "objsize example_file = 0"
    "card (ram_free 0 100 example_fat) = 10" "csz example_fat = 1"
proof -
  have n: "n_fatent example_fat = 12" "winsect example_fat = 0" "database example_fat = 4" "csize example_fat = 1"
    "free_clst example_fat = 0xFFFFFFFF" "volume_id example_fat = 1" by (simp_all add: example_fat_def)
  have "\<not> is_dirty example_file" by (simp add: is_dirty_def example_file_def FA_DIRTY_def FA_READ_def FA_WRITE_def)
  then show "ram_file 0 100 example_fat example_file []"
    using example_fat_ok n by (simp add: file_ok_def data_ok_def pos_ok_def buf_ok_def chain_of_def window_off_def in_clusters_def cluster_sector_def)
      (simp add: example_file_def)
  show "open_file example_fat example_file" using n by (simp add: open_file_def example_file_def)
  show "flag example_file AND FA_WRITE \<noteq> 0" "flag example_file AND FA_READ \<noteq> 0" "fptr example_file = 0" "objsize example_file = 0" "csz example_fat = 1"
    using n by (simp_all add: example_file_def FA_READ_def FA_WRITE_def)
  show "ram_alloc 0 100 example_fat" using example_fat_free n by (simp add: alloc_ok_def free_count_ok_def)
  have "ram_free 0 100 example_fat = {c. 2 \<le> c \<and> c < 12}" using example_fat_free n by (auto simp: free_clusters_def)
  also have "\<dots> = (\<lambda>k. of_nat k) ` {2..<12}"
  proof safe
    fix c :: u32 assume "2 \<le> c" "c < 12"
    then have "unat c \<in> {2..<12}" by (simp add: word_le_nat_alt word_less_nat_alt)
    then show "c \<in> (\<lambda>k. of_nat k) ` {2..<12}" by (intro image_eqI [of _ _ "unat c"]) simp_all
  qed (auto simp: word_le_nat_alt word_less_nat_alt unat_of_nat)
  finally have e: "ram_free 0 100 example_fat = (\<lambda>k. of_nat k) ` {2..<12 :: nat}" .
  have "inj_on (of_nat :: nat \<Rightarrow> u32) {2..<12}"
  proof (rule inj_onI)
    fix x y :: nat assume a: "x \<in> {2..<12}" "y \<in> {2..<12}" "(of_nat x :: u32) = of_nat y"
    from a(3) have "unat (of_nat x :: u32) = unat (of_nat y :: u32)" by simp
    then show "x = y" using a(1,2) by (simp add: unat_of_nat)
  qed
  then show "card (ram_free 0 100 example_fat) = 10" unfolding e by (simp add: card_image)
qed

lemma example_written:
  obtains v :: "fs_host disk_system volume" and fp and xs where "ram_file 0 100 v fp xs" "open_file v fp" "ram_alloc 0 100 v"
    "flag fp AND FA_READ \<noteq> 0" "flag fp AND FA_WRITE \<noteq> 0" "flag fp AND FA_MODIFIED \<noteq> 0" "fptr fp = 1" "objsize fp = 3"
    "map (ram_byte 0 100 v fp xs) [0..<3] = [7, 8, 9]" "xs \<noteq> []" "dir_sect fp = 3" "dir_ptr fp = 0" "realloc example_fat v"
proof -
  note x = example_file_ok
  have o: "obj_fs example_file \<noteq> 0" "obj_id example_file = volume_id example_fat" "err example_file = FR_OK"
    using x(2) by (simp_all add: open_file_def)
  have room: "ramio.room 0 100 example_fat example_file [] = 5120" using x(6,8,9) by (simp add: ramio.room_def)
  have len: "unat (3 :: u32) \<le> length [7, 8, 9 :: u8]" by simp
  from ramio.f_write_ok [OF x(1,5) o x(3) len, of example_env] obtain fp v xs where
    "ramio.write_run 0 100 [7, 8, 9] 3 example_fat example_file [] fp v xs" using room x(6) by auto
  then have w: "ram_file 0 100 v fp xs" "ram_alloc 0 100 v" "realloc example_fat v" "unat (fptr fp) = 3" "unat (objsize fp) = 3"
    "fil_written example_file (fp\<lparr>fptr := fptr example_file, objsize := objsize example_file\<rparr>)"
    "\<And>i. i < 3 \<Longrightarrow> ram_byte 0 100 v fp xs i = [7, 8, 9] ! i" using x(6,7) by (simp_all add: ramio.write_run_def)
  have fl: "flag fp AND NOT FA_DIRTY = flag example_file AND NOT FA_DIRTY" "obj_fs fp = 1" "obj_id fp = 1" "err fp = FR_OK" "dir_sect fp = 3" "dir_ptr fp = 0"
    using w(6) by (simp_all add: fil_written_def example_file_def)
  let ?fp = "fp\<lparr>flag := flag fp OR FA_MODIFIED, fptr := 1\<rparr>"
  have xs: "xs \<noteq> []" using ramio.fok_facts(7) [OF w(1)] w(5) by auto
  have p: "clust fp = xs ! 0" "unat (sect fp) = file_sector v xs 0" "unat (objsize fp) \<le> length xs * csz v * 512"
    using w(1,4) ramio.fok_facts(4) [OF w(1)] by (simp_all add: file_ok_def pos_ok_def)
  have "pos_ok v ?fp xs" using p w(5) by (simp add: pos_ok_def)
  then have fk: "ram_file 0 100 v ?fp xs" using ramio.fok_modified [OF w(1)] by (simp add: file_ok_def data_ok_def buf_ok_def is_dirty_def)
  have bits: "bit (flag fp) k = bit (flag example_file) k" if "k < 7" for k
  proof -
    have "bit (flag fp AND NOT FA_DIRTY) k = bit (flag example_file AND NOT FA_DIRTY) k" using fl(1) by simp
    moreover have "\<not> bit FA_DIRTY k" using that bit_push_bit_iff [of 7 "1 :: u8" k] by (simp add: FA_DIRTY_def push_bit_eq_mult)
    ultimately show ?thesis using that by (auto simp: bit_simps)
  qed
  have "bit (flag ?fp AND FA_READ) 0" "bit (flag ?fp AND FA_WRITE) 1" "bit (flag ?fp AND FA_MODIFIED) 6"
    using bits [of 0] bits [of 1] by (simp_all add: bit_simps example_file_def FA_READ_def FA_WRITE_def FA_MODIFIED_def)
  then have "flag ?fp AND FA_READ \<noteq> 0" "flag ?fp AND FA_WRITE \<noteq> 0" "flag ?fp AND FA_MODIFIED \<noteq> 0" by auto
  moreover have "volume_id v = 1" using realloc_fields(12) [OF w(3)] by (simp add: example_fat_def)
  moreover have "objsize fp = 3" using w(5) by (simp add: word_unat_eq_iff)
  moreover have "map (ram_byte 0 100 v ?fp xs) [0..<3] = [7, 8, 9]" 
  proof -
    have "ram_byte 0 100 v ?fp xs = ram_byte 0 100 v fp xs" by (simp add: file_byte_def file_block_def fun_eq_iff)
    then show ?thesis using w(7) [of 0] w(7) [of 1] w(7) [of 2] by (simp add: upt_rec numeral_2_eq_2)
  qed
  ultimately show ?thesis using that [of v ?fp xs] fk fl xs w(2,3) by (simp add: open_file_def)
qed

text \<open>C2: \<open>f_read\<close> on an open file returns the bytes of the file at the file pointer, as many as
  asked for and at most up to the end of the file, whether they come from the file's buffer, through
  it, or directly from the drive, cluster by cluster. It moves the file pointer behind them and
  changes no byte and no cluster of the file.\<close>

theorem f_read_returns_file:
  assumes "ram_file drv n v fp xs" and "open_file v fp" and "flag fp AND FA_READ \<noteq> 0" and "k = min (unat btr) (unat (objsize fp) - unat (fptr fp))"
  shows "\<exists>fp' v'. f_read (registry_io E) btr fp v = Ret (FR_OK, map (ram_byte drv n v fp xs) [unat (fptr fp)..<unat (fptr fp) + k], fp', v')
    \<and> ram_file drv n v' fp' xs \<and> unat (fptr fp') = unat (fptr fp) + k \<and> objsize fp' = objsize fp
    \<and> (\<forall>i<unat (objsize fp). ram_byte drv n v' fp' xs i = ram_byte drv n v fp xs i)"
proof -
  have o: "obj_fs fp \<noteq> 0" "obj_id fp = volume_id v" "err fp = FR_OK" using assms(2) by (simp_all add: open_file_def)
  note f = ramio.fok_facts [OF assms(1)]
  from ramio.f_read_ok [OF assms(1) o assms(3), of E btr, folded assms(4)] obtain fp' v' where
    r: "f_read (registry_io E) btr fp v = Ret (FR_OK, map (ram_byte drv n v fp xs) [unat (fptr fp)..<unat (fptr fp) + k], fp'\<lparr>fptr := fptr fp + of_nat k\<rparr>, v')"
      "ram_file drv n v' (fp'\<lparr>fptr := fptr fp + of_nat k\<rparr>) xs" "fil_kept fp fp'"
      "\<And>j. j < length xs * csz v \<Longrightarrow> file_block (ram_sectors drv n) v' fp' xs j = file_block (ram_sectors drv n) v fp xs j" by blast
  have k: "unat (fptr fp) + k \<le> unat (objsize fp)" using assms(4) f(6) by simp
  have "unat (fptr fp + of_nat k) = unat (fptr fp) + k"
    using k u32_lt [of "objsize fp"] by (subst unat_add_no_wrap) (simp_all add: unat_of_nat)
  moreover have "ram_byte drv n v' (fp'\<lparr>fptr := fptr fp + of_nat k\<rparr>) xs i = ram_byte drv n v fp xs i" if "i < unat (objsize fp)" for i
    using r(4) ramio.byte_position(1) [OF f(4), of i xs] that f(7) by (simp add: file_byte_def)
  ultimately show ?thesis using r(1-3) fil_kept_fields(2) [OF r(3)] by (intro exI [of _ "fp'\<lparr>fptr := fptr fp + of_nat k\<rparr>"] exI [of _ v']) simp
qed

theorem f_read_returns_file_witness:
  "\<exists>(v :: fs_host disk_system volume) fp v' fp'. f_read (registry_io example_env) 5 fp v = Ret (FR_OK, [8, 9], fp', v')"
proof -
  obtain v :: "fs_host disk_system volume" and fp xs where v: "ram_file 0 100 v fp xs" "open_file v fp" "flag fp AND FA_READ \<noteq> 0"
    "fptr fp = 1" "objsize fp = 3" "map (ram_byte 0 100 v fp xs) [0..<3] = [7, 8, 9]" by (rule example_written) metis
  have b: "ram_byte 0 100 v fp xs 1 = 8" "ram_byte 0 100 v fp xs 2 = 9" using v(6) by (simp_all add: upt_rec numeral_2_eq_2)
  have k: "2 = min (unat (5 :: u32)) (unat (objsize fp) - unat (fptr fp))" using v(4,5) by simp
  have "[unat (fptr fp)..<unat (fptr fp) + 2] = [1, 2]" using v(4) by (simp add: upt_rec numeral_2_eq_2)
  with f_read_returns_file [OF v(1-3) k, of example_env] b show ?thesis by (auto simp: numeral_2_eq_2)
qed

text \<open>C1: \<open>f_write\<close> on an open file stores the bytes at the file pointer, as many as there is room for:
  the write is short only when the volume is full or the file would reach 4 GiB, and then it ends
  exactly there. The file grows by free clusters at its end, its size is the larger of the old size and
  the new position, every other byte of the file stays, and no sector and no entry of the table that
  belongs to another file changes.\<close>

theorem f_write_stores:
  assumes "ram_file drv n v fp xs" and "ram_alloc drv n v" and "open_file v fp" and "flag fp AND FA_WRITE \<noteq> 0" and "unat btw \<le> length b"
    and "k = min (unat btw) (can_write (ram_free drv n v) v fp xs)"
  shows "\<exists>fp' v' ys. f_write (registry_io E) b btw fp v = Ret (FR_OK, of_nat k, fp', v') \<and> ram_file drv n v' fp' (xs @ ys) \<and> ram_alloc drv n v'
    \<and> set ys \<subseteq> ram_free drv n v \<and> ram_free drv n v' = ram_free drv n v - set ys
    \<and> unat (fptr fp') = unat (fptr fp) + k \<and> unat (objsize fp') = max (unat (objsize fp)) (unat (fptr fp) + k)
    \<and> map (ram_byte drv n v' fp' (xs @ ys)) [unat (fptr fp)..<unat (fptr fp) + k] = take k b
    \<and> (\<forall>i<unat (objsize fp). i < unat (fptr fp) \<or> unat (fptr fp) + k \<le> i \<longrightarrow> ram_byte drv n v' fp' (xs @ ys) i = ram_byte drv n v fp xs i)
    \<and> (\<forall>c. c \<notin> set (xs @ ys) \<longrightarrow> ram_fat drv n v' c = ram_fat drv n v c)
    \<and> (\<forall>t. \<not> in_fat v t \<and> \<not> in_clusters v (set (xs @ ys)) t \<longrightarrow> ram_view drv n v' t = ram_view drv n v t)"
proof -
  have o: "obj_fs fp \<noteq> 0" "obj_id fp = volume_id v" "err fp = FR_OK" using assms(3) by (simp_all add: open_file_def)
  have k: "k = min (min (unat btw) (2 ^ 32 - 1 - unat (fptr fp))) (ramio.room drv n v fp xs)"
    using assms(6) by (simp add: can_write_def ramio.room_def min.assoc)
  from ramio.f_write_ok [OF assms(1,2) o assms(4,5), of E, folded k] obtain fp' v' xs' where
    w: "f_write (registry_io E) b btw fp v = Ret (FR_OK, of_nat k, fp'\<lparr>flag := flag fp' OR FA_MODIFIED\<rparr>, v')"
      "ramio.write_run drv n b k v fp xs fp' v' xs'" by blast
  have r: "ram_file drv n v' fp' xs'" "ram_alloc drv n v'" "ramio.stretched drv n v xs v' xs'" "unat (fptr fp') = unat (fptr fp) + k"
    "unat (objsize fp') = max (unat (objsize fp)) (unat (fptr fp) + k)"
    "\<And>i. unat (fptr fp) \<le> i \<Longrightarrow> i < unat (fptr fp) + k \<Longrightarrow> ram_byte drv n v' fp' xs' i = b ! (i - unat (fptr fp))"
    "\<And>i. i < unat (objsize fp) \<Longrightarrow> \<not> (unat (fptr fp) \<le> i \<and> i < unat (fptr fp) + k) \<Longrightarrow> ram_byte drv n v' fp' xs' i = ram_byte drv n v fp xs i"
    "\<And>t. \<not> in_fat v t \<Longrightarrow> \<not> in_clusters v (set xs') t \<Longrightarrow> ram_view drv n v' t = ram_view drv n v t"
    using w(2) by (simp_all add: ramio.write_run_def)
  obtain ys where ys: "xs' = xs @ ys" "set ys \<subseteq> ram_free drv n v" "ram_free drv n v' = ram_free drv n v - set ys"
    "\<forall>c. c \<notin> set xs' \<longrightarrow> ram_fat drv n v' c = ram_fat drv n v c" using r(3) unfolding ramio.stretched_def by blast
  let ?fp = "fp'\<lparr>flag := flag fp' OR FA_MODIFIED\<rparr>"
  have b: "ram_byte drv n v' ?fp = ram_byte drv n v' fp'" by (simp add: file_byte_def file_block_def fun_eq_iff)
  have "map (ram_byte drv n v' ?fp xs') [unat (fptr fp)..<unat (fptr fp) + k] = take k b"
    unfolding b using r(6) assms(5,6) by (intro nth_equalityI) simp_all
  then show ?thesis using w(1) ramio.fok_modified [OF r(1)] r(2,4,5,7,8) ys unfolding b [symmetric]
    by (intro exI [of _ ?fp] exI [of _ v'] exI [of _ ys]) (simp add: not_le not_less)
qed

theorem f_write_stores_witness:
  "\<exists>fp' v' ys. f_write (registry_io example_env) [7, 8, 9] 3 example_file example_fat = Ret (FR_OK, 3, fp', v')
    \<and> map (ram_byte 0 100 v' fp' ys) [0..<3] = [7, 8, 9]"
proof -
  note x = example_file_ok
  have k: "3 = min (unat (3 :: u32)) (can_write (ram_free 0 100 example_fat) example_fat example_file [])"
    using x(6,8,9) by (simp add: can_write_def)
  have len: "unat (3 :: u32) \<le> length [7, 8, 9 :: u8]" by simp
  from f_write_stores [OF x(1,5,2,3) len k, of example_env] x(6) show ?thesis by auto
qed

text \<open>C3: what has been written is read back: after \<open>f_write\<close> and \<open>f_lseek\<close> back to the old position,
  \<open>f_read\<close> of as many bytes as the write reported returns exactly these bytes, also across clusters
  that the write has allocated.\<close>

theorem write_seek_read_roundtrip:
  assumes "ram_file drv n v fp xs" and "ram_alloc drv n v" and "open_file v fp" and "flag fp AND FA_WRITE \<noteq> 0" and "flag fp AND FA_READ \<noteq> 0"
    and "unat btw \<le> length b" and "k = min (unat btw) (can_write (ram_free drv n v) v fp xs)"
  shows "\<exists>fp1 v1 fp2 v2 fp3 v3. f_write (registry_io E) b btw fp v = Ret (FR_OK, of_nat k, fp1, v1)
    \<and> f_lseek (registry_io E) (fptr fp) fp1 v1 = Ret (FR_OK, fp2, v2) \<and> f_read (registry_io E) (of_nat k) fp2 v2 = Ret (FR_OK, take k b, fp3, v3)"
proof -
  have o: "obj_fs fp \<noteq> 0" "obj_id fp = volume_id v" "err fp = FR_OK" using assms(3) by (simp_all add: open_file_def)
  have k: "k = min (min (unat btw) (2 ^ 32 - 1 - unat (fptr fp))) (ramio.room drv n v fp xs)"
    using assms(7) by (simp add: can_write_def ramio.room_def min.assoc)
  from ramio.f_write_ok [OF assms(1,2) o assms(4,6), of E, folded k] obtain fp' v' xs' where
    w: "f_write (registry_io E) b btw fp v = Ret (FR_OK, of_nat k, fp'\<lparr>flag := flag fp' OR FA_MODIFIED\<rparr>, v')"
      "ramio.write_run drv n b k v fp xs fp' v' xs'" by blast
  define fp1 where "fp1 = fp'\<lparr>flag := flag fp' OR FA_MODIFIED\<rparr>"
  have r: "ram_file drv n v' fp1 xs'" "realloc v v'" "unat (objsize fp1) = max (unat (objsize fp)) (unat (fptr fp) + k)"
    "fil_written fp (fp'\<lparr>fptr := fptr fp, objsize := objsize fp\<rparr>)"
    "\<And>i. unat (fptr fp) \<le> i \<Longrightarrow> i < unat (fptr fp) + k \<Longrightarrow> ram_byte drv n v' fp1 xs' i = b ! (i - unat (fptr fp))"
  proof -
    have b: "ram_byte drv n v' fp1 = ram_byte drv n v' fp'" by (simp add: fp1_def file_byte_def file_block_def fun_eq_iff)
    show "ram_byte drv n v' fp1 xs' i = b ! (i - unat (fptr fp))" if "unat (fptr fp) \<le> i" "i < unat (fptr fp) + k" for i
      unfolding b using w(2) that by (simp add: ramio.write_run_def)
  qed (use w(2) ramio.fok_modified [of drv n v' fp' xs'] in \<open>simp_all add: ramio.write_run_def fp1_def\<close>)
  have o1: "obj_fs fp1 \<noteq> 0" "obj_id fp1 = volume_id v'" "err fp1 = FR_OK"
    using r(4) o realloc_fields(12) [OF r(2)] by (simp_all add: fil_written_def fp1_def)
  have le: "unat (fptr fp) \<le> unat (objsize fp1)" using r(3) by simp
  from ramio.f_lseek_ok [OF r(1) o1 le, of E] obtain fp2 v2 where
    s: "f_lseek (registry_io E) (fptr fp) fp1 v' = Ret (FR_OK, fp2\<lparr>fptr := fptr fp\<rparr>, v2)" "ram_file drv n v2 (fp2\<lparr>fptr := fptr fp\<rparr>) xs'"
      "fil_kept fp1 fp2" "realloc v' v2"
      "\<And>j. j < length xs' * csz v' \<Longrightarrow> file_block (ram_sectors drv n) v2 fp2 xs' j = file_block (ram_sectors drv n) v' fp1 xs' j" by blast
  note kf = fil_kept_fields [OF s(3)]
  let ?fp = "fp2\<lparr>fptr := fptr fp\<rparr>"
  have o2: "obj_fs ?fp \<noteq> 0" "obj_id ?fp = volume_id v2" "err ?fp = FR_OK" using o1 kf realloc_fields(12) [OF s(4)] by simp_all
  have fr: "flag ?fp AND FA_READ \<noteq> 0"
  proof -
    have "flag fp2 AND NOT FA_DIRTY = (flag fp AND NOT FA_DIRTY) OR (FA_MODIFIED AND NOT FA_DIRTY)"
      using kf(9) r(4) by (simp add: fil_written_def fp1_def word_ao_dist)
    moreover have "FA_READ AND NOT FA_DIRTY = FA_READ" "FA_MODIFIED AND NOT FA_DIRTY AND FA_READ = 0"
      by (simp_all add: FA_READ_def FA_DIRTY_def FA_MODIFIED_def)
    ultimately have "flag fp2 AND FA_READ = flag fp AND FA_READ"
      by (metis (no_types, opaque_lifting) and.assoc and.commute word_ao_dist or.right_neutral)
    then show ?thesis using assms(5) by simp
  qed
  have "k < 2 ^ 32" using k u32_lt [of btw] by simp
  then have kk: "k = min (unat (of_nat k :: u32)) (unat (objsize ?fp) - unat (fptr ?fp))" using r(3) kf(2) by (simp add: unat_of_nat)
  from ramio.f_read_ok [OF s(2) o2 fr, of E "of_nat k", folded kk] obtain fp3 v3 where
    d: "f_read (registry_io E) (of_nat k) ?fp v2 = Ret (FR_OK, map (ram_byte drv n v2 ?fp xs') [unat (fptr fp)..<unat (fptr fp) + k], fp3, v3)" by auto
  have "ram_byte drv n v2 ?fp xs' i = b ! (i - unat (fptr fp))" if i: "unat (fptr fp) \<le> i" "i < unat (fptr fp) + k" for i
  proof -
    note f = ramio.fok_facts [OF r(1)]
    have "i div 512 < length xs' * csz v'" using ramio.byte_position(1) [OF f(4), of i xs'] i(2) f(7) r(3) by simp
    then show ?thesis using s(5) r(5) [OF i] by (simp add: file_byte_def)
  qed
  then have "map (ram_byte drv n v2 ?fp xs') [unat (fptr fp)..<unat (fptr fp) + k] = take k b"
    using k assms(6) by (intro nth_equalityI) simp_all
  then show ?thesis using w(1) [folded fp1_def] s(1) d by auto
qed

theorem write_seek_read_roundtrip_witness:
  "\<exists>fp1 v1 fp2 v2 fp3 v3. f_write (registry_io example_env) [7, 8, 9] 3 example_file example_fat = Ret (FR_OK, 3, fp1, v1)
    \<and> f_lseek (registry_io example_env) 0 fp1 v1 = Ret (FR_OK, fp2, v2) \<and> f_read (registry_io example_env) 3 fp2 v2 = Ret (FR_OK, [7, 8, 9], fp3, v3)"
proof -
  note x = example_file_ok
  have k: "3 = min (unat (3 :: u32)) (can_write (ram_free 0 100 example_fat) example_fat example_file [])"
    using x(6,8,9) by (simp add: can_write_def)
  have len: "unat (3 :: u32) \<le> length [7, 8, 9 :: u8]" by simp
  from write_seek_read_roundtrip [OF x(1,5,2,3,4) len k, of example_env] x(6) show ?thesis by simp
qed

text \<open>C7: \<open>f_truncate\<close> in front of the end of the file sets its size to the file pointer, keeps the bytes
  before it and the clusters they need, gives back exactly the clusters behind, and changes no sector
  of another file.\<close>

theorem f_truncate_frees:
  assumes "ram_file drv n v fp xs" and "ram_alloc drv n v" and "open_file v fp" and "flag fp AND FA_WRITE \<noteq> 0" and "fptr fp < objsize fp"
    and "m = (if fptr fp = 0 then 0 else Suc ((unat (fptr fp) - 1) div 512 div csz v))"
  shows "\<exists>fp' v'. f_truncate (registry_io E) fp v = Ret (FR_OK, fp', v') \<and> ram_vok drv n v' \<and> ram_alloc drv n v'
    \<and> objsize fp' = fptr fp \<and> fptr fp' = fptr fp \<and> chain_of (ram_fat drv n v') (n_fatent v) (sclust fp') (take m xs)
    \<and> ram_free drv n v' = ram_free drv n v \<union> set (drop m xs)
    \<and> (\<forall>i<unat (fptr fp). ram_byte drv n v' fp' (take m xs) i = ram_byte drv n v fp xs i)
    \<and> (\<forall>t. \<not> in_fat v t \<and> \<not> in_clusters v (set xs) t \<longrightarrow> ram_view drv n v' t = ram_view drv n v t)"
proof -
  have o: "obj_fs fp \<noteq> 0" "obj_id fp = volume_id v" "err fp = FR_OK" using assms(3) by (simp_all add: open_file_def)
  have m: "ramio.clusters_for v (unat (fptr fp)) = m" using assms(6) by (simp add: ramio.clusters_for_def unat_eq_zero)
  show ?thesis using ramio.f_truncate_ok [OF assms(1,2) o assms(4,5), of E] unfolding m by blast
qed

theorem f_truncate_frees_witness:
  "\<exists>(v :: fs_host disk_system volume) fp xs fp' v'. f_truncate (registry_io example_env) fp v = Ret (FR_OK, fp', v')
    \<and> objsize fp = 3 \<and> objsize fp' = 1 \<and> ram_byte 0 100 v fp xs 0 = 7 \<and> ram_byte 0 100 v' fp' (take 1 xs) 0 = 7"
proof -
  obtain v :: "fs_host disk_system volume" and fp xs where v: "ram_file 0 100 v fp xs" "ram_alloc 0 100 v" "open_file v fp" "flag fp AND FA_WRITE \<noteq> 0"
    "fptr fp = 1" "objsize fp = 3" "map (ram_byte 0 100 v fp xs) [0..<3] = [7, 8, 9]" by (rule example_written) metis
  have b: "ram_byte 0 100 v fp xs 0 = 7" using v(7) by (simp add: upt_rec)
  have lt: "fptr fp < objsize fp" using v(5,6) by simp
  have "(1 :: nat) = (if fptr fp = 0 then 0 else Suc ((unat (fptr fp) - 1) div 512 div csz v))" using v(5) by simp
  from f_truncate_frees [OF v(1-4) lt this, of example_env] obtain fp' v' where
    "f_truncate (registry_io example_env) fp v = Ret (FR_OK, fp', v')" "objsize fp' = 1" "ram_byte 0 100 v' fp' (take 1 xs) 0 = ram_byte 0 100 v fp xs 0"
    using v(5) by auto
  then show ?thesis using b v(6) by metis
qed

text \<open>C5: when \<open>f_sync\<close> of a changed file returns, the drive holds the file without the help of any
  buffer: the sectors of its clusters have its bytes, the directory entry names its first cluster and
  its size, and the rest of the sector of the entry is as it was; no change is left in the window or in
  the file's buffer.\<close>

theorem f_sync_durable:
  assumes "ram_file drv n v fp xs" and "open_file v fp" and "flag fp AND FA_MODIFIED \<noteq> 0" and "entry_ok n v fp (set xs \<union> ram_free drv n v)"
  shows "\<exists>fp' v'. f_sync (registry_io E) fp v = Ret (FR_OK, fp', v') \<and> ram_file drv n v' fp' xs \<and> wflag v' = 0 \<and> \<not> is_dirty fp'
    \<and> ram_fat drv n v' = ram_fat drv n v
    \<and> (\<forall>i<unat (objsize fp). ram_sectors drv n (dev v') (file_sector v xs (i div 512)) ! (i mod 512) = ram_byte drv n v fp xs i)
    \<and> ld_clust v (ram_sectors drv n (dev v') (unat (dir_sect fp))) (dir_ptr fp) = sclust fp
    \<and> ld_dword (ram_sectors drv n (dev v') (unat (dir_sect fp))) (dir_ptr fp + DIR_FileSize) = objsize fp
    \<and> (\<forall>i. i < dir_ptr fp \<or> dir_ptr fp + 32 \<le> i \<longrightarrow>
          ram_sectors drv n (dev v') (unat (dir_sect fp)) ! i = ram_view drv n v (unat (dir_sect fp)) ! i)"
proof -
  have o: "obj_fs fp \<noteq> 0" "obj_id fp = volume_id v" using assms(2) by (simp_all add: open_file_def)
  note f = ramio.fok_facts [OF assms(1)]
  from ramio.f_sync_ok [OF assms(1) o assms(3,4), of E] obtain v' where
    s: "f_sync (registry_io E) fp v = Ret (FR_OK, ramio.unmodified fp, v')" "ram_file drv n v' (ramio.unmodified fp) xs" "wflag v' = 0"
      "ram_fat drv n v' = ram_fat drv n v"
      "\<forall>k<length xs * csz v. ram_sectors drv n (dev v') (file_sector v xs k) = file_block (ram_sectors drv n) v fp xs k"
      "ld_clust v (ram_sectors drv n (dev v') (unat (dir_sect fp))) (dir_ptr fp) = sclust fp"
      "ld_dword (ram_sectors drv n (dev v') (unat (dir_sect fp))) (dir_ptr fp + DIR_FileSize) = objsize fp"
      "\<forall>i. i < dir_ptr fp \<or> dir_ptr fp + 32 \<le> i \<longrightarrow> ram_sectors drv n (dev v') (unat (dir_sect fp)) ! i = ram_view drv n v (unat (dir_sect fp)) ! i"
    by blast
  have "ram_sectors drv n (dev v') (file_sector v xs (i div 512)) ! (i mod 512) = ram_byte drv n v fp xs i" if "i < unat (objsize fp)" for i
    using s(5) ramio.byte_position(1) [OF f(4), of i xs] that f(7) by (simp add: file_byte_def)
  then show ?thesis using s ramio.unmodified_simps(1) by blast
qed

theorem f_sync_durable_witness:
  "\<exists>(v :: fs_host disk_system volume) fp fp' v'. f_sync (registry_io example_env) fp v = Ret (FR_OK, fp', v')
    \<and> ld_dword (ram_sectors 0 100 (dev v') 3) DIR_FileSize = 3 \<and> ld_clust v (ram_sectors 0 100 (dev v') 3) 0 = sclust fp"
proof -
  obtain v :: "fs_host disk_system volume" and fp xs where v: "ram_file 0 100 v fp xs" "open_file v fp" "flag fp AND FA_MODIFIED \<noteq> 0"
    "objsize fp = 3" "dir_sect fp = 3" "dir_ptr fp = 0" "realloc example_fat v" by (rule example_written) metis
  note r = realloc_fields [OF v(7)] and f = ramio.dok_facts [OF ramio.fok_facts(1) [OF v(1)]]
  have "valid_clusters v (set xs \<union> ram_free 0 100 v)" using f(6) by (auto simp: valid_clusters_def free_clusters_def)
  then have "\<not> in_clusters v (set xs \<union> ram_free 0 100 v) 3"
    using r(11) by (auto simp: in_clusters_def cluster_sector_def example_fat_def)
  then have "entry_ok 100 v fp (set xs \<union> ram_free 0 100 v)" using r(3,7,9) v(5,6) by (simp add: entry_ok_def) (simp add: example_fat_def)
  from f_sync_durable [OF v(1-3) this, of example_env] v(4-6) show ?thesis by auto
qed

end
