(* ===== verification/Fat_File_Errors.thy ===== *)
theory Fat_File_Errors
  imports Fat_File_Props
begin

text \<open>
  Calls on an open file as one interface. Whatever the drive does, an error that interrupts a call is
  kept in the file object; on a drive that works, any sequence of calls keeps the file well formed and
  every call returns.
\<close>

unbundle bit_operations_syntax

section \<open>Calls on an open file\<close>

datatype file_op = Op_read u32 | Op_write bytes u32 | Op_lseek u32 | Op_truncate

fun file_call :: "'d diskio \<Rightarrow> file_op \<Rightarrow> FIL \<Rightarrow> 'd volume \<Rightarrow> (FRESULT \<times> FIL \<times> 'd volume) cpp" where
  "file_call io (Op_read btr) fp v = cbind (f_read io btr fp v) (\<lambda>(r, _, fp', v'). Ret (r, fp', v'))"
| "file_call io (Op_write b btw) fp v = cbind (f_write io b btw fp v) (\<lambda>(r, _, fp', v'). Ret (r, fp', v'))"
| "file_call io (Op_lseek ofs) fp v = f_lseek io ofs fp v"
| "file_call io Op_truncate fp v = f_truncate io fp v"

section \<open>Errors\<close>

lemma read_loop_abort: "read_loop k io btr acc fp v = Ret (r, b, fp', v') \<Longrightarrow> r \<noteq> FR_OK \<Longrightarrow> err fp' = r"
proof (induction k arbitrary: btr acc fp v)
  case (Suc k)
  show ?case
  proof (cases "0 < btr")
    case True
    then obtain r1 n c fp1 v1 where s: "read_round io btr fp v = Ret (r1, n, c, fp1, v1)" using Suc.prems(1) by auto
    show ?thesis using Suc.prems Suc.IH True s by (cases "r1 = FR_OK") auto
  qed (use Suc.prems in auto)
qed simp

lemma write_loop_abort: "write_loop k io btw b bw fp v = Ret (r, n, fp', v') \<Longrightarrow> r \<noteq> FR_OK \<Longrightarrow> err fp' = r"
proof (induction k arbitrary: btw b bw fp v)
  case (Suc k)
  show ?case
  proof (cases "0 < btw")
    case True
    then obtain r1 full w fp1 v1 where s: "write_round io btw b fp v = Ret (r1, full, w, fp1, v1)" using Suc.prems(1) by auto
    show ?thesis using Suc.prems Suc.IH True s by (cases "r1 = FR_OK"; cases full) auto
  qed (use Suc.prems in auto)
qed simp

lemma load_abort:
  assumes "(if c then cbind (flush_buf io fp v) (\<lambda>(r, fp3, v2).
      if r \<noteq> FR_OK then Ret (r, fp3\<lparr>err := r\<rparr>, v2)
      else cbind (load_buf io s fp3 v2) (\<lambda>(r, fp4, v3).
        if r \<noteq> FR_OK then Ret (r, fp4\<lparr>err := r\<rparr>, v3) else Ret (FR_OK, fp4\<lparr>sect := s\<rparr>, v3)))
    else Ret (FR_OK, fp, v)) = Ret (r, fp', v')" and "r \<noteq> FR_OK"
  shows "err fp' = r"
  using assms by (auto split: if_splits)

lemma f_lseek_abort:
  assumes "f_lseek io ofs fp v = Ret (r, fp', v')" and "r \<noteq> FR_OK"
  shows "fp' = fp \<and> v' = v \<or> err fp' = r"
proof -
  obtain x where x: "validate io fp v = Ret x" using assms(1) by (cases "validate io fp v") (simp_all add: f_lseek_def)
  show ?thesis
  proof (cases "x \<noteq> FR_OK \<or> err fp \<noteq> FR_OK")
    case True
    then show ?thesis using assms(1) x by (cases "x = FR_OK") (simp_all add: f_lseek_def)
  next
    case False
    then have e: "x = FR_OK" "err fp = FR_OK" by simp_all
    define q where "q = (if ofs > objsize fp \<and> flag fp AND FA_WRITE = 0 then objsize fp else ofs)"
    obtain r1 s fp1 v1 where m: "seek_move io q (fptr fp) (fp\<lparr>fptr := 0\<rparr>) v = Ret (r1, s, fp1, v1)"
      using assms(1) x False unfolding f_lseek_def Let_def q_def [symmetric] by auto
    show ?thesis
    proof (cases "r1 = FR_OK")
      case True
      define fp2 where "fp2 = (if fptr fp1 > objsize fp1 then fp1\<lparr>objsize := fptr fp1, flag := flag fp1 OR FA_MODIFIED\<rparr> else fp1)"
      have "f_lseek io ofs fp v = (if fptr fp2 mod 512 \<noteq> 0 \<and> s \<noteq> sect fp2 then cbind (flush_buf io fp2 v1) (\<lambda>(r, fp3, v2).
          if r \<noteq> FR_OK then Ret (r, fp3\<lparr>err := r\<rparr>, v2)
          else cbind (load_buf io s fp3 v2) (\<lambda>(r, fp4, v3).
            if r \<noteq> FR_OK then Ret (r, fp4\<lparr>err := r\<rparr>, v3) else Ret (FR_OK, fp4\<lparr>sect := s\<rparr>, v3)))
        else Ret (FR_OK, fp2, v1))"
        unfolding f_lseek_def x cbind.simps Let_def q_def [symmetric] m prod.case fp2_def e True by (simp only: simp_thms if_False)
      then show ?thesis using load_abort [of "fptr fp2 mod 512 \<noteq> 0 \<and> s \<noteq> sect fp2" io fp2 v1 s r fp' v'] assms by simp
    next
      case r1: False
      then show ?thesis using assms x False m unfolding f_lseek_def Let_def q_def [symmetric] by auto
    qed
  qed
qed

lemma flush_abort:
  assumes "cbind (if c then flush_buf io fp v else Ret (r0, fp, v)) (\<lambda>(r, fp3, v2).
      if r \<noteq> FR_OK then Ret (r, fp3\<lparr>err := r\<rparr>, v2) else Ret (FR_OK, fp3, v2)) = Ret (r, fp', v')" and "r \<noteq> FR_OK"
  shows "err fp' = r"
  using assms by (auto split: if_splits)

lemma f_truncate_abort:
  assumes "f_truncate io fp v = Ret (r, fp', v')" and "r \<noteq> FR_OK"
  shows "fp' = fp \<and> v' = v \<or> err fp' = r"
proof -
  obtain x where x: "validate io fp v = Ret x" using assms(1) by (cases "validate io fp v") (simp_all add: f_truncate_def)
  consider "x \<noteq> FR_OK" | "x = FR_OK" "err fp \<noteq> FR_OK" | "x = FR_OK" "err fp = FR_OK" "flag fp AND FA_WRITE = 0"
    | "x = FR_OK" "err fp = FR_OK" "flag fp AND FA_WRITE \<noteq> 0" "\<not> fptr fp < objsize fp"
    | "x = FR_OK" "err fp = FR_OK" "flag fp AND FA_WRITE \<noteq> 0" "fptr fp < objsize fp" by fastforce
  then show ?thesis
  proof cases
    case 5
    then have "\<exists>r1 fp1 v1. cbind (if r1 = FR_OK then flush_buf io (fp1\<lparr>objsize := fptr fp1, flag := flag fp1 OR FA_MODIFIED\<rparr>) v1
        else Ret (r1, fp1\<lparr>objsize := fptr fp1, flag := flag fp1 OR FA_MODIFIED\<rparr>, v1)) (\<lambda>(r, fp3, v2).
          if r \<noteq> FR_OK then Ret (r, fp3\<lparr>err := r\<rparr>, v2) else Ret (FR_OK, fp3, v2)) = Ret (r, fp', v')"
      using assms(1) x unfolding f_truncate_def Let_def by (simp only: cbind_Ret_iff cbind.simps if_False if_True split_paired_Ex prod.case simp_thms) blast
    then show ?thesis using flush_abort assms(2) by blast
  qed (use assms x in \<open>simp_all add: f_truncate_def\<close>)
qed

lemma file_call_abort:
  assumes "file_call io op fp v = Ret (r, fp', v')" and "r \<noteq> FR_OK"
  shows "fp' = fp \<and> v' = v \<or> err fp' = r"
proof (cases op)
  case (Op_read btr)
  then show ?thesis using assms read_loop_abort by (fastforce simp: f_read_def Let_def split: if_splits)
next
  case (Op_write b btw)
  then show ?thesis using assms write_loop_abort by (fastforce simp: f_write_def Let_def split: if_splits)
next
  case (Op_lseek ofs)
  then show ?thesis using assms f_lseek_abort [of io ofs fp v r fp' v'] by simp
next
  case Op_truncate
  then show ?thesis using assms f_truncate_abort [of io fp v r fp' v'] by simp
qed

lemma file_call_refused:
  assumes "err fp \<noteq> FR_OK" and "validate io fp v = Ret FR_OK"
  shows "file_call io op fp v = Ret (err fp, fp, v)"
  using assms by (cases op) (simp_all add: f_read_def f_write_def f_lseek_def f_truncate_def)

text \<open>C4: an error is never lost. On any drive, a call on a file (\<open>f_read\<close>, \<open>f_write\<close>, \<open>f_lseek\<close>,
  \<open>f_truncate\<close>) that returns an error either was refused before it did anything, or has left the error
  in the file object; then every later call on a volume that is still mounted returns that error again
  and touches neither the file nor the volume.\<close>

theorem file_errors_stick:
  assumes "file_call io op fp v = Ret (r, fp', v')" and "r \<noteq> FR_OK"
  shows "(fp' = fp \<and> v' = v) \<or> (err fp' = r \<and>
    (\<forall>io' op' v''. validate io' fp' v'' = Ret FR_OK \<longrightarrow> file_call io' op' fp' v'' = Ret (r, fp', v'')))"
  using file_call_abort [OF assms] file_call_refused [of fp'] assms(2) by metis

text \<open>A drive on which every transfer fails.\<close>

definition dead_io :: "fs_host disk_system diskio" where
  "dead_io = \<lparr>dio_read = (\<lambda>_ _ _ d. Ret (RES_ERROR, [], d)), dio_write = (\<lambda>_ _ _ _ d. Ret (RES_ERROR, d)),
     dio_sync = (\<lambda>_ d. Ret (RES_ERROR, d)), dio_status = (\<lambda>_ _. Ret 0)\<rparr>"

theorem file_errors_stick_witness:
  "\<exists>fp' v'. file_call dead_io (Op_write [7, 8, 9] 3) example_file example_fat = Ret (FR_DISK_ERR, fp', v')
    \<and> file_call dead_io (Op_read 1) fp' v' = Ret (FR_DISK_ERR, fp', v')"
proof -
  have n: "unat (n_fatent example_fat) = Suc 11" "n_fatent example_fat = 12" "fs_type example_fat = FS_FAT12" "wflag example_fat = 0" "winsect example_fat = 0"
    "fatbase example_fat = 1" "last_clst example_fat = 0xFFFFFFFF" "free_clst example_fat = 0xFFFFFFFF" "csize example_fat = 1" "volume_id example_fat = 1"
    by (simp_all add: example_fat_def)
  have i: "fptr example_file = 0" "sclust example_file = 0" "obj_fs example_file = 1" "obj_id example_file = 1" "err example_file = FR_OK"
    by (simp_all add: example_file_def)
  let ?v = "example_fat\<lparr>winsect := - 1\<rparr>"
  have "move_window dead_io 1 example_fat = Ret (FR_DISK_ERR, ?v)"
    using n by (simp add: move_window_def sync_window_def dead_io_def fill_buffer_def)
  then have get: "get_fat dead_io 2 example_fat = Ret (0xFFFFFFFF, ?v)" using n by (simp add: get_fat_def Let_def)
  have "find_cluster (Suc 11) dead_io 1 1 example_fat = Ret (Inl 0xFFFFFFFF, ?v)"
    unfolding find_cluster.simps using get n(2) by (simp add: Let_def)
  then have "pick_cluster dead_io 0 1 example_fat = Ret (Inl 0xFFFFFFFF, ?v)" using n(2) by (simp add: pick_cluster_def)
  then have "create_chain dead_io 0 example_fat = Ret (0xFFFFFFFF, ?v)" using n by (simp add: create_chain_def chain_start_def Let_def)
  then have w: "write_round dead_io 3 [7, 8, 9] example_file example_fat = Ret (FR_DISK_ERR, False, 0, example_file, ?v)"
    using n i by (simp add: write_round_def write_cluster_def csect_of_def Let_def)
  have val: "validate dead_io (example_file\<lparr>err := e\<rparr>) (example_fat\<lparr>winsect := s\<rparr>) = Ret FR_OK" for e s
    using n i by (simp add: validate_def dead_io_def FS_FAT12_def)
  have "validate dead_io example_file example_fat = Ret FR_OK" using n i by (simp add: validate_def dead_io_def FS_FAT12_def)
  moreover have "unat (3 :: u32) = Suc 2" by simp
  ultimately have c: "file_call dead_io (Op_write [7, 8, 9] 3) example_file example_fat = Ret (FR_DISK_ERR, example_file\<lparr>err := FR_DISK_ERR\<rparr>, ?v)"
    using w i example_file_ok(3) by (simp add: f_write_def Let_def)
  have "example_file\<lparr>err := FR_DISK_ERR\<rparr> \<noteq> example_file"
  proof
    assume "example_file\<lparr>err := FR_DISK_ERR\<rparr> = example_file"
    then have "err (example_file\<lparr>err := FR_DISK_ERR\<rparr>) = err example_file" by (rule arg_cong)
    then show False using i(5) by simp
  qed
  then have "file_call dead_io (Op_read 1) (example_file\<lparr>err := FR_DISK_ERR\<rparr>) ?v = Ret (FR_DISK_ERR, example_file\<lparr>err := FR_DISK_ERR\<rparr>, ?v)"
    using file_errors_stick [OF c] val [of FR_DISK_ERR "- 1"] by blast
  then show ?thesis using c by blast
qed

section \<open>Sequences of calls\<close>

text \<open>One call of a program that keeps its seeks inside the file and does not truncate.\<close>

inductive file_step :: "'d diskio \<Rightarrow> FIL \<times> 'd volume \<Rightarrow> FIL \<times> 'd volume \<Rightarrow> bool" for io where
  step_read: "f_read io btr fp v = Ret (r, b, fp', v') \<Longrightarrow> file_step io (fp, v) (fp', v')"
| step_write: "unat btw \<le> length b \<Longrightarrow> f_write io b btw fp v = Ret (r, n, fp', v') \<Longrightarrow> file_step io (fp, v) (fp', v')"
| step_seek: "ofs \<le> objsize fp \<Longrightarrow> f_lseek io ofs fp v = Ret (r, fp', v') \<Longrightarrow> file_step io (fp, v) (fp', v')"

inductive_cases file_stepE: "file_step io (fp, v) (fp', v')"

text \<open>The well-formed states of an open file.\<close>

definition file_typed :: "u8 \<Rightarrow> nat \<Rightarrow> FIL \<times> 'h disk_system volume \<Rightarrow> bool" where
  "file_typed drv n s \<longleftrightarrow> (\<exists>xs. ram_file drv n (snd s) (fst s) xs) \<and> ram_alloc drv n (snd s) \<and> open_file (snd s) (fst s)"

lemma open_file_kept: "open_file v fp \<Longrightarrow> realloc v v' \<Longrightarrow> fil_written fp (fp'\<lparr>fptr := a, objsize := c\<rparr>) \<Longrightarrow> open_file v' fp'"
  using realloc_fields(12) [of v v'] by (simp add: open_file_def fil_written_def)

lemma typed_read:
  assumes "file_typed drv n (fp, v)"
  shows "\<exists>r b fp' v'. f_read (registry_io E) btr fp v = Ret (r, b, fp', v') \<and> file_typed drv n (fp', v')"
proof -
  obtain xs where t: "ram_file drv n v fp xs" "ram_alloc drv n v" "open_file v fp" using assms by (auto simp: file_typed_def)
  have o: "obj_fs fp \<noteq> 0" "obj_id fp = volume_id v" "err fp = FR_OK" using t(3) by (simp_all add: open_file_def)
  have val: "validate (registry_io E) fp v = Ret FR_OK" using ramio.validate_ok [OF ramio.fok_facts(1) [OF t(1)] o(1,2)] .
  show ?thesis
  proof (cases "flag fp AND FA_READ = 0")
    case True
    then show ?thesis using val o(3) assms by (simp add: f_read_def)
  next
    case False
    from ramio.f_read_ok [OF t(1) o False, of E btr] obtain fp' v' q b where
      r: "f_read (registry_io E) btr fp v = Ret (FR_OK, b, fp'\<lparr>fptr := q\<rparr>, v')" "ram_file drv n v' (fp'\<lparr>fptr := q\<rparr>) xs" "fil_kept fp fp'"
        "moved v v'" "ram_fat drv n v' = ram_fat drv n v" by blast
    have "open_file v' (fp'\<lparr>fptr := q\<rparr>)" using t(3) fil_kept_fields [OF r(3)] moved_fields(15) [OF r(4)] by (simp add: open_file_def)
    then show ?thesis using r(1,2) ramio.aok_moved(1) [OF t(2) r(4,5)] by (auto simp: file_typed_def)
  qed
qed

lemma typed_write:
  assumes "file_typed drv n (fp, v)" and "unat btw \<le> length b"
  shows "\<exists>r k fp' v'. f_write (registry_io E) b btw fp v = Ret (r, k, fp', v') \<and> file_typed drv n (fp', v')"
proof -
  obtain xs where t: "ram_file drv n v fp xs" "ram_alloc drv n v" "open_file v fp" using assms(1) by (auto simp: file_typed_def)
  have o: "obj_fs fp \<noteq> 0" "obj_id fp = volume_id v" "err fp = FR_OK" using t(3) by (simp_all add: open_file_def)
  have val: "validate (registry_io E) fp v = Ret FR_OK" using ramio.validate_ok [OF ramio.fok_facts(1) [OF t(1)] o(1,2)] .
  show ?thesis
  proof (cases "flag fp AND FA_WRITE = 0")
    case True
    then show ?thesis using val o(3) assms(1) by (simp add: f_write_def)
  next
    case False
    from ramio.f_write_ok [OF t(1,2) o False assms(2), of E] obtain k fp' v' xs' where
      r: "f_write (registry_io E) b btw fp v = Ret (FR_OK, of_nat k, fp'\<lparr>flag := flag fp' OR FA_MODIFIED\<rparr>, v')" "ramio.write_run drv n b k v fp xs fp' v' xs'" by blast
    then have w: "ram_file drv n v' fp' xs'" "ram_alloc drv n v'" "realloc v v'" "fil_written fp (fp'\<lparr>fptr := fptr fp, objsize := objsize fp\<rparr>)"
      by (simp_all add: ramio.write_run_def)
    have "open_file v' (fp'\<lparr>flag := flag fp' OR FA_MODIFIED\<rparr>)" using open_file_kept [OF t(3) w(3,4)] by (simp add: open_file_def)
    then show ?thesis using r(1) ramio.fok_modified [OF w(1)] w(2) by (auto simp: file_typed_def)
  qed
qed

lemma typed_seek:
  assumes "file_typed drv n (fp, v)" and "ofs \<le> objsize fp"
  shows "\<exists>r fp' v'. f_lseek (registry_io E) ofs fp v = Ret (r, fp', v') \<and> file_typed drv n (fp', v')"
proof -
  obtain xs where t: "ram_file drv n v fp xs" "ram_alloc drv n v" "open_file v fp" using assms(1) by (auto simp: file_typed_def)
  have o: "obj_fs fp \<noteq> 0" "obj_id fp = volume_id v" "err fp = FR_OK" using t(3) by (simp_all add: open_file_def)
  have le: "unat ofs \<le> unat (objsize fp)" using assms(2) by (simp add: word_le_nat_alt)
  from ramio.f_lseek_ok [OF t(1) o le, of E] obtain fp' v' where
    r: "f_lseek (registry_io E) ofs fp v = Ret (FR_OK, fp'\<lparr>fptr := ofs\<rparr>, v')" "ram_file drv n v' (fp'\<lparr>fptr := ofs\<rparr>) xs" "fil_kept fp fp'"
      "realloc v v'" "ram_alloc drv n v'" using t(2) by blast
  have "open_file v' (fp'\<lparr>fptr := ofs\<rparr>)" using t(3) fil_kept_fields [OF r(3)] realloc_fields(12) [OF r(4)] by (simp add: open_file_def)
  then show ?thesis using r(1,2,5) by (auto simp: file_typed_def)
qed

lemma typed_step:
  assumes "file_step (registry_io E) s s'" and "file_typed drv n s"
  shows "file_typed drv n s'"
  using assms
proof (cases rule: file_step.cases)
  case (step_read btr fp v r b fp' v')
  then show ?thesis using typed_read [of drv n fp v E btr] assms(2) by auto
next
  case (step_write btw b fp v r k fp' v')
  then show ?thesis using typed_write [of drv n fp v btw b E] assms(2) by auto
next
  case (step_seek ofs fp v r fp' v')
  then show ?thesis using typed_seek [of drv n fp v ofs E] assms(2) by auto
qed

text \<open>C6: an open file never leaves its well-formed states. From a well-formed file on a well-formed
  volume, every state that reads, writes and seeks inside the file lead to, in any order and number, is
  well formed again, and from it every such call returns: none runs into undefined behaviour, an
  exception or an endless loop.\<close>

theorem file_calls_typed:
  assumes "file_typed drv n s" and "(file_step (registry_io E))\<^sup>*\<^sup>* s s'" and "s' = (fp', v')"
  shows "file_typed drv n s' \<and> (\<exists>res. f_read (registry_io E) btr fp' v' = Ret res)
    \<and> (unat btw \<le> length b \<longrightarrow> (\<exists>res. f_write (registry_io E) b btw fp' v' = Ret res))
    \<and> (ofs \<le> objsize fp' \<longrightarrow> (\<exists>res. f_lseek (registry_io E) ofs fp' v' = Ret res))"
proof -
  have t: "file_typed drv n s'" using assms(2,1) by (induction rule: rtranclp_induct) (auto intro: typed_step)
  then show ?thesis
    using typed_read [of drv n fp' v' E btr] typed_write [of drv n fp' v' btw b E] typed_seek [of drv n fp' v' ofs E] assms(3) by auto
qed

theorem file_calls_typed_witness:
  "\<exists>fp' v'. (file_step (registry_io example_env))\<^sup>*\<^sup>* (example_file, example_fat) (fp', v') \<and> objsize fp' = 3
    \<and> (\<exists>res. f_lseek (registry_io example_env) 2 fp' v' = Ret res)"
proof -
  note x = example_file_ok
  have o: "obj_fs example_file \<noteq> 0" "obj_id example_file = volume_id example_fat" "err example_file = FR_OK"
    using x(2) by (simp_all add: open_file_def)
  have room: "ramio.room 0 100 example_fat example_file [] = 5120" using x(6,8,9) by (simp add: ramio.room_def)
  have len: "unat (3 :: u32) \<le> length [7, 8, 9 :: u8]" by simp
  from ramio.f_write_ok [OF x(1,5) o x(3) len, of example_env] obtain fp v xs where
    w: "f_write (registry_io example_env) [7, 8, 9] 3 example_file example_fat = Ret (FR_OK, 3, fp\<lparr>flag := flag fp OR FA_MODIFIED\<rparr>, v)"
      "ramio.write_run 0 100 [7, 8, 9] 3 example_fat example_file [] fp v xs" using room x(6) by auto
  let ?s = "(fp\<lparr>flag := flag fp OR FA_MODIFIED\<rparr>, v)"
  have "file_typed 0 100 (example_file, example_fat)" using x(1,2,5) by (auto simp: file_typed_def)
  moreover have st: "(file_step (registry_io example_env))\<^sup>*\<^sup>* (example_file, example_fat) ?s"
    using step_write [OF len w(1)] by blast
  ultimately have "\<exists>res. f_lseek (registry_io example_env) 2 (fst ?s) (snd ?s) = Ret res" if "2 \<le> objsize (fst ?s)"
    using file_calls_typed [of 0 100 "(example_file, example_fat)" example_env ?s "fst ?s" "snd ?s" 0 0 "[]" 2] that by simp
  moreover have "objsize fp = 3"
  proof -
    have "unat (objsize fp) = 3" using w(2) x(6,7) by (simp add: ramio.write_run_def)
    then show ?thesis by (simp add: word_unat_eq_iff)
  qed
  ultimately have "objsize (fst ?s) = 3" "\<exists>res. f_lseek (registry_io example_env) 2 (fst ?s) (snd ?s) = Ret res" by simp_all
  then show ?thesis using st unfolding fst_conv snd_conv by blast
qed

end
