(* ===== verification/Fat_Unicode.thy ===== *)
theory Fat_Unicode
  imports Conclave_Prelude
begin

text \<open>
  Characters of file names (\<open>cpp/fatfs/common/src/ff.cpp\<close> and \<open>ffunicode.cpp\<close>, with the settings of
  \<open>ffconf.hpp\<close>: long names, UTF-8 at the interface, code page 437). A character inside of FatFs is one
  UTF-16 unit, or a surrogate pair in one 32-bit word, high unit first. The theory has the
  conversions from and to UTF-8, the conversions from and to the code page of short names, and
  up-casing. Strings are lists that hold the terminating 0; reading on behind the end of such a list
  is undefined.
\<close>

unbundle bit_operations_syntax

section \<open>Characters\<close>

definition IsUpper :: "'a::len word \<Rightarrow> bool" where "IsUpper c \<longleftrightarrow> 0x41 \<le> c \<and> c \<le> 0x5A"
definition IsLower :: "'a::len word \<Rightarrow> bool" where "IsLower c \<longleftrightarrow> 0x61 \<le> c \<and> c \<le> 0x7A"
definition IsSeparator :: "'a::len word \<Rightarrow> bool" where "IsSeparator c \<longleftrightarrow> c = 0x2F \<or> c = 0x5C"
definition IsSurrogate :: "'a::len word \<Rightarrow> bool" where "IsSurrogate c \<longleftrightarrow> 0xD800 \<le> c \<and> c \<le> 0xDFFF"
definition IsSurrogateH :: "'a::len word \<Rightarrow> bool" where "IsSurrogateH c \<longleftrightarrow> 0xD800 \<le> c \<and> c \<le> 0xDBFF"
definition IsSurrogateL :: "'a::len word \<Rightarrow> bool" where "IsSurrogateL c \<longleftrightarrow> 0xDC00 \<le> c \<and> c \<le> 0xDFFF"

text \<open>A terminator ends a path: \<open>TCHAR\<close> is a signed character, so a byte from 0x80 on is none.\<close>

definition IsTerminator :: "u8 \<Rightarrow> bool" where "IsTerminator c \<longleftrightarrow> (scast c :: u32) < 0x20"

section \<open>UTF-8\<close>

definition utf_error :: u32 where "utf_error = 0xFFFFFFFF"

text \<open>The trailing bytes of a sequence; a byte that is none ends the loop, with nothing.\<close>

fun trailing_bytes :: "nat \<Rightarrow> u32 \<Rightarrow> bytes \<Rightarrow> (u32 \<times> bytes) option cpp" where
  "trailing_bytes 0 uc p = Ret (Some (uc, p))"
| "trailing_bytes (Suc nf) uc [] = Undef"
| "trailing_bytes (Suc nf) uc (b # p) =
     (if b AND 0xC0 \<noteq> 0x80 then Ret None
      else trailing_bytes nf (push_bit 6 uc OR ucast (b AND 0x3F)) p)"

text \<open>The character and the rest of the string; the string is left alone when it is not well formed.\<close>

definition tchar2uni :: "bytes \<Rightarrow> (u32 \<times> bytes) cpp" where
  "tchar2uni str =
     (case str of [] \<Rightarrow> Undef | b # p \<Rightarrow>
        let uc = ucast b :: u32 in
        if uc AND 0x80 \<noteq> 0 then
          let start = (if uc AND 0xE0 = 0xC0 then Some (uc AND 0x1F, 1)
                       else if uc AND 0xF0 = 0xE0 then Some (uc AND 0x0F, 2)
                       else if uc AND 0xF8 = 0xF0 then Some (uc AND 0x07, 3)
                       else None) in
          (case start of None \<Rightarrow> Ret (utf_error, str)
           | Some (uc1, nf) \<Rightarrow> cbind (trailing_bytes nf uc1 p) (\<lambda>t.
               case t of None \<Rightarrow> Ret (utf_error, str)
               | Some (uc2, q) \<Rightarrow>
                   if uc2 < 0x80 \<or> IsSurrogate uc2 \<or> 0x110000 \<le> uc2 then Ret (utf_error, str)
                   else if 0x10000 \<le> uc2
                   then Ret (0xD800DC00 OR (push_bit 6 (uc2 - 0x10000) AND 0x3FF0000) OR (uc2 AND 0x3FF), q)
                   else Ret (uc2, q)))
        else Ret (uc, p))"

text \<open>The units written, none of them when the buffer is too small or the character wrong.\<close>

definition put_utf :: "u32 \<Rightarrow> u32 \<Rightarrow> bytes" where
  "put_utf chr szb =
     (if chr < 0x80 then
        if szb < 1 then [] else [ucast chr]
      else if chr < 0x800 then
        if szb < 2 then []
        else [ucast (0xC0 OR (drop_bit 6 chr AND 0x1F)), ucast (0x80 OR (chr AND 0x3F))]
      else if chr < 0x10000 then
        if szb < 3 \<or> IsSurrogate chr then []
        else [ucast (0xE0 OR (drop_bit 12 chr AND 0x0F)), ucast (0x80 OR (drop_bit 6 chr AND 0x3F)),
              ucast (0x80 OR (chr AND 0x3F))]
      else if szb < 4 then []
      else
        let hc = drop_bit 6 ((chr AND 0xFFFF0000) - 0xD8000000);
            lo = (chr AND 0xFFFF) - 0xDC00 in
        if 0x100000 \<le> hc \<or> 0x400 \<le> lo then []
        else
          let c = (hc OR lo) + 0x10000 in
          [ucast (0xF0 OR (drop_bit 18 c AND 0x07)), ucast (0x80 OR (drop_bit 12 c AND 0x3F)),
           ucast (0x80 OR (drop_bit 6 c AND 0x3F)), ucast (0x80 OR (c AND 0x3F))])"

section \<open>Code page 437\<close>

definition uc437 :: "u16 list" where
  "uc437 =
   [0xC7, 0xFC, 0xE9, 0xE2, 0xE4, 0xE0, 0xE5, 0xE7, 0xEA, 0xEB, 0xE8, 0xEF, 0xEE, 0xEC, 0xC4, 0xC5,
    0xC9, 0xE6, 0xC6, 0xF4, 0xF6, 0xF2, 0xFB, 0xF9, 0xFF, 0xD6, 0xDC, 0xA2, 0xA3, 0xA5, 0x20A7, 0x192,
    0xE1, 0xED, 0xF3, 0xFA, 0xF1, 0xD1, 0xAA, 0xBA, 0xBF, 0x2310, 0xAC, 0xBD, 0xBC, 0xA1, 0xAB, 0xBB,
    0x2591, 0x2592, 0x2593, 0x2502, 0x2524, 0x2561, 0x2562, 0x2556, 0x2555, 0x2563, 0x2551, 0x2557, 0x255D, 0x255C, 0x255B, 0x2510,
    0x2514, 0x2534, 0x252C, 0x251C, 0x2500, 0x253C, 0x255E, 0x255F, 0x255A, 0x2554, 0x2569, 0x2566, 0x2560, 0x2550, 0x256C, 0x2567,
    0x2568, 0x2564, 0x2565, 0x2559, 0x2558, 0x2552, 0x2553, 0x256B, 0x256A, 0x2518, 0x250C, 0x2588, 0x2584, 0x258C, 0x2590, 0x2580,
    0x3B1, 0xDF, 0x393, 0x3C0, 0x3A3, 0x3C3, 0xB5, 0x3C4, 0x3A6, 0x398, 0x3A9, 0x3B4, 0x221E, 0x3C6, 0x3B5, 0x2229,
    0x2261, 0xB1, 0x2265, 0x2264, 0x2320, 0x2321, 0xF7, 0x2248, 0xB0, 0x2219, 0xB7, 0x221A, 0x207F, 0xB2, 0x25A0, 0xA0]"

definition FF_CODE_PAGE :: u16 where "FF_CODE_PAGE = 437"

text \<open>The search of the code page, from its position \<open>c\<close> on.\<close>

fun oem_search :: "u32 \<Rightarrow> u16 list \<Rightarrow> u16 \<Rightarrow> u16" where
  "oem_search uni [] c = c"
| "oem_search uni (p # ps) c = (if uni \<noteq> ucast p then oem_search uni ps (c + 1) else c)"

definition ff_uni2oem :: "u32 \<Rightarrow> u16 \<Rightarrow> u16" where
  "ff_uni2oem uni cp =
     (if uni < 0x80 then ucast uni
      else if uni < 0x10000 \<and> cp = FF_CODE_PAGE then (oem_search uni uc437 0 + 0x80) AND 0xFF
      else 0)"

definition ff_oem2uni :: "u16 \<Rightarrow> u16 \<Rightarrow> u16" where
  "ff_oem2uni oem cp =
     (if oem < 0x80 then oem
      else if cp = FF_CODE_PAGE \<and> oem < 0x100 then uc437 ! unat (oem - 0x80)
      else 0)"

text \<open>Up-casing in the code page (\<open>TBL_CT437\<close>).\<close>

definition ExCvt :: bytes where
  "ExCvt =
   [0x80, 0x9A, 0x45, 0x41, 0x8E, 0x41, 0x8F, 0x80, 0x45, 0x45, 0x45, 0x49, 0x49, 0x49, 0x8E, 0x8F,
    0x90, 0x92, 0x92, 0x4F, 0x99, 0x4F, 0x55, 0x55, 0x59, 0x99, 0x9A, 0x9B, 0x9C, 0x9D, 0x9E, 0x9F,
    0x41, 0x49, 0x4F, 0x55, 0xA5, 0xA5, 0xA6, 0xA7, 0xA8, 0xA9, 0xAA, 0xAB, 0xAC, 0xAD, 0xAE, 0xAF,
    0xB0, 0xB1, 0xB2, 0xB3, 0xB4, 0xB5, 0xB6, 0xB7, 0xB8, 0xB9, 0xBA, 0xBB, 0xBC, 0xBD, 0xBE, 0xBF,
    0xC0, 0xC1, 0xC2, 0xC3, 0xC4, 0xC5, 0xC6, 0xC7, 0xC8, 0xC9, 0xCA, 0xCB, 0xCC, 0xCD, 0xCE, 0xCF,
    0xD0, 0xD1, 0xD2, 0xD3, 0xD4, 0xD5, 0xD6, 0xD7, 0xD8, 0xD9, 0xDA, 0xDB, 0xDC, 0xDD, 0xDE, 0xDF,
    0xE0, 0xE1, 0xE2, 0xE3, 0xE4, 0xE5, 0xE6, 0xE7, 0xE8, 0xE9, 0xEA, 0xEB, 0xEC, 0xED, 0xEE, 0xEF,
    0xF0, 0xF1, 0xF2, 0xF3, 0xF4, 0xF5, 0xF6, 0xF7, 0xF8, 0xF9, 0xFA, 0xFB, 0xFC, 0xFD, 0xFE, 0xFF]"

section \<open>Up-casing\<close>

text \<open>
  The compressed tables: blocks of a base, a size with a command, and for the command 0 the
  characters themselves; a base of 0 ends a table.
\<close>

definition cvt1 :: "u16 list" where
  "cvt1 =
   [0x61, 0x31A, 0xE0, 0x317, 0xF8, 0x307, 0xFF, 0x1, 0x178, 0x100, 0x130, 0x132, 0x106, 0x139, 0x110, 0x14A,
    0x12E, 0x179, 0x106, 0x180, 0x4D, 0x243, 0x181, 0x182, 0x182, 0x184, 0x184, 0x186, 0x187, 0x187, 0x189, 0x18A,
    0x18B, 0x18B, 0x18D, 0x18E, 0x18F, 0x190, 0x191, 0x191, 0x193, 0x194, 0x1F6, 0x196, 0x197, 0x198, 0x198, 0x23D,
    0x19B, 0x19C, 0x19D, 0x220, 0x19F, 0x1A0, 0x1A0, 0x1A2, 0x1A2, 0x1A4, 0x1A4, 0x1A6, 0x1A7, 0x1A7, 0x1A9, 0x1AA,
    0x1AB, 0x1AC, 0x1AC, 0x1AE, 0x1AF, 0x1AF, 0x1B1, 0x1B2, 0x1B3, 0x1B3, 0x1B5, 0x1B5, 0x1B7, 0x1B8, 0x1B8, 0x1BA,
    0x1BB, 0x1BC, 0x1BC, 0x1BE, 0x1F7, 0x1C0, 0x1C1, 0x1C2, 0x1C3, 0x1C4, 0x1C5, 0x1C4, 0x1C7, 0x1C8, 0x1C7, 0x1CA,
    0x1CB, 0x1CA, 0x1CD, 0x110, 0x1DD, 0x1, 0x18E, 0x1DE, 0x112, 0x1F3, 0x3, 0x1F1, 0x1F4, 0x1F4, 0x1F8, 0x128,
    0x222, 0x112, 0x23A, 0x9, 0x2C65, 0x23B, 0x23B, 0x23D, 0x2C66, 0x23F, 0x240, 0x241, 0x241, 0x246, 0x10A, 0x253,
    0x40, 0x181, 0x186, 0x255, 0x189, 0x18A, 0x258, 0x18F, 0x25A, 0x190, 0x25C, 0x25D, 0x25E, 0x25F, 0x193, 0x261,
    0x262, 0x194, 0x264, 0x265, 0x266, 0x267, 0x197, 0x196, 0x26A, 0x2C62, 0x26C, 0x26D, 0x26E, 0x19C, 0x270, 0x271,
    0x19D, 0x273, 0x274, 0x19F, 0x276, 0x277, 0x278, 0x279, 0x27A, 0x27B, 0x27C, 0x2C64, 0x27E, 0x27F, 0x1A6, 0x281,
    0x282, 0x1A9, 0x284, 0x285, 0x286, 0x287, 0x1AE, 0x244, 0x1B1, 0x1B2, 0x245, 0x28D, 0x28E, 0x28F, 0x290, 0x291,
    0x1B7, 0x37B, 0x3, 0x3FD, 0x3FE, 0x3FF, 0x3AC, 0x4, 0x386, 0x388, 0x389, 0x38A, 0x3B1, 0x311, 0x3C2, 0x2,
    0x3A3, 0x3A3, 0x3C4, 0x308, 0x3CC, 0x3, 0x38C, 0x38E, 0x38F, 0x3D8, 0x118, 0x3F2, 0xA, 0x3F9, 0x3F3, 0x3F4,
    0x3F5, 0x3F6, 0x3F7, 0x3F7, 0x3F9, 0x3FA, 0x3FA, 0x430, 0x320, 0x450, 0x710, 0x460, 0x122, 0x48A, 0x136, 0x4C1,
    0x10E, 0x4CF, 0x1, 0x4C0, 0x4D0, 0x144, 0x561, 0x426, 0x0]"

definition cvt2 :: "u16 list" where
  "cvt2 =
   [0x1D7D, 0x1, 0x2C63, 0x1E00, 0x196, 0x1EA0, 0x15A, 0x1F00, 0x608, 0x1F10, 0x606, 0x1F20, 0x608, 0x1F30, 0x608, 0x1F40,
    0x606, 0x1F51, 0x7, 0x1F59, 0x1F52, 0x1F5B, 0x1F54, 0x1F5D, 0x1F56, 0x1F5F, 0x1F60, 0x608, 0x1F70, 0xE, 0x1FBA, 0x1FBB,
    0x1FC8, 0x1FC9, 0x1FCA, 0x1FCB, 0x1FDA, 0x1FDB, 0x1FF8, 0x1FF9, 0x1FEA, 0x1FEB, 0x1FFA, 0x1FFB, 0x1F80, 0x608, 0x1F90, 0x608,
    0x1FA0, 0x608, 0x1FB0, 0x4, 0x1FB8, 0x1FB9, 0x1FB2, 0x1FBC, 0x1FCC, 0x1, 0x1FC3, 0x1FD0, 0x602, 0x1FE0, 0x602, 0x1FE5,
    0x1, 0x1FEC, 0x1FF3, 0x1, 0x1FFC, 0x214E, 0x1, 0x2132, 0x2170, 0x210, 0x2184, 0x1, 0x2183, 0x24D0, 0x51A, 0x2C30,
    0x42F, 0x2C60, 0x102, 0x2C67, 0x106, 0x2C75, 0x102, 0x2C80, 0x164, 0x2D00, 0x826, 0xFF41, 0x31A, 0x0]"

text \<open>What a block's command makes of a character; other commands leave it alone.\<close>

definition up_command :: "u16 \<Rightarrow> u16 \<Rightarrow> u16 \<Rightarrow> u16" where
  "up_command cmd bc uc =
     (if cmd = 1 then uc - ((uc - bc) AND 1)
      else if cmd = 2 then uc - 16
      else if cmd = 3 then uc - 32
      else if cmd = 4 then uc - 48
      else if cmd = 5 then uc - 26
      else if cmd = 6 then uc + 8
      else if cmd = 7 then uc - 80
      else if cmd = 8 then uc - 0x1C60
      else uc)"

text \<open>The loop over the blocks. The comparison with the end of a block is one of ints.\<close>

function up_scan :: "u16 list \<Rightarrow> u16 \<Rightarrow> u16 cpp" where
  "up_scan p uc =
     (case p of [] \<Rightarrow> Undef | bc # p1 \<Rightarrow>
        if bc = 0 \<or> uc < bc then Ret uc
        else (case p1 of [] \<Rightarrow> Undef | w # p2 \<Rightarrow>
          let cmd = drop_bit 8 w; nc = w AND 0xFF in
          if unat uc < unat bc + unat nc then
            if cmd = 0 then (if unat (uc - bc) < length p2 then Ret (p2 ! unat (uc - bc)) else Undef)
            else Ret (up_command cmd bc uc)
          else up_scan (if cmd = 0 then drop (unat nc) p2 else p2) uc))"
  by pat_completeness auto
termination by (relation "measure (\<lambda>(p, uc). length p)") auto

declare up_scan.simps [simp del]

definition ff_wtoupper :: "u32 \<Rightarrow> u32 cpp" where
  "ff_wtoupper uni =
     (if uni < 0x10000 then
        let uc = ucast uni :: u16 in
        cbind (up_scan (if uc < 0x1000 then cvt1 else cvt2) uc) (\<lambda>uc'. Ret (ucast uc'))
      else Ret uni)"


section \<open>Code page 437 as a bijection\<close>

lemma widen_u16_inject [simp]: "(ucast a :: u32) = ucast b \<longleftrightarrow> a = b" for a b :: u16
  by (simp add: word_unat_eq_iff unat_ucast_widen)

lemma oem_search_nth:
  "distinct ps \<Longrightarrow> i < length ps \<Longrightarrow> oem_search (ucast (ps ! i)) ps c = c + of_nat i"
proof (induction ps arbitrary: i c)
  case (Cons p ps)
  show ?case
  proof (cases i)
    case (Suc j)
    then have "ps ! j \<noteq> p" using Cons.prems by (auto simp: in_set_conv_nth)
    then have "(ucast (ps ! j) :: u32) \<noteq> ucast p" by simp
    then show ?thesis using Suc Cons by (simp add: algebra_simps)
  qed simp
qed simp

lemma uc437_facts: "length uc437 = 128" "distinct uc437" "list_all (\<lambda>c. 0x80 \<le> c) uc437"
  by code_simp+


lemma ff_oem_roundtrip:
  assumes "unat oem < 256"
  shows "ff_uni2oem (ucast (ff_oem2uni oem FF_CODE_PAGE)) FF_CODE_PAGE = oem"
proof (cases "oem < 0x80")
  case True
  then show ?thesis by (simp add: ff_uni2oem_def ff_oem2uni_def word_less_nat_alt unat_ucast_widen ucast_down_ucast_id is_down)
next
  case False
  define i where "i = unat (oem - 0x80)"
  have i: "i < 128" "oem = of_nat i + 0x80" "oem < 0x100"
    using assms False by (auto simp: i_def word_less_nat_alt unat_sub_if' word_unat_eq_iff)
  have m: "oem AND 0xFF = oem"
    using i(3) less_mask_eq [of oem 8] by (simp add: mask_eq_exp_minus_1)
  have p: "ff_oem2uni oem FF_CODE_PAGE = uc437 ! i" using i(3) False by (simp add: ff_oem2uni_def i_def)
  have "0x80 \<le> uc437 ! i" using uc437_facts i(1) by (simp add: list_all_length)
  then have "\<not> (ucast (uc437 ! i) :: u32) < 0x80" "(ucast (uc437 ! i) :: u32) < 0x10000"
    using unsigned_less [of "uc437 ! i"] by (simp_all add: word_less_nat_alt word_le_nat_alt unat_ucast_widen)
  then have "ff_uni2oem (ucast (uc437 ! i)) FF_CODE_PAGE = oem AND 0xFF"
    using oem_search_nth [OF uc437_facts(2), of i 0] i(1) uc437_facts(1) by (simp add: ff_uni2oem_def i(2))
  then show ?thesis by (simp add: p m)
qed

lemma ff_uni2oem_byte: "ff_uni2oem uni cp < 0x100"
proof -
  have "unat (x AND 0xFF) < 256" for x :: u16
  proof -
    have "x AND 0xFF = take_bit 8 x" by (simp add: take_bit_eq_mask mask_eq_exp_minus_1)
    then show ?thesis using take_bit_nat_less_exp [of 8 "unat x"] by (simp add: unsigned_take_bit_eq)
  qed
  moreover have "uni < 0x80 \<Longrightarrow> unat (ucast uni :: u16) < 256"
    by (simp add: word_less_nat_alt unsigned_ucast_eq take_bit_eq_mod)
  ultimately show ?thesis by (simp add: ff_uni2oem_def word_less_nat_alt)
qed

section \<open>Encoding and decoding\<close>

text \<open>A UTF-16 character as FatFs has it: a unit that is no surrogate, or a pair of them.\<close>

definition utf16_char :: "u32 \<Rightarrow> bool" where
  "utf16_char chr \<longleftrightarrow>
     (if chr < 0x10000 then \<not> IsSurrogate chr
      else IsSurrogateH (drop_bit 16 chr) \<and> IsSurrogateL (chr AND 0xFFFF))"


lemma utf_masks:
  "(0xC0 :: 'a::len word) = push_bit 6 (mask 2)" "(0xE0 :: 'a::len word) = push_bit 5 (mask 3)"
  "(0xF0 :: 'a::len word) = push_bit 4 (mask 4)" "(0xF8 :: 'a::len word) = push_bit 3 (mask 5)"
  "(0x1F :: 'a::len word) = mask 5" "(0x0F :: 'a::len word) = mask 4" "(0x07 :: 'a::len word) = mask 3" "(0x3F :: 'a::len word) = mask 6"
  by (simp_all add: mask_eq_exp_minus_1 push_bit_eq_mult)

lemma bit_0x80 [simp]: "bit (0x80 :: int) n \<longleftrightarrow> n = 7"
proof -
  have "(0x80 :: int) = 2 ^ 7" by simp
  then show ?thesis by (simp only: bit_simps) auto
qed

lemma lead2:
  defines "b y \<equiv> (ucast (ucast (0xC0 OR (y AND 0x1F) :: u32) :: u8) :: u32)"
  shows "b y AND 0x80 \<noteq> 0" "b y AND 0xE0 = 0xC0" "b y AND 0x1F = y AND 0x1F"
proof -
  have "bit (b y AND 0x80) 7" unfolding b_def utf_masks by (simp add: bit_simps)
  then show "b y AND 0x80 \<noteq> 0" by auto
  show "b y AND 0xE0 = 0xC0" unfolding b_def utf_masks by (rule bit_word_eqI) (auto simp: bit_simps)
  show "b y AND 0x1F = y AND 0x1F" unfolding b_def utf_masks by (rule bit_word_eqI) (auto simp: bit_simps)
qed

lemma lead3:
  defines "b y \<equiv> (ucast (ucast (0xE0 OR (y AND 0x0F) :: u32) :: u8) :: u32)"
  shows "b y AND 0x80 \<noteq> 0" "b y AND 0xE0 \<noteq> 0xC0" "b y AND 0xF0 = 0xE0" "b y AND 0x0F = y AND 0x0F"
proof -
  have "bit (b y AND 0x80) 7" unfolding b_def utf_masks by (simp add: bit_simps)
  then show "b y AND 0x80 \<noteq> 0" by auto
  have "bit (b y AND 0xE0) 5 \<noteq> bit (0xC0 :: u32) 5" unfolding b_def utf_masks by (simp add: bit_simps)
  then show "b y AND 0xE0 \<noteq> 0xC0" by auto
  show "b y AND 0xF0 = 0xE0" unfolding b_def utf_masks by (rule bit_word_eqI) (auto simp: bit_simps)
  show "b y AND 0x0F = y AND 0x0F" unfolding b_def utf_masks by (rule bit_word_eqI) (auto simp: bit_simps)
qed

lemma lead4:
  defines "b y \<equiv> (ucast (ucast (0xF0 OR (y AND 0x07) :: u32) :: u8) :: u32)"
  shows "b y AND 0x80 \<noteq> 0" "b y AND 0xE0 \<noteq> 0xC0" "b y AND 0xF0 \<noteq> 0xE0" "b y AND 0xF8 = 0xF0" "b y AND 0x07 = y AND 0x07"
proof -
  have "bit (b y AND 0x80) 7" unfolding b_def utf_masks by (simp add: bit_simps)
  then show "b y AND 0x80 \<noteq> 0" by auto
  have "bit (b y AND 0xE0) 5 \<noteq> bit (0xC0 :: u32) 5" unfolding b_def utf_masks by (simp add: bit_simps)
  then show "b y AND 0xE0 \<noteq> 0xC0" by auto
  have "bit (b y AND 0xF0) 4 \<noteq> bit (0xE0 :: u32) 4" unfolding b_def utf_masks by (simp add: bit_simps)
  then show "b y AND 0xF0 \<noteq> 0xE0" by auto
  show "b y AND 0xF8 = 0xF0" unfolding b_def utf_masks by (rule bit_word_eqI) (auto simp: bit_simps)
  show "b y AND 0x07 = y AND 0x07" unfolding b_def utf_masks by (rule bit_word_eqI) (auto simp: bit_simps)
qed

lemma trailing_byte:
  "(ucast (0x80 OR (y AND 0x3F) :: u32) :: u8) AND 0xC0 = 0x80"
  "(ucast ((ucast (0x80 OR (y AND 0x3F) :: u32) :: u8) AND 0x3F) :: u32) = y AND 0x3F"
proof -
  show "(ucast (0x80 OR (y AND 0x3F) :: u32) :: u8) AND 0xC0 = 0x80"
    unfolding utf_masks by (rule bit_word_eqI) (auto simp: bit_simps)
  show "(ucast ((ucast (0x80 OR (y AND 0x3F) :: u32) :: u8) AND 0x3F) :: u32) = y AND 0x3F"
    unfolding utf_masks by (rule bit_word_eqI) (auto simp: bit_simps)
qed

lemma small_bits:
  fixes y :: u32
  assumes "y < 2 ^ k" and "bit y n"
  shows "n < k"
  using assms by (metis bit_take_bit_iff less_mask_eq take_bit_eq_mask)

lemma join2:
  fixes y :: u32
  assumes "y < 2 ^ 11"
  shows "push_bit 6 (drop_bit 6 y AND 0x1F) OR (y AND 0x3F) = y"
  unfolding utf_masks
proof (rule bit_word_eqI)
  fix n assume "n < LENGTH(32)"
  consider "n < 6" | "6 \<le> n" "n < 11" | "11 \<le> n" by linarith
  then show "bit (push_bit 6 (drop_bit 6 y AND mask 5) OR y AND mask 6) n = bit y n"
    using small_bits [OF assms, of n] \<open>n < LENGTH(32)\<close> by cases (auto simp: bit_simps)
qed

lemma join3:
  fixes y :: u32
  assumes "y < 2 ^ 16"
  shows "push_bit 6 (push_bit 6 (drop_bit 12 y AND 0x0F) OR (drop_bit 6 y AND 0x3F)) OR (y AND 0x3F) = y"
  unfolding utf_masks
proof (rule bit_word_eqI)
  fix n assume "n < LENGTH(32)"
  consider "n < 6" | "6 \<le> n" "n < 12" | "12 \<le> n" "n < 16" | "16 \<le> n" by linarith
  then show "bit (push_bit 6 (push_bit 6 (drop_bit 12 y AND mask 4) OR drop_bit 6 y AND mask 6) OR y AND mask 6) n = bit y n"
    using small_bits [OF assms, of n] \<open>n < LENGTH(32)\<close> by cases (auto simp: bit_simps)
qed

lemma join4:
  fixes y :: u32
  assumes "y < 2 ^ 21"
  shows "push_bit 6 (push_bit 6 (push_bit 6 (drop_bit 18 y AND 0x07) OR (drop_bit 12 y AND 0x3F)) OR (drop_bit 6 y AND 0x3F)) OR (y AND 0x3F) = y"
  unfolding utf_masks
proof (rule bit_word_eqI)
  fix n assume "n < LENGTH(32)"
  consider "n < 6" | "6 \<le> n" "n < 12" | "12 \<le> n" "n < 18" | "18 \<le> n" "n < 21" | "21 \<le> n" by linarith
  then show "bit (push_bit 6 (push_bit 6 (push_bit 6 (drop_bit 18 y AND mask 3) OR drop_bit 12 y AND mask 6) OR drop_bit 6 y AND mask 6) OR y AND mask 6) n = bit y n"
    using small_bits [OF assms, of n] \<open>n < LENGTH(32)\<close> by cases (auto simp: bit_simps)
qed

text \<open>The two halves of a surrogate pair: ten bits each.\<close>

lemma pair_halves:
  fixes chr :: u32
  assumes "\<not> chr < 0x10000" and "utf16_char chr"
  obtains h l where "h < 2 ^ 10" and "l < 2 ^ 10" and "drop_bit 6 ((chr AND 0xFFFF0000) - 0xD8000000) = push_bit 10 h"
    and "(chr AND 0xFFFF) - 0xDC00 = l" and "chr = 0xD800DC00 OR push_bit 16 h OR l"
proof -
  define h l where "h = drop_bit 16 chr - 0xD800" and "l = (chr AND 0xFFFF) - 0xDC00"
  have "0xD800 \<le> drop_bit 16 chr" "drop_bit 16 chr \<le> 0xDBFF" "0xDC00 \<le> chr AND 0xFFFF" "chr AND 0xFFFF \<le> 0xDFFF"
    using assms(1,2) by (auto simp: utf16_char_def IsSurrogateH_def IsSurrogateL_def)
  then have h: "h < 2 ^ 10" "drop_bit 16 chr = h + 0xD800" and l: "l < 2 ^ 10" "chr AND 0xFFFF = l + 0xDC00"
    by (auto simp: h_def l_def word_less_nat_alt word_le_nat_alt unat_sub_if' split: if_splits)
  have m: "(0xFFFF0000 :: u32) = push_bit 16 (mask 16)" "(0xFFFF :: u32) = mask 16"
    by (simp_all add: mask_eq_exp_minus_1 push_bit_eq_mult)
  have top: "chr AND 0xFFFF0000 = push_bit 16 (drop_bit 16 chr)" and
    parts: "chr = push_bit 16 (drop_bit 16 chr) OR (chr AND 0xFFFF)"
    unfolding m by (rule bit_word_eqI; auto simp: bit_simps)+
  have "drop_bit 6 ((chr AND 0xFFFF0000) - 0xD8000000) = drop_bit 6 (push_bit 16 h)"
    unfolding top h(2) by (simp add: push_bit_add)
  also have "\<dots> = push_bit 10 h" by (rule bit_word_eqI) (auto simp: bit_simps dest: small_bits [OF h(1)])
  finally have a: "drop_bit 6 ((chr AND 0xFFFF0000) - 0xD8000000) = push_bit 10 h" .
  have n: "(0xD800 :: u32) = push_bit 14 (mask 2) OR push_bit 11 (mask 2)" "(0xDC00 :: u32) = push_bit 14 (mask 2) OR push_bit 10 (mask 3)"
    by (simp_all add: mask_eq_exp_minus_1 push_bit_eq_mult)
  have "h AND 0xD800 = 0" "l AND 0xDC00 = 0"
    unfolding n by (rule bit_word_eqI; auto simp: bit_simps dest: small_bits [OF h(1)] small_bits [OF l(1)])+
  then have "h + 0xD800 = h OR 0xD800" "l + 0xDC00 = l OR 0xDC00" by (simp_all add: disjunctive_add_eq_or)
  then have "chr = push_bit 16 (h OR 0xD800) OR (l OR 0xDC00)" using parts h(2) l(2) by simp
  also have "\<dots> = 0xD800DC00 OR push_bit 16 h OR l" by (simp add: ac_simps)
  finally show thesis by (rule that [OF h(1) l(1) a l_def [symmetric]])
qed


text \<open>What is put is read back, and nothing behind it is looked at.\<close>

lemma trailing_put:
  "trailing_bytes (Suc nf) uc (ucast (0x80 OR (y AND 0x3F) :: u32) # p) = trailing_bytes nf (push_bit 6 uc OR (y AND 0x3F)) p"
  unfolding trailing_bytes.simps trailing_byte by simp

definition utf16_of :: "u32 \<Rightarrow> u32" where
  "utf16_of c = (if 0x10000 \<le> c then 0xD800DC00 OR (push_bit 6 (c - 0x10000) AND 0x3FF0000) OR (c AND 0x3FF) else c)"

lemma decode_sequence:
  assumes "(ucast b :: u32) AND 0x80 \<noteq> 0"
    and "(if (ucast b :: u32) AND 0xE0 = 0xC0 then Some (ucast b AND 0x1F, 1)
      else if (ucast b :: u32) AND 0xF0 = 0xE0 then Some (ucast b AND 0x0F, 2)
      else if (ucast b :: u32) AND 0xF8 = 0xF0 then Some (ucast b AND 0x07, 3) else None) = Some (uc, nf)"
    and "trailing_bytes nf uc p = Ret (Some (c, rest))" and "0x80 \<le> c" and "\<not> IsSurrogate c" and "c < 0x110000"
  shows "tchar2uni (b # p) = Ret (utf16_of c, rest)"
proof -
  have "\<not> (c < 0x80 \<or> IsSurrogate c \<or> 0x110000 \<le> c)" using assms(4-6) by (auto simp: not_less not_le)
  then show ?thesis unfolding tchar2uni_def utf16_of_def list.case Let_def assms(2) if_P [OF assms(1)]
    by (simp only: assms(2,3) option.case prod.case cbind.simps if_False if_distrib [of Ret] if_distrib [of "\<lambda>x. (x, rest)"])
qed

lemma put_tchar:
  assumes "utf16_char chr" and "put_utf chr szb \<noteq> []"
  shows "tchar2uni (put_utf chr szb @ rest) = Ret (chr, rest)"
proof -
  consider "chr < 0x80" | "0x80 \<le> chr" "chr < 0x800" | "0x800 \<le> chr" "chr < 0x10000" | "\<not> chr < 0x10000" by fastforce
  then show ?thesis
  proof cases
    case 1
    then have b: "chr < 2 ^ 7" by simp
    have "(ucast (ucast chr :: u8) :: u32) = chr" "chr AND 0x80 = 0" unfolding utf_masks
      by (rule bit_word_eqI; auto simp: bit_simps dest: small_bits [OF b])+
    then show ?thesis using 1 assms(2) by (auto simp: put_utf_def tchar2uni_def Let_def split: if_splits)
  next
    case 2
    then have r: "\<not> IsSurrogate chr" "chr < 0x110000" "\<not> 0x10000 \<le> chr" "chr < 2 ^ 11"
      by (auto simp: IsSurrogate_def word_less_nat_alt word_le_nat_alt)
    have p: "put_utf chr szb = [ucast (0xC0 OR (drop_bit 6 chr AND 0x1F)), ucast (0x80 OR (chr AND 0x3F))]"
      using 2 assms(2) by (auto simp: put_utf_def split: if_splits)
    show ?thesis unfolding p append.simps
      by (rule decode_sequence [of _ "drop_bit 6 chr AND 0x1F" 1 _ chr, unfolded utf16_of_def if_not_P [OF r(3)]])
        (simp_all only: lead2 if_True simp_thms One_nat_def trailing_put trailing_bytes.simps(1) join2 [OF r(4)] 2 r)
  next
    case 3
    then have r: "\<not> IsSurrogate chr" "chr < 0x110000" "0x80 \<le> chr" "\<not> 0x10000 \<le> chr" "chr < 2 ^ 16"
      using assms(1) by (auto simp: utf16_char_def word_less_nat_alt word_le_nat_alt)
    have "\<not> chr < 0x80" "\<not> chr < 0x800" using 3 by (auto simp: word_less_nat_alt word_le_nat_alt)
    then have p: "put_utf chr szb = [ucast (0xE0 OR (drop_bit 12 chr AND 0x0F)), ucast (0x80 OR (drop_bit 6 chr AND 0x3F)), ucast (0x80 OR (chr AND 0x3F))]"
      using 3 assms(2) by (auto simp: put_utf_def split: if_splits)
    have n: "2 = Suc (Suc 0)" by simp
    show ?thesis unfolding p append.simps
      by (rule decode_sequence [of _ "drop_bit 12 chr AND 0x0F" 2 _ chr, unfolded utf16_of_def if_not_P [OF r(4)]])
        (simp_all only: lead3 if_True if_False simp_thms n trailing_put trailing_bytes.simps(1) join3 [OF r(5)] r)
  next
    case 4
    obtain h l where hl: "h < 2 ^ 10" "l < 2 ^ 10" "drop_bit 6 ((chr AND 0xFFFF0000) - 0xD8000000) = push_bit 10 h"
      "(chr AND 0xFFFF) - 0xDC00 = l" "chr = 0xD800DC00 OR push_bit 16 h OR l" using pair_halves [OF 4 assms(1)] .
    define z where "z = push_bit 10 h OR l"
    have zb: "n < 20" if "bit z n" for n
      using that small_bits [OF hl(1)] small_bits [OF hl(2)] by (fastforce simp: z_def bit_simps)
    have "take_bit 20 z = z" by (rule bit_word_eqI) (auto simp: bit_simps dest: zb)
    then have z: "unat z < 2 ^ 20" 
      by (metis take_bit_nat_less_exp unsigned_take_bit_eq)
    define c where "c = z + 0x10000"
    have uc: "unat c = unat z + 0x10000" unfolding c_def using z by (subst unat_add_no_wrap) auto
    then have c: "c < 2 ^ 21" "0x10000 \<le> c" "c < 0x110000" "0x80 \<le> c" "\<not> IsSurrogate c"
      using z by (auto simp: word_less_nat_alt word_le_nat_alt IsSurrogate_def)
    have "utf16_of c = 0xD800DC00 OR (push_bit 6 z AND 0x3FF0000) OR (c AND 0x3FF)"
      using c(2) by (simp add: utf16_of_def c_def)
    also have "push_bit 6 z AND 0x3FF0000 = push_bit 16 h"
    proof -
      have m: "(0x3FF0000 :: u32) = push_bit 16 (mask 10)" by (simp add: mask_eq_exp_minus_1 push_bit_eq_mult)
      have "bit (push_bit 6 z AND 0x3FF0000) n = bit (push_bit 16 h) n" if "n < LENGTH(32)" for n
        unfolding m z_def using that small_bits [OF hl(1), of "n - 16"] small_bits [OF hl(2), of "n - 6"]
        by (cases "n < 16") (auto simp: bit_simps)
      then show ?thesis by (rule bit_word_eqI)
    qed
    also have "c AND 0x3FF = l"
    proof -
      have "(0x3FF :: u32) = mask 10" by (simp add: mask_eq_exp_minus_1)
      then have "c AND 0x3FF = take_bit 10 c" by (simp add: take_bit_eq_mask)
      also have "\<dots> = take_bit 10 z"
        using mod_mult_self1 [of "unat z" 64 1024] by (simp add: word_unat_eq_iff take_bit_eq_mod unat_mod_distrib uc)
      also have "\<dots> = l" using small_bits [OF hl(2)] by (intro bit_word_eqI) (auto simp: z_def bit_simps)
      finally show ?thesis .
    qed
    finally have e: "utf16_of c = chr" using hl(5) by simp
    have "\<not> chr < 0x80" "\<not> chr < 0x800" using 4 by (auto simp: word_less_nat_alt word_le_nat_alt)
    then have p: "put_utf chr szb = [ucast (0xF0 OR (drop_bit 18 c AND 0x07)), ucast (0x80 OR (drop_bit 12 c AND 0x3F)),
        ucast (0x80 OR (drop_bit 6 c AND 0x3F)), ucast (0x80 OR (c AND 0x3F))]"
      using 4 assms(2) by (auto simp: put_utf_def Let_def hl(3,4) c_def z_def split: if_splits)
    have n: "3 = Suc (Suc (Suc 0))" by simp
    show ?thesis unfolding p append.simps
      by (rule decode_sequence [of _ "drop_bit 18 c AND 0x07" 3 _ c, unfolded e])
        (simp_all only: lead4 if_True if_False simp_thms n trailing_put trailing_bytes.simps(1) join4 [OF c(1)] c)
  qed
qed


text \<open>A string that holds its terminator is read without going behind it.\<close>

lemma trailing_bytes_returns:
  "0 \<in> set p \<Longrightarrow> \<exists>t. trailing_bytes nf uc p = Ret t \<and> (\<forall>c q. t = Some (c, q) \<longrightarrow> 0 \<in> set q \<and> length q + nf = length p)"
proof (induction nf arbitrary: uc p)
  case (Suc nf)
  then show ?case by (cases p) (auto split: if_splits)
qed simp

lemma tchar2uni_returns:
  assumes "0 \<in> set str"
  obtains uc q where "tchar2uni str = Ret (uc, q)" and "uc = utf_error \<or> length q < length str \<and> (uc \<noteq> 0 \<longrightarrow> 0 \<in> set q)"
proof -
  obtain b p where s: "str = b # p" using assms by (cases str) auto
  show thesis
  proof (cases "(ucast b :: u32) AND 0x80 = 0")
    case True
    have "0 \<in> set p" if "(ucast b :: u32) \<noteq> 0" using that assms s by auto
    then show thesis using True s by (intro that [of "ucast b" p]) (auto simp: tchar2uni_def Let_def)
  next
    case False
    then have p: "0 \<in> set p" using assms s by auto
    define start where "start = (if (ucast b :: u32) AND 0xE0 = 0xC0 then Some ((ucast b :: u32) AND 0x1F, 1 :: nat)
      else if (ucast b :: u32) AND 0xF0 = 0xE0 then Some (ucast b AND 0x0F, 2)
      else if (ucast b :: u32) AND 0xF8 = 0xF0 then Some (ucast b AND 0x07, 3) else None)"
    have t: "tchar2uni str = (case start of None \<Rightarrow> Ret (utf_error, str)
       | Some (uc1, nf) \<Rightarrow> cbind (trailing_bytes nf uc1 p) (\<lambda>t.
           case t of None \<Rightarrow> Ret (utf_error, str)
           | Some (uc2, q) \<Rightarrow>
               if uc2 < 0x80 \<or> IsSurrogate uc2 \<or> 0x110000 \<le> uc2 then Ret (utf_error, str)
               else Ret (utf16_of uc2, q)))"
      unfolding s tchar2uni_def list.case Let_def utf16_of_def start_def if_P [OF False]
      by (auto split: option.split intro!: arg_cong2 [where f = cbind])
    show thesis
    proof (cases start)
      case None
      then show thesis using t by (intro that [of utf_error str]) auto
    next
      case (Some a)
      obtain uc1 nf where a: "a = (uc1, nf)" by fastforce
      obtain r where r: "trailing_bytes nf uc1 p = Ret r" "\<And>c q. r = Some (c, q) \<Longrightarrow> 0 \<in> set q \<and> length q + nf = length p"
        using trailing_bytes_returns [OF p, of nf uc1] by blast
      show thesis
      proof (cases r)
        case None
        then show thesis using t Some a r(1) by (intro that [of utf_error str]) auto
      next
        case (Some x)
        obtain c q where x: "x = (c, q)" by fastforce
        show thesis
        proof (cases "c < 0x80 \<or> IsSurrogate c \<or> 0x110000 \<le> c")
          case True
          then show thesis using t \<open>start = Some a\<close> a r(1) Some x by (intro that [of utf_error str]) auto
        next
          case False
          then show thesis using t \<open>start = Some a\<close> a r Some x s by (intro that [of "utf16_of c" q]) auto
        qed
      qed
    qed
  qed
qed

section \<open>Up-casing is defined\<close>

fun up_blocks_ok :: "nat \<Rightarrow> u16 list \<Rightarrow> bool" where
  "up_blocks_ok 0 p = False"
| "up_blocks_ok (Suc n) (bc # w # p) = (bc = 0 \<or> (if drop_bit 8 w = 0 then unat (w AND 0xFF) \<le> length p \<and> up_blocks_ok n (drop (unat (w AND 0xFF)) p)
    else up_blocks_ok n p))"
| "up_blocks_ok (Suc n) [bc] = (bc = 0)"
| "up_blocks_ok (Suc n) [] = False"

lemma up_scan_returns: "up_blocks_ok n p \<Longrightarrow> returns (up_scan p uc)"
proof (induction n p rule: up_blocks_ok.induct)
  case (2 n bc w p)
  show ?case
  proof (cases "bc = 0 \<or> uc < bc \<or> unat uc < unat bc + unat (w AND 0xFF)")
    case True
    have "unat (uc - bc) < length p" if "bc \<noteq> 0" "\<not> uc < bc" "drop_bit 8 w = 0"
      using that True 2(3) by (auto simp: unat_sub_if' word_less_nat_alt)
    then show ?thesis using True by (subst up_scan.simps) (auto simp: Let_def)
  next
    case False
    then show ?thesis using 2 by (subst up_scan.simps) (auto simp: Let_def)
  qed
qed (auto simp: up_scan.simps)

lemma up_tables_ok: "up_blocks_ok 100 cvt1" "up_blocks_ok 100 cvt2"
  by code_simp+

lemma ff_wtoupper_returns: "returns (ff_wtoupper uni)"
  using up_scan_returns [OF up_tables_ok(1)] up_scan_returns [OF up_tables_ok(2)]
  by (auto simp: ff_wtoupper_def Let_def intro!: returns_cbind_Ret)


section \<open>Properties\<close>

lemma put_utf_fits:
  assumes "utf16_char chr" and "4 \<le> szb"
  shows "put_utf chr szb \<noteq> []"
proof (cases "chr < 0x10000")
  case True
  then show ?thesis using assms by (auto simp: put_utf_def utf16_char_def word_less_nat_alt word_le_nat_alt)
next
  case False
  obtain h l where hl: "h < 2 ^ 10" "l < 2 ^ 10" "drop_bit 6 ((chr AND 0xFFFF0000) - 0xD8000000) = push_bit 10 h"
    "(chr AND 0xFFFF) - 0xDC00 = l" using pair_halves [OF False assms(1)] by metis
  have "unat (push_bit 10 h) = unat h * 1024"
    using hl(1) unat_mult_no_wrap [of h 1024] by (simp add: push_bit_eq_mult word_less_nat_alt)
  then have "\<not> 0x100000 \<le> push_bit 10 h" "\<not> 0x400 \<le> l" using hl(1,2) by (auto simp: word_less_nat_alt word_le_nat_alt)
  moreover have "\<not> chr < 0x80" "\<not> chr < 0x800" "\<not> szb < 4" using False assms(2) by (auto simp: word_less_nat_alt word_le_nat_alt)
  ultimately show ?thesis using False by (simp add: put_utf_def hl(3,4) Let_def)
qed

text \<open>C35: Every character of a name, one UTF-16 unit that is no surrogate or a pair of surrogates, is
  written in UTF-8 when the buffer has four bytes left, and reading the bytes gives the character
  back and ends where they end, whatever follows.\<close>

theorem utf8_roundtrip:
  assumes "utf16_char chr" and "4 \<le> szb"
  shows "put_utf chr szb \<noteq> [] \<and> tchar2uni (put_utf chr szb @ rest) = Ret (chr, rest)"
  using put_utf_fits [OF assms] put_tchar [OF assms(1)] by blast

theorem utf8_roundtrip_witness:
  "put_utf 0xD83DDE00 4 = [0xF0, 0x9F, 0x98, 0x80] \<and> tchar2uni [0xF0, 0x9F, 0x98, 0x80, 0x2F, 0] = Ret (0xD83DDE00, [0x2F, 0])"
proof -
  have e: "put_utf 0xD83DDE00 4 = [0xF0, 0x9F, 0x98, 0x80]" by code_simp
  have "utf16_char 0xD83DDE00" by code_simp
  from utf8_roundtrip [OF this, of 4 "[0x2F, 0]"] show ?thesis by (simp add: e)
qed

text \<open>
  The decoder takes sequences that are longer than needed, which the encoder never writes: only
  those for ASCII characters are refused.
\<close>

lemma overlong_accepted: "tchar2uni [0xE0, 0x82, 0x80, 0] = Ret (0x80, [0])" "tchar2uni [0xE0, 0x81, 0x81, 0] = Ret (utf_error, [0xE0, 0x81, 0x81, 0])"
  by code_simp+

end
