(* ===== verification/Fat_Lfn.thy ===== *)
theory Fat_Lfn
  imports Fat_Volume Fat_Unicode
begin

text \<open>
  Long names in directories (\<open>cpp/fatfs/common/src/ff.cpp\<close>). A name of up to 255 UTF-16 units is
  stored in pieces of 13 units, each in a directory entry of its own, the last piece first, ahead of
  the entry with the short name. The theory has the functions that store, read and compare a piece,
  the checksum that ties the pieces to the short name, and the numbered short names. A directory
  entry is a list of 32 bytes; the name buffer \<open>lfnbuf\<close> has 256 units, the name's terminating 0 among
  them, and access outside of it is undefined.
\<close>

section \<open>Constants\<close>

definition NSFLAG :: nat where "NSFLAG = 11"
definition NS_LOSS :: u8 where "NS_LOSS = 0x01"
definition NS_LFN :: u8 where "NS_LFN = 0x02"
definition NS_LAST :: u8 where "NS_LAST = 0x04"
definition NS_BODY :: u8 where "NS_BODY = 0x08"
definition NS_EXT :: u8 where "NS_EXT = 0x10"
definition NS_DOT :: u8 where "NS_DOT = 0x20"
definition NS_NOLFN :: u8 where "NS_NOLFN = 0x40"
definition NS_NONAME :: u8 where "NS_NONAME = 0x80"

definition LDIR_Ord :: nat where "LDIR_Ord = 0"
definition LDIR_Attr :: nat where "LDIR_Attr = 11"
definition LDIR_Type :: nat where "LDIR_Type = 12"
definition LDIR_Chksum :: nat where "LDIR_Chksum = 13"
definition LDIR_FstClusLO :: nat where "LDIR_FstClusLO = 26"
definition AM_LFN :: u8 where "AM_LFN = 0x0F"
definition LLEF :: u8 where "LLEF = 0x40"
definition FF_MAX_LFN :: nat where "FF_MAX_LFN = 255"

definition LfnOfs :: "nat list" where "LfnOfs = [1, 3, 5, 7, 9, 14, 16, 18, 20, 22, 24, 28, 30]"

lemmas lfn_consts = LDIR_Ord_def LDIR_Attr_def LDIR_Type_def LDIR_Chksum_def LDIR_FstClusLO_def AM_LFN_def LLEF_def FF_MAX_LFN_def

section \<open>Pieces of a long name\<close>

text \<open>The loop of \<open>cmp_lfn\<close> over the units of an entry: the index and the last unit, or nothing on a mismatch.\<close>

fun cmp_units :: "u16 list \<Rightarrow> u16 list \<Rightarrow> u32 \<Rightarrow> u16 \<Rightarrow> (u32 \<times> u16) option cpp" where
  "cmp_units lfnbuf [] i wc = Ret (Some (i, wc))"
| "cmp_units lfnbuf (uc # us) i wc =
     (if wc \<noteq> 0 then
        if FF_MAX_LFN + 1 \<le> unat i then Ret None
        else if unat i < length lfnbuf then
          cbind (ff_wtoupper (ucast uc)) (\<lambda>a. cbind (ff_wtoupper (ucast (lfnbuf ! unat i))) (\<lambda>b.
            if a \<noteq> b then Ret None else cmp_units lfnbuf us (i + 1) uc))
        else Undef
      else if uc \<noteq> 0xFFFF then Ret None else cmp_units lfnbuf us i wc)"

definition cmp_lfn :: "u16 list \<Rightarrow> bytes \<Rightarrow> bool cpp" where
  "cmp_lfn lfnbuf dir =
     (if ld_word dir LDIR_FstClusLO \<noteq> 0 then Ret False
      else cbind (cmp_units lfnbuf (map (ld_word dir) LfnOfs) ((ucast (dir ! LDIR_Ord AND 0x3F) - 1) * 13) 1) (\<lambda>r.
        case r of None \<Rightarrow> Ret False
        | Some (i, wc) \<Rightarrow>
            if dir ! LDIR_Ord AND LLEF \<noteq> 0 \<and> wc \<noteq> 0 then
              if unat i < length lfnbuf then Ret (lfnbuf ! unat i = 0) else Undef
            else Ret True))"

text \<open>The loop of \<open>pick_lfn\<close>: success, the buffer, the index and the last unit.\<close>

fun pick_units :: "u16 list \<Rightarrow> u16 list \<Rightarrow> u32 \<Rightarrow> u16 \<Rightarrow> (bool \<times> u16 list \<times> u32 \<times> u16) cpp" where
  "pick_units lfnbuf [] i wc = Ret (True, lfnbuf, i, wc)"
| "pick_units lfnbuf (uc # us) i wc =
     (if wc \<noteq> 0 then
        if FF_MAX_LFN + 1 \<le> unat i then Ret (False, lfnbuf, i, wc)
        else if unat i < length lfnbuf then pick_units (lfnbuf[unat i := uc]) us (i + 1) uc
        else Undef
      else if uc \<noteq> 0xFFFF then Ret (False, lfnbuf, i, wc) else pick_units lfnbuf us i wc)"

definition pick_lfn :: "u16 list \<Rightarrow> bytes \<Rightarrow> (bool \<times> u16 list) cpp" where
  "pick_lfn lfnbuf dir =
     (if ld_word dir LDIR_FstClusLO \<noteq> 0 then Ret (False, lfnbuf)
      else cbind (pick_units lfnbuf (map (ld_word dir) LfnOfs) ((ucast (dir ! LDIR_Ord AND NOT LLEF) - 1) * 13) 1) (\<lambda>(ok, buf, i, wc).
        if \<not> ok then Ret (False, buf)
        else if dir ! LDIR_Ord AND LLEF \<noteq> 0 \<and> wc \<noteq> 0 then
          if FF_MAX_LFN + 1 \<le> unat i then Ret (False, buf)
          else if unat i < length buf then Ret (True, buf[unat i := 0]) else Undef
        else Ret (True, buf)))"

text \<open>The loop of \<open>put_lfn\<close> over the offsets of the units: the index, the last unit and the entry.\<close>

fun put_units :: "u16 list \<Rightarrow> nat list \<Rightarrow> u32 \<Rightarrow> u16 \<Rightarrow> bytes \<Rightarrow> (u32 \<times> u16 \<times> bytes) cpp" where
  "put_units lfn [] i wc dir = Ret (i, wc, dir)"
| "put_units lfn (ofs # os) i wc dir =
     cbind (if wc \<noteq> 0xFFFF then (if unat i < length lfn then Ret (i + 1, lfn ! unat i) else Undef) else Ret (i, wc)) (\<lambda>(i1, wc1).
       put_units lfn os i1 (if wc1 = 0 then 0xFFFF else wc1) (st_word dir ofs wc1))"

definition put_lfn :: "u16 list \<Rightarrow> bytes \<Rightarrow> u8 \<Rightarrow> u8 \<Rightarrow> bytes cpp" where
  "put_lfn lfn dir ord chksum =
     (let d = st_word (dir[LDIR_Chksum := chksum, LDIR_Attr := AM_LFN, LDIR_Type := 0]) LDIR_FstClusLO 0 in
      cbind (put_units lfn LfnOfs ((ucast ord - 1) * 13) 0 d) (\<lambda>(i, wc, d1).
        cbind (if wc = 0xFFFF then Ret True else if unat i < length lfn then Ret (lfn ! unat i = 0) else Undef) (\<lambda>last.
          Ret (d1[LDIR_Ord := (if last then ord OR LLEF else ord)]))))"

section \<open>Short names\<close>

definition sum_sfn :: "bytes \<Rightarrow> u8" where
  "sum_sfn dir = foldl (\<lambda>s b. drop_bit 1 s + push_bit 7 s + b) 0 (take 11 dir)"

text \<open>The hash of a name that takes the place of the number after too many collisions.\<close>

fun hash_bits :: "nat \<Rightarrow> u16 \<Rightarrow> u32 \<Rightarrow> u32" where
  "hash_bits 0 wc sreg = sreg"
| "hash_bits (Suc i) wc sreg =
     (let s1 = push_bit 1 sreg + ucast (wc AND 1);
          s2 = (if s1 AND 0x10000 \<noteq> 0 then s1 XOR 0x11021 else s1) in
      hash_bits i (drop_bit 1 wc) s2)"

fun hash_name :: "u16 list \<Rightarrow> u32 \<Rightarrow> u32 cpp" where
  "hash_name [] sreg = Undef"
| "hash_name (wc # lfn) sreg = (if wc = 0 then Ret sreg else hash_name lfn (hash_bits 16 wc sreg))"

text \<open>The suffix \<open>ns[i..7]\<close>: a tilde and hexadecimal digits, at most seven.\<close>

definition hex_digit :: "u32 \<Rightarrow> u8" where
  "hex_digit d = (let c = ucast (d + 0x30) :: u8 in if 0x39 < c then c + 7 else c)"

fun number_suffix :: "nat \<Rightarrow> u32 \<Rightarrow> bytes \<Rightarrow> bytes" where
  "number_suffix 0 seq ns = 0x7E # ns"
| "number_suffix (Suc i) seq ns =
     (let ns1 = hex_digit (seq mod 16) # ns; seq1 = seq div 16 in
      if i \<noteq> 0 \<and> seq1 \<noteq> 0 then number_suffix i seq1 ns1 else 0x7E # ns1)"

function append_suffix :: "nat \<Rightarrow> bytes \<Rightarrow> bytes \<Rightarrow> bytes" where
  "append_suffix j ns dst =
     (let dst1 = dst[j := (case ns of [] \<Rightarrow> 0x20 | c # _ \<Rightarrow> c)] in
      if j + 1 < 8 then append_suffix (j + 1) (tl ns) dst1 else dst1)"
  by pat_completeness auto
termination by (relation "measure (\<lambda>(j, ns, dst). 8 - j)") auto

declare append_suffix.simps [simp del]

text \<open>In the code page no byte is the first of two, so the suffix goes behind the body, or behind its front.\<close>

definition gen_numname :: "bytes \<Rightarrow> bytes \<Rightarrow> u16 list \<Rightarrow> u32 \<Rightarrow> bytes cpp" where
  "gen_numname dst src lfn seq =
     (let d = take 11 src @ drop 11 dst in
      cbind (if 5 < seq then hash_name lfn seq else Ret seq) (\<lambda>seq1.
        let ns = number_suffix 7 seq1 [];
            j = length (takeWhile (\<lambda>c. c \<noteq> 0x20) (take (8 - length ns) d)) in
        Ret (append_suffix j ns d)))"


section \<open>The pieces of a name in a directory\<close>

text \<open>
  The pieces that \<open>dir_register\<close> stores one by one, \<open>n_ent\<close> counting down from the number of entries
  ahead of the short name: what becomes of those entries of the table.
\<close>

fun put_lfn_entries :: "u16 list \<Rightarrow> u8 \<Rightarrow> bytes list \<Rightarrow> bytes list cpp" where
  "put_lfn_entries lfn chksum [] = Ret []"
| "put_lfn_entries lfn chksum (d # ds) =
     cbind (put_lfn lfn d (of_nat (Suc (length ds))) chksum) (\<lambda>e.
       cbind (put_lfn_entries lfn chksum ds) (\<lambda>es. Ret (e # es)))"

text \<open>
  The step of \<open>dir_read\<close> at an entry with a piece: the order that is expected next, the checksum and the
  buffer. An order of 0xFF is never the one of a piece. (At the first piece the code also notes the
  offset of the entry.)
\<close>

definition read_lfn_entry :: "bytes \<Rightarrow> u8 \<times> u8 \<times> u16 list \<Rightarrow> (u8 \<times> u8 \<times> u16 list) cpp" where
  "read_lfn_entry dir st =
     (case st of (ord, chksum, lfnbuf) \<Rightarrow>
        let b0 = dir ! LDIR_Ord;
            start = (b0 AND LLEF \<noteq> 0);
            chksum1 = (if start then dir ! LDIR_Chksum else chksum);
            b = (if start then b0 AND NOT LLEF else b0);
            ord1 = (if start then b else ord) in
        if b = ord1 \<and> chksum1 = dir ! LDIR_Chksum
        then cbind (pick_lfn lfnbuf dir) (\<lambda>(ok, buf). Ret (if ok then ord1 - 1 else 0xFF, chksum1, buf))
        else Ret (0xFF, chksum1, lfnbuf))"

text \<open>The step of \<open>dir_find\<close> at such an entry; the name to find is in the buffer.\<close>

definition find_lfn_entry :: "u16 list \<Rightarrow> bytes \<Rightarrow> u8 \<times> u8 \<Rightarrow> (u8 \<times> u8) cpp" where
  "find_lfn_entry lfnbuf dir st =
     (case st of (ord, chksum) \<Rightarrow>
        let c0 = dir ! LDIR_Ord;
            start = (c0 AND LLEF \<noteq> 0);
            chksum1 = (if start then dir ! LDIR_Chksum else chksum);
            c = (if start then c0 AND NOT LLEF else c0);
            ord1 = (if start then c else ord) in
        if c = ord1 \<and> chksum1 = dir ! LDIR_Chksum
        then cbind (cmp_lfn lfnbuf dir) (\<lambda>ok. Ret (if ok then ord1 - 1 else 0xFF, chksum1))
        else Ret (0xFF, chksum1))"

text \<open>The steps over a run of entries.\<close>

fun read_lfn_entries :: "bytes list \<Rightarrow> u8 \<times> u8 \<times> u16 list \<Rightarrow> (u8 \<times> u8 \<times> u16 list) cpp" where
  "read_lfn_entries [] st = Ret st"
| "read_lfn_entries (d # ds) st = cbind (read_lfn_entry d st) (read_lfn_entries ds)"

fun find_lfn_entries :: "u16 list \<Rightarrow> bytes list \<Rightarrow> u8 \<times> u8 \<Rightarrow> (u8 \<times> u8) cpp" where
  "find_lfn_entries lfnbuf [] st = Ret st"
| "find_lfn_entries lfnbuf (d # ds) st = cbind (find_lfn_entry lfnbuf d st) (find_lfn_entries lfnbuf ds)"

section \<open>What a piece holds\<close>

text \<open>A buffer holds a name: its units, none of them 0, and the terminating 0.\<close>

definition holds_name :: "u16 list \<Rightarrow> u16 list \<Rightarrow> bool" where
  "holds_name lfn name \<longleftrightarrow> length lfn = 256 \<and> 0 < length name \<and> length name \<le> 255 \<and> 0 \<notin> set name
     \<and> take (length name + 1) lfn = name @ [0]"

definition piece_unit :: "u16 list \<Rightarrow> nat \<Rightarrow> u16" where
  "piece_unit name p = (if p < length name then name ! p else if p = length name then 0 else 0xFFFF)"

definition pieces :: "u16 list \<Rightarrow> nat" where
  "pieces name = (length name + 12) div 13"

text \<open>The entry of a piece.\<close>

definition piece_entry :: "u16 list \<Rightarrow> u8 \<Rightarrow> nat \<Rightarrow> bytes \<Rightarrow> bool" where
  "piece_entry name chk k e \<longleftrightarrow> length e = 32 \<and> map (ld_word e) LfnOfs = map (piece_unit name) [13 * k..<13 * k + 13]
     \<and> e ! LDIR_Chksum = chk \<and> e ! LDIR_Attr = AM_LFN \<and> ld_word e LDIR_FstClusLO = 0
     \<and> e ! LDIR_Ord = of_nat (k + 1) OR (if k + 1 = pieces name then LLEF else 0)"

lemma holds_nth: "holds_name lfn name \<Longrightarrow> p \<le> length name \<Longrightarrow> lfn ! p = (name @ [0]) ! p"
  unfolding holds_name_def by (metis nth_take le_imp_less_Suc Suc_eq_plus1)

lemma pieces_bounds:
  assumes "0 < length name" and "length name \<le> 255"
  shows "0 < pieces name" "pieces name \<le> 20" "13 * (pieces name - 1) < length name" "length name \<le> 13 * pieces name"
  using assms unfolding pieces_def by linarith+

fun st_words :: "nat list \<Rightarrow> u16 list \<Rightarrow> bytes \<Rightarrow> bytes" where
  "st_words (ofs # os) (u # us) d = st_words os us (st_word d ofs u)"
| "st_words _ _ d = d"

lemma length_st_words [simp]: "length (st_words os us d) = length d"
  by (induction os us d rule: st_words.induct) auto

lemma st_words_other: "\<forall>ofs\<in>set os. j < ofs \<or> ofs + 1 < j \<Longrightarrow> st_words os us d ! j = d ! j"
  by (induction os us d rule: st_words.induct) (auto simp: st_word_other)

lemma ld_word_same: "d ! i = d' ! i \<Longrightarrow> d ! (i + 1) = d' ! (i + 1) \<Longrightarrow> ld_word d i = ld_word d' i"
  by (simp add: ld_word_def)

lemma ld_st_words:
  assumes "sorted_wrt (\<lambda>a b. a + 2 \<le> b) os" and "length us = length os" and "\<forall>ofs\<in>set os. ofs + 1 < length d"
  shows "map (ld_word (st_words os us d)) os = us"
  using assms
proof (induction os us d rule: st_words.induct)
  case (1 ofs os u us d)
  have "ofs + 2 \<le> x" if "x \<in> set os" for x using 1(2) that by simp
  then have "\<forall>x\<in>set os. ofs < x \<or> x + 1 < ofs" "\<forall>x\<in>set os. ofs + 1 < x \<or> x + 1 < ofs + 1" by fastforce+
  then have "ld_word (st_words os us (st_word d ofs u)) ofs = ld_word (st_word d ofs u) ofs"
    by (intro ld_word_same st_words_other)
  then show ?case using 1 by (simp add: ld_st_word)
qed auto

text \<open>Inside of the name the loop reads its units; behind the end it pads.\<close>

definition put_state :: "u16 list \<Rightarrow> nat \<Rightarrow> u32 \<Rightarrow> u16 \<Rightarrow> bool" where
  "put_state name p i wc \<longleftrightarrow> (if p \<le> length name then unat i = p \<and> wc \<noteq> 0xFFFF else wc = 0xFFFF)"

lemma put_units_ok:
  assumes "holds_name lfn name" and "0xFFFF \<notin> set name" and "put_state name p i wc"
  shows "\<exists>i' wc'. put_units lfn os i wc d = Ret (i', wc', st_words os (map (piece_unit name) [p..<p + length os]) d)
    \<and> put_state name (p + length os) i' wc'"
  using assms(3)
proof (induction os arbitrary: p i wc d)
  case (Cons ofs os)
  have l: "length lfn = 256" "length name \<le> 255" "0 \<notin> set name" using assms(1) by (simp_all add: holds_name_def)
  have up: "[p..<p + length (ofs # os)] = p # [Suc p..<Suc p + length os]" by (subst upt_conv_Cons) (simp_all del: upt_Suc)
  show ?case
  proof (cases "p \<le> length name")
    case True
    then have i: "unat i = p" "wc \<noteq> 0xFFFF" using Cons.prems by (simp_all add: put_state_def)
    then have si: "unat (i + 1) = p + 1" using True l by (subst unat_add_no_wrap) auto
    have u: "lfn ! p = piece_unit name p" using holds_nth [OF assms(1) True] True
      by (auto simp: piece_unit_def nth_append)
    have "piece_unit name p \<noteq> 0xFFFF" "piece_unit name p = 0 \<longleftrightarrow> p = length name"
      using True assms(2) l(3) by (auto simp: piece_unit_def) (metis nth_mem)+
    then have "put_state name (Suc p) (i + 1) (if lfn ! p = 0 then 0xFFFF else lfn ! p)"
      using True si by (auto simp: put_state_def u)
    moreover have "put_units lfn (ofs # os) i wc d =
        put_units lfn os (i + 1) (if lfn ! p = 0 then 0xFFFF else lfn ! p) (st_word d ofs (lfn ! p))"
      using i l True by simp
    ultimately show ?thesis
      using Cons.IH [of "Suc p" "i + 1" "if lfn ! p = 0 then 0xFFFF else lfn ! p" "st_word d ofs (lfn ! p)"]
      unfolding up list.map st_words.simps u [symmetric] by (simp del: upt_Suc)
  next
    case False
    then have "wc = 0xFFFF" "piece_unit name p = 0xFFFF" using Cons.prems by (simp_all add: put_state_def piece_unit_def)
    then show ?thesis using Cons.IH [of "Suc p" i wc "st_word d ofs wc"] False
      unfolding up list.map st_words.simps by (simp add: put_state_def del: upt_Suc)
  qed
qed simp

lemma LfnOfs_apart: "sorted_wrt (\<lambda>a b. a + 2 \<le> b) LfnOfs" "\<forall>ofs\<in>set LfnOfs. 1 \<le> ofs \<and> ofs + 1 < 32" "length LfnOfs = 13"
  "ofs \<in> set LfnOfs \<Longrightarrow> ofs + 1 \<noteq> 11 \<and> ofs \<noteq> 11 \<and> ofs + 1 \<noteq> 13 \<and> ofs \<noteq> 13 \<and> ofs + 1 \<noteq> 26 \<and> ofs \<noteq> 26 \<and> ofs \<noteq> 27 \<and> ofs \<noteq> 25"
  by (auto simp: LfnOfs_def)

lemma widen_of_nat: "n < 256 \<Longrightarrow> (ucast (of_nat n :: u8) :: u32) = of_nat n"
  by (simp add: word_unat_eq_iff unat_ucast_widen unat_of_nat)

text \<open>Storing a piece.\<close>

lemma put_lfn_ok:
  assumes "holds_name lfn name" and "0xFFFF \<notin> set name" and "k < pieces name" and "length dir = 32"
  shows "\<exists>e. put_lfn lfn dir (of_nat (k + 1)) chk = Ret e \<and> piece_entry name chk k e"
proof -
  have l: "length lfn = 256" "0 < length name" "length name \<le> 255" "0 \<notin> set name"
    using assms(1) by (simp_all add: holds_name_def)
  have k: "k < 20" "13 * k < length name" using pieces_bounds [OF l(2,3)] assms(3) by linarith+
  define d where "d = st_word (dir[LDIR_Chksum := chk, LDIR_Attr := AM_LFN, LDIR_Type := 0]) LDIR_FstClusLO 0"
  have i: "(ucast (of_nat (k + 1) :: u8) - 1) * 13 = (of_nat (13 * k) :: u32)"
  proof -
    have "(ucast (of_nat (k + 1) :: u8) :: u32) = of_nat (k + 1)"
      using k(1) by (intro widen_of_nat) simp
    then show ?thesis by (simp add: algebra_simps)
  qed
  have "unat (of_nat (13 * k) :: u32) = 13 * k" using k(1) take_bit_nat_eq_self [of "13 * k" 32] by (simp add: unsigned_of_nat del: of_nat_mult)
  then have "put_state name (13 * k) (of_nat (13 * k)) 0" using k(2) by (simp add: put_state_def)
  from put_units_ok [OF assms(1,2) this, of LfnOfs d] obtain i' wc' where
    u: "put_units lfn LfnOfs (of_nat (13 * k)) 0 d = Ret (i', wc', st_words LfnOfs (map (piece_unit name) [13 * k..<13 * k + 13]) d)"
    "put_state name (13 * k + 13) i' wc'" by (auto simp: LfnOfs_apart)
  define w where "w = st_words LfnOfs (map (piece_unit name) [13 * k..<13 * k + 13]) d"
  have w: "length w = 32" "map (ld_word w) LfnOfs = map (piece_unit name) [13 * k..<13 * k + 13]"
    using assms(4) LfnOfs_apart ld_st_words [OF LfnOfs_apart(1), of "map (piece_unit name) [13 * k..<13 * k + 13]" d] by (auto simp: w_def d_def)
  have "\<forall>ofs\<in>set LfnOfs. j < ofs \<or> ofs + 1 < j" if "j \<in> {11, 13, 26, 27}" for j
    using that by (auto simp: LfnOfs_def)
  then have o: "w ! j = d ! j" if "j \<in> {11, 13, 26, 27}" for j
    unfolding w_def using that by (intro st_words_other) blast
  define last where "last \<longleftrightarrow> length name \<le> 13 * k + 13"
  have la: "(if wc' = 0xFFFF then Ret True else if unat i' < length lfn then Ret (lfn ! unat i' = 0) else Undef) = Ret last"
  proof (cases "13 * k + 13 \<le> length name")
    case True
    have "lfn ! (13 * k + 13) = 0 \<longleftrightarrow> 13 * k + 13 = length name"
      using holds_nth [OF assms(1) True] l(4) True by (auto simp: nth_append dest: nth_mem split: if_splits)
    then show ?thesis using True u(2) l by (auto simp: put_state_def last_def)
  next
    case False
    then show ?thesis using u(2) by (auto simp: put_state_def last_def)
  qed
  have e: "put_lfn lfn dir (of_nat (k + 1)) chk = Ret (w[LDIR_Ord := (if last then of_nat (k + 1) OR LLEF else of_nat (k + 1))])"
    unfolding put_lfn_def Let_def d_def [symmetric] i u(1) by (simp only: cbind.simps prod.case la w_def)
  have last: "last \<longleftrightarrow> k + 1 = pieces name" unfolding last_def pieces_def using assms(3) k(2) by (auto simp: pieces_def)
  define x where "x = (if last then of_nat (k + 1) OR LLEF else of_nat (k + 1))"
  have keep: "ld_word (w[0 := x]) ofs = ld_word w ofs" if "1 \<le> ofs" for ofs using that by (intro ld_word_same) auto
  have "map (ld_word (w[0 := x])) LfnOfs = map (piece_unit name) [13 * k..<13 * k + 13]"
    using w(2) LfnOfs_apart(2) by (simp add: keep cong: map_cong)
  moreover have "w ! 13 = chk" "w ! 11 = 0x0F" "w ! 26 = 0" "w ! 27 = 0"
    using o [of 13] o [of 11] o [of 26] o [of 27] assms(4) by (simp_all add: d_def lfn_consts st_word_def)
  moreover have "x = of_nat (k + 1) OR (if k + 1 = pieces name then LLEF else 0)"
    unfolding x_def last by (simp only: or.right_neutral split: if_split) simp
  ultimately have "piece_entry name chk k (w[0 := x])"
    using w(1) by (simp add: piece_entry_def lfn_consts keep [of 26] ld_word_def)
  then show ?thesis using e by (simp add: x_def lfn_consts)
qed

section \<open>Reading the pieces\<close>

text \<open>The units before the first 0 of a piece are stored, and the 0; the padding is only checked.\<close>

lemma pick_units_full:
  assumes "0 \<notin> set us" and "wc \<noteq> 0" and "unat i + length us \<le> 256" and "length lfn = 256"
  shows "\<exists>lfn' wc'. pick_units lfn us i wc = Ret (True, lfn', i + of_nat (length us), wc') \<and> wc' \<noteq> 0 \<and> length lfn' = 256
    \<and> (\<forall>p<256. lfn' ! p = (if unat i \<le> p \<and> p < unat i + length us then us ! (p - unat i) else lfn ! p))"
  using assms
proof (induction us arbitrary: i wc lfn)
  case (Cons u us)
  have si: "unat (i + 1) = unat i + 1" using Cons.prems(3) unat_add_no_wrap [of i 1] by simp
  obtain lfn' wc' where r: "pick_units (lfn[unat i := u]) us (i + 1) u = Ret (True, lfn', i + 1 + of_nat (length us), wc')" "wc' \<noteq> 0" "length lfn' = 256"
    "\<forall>p<256. lfn' ! p = (if unat i + 1 \<le> p \<and> p < unat i + 1 + length us then us ! (p - (unat i + 1)) else (lfn[unat i := u]) ! p)"
    using Cons.IH [of u "i + 1" "lfn[unat i := u]"] Cons.prems si by (auto simp: algebra_simps)
  have "lfn' ! p = (if unat i \<le> p \<and> p < unat i + length (u # us) then (u # us) ! (p - unat i) else lfn ! p)" if "p < 256" for p
    using r(4) that Cons.prems(4) by (cases "p = unat i") (auto simp: nth_Cons' nth_list_update)
  then show ?case using r Cons.prems by (simp add: FF_MAX_LFN_def algebra_simps)
qed auto

lemma pick_padding: "set us \<subseteq> {0xFFFF} \<Longrightarrow> pick_units lfn us i 0 = Ret (True, lfn, i, 0)"
  by (induction us) auto

lemma pick_units_append:
  "pick_units lfn us i wc = Ret (True, lfn', i', wc') \<Longrightarrow> pick_units lfn (us @ vs) i wc = pick_units lfn' vs i' wc'"
  by (induction us arbitrary: lfn i wc) (auto split: if_splits)


lemma piece_units_shape:
  assumes "0 \<notin> set name" and "13 * k < length name"
  shows "if 13 * k + 13 \<le> length name then 0 \<notin> set (map (piece_unit name) [13 * k..<13 * k + 13])
    else \<exists>pad. map (piece_unit name) [13 * k..<13 * k + 13] = map (piece_unit name) [13 * k..<length name] @ 0 # pad
      \<and> 0 \<notin> set (map (piece_unit name) [13 * k..<length name]) \<and> set pad \<subseteq> {0xFFFF}"
proof -
  have z: "piece_unit name p = name ! p" "piece_unit name p \<noteq> 0" if "p < length name" for p
    using that assms(1) by (simp_all add: piece_unit_def) (metis nth_mem)
  show ?thesis
  proof (cases "13 * k + 13 \<le> length name")
    case True
    then show ?thesis using z(2) by (auto simp del: upt_Suc)
  next
    case False
    have "[13 * k..<13 * k + 13] = [13 * k..<length name] @ [length name..<13 * k + 13]"
      using assms(2) False upt_add_eq_append [of "13 * k" "length name" "13 * k + 13 - length name"] by simp
    moreover have "[length name..<13 * k + 13] = length name # [Suc (length name)..<13 * k + 13]"
      using False by (intro upt_conv_Cons) simp
    ultimately have "map (piece_unit name) [13 * k..<13 * k + 13] = map (piece_unit name) [13 * k..<length name] @ 0 # map (piece_unit name) [Suc (length name)..<13 * k + 13]"
      by (simp add: piece_unit_def)
    moreover have "0 \<notin> set (map (piece_unit name) [13 * k..<length name])" using z(2) by (auto simp del: upt_Suc)
    moreover have "set (map (piece_unit name) [Suc (length name)..<13 * k + 13]) \<subseteq> {0xFFFF}" by (auto simp: piece_unit_def)
    ultimately show ?thesis using False by auto
  qed
qed

text \<open>The bits of an order byte.\<close>

lemma ord_bits:
  assumes "k < 20" and "f = 0 \<or> f = LLEF"
  shows "(of_nat (k + 1) OR f) AND NOT LLEF = (of_nat (k + 1) :: u8)" "(of_nat (k + 1) OR f) AND 0x3F = (of_nat (k + 1) :: u8)"
    "(of_nat (k + 1) OR f) AND LLEF = (f :: u8)"
proof -
  have "k \<in> {0, 1, 2, 3, 4, 5, 6, 7, 8, 9, 10, 11, 12, 13, 14, 15, 16, 17, 18, 19}" unfolding insert_iff empty_iff using assms(1) by presburger
  then show "(of_nat (k + 1) OR f) AND NOT LLEF = (of_nat (k + 1) :: u8)" "(of_nat (k + 1) OR f) AND 0x3F = (of_nat (k + 1) :: u8)"
    "(of_nat (k + 1) OR f) AND LLEF = (f :: u8)" using assms(2) by (auto simp: LLEF_def)
qed


lemma piece_start: "k < 20 \<Longrightarrow> (ucast (of_nat (k + 1) :: u8) - 1) * 13 = (of_nat (13 * k) :: u32)"
  using widen_of_nat [of "k + 1"] by (simp add: algebra_simps)

lemma unat_piece_start: "k < 20 \<Longrightarrow> unat (of_nat (13 * k) :: u32) = 13 * k"
  using take_bit_nat_eq_self [of "13 * k" 32] by (simp add: unsigned_of_nat del: of_nat_mult)

lemma pick_piece:
  assumes "piece_entry name chk k e" and "0 \<notin> set name" and "0 < length name" "length name \<le> 255"
    and "k < pieces name" and "length lfn = 256"
  shows "\<exists>lfn'. pick_lfn lfn e = Ret (True, lfn') \<and> length lfn' = 256
    \<and> (\<forall>p\<le>length name. 13 * k \<le> p \<and> (p < 13 * k + 13 \<or> k + 1 = pieces name) \<longrightarrow> lfn' ! p = (name @ [0]) ! p)
    \<and> (k + 1 < pieces name \<longrightarrow> (\<forall>p<256. 13 * k + 13 \<le> p \<longrightarrow> lfn' ! p = lfn ! p))"
proof -
  have k: "k < 20" "13 * k < length name" "k + 1 = pieces name \<longleftrightarrow> length name \<le> 13 * k + 13"
    using assms(5) pieces_bounds [OF assms(3,4)] unfolding pieces_def by auto
  define u where "u = map (piece_unit name) [13 * k..<13 * k + 13]"
  define f where "f = (if k + 1 = pieces name then LLEF else 0)"
  define i where "i = (of_nat (13 * k) :: u32)"
  have i: "unat i = 13 * k" unfolding i_def by (rule unat_piece_start [OF k(1)])
  have e: "map (ld_word e) LfnOfs = u" "ld_word e LDIR_FstClusLO = 0" "e ! LDIR_Ord = of_nat (k + 1) OR f"
    using assms(1) by (simp_all add: piece_entry_def u_def f_def)
  have ord: "(ucast (e ! LDIR_Ord AND NOT LLEF) - 1) * 13 = i" "e ! LDIR_Ord AND LLEF = f"
    using ord_bits [OF k(1), of f] piece_start [OF k(1)] unfolding e(3) i_def by (simp_all add: f_def)
  have zn: "piece_unit name p = (name @ [0]) ! p" if "p \<le> length name" for p
    using that by (auto simp: piece_unit_def nth_append)
  show ?thesis
  proof (cases "13 * k + 13 \<le> length name")
    case True
    then have "0 \<notin> set u" using piece_units_shape [OF assms(2) k(2)] by (simp add: u_def)
    moreover have "length u = 13" by (simp add: u_def)
    ultimately obtain l wc where r: "pick_units lfn u i 1 = Ret (True, l, i + 13, wc)" "wc \<noteq> 0" "length l = 256"
      "\<forall>p<256. l ! p = (if 13 * k \<le> p \<and> p < 13 * k + 13 then u ! (p - 13 * k) else lfn ! p)"
      using pick_units_full [of u 1 i lfn] assms(4,6) i True by auto
    have un: "u ! (p - 13 * k) = (name @ [0]) ! p" if "13 * k \<le> p" "p < 13 * k + 13" for p
      using that zn [of p] True by (simp add: u_def)
    have j: "unat (i + 13) = 13 * k + 13" using unat_add_no_wrap [of i 13] i k(1) by simp
    show ?thesis
    proof (cases "k + 1 = pieces name")
      case True
      then have n: "length name = 13 * k + 13" using k(3) \<open>13 * k + 13 \<le> length name\<close> by simp
      have "pick_lfn lfn e = Ret (True, l[13 * k + 13 := 0])"
        using True n assms(4) r(1-3) j unfolding pick_lfn_def e(1,2) ord by (simp add: f_def LLEF_def FF_MAX_LFN_def)
      then show ?thesis using True n assms(4) r(3,4) un by (auto simp: nth_list_update nth_append)
    next
      case False
      then have "pick_lfn lfn e = Ret (True, l)" using r(1) unfolding pick_lfn_def e(1,2) ord by (simp add: f_def)
      then show ?thesis using False assms(4) r(3,4) un by auto
    qed
  next
    case False
    obtain pad where s: "u = map (piece_unit name) [13 * k..<length name] @ 0 # pad"
      "0 \<notin> set (map (piece_unit name) [13 * k..<length name])" "set pad \<subseteq> {0xFFFF}"
      using piece_units_shape [OF assms(2) k(2)] False by (auto simp: u_def)
    define m where "m = length name - 13 * k"
    obtain l wc where r: "pick_units lfn (map (piece_unit name) [13 * k..<length name]) i 1 = Ret (True, l, i + of_nat m, wc)" "wc \<noteq> 0" "length l = 256"
      "\<forall>p<256. l ! p = (if 13 * k \<le> p \<and> p < 13 * k + m then map (piece_unit name) [13 * k..<length name] ! (p - 13 * k) else lfn ! p)"
    proof -
      have "length (map (piece_unit name) [13 * k..<length name]) = m" "unat i + m \<le> 256"
        using k(2) assms(4) by (simp_all add: m_def i)
      then show thesis using that pick_units_full [OF s(2), of 1 i lfn] assms(6) unfolding i by auto
    qed
    have j: "unat (i + of_nat m) = length name"
      using unat_add_no_wrap [of i "of_nat m"] i k assms(4) False
      by (simp add: m_def unsigned_of_nat take_bit_nat_eq_self del: of_nat_diff)
    have "pick_units lfn u i 1 = Ret (True, l[length name := 0], i + of_nat m + 1, 0)"
      unfolding s(1) pick_units_append [OF r(1)] using r(2,3) j assms(4) pick_padding [OF s(3)] by (simp add: FF_MAX_LFN_def)
    then have "pick_lfn lfn e = Ret (True, l[length name := 0])" unfolding pick_lfn_def e(1,2) ord by simp
    moreover have "l ! p = (name @ [0]) ! p" if "13 * k \<le> p" "p < length name" for p
      using r(4) that zn [of p] assms(4) by (simp add: m_def)
    ultimately show ?thesis using k(3) False r(3) assms(4) by (auto simp: nth_list_update nth_append)
  qed
qed


section \<open>Comparing the pieces\<close>

text \<open>Only the terminating 0 is up-cased to 0: blocks of the tables never map another unit there.\<close>

fun up_blocks_nonzero :: "nat \<Rightarrow> u16 list \<Rightarrow> bool" where
  "up_blocks_nonzero 0 p = False"
| "up_blocks_nonzero (Suc n) (bc # w # p) =
     (bc = 0 \<or> (if drop_bit 8 w = 0 then unat (w AND 0xFF) \<le> length p \<and> 0 \<notin> set (take (unat (w AND 0xFF)) p) \<and> up_blocks_nonzero n (drop (unat (w AND 0xFF)) p)
      else 80 < bc \<and> (drop_bit 8 w = 8 \<longrightarrow> 0x1C60 < bc) \<and> bc \<le> 0xFFF0 - (w AND 0xFF) \<and> up_blocks_nonzero n p))"
| "up_blocks_nonzero (Suc n) [bc] = (bc = 0)"
| "up_blocks_nonzero (Suc n) [] = False"

lemma up_command_nonzero:
  assumes "80 < unat bc" and "cmd = 8 \<longrightarrow> 0x1C60 < unat bc" and "unat bc \<le> unat uc" and "unat uc + 8 < 65536"
  shows "up_command cmd bc uc \<noteq> 0"
proof -
  have "(uc - bc) AND 1 \<le> 1" by (simp add: word_and_le1)
  then have "unat ((uc - bc) AND 1) \<le> 1" by (simp add: word_le_nat_alt)
  then have "uc - ((uc - bc) AND 1) \<noteq> 0" using assms by (metis (no_types) eq_iff_diff_eq_0 le_trans not_less one_le_numeral order_less_le_trans)
  moreover have "unat (uc + 8) = unat uc + 8" using assms(4) unat_add_no_wrap [of uc 8] by simp
  then have "uc + 8 \<noteq> 0" by auto
  ultimately show ?thesis using assms by (auto simp: up_command_def)
qed


lemma up_scan_nonzero:
  assumes "up_blocks_nonzero n p" and "uc \<noteq> 0"
  shows "up_scan p uc \<noteq> Ret 0"
  using assms
proof (induction n p rule: up_blocks_nonzero.induct)
  case (2 n bc w p)
  show ?case
  proof (cases "bc = 0 \<or> uc < bc \<or> \<not> unat uc < unat bc + unat (w AND 0xFF)")
    case True
    then show ?thesis using 2 by (subst up_scan.simps) (auto simp: Let_def)
  next
    case False
    then have b: "unat bc \<le> unat uc" "unat (uc - bc) = unat uc - unat bc" by (auto simp: word_less_nat_alt unat_sub_if')
    show ?thesis
    proof (cases "drop_bit 8 w = 0")
      case True
      define m where "m = unat (w AND 0xFF)"
      have "0 \<notin> set (take m p)" "m \<le> length p" using 2(3) False True by (auto simp: m_def)
      moreover have "unat (uc - bc) < m" unfolding m_def b(2) using False b(1) by linarith
      ultimately have "p ! unat (uc - bc) \<noteq> 0" by (metis length_take min.absorb2 nth_mem nth_take)
      then show ?thesis using False True by (subst up_scan.simps) (auto simp: Let_def)
    next
      case nz: False
      have c: "80 < bc" "drop_bit 8 w = 8 \<longrightarrow> 0x1C60 < bc" "bc \<le> 0xFFF0 - (w AND 0xFF)" using 2(3) False nz by auto
      have "w AND 0xFF \<le> 0xFF" by (rule word_and_le1)
      then have "unat (w AND 0xFF) \<le> 255" by (simp add: word_le_nat_alt)
      then have "unat bc + unat (w AND 0xFF) \<le> 0xFFF0" using c(3) by (auto simp: word_le_nat_alt unat_sub_if' split: if_splits)
      then have "up_command (drop_bit 8 w) bc uc \<noteq> 0" using c(1,2) b False by (intro up_command_nonzero) (auto simp: word_less_nat_alt)
      then show ?thesis using False nz by (subst up_scan.simps) (auto simp: Let_def)
    qed
  qed
qed (auto simp: up_scan.simps)

lemma up_tables_nonzero: "up_blocks_nonzero 100 cvt1" "up_blocks_nonzero 100 cvt2"
  by code_simp+

text \<open>The up-cased unit.\<close>

definition upper :: "u16 \<Rightarrow> u32" where
  "upper u = (case ff_wtoupper (ucast u) of Ret x \<Rightarrow> x | _ \<Rightarrow> 0)"

lemma ff_wtoupper_upper: "ff_wtoupper (ucast u) = Ret (upper u)" for u :: u16
  using ff_wtoupper_returns [of "ucast u"] by (auto simp: upper_def returns_iff)

lemma upper_zero: "upper u = upper 0 \<longleftrightarrow> u = 0"
proof -
  have z: "ff_wtoupper 0 = Ret 0" by code_simp
  have "ff_wtoupper (ucast u) \<noteq> Ret 0" if "u \<noteq> 0"
    using that up_scan_nonzero [OF up_tables_nonzero(1), of u] up_scan_nonzero [OF up_tables_nonzero(2), of u]
    widen_u16_inject [of _ 0]
    by (auto simp: ff_wtoupper_def Let_def ucast_down_ucast_id is_down split: if_splits)
  then show ?thesis using z ff_wtoupper_upper [of u] ff_wtoupper_upper [of 0] by auto
qed

definition same_name :: "u16 list \<Rightarrow> u16 list \<Rightarrow> bool" where
  "same_name a b \<longleftrightarrow> map upper a = map upper b"


lemma cmp_units_full:
  assumes "0 \<notin> set us" and "wc \<noteq> 0" and "unat i + length us \<le> 256" and "length lfn = 256"
  shows "\<exists>wc'. wc' \<noteq> 0 \<and> cmp_units lfn us i wc =
    Ret (if \<forall>j<length us. upper (us ! j) = upper (lfn ! (unat i + j)) then Some (i + of_nat (length us), wc') else None)"
  using assms
proof (induction us arbitrary: i wc)
  case (Cons u us)
  have si: "unat (i + 1) = unat i + 1" using Cons.prems(3) unat_add_no_wrap [of i 1] by simp
  obtain wc' where r: "wc' \<noteq> 0" "cmp_units lfn us (i + 1) u =
      Ret (if \<forall>j<length us. upper (us ! j) = upper (lfn ! (unat i + 1 + j)) then Some (i + 1 + of_nat (length us), wc') else None)"
    using Cons.IH [of u "i + 1"] Cons.prems unfolding si by auto
  show ?case using r Cons.prems
    by (intro exI [of _ wc']) (auto simp: FF_MAX_LFN_def ff_wtoupper_upper All_less_Suc2 algebra_simps)
qed auto

lemma cmp_padding: "set us \<subseteq> {0xFFFF} \<Longrightarrow> cmp_units lfn us i 0 = Ret (Some (i, 0))"
  by (induction us) auto

lemma cmp_units_append:
  "cmp_units lfn us i wc = Ret r \<Longrightarrow> cmp_units lfn (us @ vs) i wc = (case r of None \<Rightarrow> Ret None | Some (i', wc') \<Rightarrow> cmp_units lfn vs i' wc')"
  by (induction us arbitrary: i wc) (auto split: if_splits)

text \<open>A piece matches when its units do, up to the end of the name.\<close>

definition piece_matches :: "u16 list \<Rightarrow> u16 list \<Rightarrow> nat \<Rightarrow> bool" where
  "piece_matches lfn name k \<longleftrightarrow>
     (\<forall>p\<le>length name. 13 * k \<le> p \<and> (p < 13 * k + 13 \<or> k + 1 = pieces name) \<longrightarrow> upper ((name @ [0]) ! p) = upper (lfn ! p))"


lemma shift_all: "(\<forall>j<m. P (a + j)) \<longleftrightarrow> (\<forall>p. a \<le> p \<and> p < a + m \<longrightarrow> P p)" for a m :: nat
  by (metis le_iff_add nat_add_left_cancel_less)

lemma all_le_split: "a \<le> n \<Longrightarrow> (\<forall>p\<le>n. a \<le> p \<longrightarrow> P p) \<longleftrightarrow> (\<forall>p<n. a \<le> p \<longrightarrow> P p) \<and> P n" for a n :: nat
  by (auto simp: le_less)

lemma cmp_piece:
  assumes "piece_entry name chk k e" and "0 \<notin> set name" and "0 < length name" "length name \<le> 255"
    and "k < pieces name" and "length lfn = 256"
  shows "cmp_lfn lfn e = Ret (piece_matches lfn name k)"
proof -
  have k: "k < 20" "13 * k < length name" "k + 1 = pieces name \<longleftrightarrow> length name \<le> 13 * k + 13"
    using assms(5) pieces_bounds [OF assms(3,4)] unfolding pieces_def by auto
  define u where "u = map (piece_unit name) [13 * k..<13 * k + 13]"
  define f where "f = (if k + 1 = pieces name then LLEF else 0)"
  define i where "i = (of_nat (13 * k) :: u32)"
  have i: "unat i = 13 * k" unfolding i_def by (rule unat_piece_start [OF k(1)])
  have e: "map (ld_word e) LfnOfs = u" "ld_word e LDIR_FstClusLO = 0" "e ! LDIR_Ord = of_nat (k + 1) OR f"
    using assms(1) by (simp_all add: piece_entry_def u_def f_def)
  have ord: "(ucast (e ! LDIR_Ord AND 0x3F) - 1) * 13 = i" "e ! LDIR_Ord AND LLEF = f"
    using ord_bits [OF k(1), of f] piece_start [OF k(1)] unfolding e(3) i_def by (simp_all add: f_def)
  have zn: "piece_unit name p = (name @ [0]) ! p" if "p \<le> length name" for p
    using that by (auto simp: piece_unit_def nth_append)
  show ?thesis
  proof (cases "13 * k + 13 \<le> length name")
    case True
    then have "0 \<notin> set u" using piece_units_shape [OF assms(2) k(2)] by (simp add: u_def)
    moreover have lu: "length u = 13" by (simp add: u_def)
    ultimately obtain wc where r: "wc \<noteq> 0" "cmp_units lfn u i 1 =
        Ret (if \<forall>j<13. upper (u ! j) = upper (lfn ! (13 * k + j)) then Some (i + 13, wc) else None)"
      using cmp_units_full [of u 1 i lfn] assms(4,6) i True by auto
    have un: "u ! j = (name @ [0]) ! (13 * k + j)" if "j < 13" for j
      using that zn [of "13 * k + j"] True by (simp add: u_def)
    have m: "(\<forall>j<13. upper (u ! j) = upper (lfn ! (13 * k + j))) \<longleftrightarrow>
        (\<forall>p\<le>length name. 13 * k \<le> p \<and> p < 13 * k + 13 \<longrightarrow> upper ((name @ [0]) ! p) = upper (lfn ! p))"
      using True un shift_all [of 13 "\<lambda>p. upper ((name @ [0]) ! p) = upper (lfn ! p)" "13 * k"] by (auto simp: le_trans)
    have j: "unat (i + 13) = 13 * k + 13" using unat_add_no_wrap [of i 13] i k(1) by simp
    show ?thesis
    proof (cases "k + 1 = pieces name")
      case last: True
      then have n: "length name = 13 * k + 13" using k(3) True by simp
      have c: "cmp_lfn lfn e = Ret ((\<forall>j<13. upper (u ! j) = upper (lfn ! (13 * k + j))) \<and> lfn ! length name = 0)"
        using last n assms(4,6) r j unfolding cmp_lfn_def e(1,2) ord by (simp add: f_def LLEF_def)
      have d: "piece_matches lfn name k \<longleftrightarrow> (\<forall>p\<le>length name. 13 * k \<le> p \<and> p < 13 * k + 13 \<longrightarrow> upper ((name @ [0]) ! p) = upper (lfn ! p))
          \<and> upper 0 = upper (lfn ! length name)"
      proof -
        have "piece_matches lfn name k \<longleftrightarrow> (\<forall>p\<le>length name. 13 * k \<le> p \<longrightarrow> upper ((name @ [0]) ! p) = upper (lfn ! p))"
          using last by (simp add: piece_matches_def)
        moreover have "(name @ [0]) ! (13 * k + 13) = 0" using n nth_append_length [of name 0 "[]"] by simp
        ultimately show ?thesis using all_le_split [of "13 * k" "length name" "\<lambda>p. upper ((name @ [0]) ! p) = upper (lfn ! p)"] n by auto
      qed
      have "upper 0 = upper (lfn ! length name) \<longleftrightarrow> lfn ! length name = 0" using upper_zero by metis
      then show ?thesis by (simp only: c d m)
    next
      case False
      then have "cmp_lfn lfn e = Ret (\<forall>j<13. upper (u ! j) = upper (lfn ! (13 * k + j)))"
        using r unfolding cmp_lfn_def e(1,2) ord by (simp add: f_def)
      then show ?thesis using False m by (simp add: piece_matches_def)
    qed
  next
    case False
    obtain pad where s: "u = map (piece_unit name) [13 * k..<length name] @ 0 # pad"
      "0 \<notin> set (map (piece_unit name) [13 * k..<length name])" "set pad \<subseteq> {0xFFFF}"
      using piece_units_shape [OF assms(2) k(2)] False by (auto simp: u_def)
    define m where "m = length name - 13 * k"
    define ok where "ok \<longleftrightarrow> (\<forall>j<m. upper ((name @ [0]) ! (13 * k + j)) = upper (lfn ! (13 * k + j)))"
    obtain wc where r: "wc \<noteq> 0" "cmp_units lfn (map (piece_unit name) [13 * k..<length name]) i 1 = Ret (if ok then Some (i + of_nat m, wc) else None)"
    proof -
      define us where "us = map (piece_unit name) [13 * k..<length name]"
      have l: "length us = m" "unat i + length us \<le> 256" using k(2) assms(4) by (simp_all add: us_def m_def i)
      have o: "ok \<longleftrightarrow> (\<forall>j<m. upper (us ! j) = upper (lfn ! (unat i + j)))"
        unfolding ok_def i using zn k(2) by (auto simp: m_def us_def)
      obtain wc where "wc \<noteq> 0" "cmp_units lfn us i 1 = Ret (if ok then Some (i + of_nat m, wc) else None)"
        using cmp_units_full [OF s(2) [folded us_def] _ l(2) assms(6), of 1] unfolding l(1) o [symmetric] by auto
      then show thesis using that unfolding us_def by blast
    qed
    have j: "unat (i + of_nat m) = length name"
      using unat_add_no_wrap [of i "of_nat m"] i k assms(4) False
      by (simp add: m_def unsigned_of_nat take_bit_nat_eq_self del: of_nat_diff)
    have "cmp_units lfn u i 1 = Ret (if ok \<and> upper 0 = upper (lfn ! length name) then Some (i + of_nat m + 1, 0) else None)"
      unfolding s(1) cmp_units_append [OF r(2)] using r(1) j assms(4,6) cmp_padding [OF s(3)]
      by (simp add: FF_MAX_LFN_def ff_wtoupper_upper ff_wtoupper_upper [of 0, simplified])
    then have "cmp_lfn lfn e = Ret (ok \<and> upper 0 = upper (lfn ! length name))" unfolding cmp_lfn_def e(1,2) ord by simp
    moreover have "piece_matches lfn name k \<longleftrightarrow> ok \<and> upper 0 = upper (lfn ! length name)"
    proof -
      have "piece_matches lfn name k \<longleftrightarrow> (\<forall>p\<le>length name. 13 * k \<le> p \<longrightarrow> upper ((name @ [0]) ! p) = upper (lfn ! p))"
        using k(3) False by (auto simp: piece_matches_def)
      moreover have "ok \<longleftrightarrow> (\<forall>p<length name. 13 * k \<le> p \<longrightarrow> upper ((name @ [0]) ! p) = upper (lfn ! p))"
        using shift_all [of m "\<lambda>p. upper ((name @ [0]) ! p) = upper (lfn ! p)" "13 * k"] k(2) by (auto simp: ok_def m_def)
      ultimately show ?thesis
        using all_le_split [of "13 * k" "length name" "\<lambda>p. upper ((name @ [0]) ! p) = upper (lfn ! p)"] k(2) by simp
    qed
    ultimately show ?thesis by simp
  qed
qed


section \<open>Whole names\<close>

fun piece_entries :: "u16 list \<Rightarrow> u8 \<Rightarrow> bytes list \<Rightarrow> bool" where
  "piece_entries name chk [] \<longleftrightarrow> True"
| "piece_entries name chk (e # es) \<longleftrightarrow> piece_entry name chk (length es) e \<and> piece_entries name chk es"

lemma put_lfn_entries_ok:
  assumes "holds_name lfn name" and "0xFFFF \<notin> set name" and "length ds \<le> pieces name" and "\<forall>d\<in>set ds. length d = 32"
  shows "\<exists>es. put_lfn_entries lfn chk ds = Ret es \<and> length es = length ds \<and> piece_entries name chk es"
  using assms(3,4)
proof (induction ds)
  case (Cons d ds)
  obtain es where es: "put_lfn_entries lfn chk ds = Ret es" "length es = length ds" "piece_entries name chk es"
    using Cons by auto
  obtain e where "put_lfn lfn d (of_nat (Suc (length ds))) chk = Ret e" "piece_entry name chk (length ds) e"
    using put_lfn_ok [OF assms(1,2), of "length ds" d chk] Cons.prems by auto
  then show ?case using es by simp
qed simp

text \<open>The order byte of a piece, as the two loops take it apart.\<close>

lemma piece_order:
  assumes "piece_entry name chk k e" and "k < 20"
  shows "e ! LDIR_Ord AND LLEF \<noteq> 0 \<longleftrightarrow> k + 1 = pieces name" "e ! LDIR_Ord AND NOT LLEF = of_nat (k + 1)"
    "k + 1 \<noteq> pieces name \<Longrightarrow> e ! LDIR_Ord = of_nat (k + 1)" "e ! LDIR_Chksum = chk"
proof -
  define f where "f = (if k + 1 = pieces name then LLEF else 0)"
  have e: "e ! LDIR_Ord = of_nat (k + 1) OR f" "e ! LDIR_Chksum = chk" using assms(1) by (simp_all add: piece_entry_def f_def)
  have b: "f = 0 \<or> f = LLEF" "LLEF \<noteq> 0" by (simp_all add: f_def LLEF_def)
  show "e ! LDIR_Ord AND LLEF \<noteq> 0 \<longleftrightarrow> k + 1 = pieces name"
    unfolding e(1) ord_bits(3) [OF assms(2) b(1)] using b(2) by (simp add: f_def)
  show "e ! LDIR_Ord AND NOT LLEF = of_nat (k + 1)" unfolding e(1) by (rule ord_bits(1) [OF assms(2) b(1)])
  show "e ! LDIR_Ord = of_nat (k + 1)" if "k + 1 \<noteq> pieces name" unfolding e(1) f_def if_not_P [OF that] by simp
  show "e ! LDIR_Chksum = chk" by (rule e(2))
qed

lemma read_piece:
  assumes "piece_entry name chk k e" and "k < 20" and "k + 1 = pieces name \<or> ord = of_nat (k + 1) \<and> c = chk"
    and "pick_lfn lfn e = Ret (True, lfn')"
  shows "read_lfn_entry e (ord, c, lfn) = Ret (of_nat k, chk, lfn')"
  using assms(3,4) piece_order [OF assms(1,2)]
  by (cases "k + 1 = pieces name") (simp_all add: read_lfn_entry_def Let_def)

lemma find_piece:
  assumes "piece_entry name chk k e" and "k < 20" and "k + 1 = pieces name \<or> ord = of_nat (k + 1) \<and> c = chk"
    and "cmp_lfn lfn e = Ret ok"
  shows "find_lfn_entry lfn e (ord, c) = Ret (if ok then of_nat k else 0xFF, chk)"
  using assms(3,4) piece_order [OF assms(1,2)]
  by (cases "k + 1 = pieces name") (simp_all add: find_lfn_entry_def Let_def)


lemma read_lfn_entries_ok:
  assumes "0 \<notin> set name" and "0 < length name" "length name \<le> 255" and "piece_entries name chk es" and "length es \<le> pieces name"
    and "length lfn = 256" and "length es = pieces name \<or> ord = of_nat (length es) \<and> c = chk \<and> (\<forall>p\<le>length name. 13 * length es \<le> p \<longrightarrow> lfn ! p = (name @ [0]) ! p)"
  shows "\<exists>lfn'. read_lfn_entries es (ord, c, lfn) = Ret (0, chk, lfn') \<and> length lfn' = 256 \<and> (\<forall>p\<le>length name. lfn' ! p = (name @ [0]) ! p)"
  using assms(4-7)
proof (induction es arbitrary: ord c lfn)
  case Nil
  then show ?case using pieces_bounds(1) [OF assms(2,3)] by auto
next
  case (Cons e es)
  define k where "k = length es"
  have k: "k < pieces name" "k < 20" "piece_entry name chk k e"
    using Cons.prems(1,2) pieces_bounds(2) [OF assms(2,3)] by (auto simp: k_def)
  obtain l where l: "pick_lfn lfn e = Ret (True, l)" "length l = 256"
    "\<forall>p\<le>length name. 13 * k \<le> p \<and> (p < 13 * k + 13 \<or> k + 1 = pieces name) \<longrightarrow> l ! p = (name @ [0]) ! p"
    "k + 1 < pieces name \<longrightarrow> (\<forall>p<256. 13 * k + 13 \<le> p \<longrightarrow> l ! p = lfn ! p)"
    using pick_piece [OF k(3) assms(1-3) k(1) Cons.prems(3)] by blast
  have r: "read_lfn_entry e (ord, c, lfn) = Ret (of_nat k, chk, l)"
    using read_piece [OF k(3,2) _ l(1), of ord c] Cons.prems(4) by (auto simp: k_def)
  have "l ! p = (name @ [0]) ! p" if "p \<le> length name" "13 * k \<le> p" for p
  proof (cases "p < 13 * k + 13 \<or> k + 1 = pieces name")
    case False
    then have "k + 1 < pieces name" "13 * k + 13 \<le> p" using k(1) by auto
    then have "l ! p = lfn ! p" using l(4) that(1) assms(3) by simp
    then show ?thesis using Cons.prems(4) that(1) \<open>13 * k + 13 \<le> p\<close> \<open>k + 1 < pieces name\<close> by (auto simp: k_def)
  qed (use l(3) that in blast)
  then show ?case using Cons.IH [of l "of_nat k" chk] Cons.prems(1,2) l(2) r by (simp add: k_def)
qed

lemma find_dead:
  assumes "piece_entries name chk es" and "length es < pieces name" and "pieces name \<le> 20"
  shows "find_lfn_entries lfn es (0xFF, chk) = Ret (0xFF, chk)"
  using assms(1,2)
proof (induction es)
  case (Cons e es)
  define k where "k = length es"
  have k: "k + 1 < pieces name" "k < 20" "piece_entry name chk k e" using Cons.prems assms(3) by (auto simp: k_def)
  then have "e ! LDIR_Ord = of_nat (k + 1)" "\<not> e ! LDIR_Ord AND LLEF \<noteq> 0" using piece_order(1,3) [OF k(3,2)] by auto
  moreover have "(of_nat (k + 1) :: u8) \<noteq> 0xFF"
  proof
    assume "(of_nat (k + 1) :: u8) = 0xFF"
    then have "unat (of_nat (k + 1) :: u8) = 255" by (simp only: unat_numeral) simp
    then show False using k(2) by (simp add: unsigned_of_nat take_bit_nat_eq_self del: of_nat_add of_nat_Suc)
  qed
  ultimately have "find_lfn_entry lfn e (0xFF, chk) = Ret (0xFF, chk)" by (simp add: find_lfn_entry_def Let_def)
  then show ?case using Cons by simp
qed simp

lemma find_lfn_entries_ok:
  assumes "0 \<notin> set name" and "0 < length name" "length name \<le> 255" and "piece_entries name chk es" and "length es \<le> pieces name"
    and "length lfn = 256" and "length es = pieces name \<or> ord = of_nat (length es) \<and> c = chk"
  shows "find_lfn_entries lfn es (ord, c) = Ret (if \<forall>k<length es. piece_matches lfn name k then 0 else 0xFF, chk)"
  using assms(4,5,7)
proof (induction es arbitrary: ord c)
  case Nil
  then show ?case using pieces_bounds(1) [OF assms(2,3)] by auto
next
  case (Cons e es)
  define k where "k = length es"
  have k: "k < pieces name" "k < 20" "piece_entry name chk k e"
    using Cons.prems(1,2) pieces_bounds(2) [OF assms(2,3)] by (auto simp: k_def)
  have r: "find_lfn_entry lfn e (ord, c) = Ret (if piece_matches lfn name k then of_nat k else 0xFF, chk)"
    using find_piece [OF k(3,2) _ cmp_piece [OF k(3) assms(1-3) k(1) assms(6)], of ord c] Cons.prems(3) by (auto simp: k_def)
  show ?case
  proof (cases "piece_matches lfn name k")
    case True
    then show ?thesis using Cons.IH [of "of_nat k" chk] Cons.prems(1,2) r by (auto simp: k_def less_Suc_eq)
  next
    case False
    then show ?thesis using find_dead [of name chk es lfn] Cons.prems(1,2) r pieces_bounds(2) [OF assms(2,3)] by (auto simp: k_def)
  qed
qed

lemma all_pieces_match:
  assumes "holds_name lfn name'" and "0 \<notin> set name" and "0 < length name" "length name \<le> 255"
  shows "(\<forall>k<pieces name. piece_matches lfn name k) \<longleftrightarrow> same_name name name'"
proof -
  have z: "0 \<notin> set name'" "length name' \<le> 255" using assms(1) by (simp_all add: holds_name_def)
  have lp: "lfn ! p = (name' @ [0]) ! p" if "p \<le> length name'" for p using holds_nth [OF assms(1) that] .
  have "(\<forall>k<pieces name. piece_matches lfn name k) \<longleftrightarrow> (\<forall>p\<le>length name. upper ((name @ [0]) ! p) = upper (lfn ! p))"
  proof
    assume m: "\<forall>k<pieces name. piece_matches lfn name k"
    show "\<forall>p\<le>length name. upper ((name @ [0]) ! p) = upper (lfn ! p)"
    proof (intro allI impI)
      fix p assume p: "p \<le> length name"
      define k where "k = min (p div 13) (pieces name - 1)"
      have "k < pieces name" "13 * k \<le> p" "p < 13 * k + 13 \<or> k + 1 = pieces name"
        using pieces_bounds [OF assms(3,4)] p by (auto simp: k_def min_def split: if_splits)
      then show "upper ((name @ [0]) ! p) = upper (lfn ! p)" using m p unfolding piece_matches_def by blast
    qed
  qed (simp add: piece_matches_def)
  also have "\<dots> \<longleftrightarrow> same_name name name'"
  proof
    assume a: "\<forall>p\<le>length name. upper ((name @ [0]) ! p) = upper (lfn ! p)"
    have nz: "upper x \<noteq> upper 0" if "x \<in> set name \<or> x \<in> set name'" for x using that z(1) assms(2) upper_zero [of x] by auto
    have "length name = length name'"
    proof (rule linorder_cases [of "length name" "length name'"])
      assume l: "length name < length name'"
      then have "upper 0 = upper (name' ! length name)" using a [rule_format, of "length name"] lp [of "length name"] by (simp add: nth_append)
      then show ?thesis using nz [of "name' ! length name"] l by auto
    next
      assume l: "length name' < length name"
      then have "upper (name ! length name') = upper 0" using a [rule_format, of "length name'"] lp [of "length name'"] by (simp add: nth_append)
      then show ?thesis using nz [of "name ! length name'"] l by auto
    qed
    moreover from this have "upper (name ! p) = upper (name' ! p)" if "p < length name" for p
      using a [rule_format, of p] lp [of p] that by (simp add: nth_append)
    ultimately show "same_name name name'" by (auto simp: same_name_def intro: nth_equalityI)
  next
    assume s: "same_name name name'"
    then have l: "length name = length name'" unfolding same_name_def by (rule map_eq_imp_length_eq)
    have "upper (name ! p) = upper (name' ! p)" if "p < length name" for p
      using s that l unfolding same_name_def by (metis nth_map)
    then show "\<forall>p\<le>length name. upper ((name @ [0]) ! p) = upper (lfn ! p)" using lp l by (auto simp: nth_append)
  qed
  finally show ?thesis .
qed


section \<open>Properties\<close>

text \<open>C40: A long name of up to 255 units that \<open>dir_register\<close> stores, in the entries ahead of the short
  name, is the name that \<open>dir_read\<close> finds there: at the short name no piece is missing (the order is 0),
  the checksum is the one stored, and the buffer holds the name, whatever it held before.\<close>

theorem long_name_roundtrip:
  assumes "holds_name lfn name" and "0xFFFF \<notin> set name"
    and "length ds = pieces name" and "\<forall>d\<in>set ds. length d = 32" and "length buf = 256"
  shows "\<exists>es buf'. put_lfn_entries lfn chk ds = Ret es \<and> read_lfn_entries es (0xFF, 0xFF, buf) = Ret (0, chk, buf') \<and> holds_name buf' name"
proof -
  have n: "0 < length name" "length name \<le> 255" "0 \<notin> set name" using assms(1) by (simp_all add: holds_name_def)
  obtain es where es: "put_lfn_entries lfn chk ds = Ret es" "length es = length ds" "piece_entries name chk es"
    using put_lfn_entries_ok [OF assms(1,2)] assms(3,4) by (metis order_refl)
  obtain l where l: "read_lfn_entries es (0xFF, 0xFF, buf) = Ret (0, chk, l)" "length l = 256" "\<forall>p\<le>length name. l ! p = (name @ [0]) ! p"
    using read_lfn_entries_ok [OF n(3,1,2) es(3), where lfn = buf and ord = "0xFF" and c = "0xFF"] es(2) assms(3,5) by auto
  have "take (length name + 1) l = name @ [0]" using l(2,3) n(2) by (intro nth_equalityI) auto
  then show ?thesis using es(1) l n by (auto simp: holds_name_def)
qed

text \<open>C34: \<open>dir_find\<close> recognises a stored long name, whatever the case of its letters, and no other name:
  at the short name the order is 0 exactly when the two names are equal up to case.\<close>

theorem long_name_found:
  assumes "holds_name lfn name" and "0xFFFF \<notin> set name"
    and "length ds = pieces name" and "\<forall>d\<in>set ds. length d = 32" and "holds_name lfn' name'"
  shows "\<exists>es. put_lfn_entries lfn chk ds = Ret es
    \<and> find_lfn_entries lfn' es (0xFF, 0xFF) = Ret (if same_name name name' then 0 else 0xFF, chk)"
proof -
  have n: "0 < length name" "length name \<le> 255" "0 \<notin> set name" "length lfn' = 256" using assms(1,5) by (simp_all add: holds_name_def)
  obtain es where es: "put_lfn_entries lfn chk ds = Ret es" "length es = length ds" "piece_entries name chk es"
    using put_lfn_entries_ok [OF assms(1,2)] assms(3,4) by (metis order_refl)
  have "find_lfn_entries lfn' es (0xFF, 0xFF) = Ret (if \<forall>k<pieces name. piece_matches lfn' name k then 0 else 0xFF, chk)"
    using find_lfn_entries_ok [OF n(3,1,2) es(3) _ n(4), where ord = "0xFF" and c = "0xFF"] es(2) assms(3) by simp
  then show ?thesis using es(1) all_pieces_match [OF assms(5) n(3,1,2)] by simp
qed

text \<open>The names \<open>Ab\<close> and \<open>aB\<close> in their buffers.\<close>

definition example_lfn :: "u16 list \<Rightarrow> u16 list" where
  "example_lfn name = name @ replicate (256 - length name) 0"

lemma example_holds: "holds_name (example_lfn [0x41, 0x62]) [0x41, 0x62]" "holds_name (example_lfn [0x61, 0x42]) [0x61, 0x42]"
  by (simp_all add: holds_name_def example_lfn_def)

theorem long_name_roundtrip_witness:
  "\<exists>es buf'. put_lfn_entries (example_lfn [0x41, 0x62]) 7 [replicate 32 0] = Ret es
    \<and> read_lfn_entries es (0xFF, 0xFF, replicate 256 9) = Ret (0, 7, buf') \<and> holds_name buf' [0x41, 0x62]"
  by (rule long_name_roundtrip [OF example_holds(1)]) (simp_all add: pieces_def)

theorem long_name_found_witness:
  "\<exists>es. put_lfn_entries (example_lfn [0x41, 0x62]) 7 [replicate 32 0] = Ret es
    \<and> find_lfn_entries (example_lfn [0x61, 0x42]) es (0xFF, 0xFF) = Ret (0, 7)"
proof -
  have "same_name [0x41, 0x62] [0x61, 0x42]" by code_simp
  then show ?thesis using long_name_found [OF example_holds(1) _ _ _ example_holds(2), of "[replicate 32 0]" 7]
    by (simp add: pieces_def)
qed

text \<open>
  The unit 0xFFFF in a name is taken for the padding: the rest of the name is lost, and the name is
  not found again.
\<close>

lemma upper_examples: "upper 0xFFFF = 0xFFFF" "upper 0x62 = 0x42"
  by (simp_all add: upper_def ff_wtoupper_def Let_def up_scan.simps [of "_ # _"] cvt1_def cvt2_def up_command_def)


lemma padding_unit_lost:
  "cbind (put_lfn_entries (example_lfn [0x61, 0xFFFF, 0x62]) 7 [replicate 32 0])
     (\<lambda>es. find_lfn_entries (example_lfn [0x61, 0xFFFF, 0x62]) es (0xFF, 0xFF)) = Ret (0xFF, 7)"
proof -
  define l where "l = example_lfn [0x61, 0xFFFF, 0x62]"
  have l: "length l = 256" "l ! 0 = 0x61" "l ! 1 = 0xFFFF" "l ! 2 = 0x62" by (simp_all add: l_def example_lfn_def)
  define d where "d = st_word ((replicate 32 0)[LDIR_Chksum := 7, LDIR_Attr := AM_LFN, LDIR_Type := 0]) LDIR_FstClusLO 0"
  define us where "us = [0x61, 0xFFFF, 0xFFFF, 0xFFFF, 0xFFFF, 0xFFFF, 0xFFFF, 0xFFFF, 0xFFFF, 0xFFFF, 0xFFFF, 0xFFFF, 0xFFFF :: u16]"
  have "put_units l LfnOfs 0 0 d = Ret (2, 0xFFFF, st_words LfnOfs us d)"
    using l by (simp add: LfnOfs_def us_def)
  define e where "e = (st_words LfnOfs us d)[LDIR_Ord := 1 OR LLEF]"
  have p: "put_lfn l (replicate 32 0) 1 7 = Ret e"
    using \<open>put_units l LfnOfs 0 0 d = _\<close> by (simp add: put_lfn_def Let_def d_def e_def)
  have e: "e ! LDIR_Ord = 0x41" "e ! LDIR_Chksum = 7" "ld_word e LDIR_FstClusLO = 0"
    by (simp_all add: e_def d_def us_def LfnOfs_def lfn_consts st_word_def ld_word_def)
  have u: "map (ld_word e) LfnOfs = us"
  proof -
    have "ld_word e ofs = ld_word (st_words LfnOfs us d) ofs" if "ofs \<in> set LfnOfs" for ofs
      using that LfnOfs_apart(2) by (intro ld_word_same) (auto simp: e_def LDIR_Ord_def)
    then show ?thesis using ld_st_words [OF LfnOfs_apart(1), of us d] LfnOfs_apart(2,3) by (simp add: d_def us_def cong: map_cong)
  qed
  have "cmp_units l us 0 1 = Ret None"
  proof -
    have "upper (us ! 2) \<noteq> upper (l ! 2)" "2 < length us" using l(4) upper_examples by (simp_all add: us_def)
    moreover have "unat (0 :: u32) + 2 = 2" by simp
    ultimately have n: "\<not> (\<forall>j<length us. upper (us ! j) = upper (l ! (unat (0 :: u32) + j)))" by metis
    have "0 \<notin> set us" "unat (0 :: u32) + length us \<le> 256" by (simp_all add: us_def)
    from cmp_units_full [OF this(1) _ this(2) l(1), of 1] show ?thesis unfolding if_not_P [OF n] by simp
  qed
  then have "cmp_lfn l e = Ret False" by (simp add: cmp_lfn_def e u)
  then show ?thesis using p by (simp add: find_lfn_entry_def e LLEF_def Let_def flip: l_def)
qed


section \<open>Numbered short names\<close>

lemma append_suffix_eq:
  "j < 8 \<Longrightarrow> j + length ns \<le> 8 \<Longrightarrow> 8 \<le> length dst \<Longrightarrow>
   append_suffix j ns dst = take j dst @ ns @ replicate (8 - j - length ns) 0x20 @ drop 8 dst"
proof (induction j ns dst rule: append_suffix.induct)
  case (1 j ns dst)
  define c where "c = (case ns of [] \<Rightarrow> 0x20 | c # _ \<Rightarrow> c)"
  have t: "take (j + 1) (dst[j := c]) = take j dst @ [c]" using 1(2,4) by (simp add: take_Suc_conv_app_nth)
  have n: "c # tl ns @ replicate (8 - (j + 1) - length (tl ns)) 0x20 = ns @ replicate (8 - j - length ns) 0x20"
    using 1(2,3) by (cases ns) (simp_all add: c_def flip: replicate_Suc)
  show ?case
  proof (cases "j + 1 < 8")
    case True
    have "j + 1 + length (tl ns) \<le> 8" using 1(3) True by (cases ns) auto
    then have "append_suffix (j + 1) (tl ns) (dst[j := c]) =
        take (j + 1) (dst[j := c]) @ tl ns @ replicate (8 - (j + 1) - length (tl ns)) 0x20 @ drop 8 (dst[j := c])"
      using 1(1) [OF refl _ True] True 1(4) by (simp add: c_def)
    then have "append_suffix j ns dst = take j dst @ (c # tl ns @ replicate (8 - (j + 1) - length (tl ns)) 0x20) @ drop 8 dst"
      using True 1(2) unfolding t by (subst append_suffix.simps) (simp add: c_def)
    then show ?thesis unfolding n by simp
  next
    case False
    then have "j = 7" using 1(2) by simp
    moreover have "length ns \<le> 1" using 1(3) \<open>j = 7\<close> by simp
    ultimately show ?thesis using 1(4)
      by (subst append_suffix.simps) (auto simp: c_def upd_conv_take_nth_drop split: list.split)
  qed
qed

text \<open>The first five numbered names that \<open>dir_register\<close> tries for one name are pairwise different, keep
  the extension and the status byte, and have the number behind a tilde in the body.\<close>

theorem numbered_names:
  assumes "length src = 12" and "length dst = 12" and "1 \<le> n" "n \<le> 5"
  shows "\<exists>body fill. gen_numname dst src lfn n = Ret (body @ [0x7E, 0x30 + ucast n] @ fill @ slice src 8 3 @ drop 11 dst)
    \<and> length body + 2 + length fill = 8 \<and> (\<forall>m. 1 \<le> m \<and> m \<le> 5 \<and> m \<noteq> n \<longrightarrow> gen_numname dst src lfn m \<noteq> gen_numname dst src lfn n)"
proof -
  define d where "d = take 11 src @ drop 11 dst"
  define j where "j = length (takeWhile (\<lambda>c. c \<noteq> 0x20) (take 6 d))"
  define fill where "fill = replicate (8 - j - 2) (0x20 :: u8)"
  have d: "length d = 12" "drop 8 d = slice src 8 3 @ drop 11 dst" using assms(1,2) by (simp_all add: d_def slice_def drop_take)
  have j: "j \<le> 6" using length_takeWhile_le [of "\<lambda>c. c \<noteq> 0x20" "take 6 d"] by (simp add: j_def d)
  have r: "gen_numname dst src lfn m = Ret (take j d @ [0x7E, 0x30 + ucast m] @ fill @ slice src 8 3 @ drop 11 dst)"
    and five: "m = 1 \<or> m = 2 \<or> m = 3 \<or> m = 4 \<or> m = 5" if "1 \<le> m" "m \<le> 5" for m :: u32
  proof -
    have "unat m = 1 \<or> unat m = 2 \<or> unat m = 3 \<or> unat m = 4 \<or> unat m = 5" using that by (auto simp: word_le_nat_alt)
    then have m: "m = 1 \<or> m = 2 \<or> m = 3 \<or> m = 4 \<or> m = 5" by (simp add: word_unat_eq_iff)
    have ns: "number_suffix 7 m [] = [0x7E, 0x30 + ucast m]"
    proof -
      have "number_suffix (Suc 6) m [] = [0x7E, 0x30 + ucast m]"
        unfolding number_suffix.simps Let_def hex_digit_def using m by (elim disjE) simp_all
      then show ?thesis by simp
    qed
    show "gen_numname dst src lfn m = Ret (take j d @ [0x7E, 0x30 + ucast m] @ fill @ slice src 8 3 @ drop 11 dst)"
      using m append_suffix_eq [of j "[0x7E, 0x30 + ucast m]" d] j d
      by (simp add: gen_numname_def Let_def ns flip: d_def) (auto simp: j_def fill_def)
    show "m = 1 \<or> m = 2 \<or> m = 3 \<or> m = 4 \<or> m = 5" by (rule m)
  qed
  have "gen_numname dst src lfn m \<noteq> gen_numname dst src lfn n" if m: "1 \<le> m" "m \<le> 5" "m \<noteq> n" for m
    using r [OF m(1,2)] r [OF assms(3,4)] five [OF m(1,2)] five [OF assms(3,4)] m(3) by auto
  moreover have "length (take j d) + 2 + length fill = 8" using j d by (simp add: fill_def)
  ultimately show ?thesis using r [OF assms(3,4)] by blast
qed


theorem numbered_names_witness:
  "\<exists>body fill. gen_numname (replicate 12 0) ([0x4C, 0x4F, 0x4E, 0x47, 0x4E, 0x41, 0x4D, 0x45, 0x54, 0x58, 0x54, 1]) [] 2
     = Ret (body @ [0x7E, 0x32] @ fill @ [0x54, 0x58, 0x54, 0])"
proof -
  let ?src = "[0x4C, 0x4F, 0x4E, 0x47, 0x4E, 0x41, 0x4D, 0x45, 0x54, 0x58, 0x54, 1] :: bytes"
  have "slice ?src 8 3 = [0x54, 0x58, 0x54]" "drop 11 (replicate 12 0) = [0 :: u8]" by (simp_all add: slice_def)
  moreover have "(0x30 + ucast (2 :: u32) :: u8) = 0x32" by simp
  moreover have "length ?src = 12" "length (replicate 12 0 :: bytes) = 12" "1 \<le> (2 :: u32)" "(2 :: u32) \<le> 5" by simp_all
  ultimately show ?thesis using numbered_names [of ?src "replicate 12 0" 2 "[]"] by auto
qed

end
