(* ===== verification/Spec2Isabelle.thy ===== *)
theory Spec2Isabelle
  imports Memory_Manager Posix_Stubs Host_Enclave Jvm_Lifecycle Enclave_Native
    Pthread_Attrs Ctype_Tables Enclave_Console Fat_File_Errors Fat_Lfn
begin

text \<open>
  \<^bold>\<open>The native runtime of Conclave enclaves.\<close>

  Conclave runs a Java virtual machine (GraalVM native image) inside an SGX enclave. The C++ code
  under \<open>src/cpp\<close> gives that machine the operating system it expects: memory mapping, files, clock,
  threads, and the calls between the enclave and the host. This development models that code and
  proves what it promises, and states where it does not keep the promise.

  \<^bold>\<open>How the parts interact.\<close> Java code calls the C library stubs (\<open>jvm-enclave-common/stubs\<close>). Memory
  mapping goes to the memory manager. Files go to the special files and then to the filesystem
  entry points, which route a path or a handle to one of at most two filesystems; a filesystem is a
  POSIX layer over FatFs, whose sectors are on a RAM drive or on an encrypted drive, whose sectors
  are in a file of the host, reached by OCalls and a JNI bridge. Time comes from a block of host
  memory, threads from the host, and Java methods of the enclave seal data and send messages to the
  host through native methods.

  \<^bold>\<open>Theories and sources\<close> (below \<open>src/cpp\<close>).

  \<^item> \<open>Conclave_Prelude\<close>, \<open>Std_Map\<close>: machine integers, the outcome of a C++ call (it returns, throws,
    deadlocks on its own mutex, aborts the enclave or is undefined), byte buffers, hash maps and
    ordered maps; the locale \<open>kept_invariant\<close>, which every transition system below interprets.
  \<^item> \<open>Memory_Manager\<close>: \<open>jvm-enclave-common/src/memory_manager.cpp\<close> and the \<open>mmap\<close> stubs. Regions are an
    ordered map; any sequence of calls keeps them well formed and apart, fixed allocation succeeds
    exactly inside a region, piecewise unmapping releases each buffer once.
  \<^item> \<open>Disk_Types\<close>, \<open>InMemory_Disk\<close>, \<open>Persistent_Disk\<close>, \<open>Host_Bridge\<close>, \<open>Disk_Registry\<close>:
    \<open>fatfs/enclave/src/disk.cpp\<close>, \<open>inmemory_disk.cpp\<close>, \<open>persistent_disk.cpp\<close>, the host's
    \<open>fatfs/host/src/persistent_disk.cpp\<close> with \<open>host_jni.cpp\<close> and \<open>FileSystemHandler.kt\<close>, and
    \<open>fatfs/common/src/diskio.cpp\<close>. The locale \<open>sector_store\<close> is the contract of a drive, an array of
    sectors; both drives interpret it. The encrypted drive accepts from the host only encryptions
    under the key and the sector number, and its sector shuffling is a permutation.
  \<^item> \<open>Fat_Volume\<close>, \<open>Fat_Table\<close>, \<open>Fat_Chain\<close>: the lower half of \<open>fatfs/common/src/ff.cpp\<close>. The one-sector
    window and its write-back, the allocation table in its three widths as an array of entries, and
    cluster chains: allocating, extending, following and freeing them. The locale \<open>sector_device\<close> is
    what FatFs asks of \<open>diskio\<close>; the RAM drive interprets it.
  \<^item> \<open>Fat_File\<close>, \<open>Fat_File_Data\<close>, \<open>Fat_File_Read\<close>, \<open>Fat_File_Write\<close>, \<open>Fat_File_Seek\<close>, \<open>Fat_File_Sync\<close>: open
    files of \<open>ff.cpp\<close>, with \<open>f_read\<close>, \<open>f_write\<close>, \<open>f_lseek\<close>, \<open>f_truncate\<close>, \<open>f_sync\<close> and \<open>f_close\<close>. A file is a list
    of bytes, spread over a chain of clusters, with the sector under the pointer in the file's own
    buffer; each call is proved to do on the list what it says. \<open>Fat_File_Props\<close> states this without
    the internal state; \<open>Fat_File_Errors\<close> has a file's sticky error code and the well-formedness of
    every call's result.
  \<^item> \<open>Fat_Unicode\<close>: the characters of names, in \<open>ff.cpp\<close> and \<open>fatfs/common/src/ffunicode.cpp\<close>. UTF-8 is
    decoded as it was encoded, code page 437 is a bijection, and up-casing stays inside its tables.
  \<^item> \<open>Fat_Lfn\<close>: long names in \<open>ff.cpp\<close>. A name is stored in pieces, read back from them and found again,
    whatever its case; numbered short names differ.
  \<^item> \<open>FatFs_File_Manager\<close>, \<open>File_Manager_Invariant\<close>, \<open>File_Manager_Props\<close>:
    \<open>fatfs/common/src/fatfs_file_manager.cpp\<close>. The tables of handles, paths and directories; every
    call of every member function keeps them consistent and releases the mutex.
  \<^item> \<open>Fs_Api\<close>: \<open>fatfs/enclave/src/api.cpp\<close>. Setup of the filesystems and routing of paths and handles.
  \<^item> \<open>Special_Files\<close>, \<open>Posix_Stubs\<close>: \<open>jvm-enclave-common/src/file_manager.cpp\<close> and the stubs \<open>unistd\<close>,
    \<open>fcntl\<close>, \<open>stdio\<close>, \<open>dirent\<close> and \<open>sys_stat\<close>. Which handle belongs to whom, and what the stubs make of
    the results of the entry points.
  \<^item> \<open>Enclave_Clock\<close>, \<open>Host_Clock\<close>: \<open>enclave_shared_data.cpp\<close>, \<open>host_shared_data.cpp\<close>, the stubs \<open>time\<close>,
    \<open>sys_time\<close> and \<open>pthread_cond_timedwait\<close>. A step relation for any number of threads and an arbitrary
    host: the clock runs forward, the block's address is checked and fixed, every call ends.
  \<^item> \<open>Enclave_Threads\<close>: \<open>enclave_thread.cpp\<close>. A step relation for creators, host threads and shutdown.
  \<^item> \<open>Host_Enclave\<close>: \<open>jvm-host/src/host_jni.cpp\<close> (creating, destroying and calling enclaves, the OCalls
    that come back), \<open>ecall_context.cpp\<close>, \<open>host_start_thread.cpp\<close> and \<open>substratevm/src/edl.cpp\<close>. Nested
    calls are trees; every OCall is attributed to the enclave that made it.
  \<^item> \<open>Jvm_Lifecycle\<close>: \<open>substratevm/src/substrate_jvm.cpp\<close>. Attaching, detaching and closing.
  \<^item> \<open>Enclave_Native\<close>: \<open>jvm-enclave-common/src/enclave_jni.cpp\<close>. Sealing, reports, keys and messages to
    the host.
  \<^item> \<open>Pthread_Attrs\<close>, \<open>Ctype_Tables\<close>, \<open>Enclave_Console\<close>: \<open>stubs/pthread.cpp\<close>, \<open>stubs/ctype.cpp\<close> and
    \<open>jvm-host/src/enclave_console.cpp\<close>.

  \<^bold>\<open>Parameters.\<close> Code that is not part of the repository is an argument of the
  definitions that use it, with its documented behaviour as a hypothesis: \<open>memalign\<close>
  (\<open>memalign_contract\<close>), AES-GCM and the shuffle of the C++ library
  (\<open>gcm_laws\<close>, \<open>shuffle_permutes\<close>), the sealing functions of the SGX SDK
  (\<open>seal_laws\<close>, \<open>memcpy_laws\<close>), JNI, \<open>mblen\<close>, and GraalVM,
  whose functions the step relation of \<open>Jvm_Lifecycle\<close> uses as
  \<open>graal_isolate.h\<close> documents them. The file manager calls FatFs through the record
  \<open>fatfs\<close>, arbitrary in all its invariants, since it relies on names, directories and
  mounting too. The host is arbitrary wherever the enclave must not trust it. Each property with a
  hypothesis has a witness, in which the parameters are concrete functions.

  \<^bold>\<open>Bounds.\<close> Integers have the width of the code. Loops that the code bounds are
  total functions. The loop of \<open>Enclave_Console\<close> has a number of rounds as an argument,
  and one round per byte is proved to be enough. The loops of \<open>ff.cpp\<close> that move bytes
  have one round per byte and one more, the loops along a chain as many rounds as the table has
  entries; running out is the outcome \<open>Deadlock\<close>, which the properties exclude for
  every well-formed file. Waiting on a condition variable or a spin lock is a step that is enabled
  when the condition holds.

  \<^bold>\<open>Not modelled.\<close> Of FatFs, the directories, mounting and formatting, the
  tables of other code pages in \<open>ffunicode.cpp\<close>, and everything
  \<open>ffconf.hpp\<close> switches off (exFAT, \<open>FF_FS_TINY\<close>, locks). The quoting
  methods of \<open>host_jni.cpp\<close> and \<open>dcap.cpp\<close> are glue between JNI and
  Intel's libraries; \<open>cpu_info.cpp\<close> and \<open>sgx_cap.cpp\<close> read processor flags
  whose numbering is defined in SDK headers; \<open>sgx_errors.cpp\<close> is a table of messages.
  The formatted output of \<open>stdio.cpp\<close> and the stubs that only fail to link are not
  modelled either. Java and Kotlin code is modelled only where the bridge ends in it
  (\<open>FileSystemHandler.kt\<close>).

  This theory holds the properties that span components.
\<close>

section \<open>Formatting a drive\<close>

text \<open>The OCall that \<open>getInitializationType\<close> makes, answered by the host's bridge.\<close>

definition bridge_size_ocall :: "jni \<Rightarrow> u8 \<Rightarrow> u8 \<Rightarrow> u64 \<Rightarrow> fs_host \<Rightarrow> int option \<times> fs_host" where
  "bridge_size_ocall J mode drive persistent_size h =
     (case host_disk_get_size_ocall J mode drive persistent_size h of (n, h') \<Rightarrow> (Some n, h'))"

lemma getDriveSize_keeps_file:
  assumes "hfile h \<noteq> []" and "fsh_getDriveSize mode n h = (r, e, h')"
  shows "hfile h' = hfile h \<and> (e \<or> r = int (unat n))"
  using assms by (auto simp: fsh_getDriveSize_def Let_def split: if_split_asm)

text \<open>C38: Whatever fails on the way through the bridge, the drive of an existing file is never
  formatted and the file is left as it is: it is opened when its header matches and refused
  otherwise. An empty file is given its header and formatted.\<close>

theorem existing_drive_not_formatted:
  assumes "n \<noteq> 0" and "getInitializationType (bridge_size_ocall J mode) drive n h = (t, h')"
  shows "if hfile h \<noteq> [] then t \<in> {OPEN, INIT_ERROR} \<and> hfile h' = hfile h
    else t \<in> {FORMAT, INIT_ERROR} \<and> (t = FORMAT \<longrightarrow> length (hfile h') = 14)"
proof -
  have n: "uint n \<noteq> 0" "uint n \<noteq> - 1" using assms(1) uint_ge_0 [of n] by (simp add: unsigned_eq_0_iff, linarith)
  obtain r e h2 where g: "fsh_getDriveSize mode n (h\<lparr>attached := attached h + 1\<rparr>) = (r, e, h2)" by (metis prod_cases3)
  show ?thesis
  proof (cases "hfile h = []")
    case True
    then have "r = 0" "\<not> e" "length (hfile h2) = 14" using g by (auto simp: fsh_getDriveSize_def VERSION_1_HEADER_SIZE_def)
    then show ?thesis using True assms(2) g
      by (auto simp: getInitializationType_def bridge_size_ocall_def host_disk_get_size_ocall_def host_disk_get_size_def
          Let_def detach_def split: if_split_asm)
  next
    case False
    have f: "hfile h2 = hfile h" "e \<or> r = int (unat n)"
      using getDriveSize_keeps_file [OF _ g] False by simp_all
    then show ?thesis using False assms(2) g n
      by (auto simp: getInitializationType_def bridge_size_ocall_def host_disk_get_size_ocall_def host_disk_get_size_def
          Let_def detach_def split: if_split_asm)
  qed
qed

theorem existing_drive_not_formatted_witness:
  "fst (getInitializationType (bridge_size_ocall jni_up 2) 0 1048576 \<lparr>hfile = [7], header_size = 0, attached = 0\<rparr>) \<in> {OPEN, INIT_ERROR}"
  using existing_drive_not_formatted [of 1048576 jni_up 2 0 "\<lparr>hfile = [7], header_size = 0, attached = 0\<rparr>"]
  by (cases "getInitializationType (bridge_size_ocall jni_up 2) 0 1048576 \<lparr>hfile = [7], header_size = 0, attached = 0\<rparr>") simp

end
